(* ===== verification/Prelude.thy ===== *)
theory Prelude
  imports Main "HOL-Library.List_Lexorder" "HOL-Library.Char_ord"
begin

text \<open>
  What every component of the development shares.

  * Strings are lists of bytes (\<^typ>\<open>string\<close>), ordered byte by byte as Rust orders \<^verbatim>\<open>String\<close>.
    White space is the ASCII white space.
  * \<^verbatim>\<open>BTreeMap\<close> and \<^verbatim>\<open>serde_json::Map\<close> are association lists sorted by key (\<open>bt_insert\<close>,
    \<open>bt_lookup\<close>, \<open>bt_remove\<close>); the locale \<open>ordered_map\<close> states the laws the clients rely on and the
    interpretation \<open>bt\<close> discharges them.
  * \<^verbatim>\<open>HashSet<u64>\<close> is a set of naturals. Row numbers and counters (\<^verbatim>\<open>u64\<close>, \<^verbatim>\<open>usize\<close>) are
    naturals: none of the code's additions on them can reach \<open>2 ^ 64\<close> on an input that fits a disk.
    Where a cast or a narrower width matters a component uses words.
  * A \<open>fuse\<close> is what one task sees of an event raised outside of it (a cancellation token that fires, a
    receiver that is dropped, an I/O failure): it never happens, or it happens at the (k+1)-th
    observation and stays so. Quantifying over fuses covers every interleaving with that event.
\<close>

named_theorems fuse_simps "how a fuse is observed"
named_theorems text_simps "facts on text helpers"

section \<open>Text\<close>

type_synonym path = string

definition newline :: char where "newline = CHR 0x0A"

definition is_ws :: "char \<Rightarrow> bool" where
  "is_ws c = (c \<in> {CHR '' '', CHR 0x09, CHR 0x0A, CHR 0x0B, CHR 0x0C, CHR 0x0D})"

definition trim_start :: "string \<Rightarrow> string" where
  "trim_start s = dropWhile is_ws s"

definition trim_end_while :: "(char \<Rightarrow> bool) \<Rightarrow> string \<Rightarrow> string" where
  "trim_end_while p s = rev (dropWhile p (rev s))"

definition trim :: "string \<Rightarrow> string" where
  "trim s = trim_start (trim_end_while is_ws s)"

definition trim_end_newline :: "string \<Rightarrow> string" where
  "trim_end_newline s = trim_end_while (\<lambda>c. c = newline) s"

definition trim_end_cr :: "string \<Rightarrow> string" where
  "trim_end_cr s = trim_end_while (\<lambda>c. c = CHR 0x0D) s"

definition starts_with :: "string \<Rightarrow> string \<Rightarrow> bool" where
  "starts_with s p = (take (length p) s = p)"

text \<open>\<^verbatim>\<open>PathBuf::join\<close>: an absolute second part replaces the first.\<close>

definition path_join :: "path \<Rightarrow> path \<Rightarrow> path" where
  "path_join a b =
     (if starts_with b ''/'' then b
      else if a = [] \<or> last a = CHR ''/'' then a @ b else a @ ''/'' @ b)"

text \<open>\<^verbatim>\<open>Path::file_name\<close> and \<^verbatim>\<open>Path::extension\<close>\<close>

definition file_name :: "path \<Rightarrow> string" where
  "file_name p = rev (takeWhile (\<lambda>c. c \<noteq> CHR ''/'') (dropWhile (\<lambda>c. c = CHR ''/'') (rev p)))"

definition path_extension :: "path \<Rightarrow> string option" where
  "path_extension p =
     (let n = file_name p; e = takeWhile (\<lambda>c. c \<noteq> CHR ''.'') (rev n) in
      if n = ''..'' \<or> length e + 1 \<ge> length n then None else Some (rev e))"

fun contains :: "string \<Rightarrow> string \<Rightarrow> bool" where
  "contains [] p = (p = [])"
| "contains (c # s) p = (starts_with (c # s) p \<or> contains s p)"

fun split_once :: "string \<Rightarrow> string \<Rightarrow> (string \<times> string) option" where
  "split_once p [] = (if p = [] then Some ([], []) else None)"
| "split_once p (c # s) =
     (if starts_with (c # s) p then Some ([], drop (length p) (c # s))
      else map_option (\<lambda>(a, b). (c # a, b)) (split_once p s))"

fun join :: "string \<Rightarrow> string list \<Rightarrow> string" where
  "join sep [] = []"
| "join sep [x] = x"
| "join sep (x # y # xs) = x @ sep @ join sep (y # xs)"

fun split_lines :: "string \<Rightarrow> string list" where
  "split_lines [] = []"
| "split_lines (c # s) =
     (if c = newline then [] # split_lines s
      else (case split_lines s of [] \<Rightarrow> [[c]]
            | l # ls \<Rightarrow> (c # l) # ls))"

lemma split_lines_Nil [simp]: "split_lines s = [] \<longleftrightarrow> s = []"
  by (cases s) (auto split: list.splits)

definition digit :: "nat \<Rightarrow> char" where "digit n = char_of (48 + n)"

fun nat_str :: "nat \<Rightarrow> string" where
  "nat_str n = (if n < 10 then [digit n] else nat_str (n div 10) @ [digit (n mod 10)])"

declare nat_str.simps [simp del]

definition is_digit :: "char \<Rightarrow> bool" where
  "is_digit c = (48 \<le> (of_char c :: nat) \<and> (of_char c :: nat) \<le> 57)"

definition digits_val :: "string \<Rightarrow> nat" where
  "digits_val s = foldl (\<lambda>n c. 10 * n + ((of_char c :: nat) - 48)) 0 s"

text \<open>\<^verbatim>\<open>str::parse::<u64>\<close>: digits after an optional plus sign, rejected when empty or too large.\<close>

definition parse_u64 :: "string \<Rightarrow> nat option" where
  "parse_u64 s =
     (let d = (case s of c # r \<Rightarrow> if c = CHR ''+'' then r else s | [] \<Rightarrow> s) in
      if d \<noteq> [] \<and> list_all is_digit d \<and> digits_val d < 2 ^ 64 then Some (digits_val d) else None)"

lemma nat_str_Nil [simp]: "nat_str n \<noteq> []"
  by (subst nat_str.simps) simp

lemma digit_is_digit: "n < 10 \<Longrightarrow> is_digit (digit n)"
  by (simp add: is_digit_def digit_def of_char_of)

lemma digit_val: "n < 10 \<Longrightarrow> (of_char (digit n) :: nat) - 48 = n"
  by (simp add: digit_def)

lemma nat_str_digits: "list_all is_digit (nat_str n)"
proof (induction n rule: nat_str.induct)
  case (1 n)
  show ?case
    by (subst nat_str.simps) (auto simp: digit_is_digit intro: 1)
qed

lemma digits_val_snoc: "digits_val (s @ [c]) = 10 * digits_val s + ((of_char c :: nat) - 48)"
  by (simp add: digits_val_def)

lemma digits_val_nat_str [text_simps]: "digits_val (nat_str n) = n"
proof (induction n rule: nat_str.induct)
  case (1 n)
  show ?case
  proof (cases "n < 10")
    case True
    then show ?thesis
      by (subst nat_str.simps) (simp add: digits_val_def digit_val)
  next
    case False
    then show ?thesis
      by (subst nat_str.simps) (simp add: digits_val_snoc 1 digit_val)
  qed
qed

lemma nat_str_inject [simp]: "nat_str m = nat_str n \<longleftrightarrow> m = n"
  by (metis digits_val_nat_str)

lemma parse_nat_str [text_simps]: "n < 2 ^ 64 \<Longrightarrow> parse_u64 (nat_str n) = Some n"
proof -
  assume n: "n < 2 ^ 64"
  obtain c r where s: "nat_str n = c # r" by (cases "nat_str n") auto
  have "is_digit c" using nat_str_digits[of n] s by simp
  then have "c \<noteq> CHR ''+''" by (auto simp: is_digit_def)
  then show ?thesis
    using n nat_str_digits[of n] digits_val_nat_str[of n]
    by (simp add: parse_u64_def s)
qed

lemma trim_end_while_snoc:
  "trim_end_while p (s @ [c]) = (if p c then trim_end_while p s else s @ [c])"
  by (simp add: trim_end_while_def)

lemma trim_end_newline_keep [text_simps]:
  "(s = [] \<or> last s \<noteq> newline) \<Longrightarrow> trim_end_newline s = s"
  by (cases s rule: rev_cases) (auto simp: trim_end_newline_def trim_end_while_def)

lemma trim_end_newline_snoc [text_simps]:
  "trim_end_newline (s @ [newline]) = trim_end_newline s"
  by (simp add: trim_end_newline_def trim_end_while_snoc)

lemma starts_with_append [simp]: "starts_with (p @ s) p"
  by (simp add: starts_with_def)

lemma split_once_first:
  assumes "p \<noteq> []"
    and "\<And>a b. s @ take (length p - 1) p = a @ b \<Longrightarrow> \<not> starts_with b p"
  shows "split_once p (s @ p @ t) = Some (s, t)"
  using assms(2)
proof (induction s)
  case Nil
  then show ?case using assms(1) by (cases p) (auto simp: starts_with_def)
next
  case (Cons c s)
  have ns: "\<not> starts_with (c # s @ p @ t) p"
  proof
    assume "starts_with (c # s @ p @ t) p"
    moreover have "take (length p - Suc (length s)) (p @ t) = take (length p - Suc (length s)) p"
      by (simp add: take_append)
    moreover have "take (length p - Suc (length s)) (take (length p - 1) p) = take (length p - Suc (length s)) p"
      by (simp add: min_def)
    ultimately have "starts_with ((c # s) @ take (length p - 1) p) p"
      unfolding starts_with_def using assms(1) by (simp add: take_append take_Cons')
    moreover have "\<not> starts_with ((c # s) @ take (length p - 1) p) p"
      using Cons.prems[of "[]"] by simp
    ultimately show False by blast
  qed
  have "split_once p (s @ p @ t) = Some (s, t)"
  proof (rule Cons.IH)
    fix a b assume "s @ take (length p - 1) p = a @ b"
    then show "\<not> starts_with b p" using Cons.prems[of "c # a" b] by simp
  qed
  then show ?case using ns by simp
qed

section \<open>Ordered maps of the standard library\<close>

type_synonym ('k, 'v) bt = "('k \<times> 'v) list"

definition bt_lookup :: "('k, 'v) bt \<Rightarrow> 'k \<Rightarrow> 'v option" where
  "bt_lookup m k = map_of m k"

fun bt_insert :: "'k::linorder \<Rightarrow> 'v \<Rightarrow> ('k, 'v) bt \<Rightarrow> ('k, 'v) bt" where
  "bt_insert k v [] = [(k, v)]"
| "bt_insert k v ((k', v') # m) =
     (if k < k' then (k, v) # (k', v') # m
      else if k = k' then (k, v) # m
      else (k', v') # bt_insert k v m)"

fun bt_remove :: "'k::linorder \<Rightarrow> ('k, 'v) bt \<Rightarrow> ('k, 'v) bt" where
  "bt_remove k [] = []"
| "bt_remove k ((k', v') # m) = (if k = k' then m else (k', v') # bt_remove k m)"

definition bt_keys :: "('k, 'v) bt \<Rightarrow> 'k list" where
  "bt_keys m = map fst m"

definition bt_has :: "('k, 'v) bt \<Rightarrow> 'k \<Rightarrow> bool" where
  "bt_has m k = (bt_lookup m k \<noteq> None)"

definition bt_ok :: "('k::linorder, 'v) bt \<Rightarrow> bool" where
  "bt_ok m = sorted_wrt (<) (map fst m)"

text \<open>\<^verbatim>\<open>*map.entry(k).or_insert(0) += 1\<close>\<close>

definition bt_bump :: "'k::linorder \<Rightarrow> ('k, nat) bt \<Rightarrow> ('k, nat) bt" where
  "bt_bump k m = bt_insert k (case bt_lookup m k of None \<Rightarrow> 1 | Some n \<Rightarrow> Suc n) m"

definition bt_from_list :: "('k::linorder \<times> 'v) list \<Rightarrow> ('k, 'v) bt" where
  "bt_from_list kvs = fold (\<lambda>(k, v) m. bt_insert k v m) kvs []"

lemma bt_insert_set: "fst ` set (bt_insert k v m) = insert k (fst ` set m)"
  by (induction k v m rule: bt_insert.induct) auto

lemma bt_ok_insert [simp]: "bt_ok m \<Longrightarrow> bt_ok (bt_insert k v m)"
  unfolding bt_ok_def
proof (induction k v m rule: bt_insert.induct)
  case (2 k v k' v' m)
  then show ?case
    using bt_insert_set[of k v m] by (auto simp: image_iff)
qed simp

lemma bt_remove_subset: "set (bt_remove k m) \<subseteq> set m"
  by (induction k m rule: bt_remove.induct) auto

lemma bt_remove_keys: "distinct (map fst m) \<Longrightarrow> fst ` set (bt_remove k m) = fst ` set m - {k}"
  by (induction k m rule: bt_remove.induct) (auto simp: rev_image_eqI)

lemma bt_ok_remove [simp]: "bt_ok m \<Longrightarrow> bt_ok (bt_remove k m)"
  unfolding bt_ok_def
proof (induction k m rule: bt_remove.induct)
  case (2 k k' v' m)
  then show ?case using bt_remove_subset[of k m] by (fastforce simp: image_iff)
qed simp

lemma bt_lookup_insert [simp]:
  "bt_ok m \<Longrightarrow> bt_lookup (bt_insert k v m) x = (if x = k then Some v else bt_lookup m x)"
  unfolding bt_ok_def bt_lookup_def
proof (induction k v m rule: bt_insert.induct)
  case (2 k v k' v' m)
  then show ?case by (auto simp: map_of_eq_None_iff split: if_splits)
qed simp

lemma bt_lookup_remove [simp]:
  "bt_ok m \<Longrightarrow> bt_lookup (bt_remove k m) x = (if x = k then None else bt_lookup m x)"
  unfolding bt_ok_def bt_lookup_def
proof (induction k m rule: bt_remove.induct)
  case (2 k k' v' m)
  then have "distinct (map fst m)" by (simp add: strict_sorted_iff)
  then show ?case using 2 by (auto simp: map_of_eq_None_iff bt_remove_keys)
qed simp

lemma bt_ok_Nil [simp]: "bt_ok []"
  by (simp add: bt_ok_def)

lemma bt_lookup_Nil [simp]: "bt_lookup [] k = None"
  by (simp add: bt_lookup_def)

lemma bt_ok_distinct: "bt_ok m \<Longrightarrow> distinct (map fst m)"
  by (simp add: bt_ok_def strict_sorted_iff)

lemma bt_ok_bump [simp]: "bt_ok m \<Longrightarrow> bt_ok (bt_bump k m)"
  by (simp add: bt_bump_def)

lemma bt_lookup_bump [simp]:
  "bt_ok m \<Longrightarrow> bt_lookup (bt_bump k m) x =
     (if x = k then Some (case bt_lookup m k of None \<Rightarrow> 1 | Some n \<Rightarrow> Suc n) else bt_lookup m x)"
  by (simp add: bt_bump_def)

lemma bt_lookup_in_set: "bt_ok m \<Longrightarrow> bt_lookup m k = Some v \<longleftrightarrow> (k, v) \<in> set m"
  by (simp add: bt_lookup_def bt_ok_distinct)

lemma bt_ext:
  "bt_ok m \<Longrightarrow> bt_ok m' \<Longrightarrow> (\<And>k. bt_lookup m k = bt_lookup m' k) \<Longrightarrow> m = m'"
proof -
  assume ok: "bt_ok m" "bt_ok m'" and eq: "\<And>k. bt_lookup m k = bt_lookup m' k"
  have st: "set m = set m'"
    using eq bt_lookup_in_set[OF ok(1)] bt_lookup_in_set[OF ok(2)] by (metis subset_antisym subrelI)
  have d: "distinct (map fst m)" "distinct (map fst m')"
    using ok by (simp_all add: bt_ok_distinct)
  have s: "sorted (map fst m)" "sorted (map fst m')"
    using ok by (simp_all add: bt_ok_def strict_sorted_iff)
  have "inj_on fst (set m \<union> set m')"
    using d st by (simp add: distinct_map)
  then show ?thesis
    using st d s map_sorted_distinct_set_unique[of fst m m'] by simp
qed

locale ordered_map =
  fixes ins :: "'k \<Rightarrow> 'v \<Rightarrow> 'm \<Rightarrow> 'm"
    and del :: "'k \<Rightarrow> 'm \<Rightarrow> 'm"
    and look :: "'m \<Rightarrow> 'k \<Rightarrow> 'v option"
    and emp :: "'m"
    and good :: "'m \<Rightarrow> bool"
  assumes good_emp: "good emp"
    and look_emp: "look emp k = None"
    and good_ins: "good m \<Longrightarrow> good (ins k v m)"
    and good_del: "good m \<Longrightarrow> good (del k m)"
    and look_ins: "good m \<Longrightarrow> look (ins k v m) x = (if x = k then Some v else look m x)"
    and look_del: "good m \<Longrightarrow> look (del k m) x = (if x = k then None else look m x)"
    and look_ext: "good m \<Longrightarrow> good m' \<Longrightarrow> (\<And>k. look m k = look m' k) \<Longrightarrow> m = m'"
begin

definition build :: "('k \<times> 'v) list \<Rightarrow> 'm" where
  "build kvs = fold (\<lambda>(k, v) m. ins k v m) kvs emp"

lemma good_fold_ins: "good m \<Longrightarrow> good (fold (\<lambda>(k, v) m. ins k v m) kvs m)"
  by (induction kvs arbitrary: m) (auto simp: good_ins)

lemma look_fold_ins:
  "good m \<Longrightarrow> look (fold (\<lambda>(k, v) m. ins k v m) kvs m) x =
     (case map_of (rev kvs) x of None \<Rightarrow> look m x | Some v \<Rightarrow> Some v)"
proof (induction kvs arbitrary: m)
  case (Cons kv kvs)
  then show ?case
    by (cases kv) (auto simp: good_ins look_ins map_add_def split: option.splits)
qed simp

lemma good_build: "good (build kvs)"
  by (simp add: build_def good_fold_ins good_emp)

lemma look_build: "look (build kvs) x = map_of (rev kvs) x"
  by (simp add: build_def look_fold_ins good_emp look_emp split: option.splits)

lemma ins_ins_commute: "good m \<Longrightarrow> k \<noteq> k' \<Longrightarrow> ins k v (ins k' v' m) = ins k' v' (ins k v m)"
  by (rule look_ext) (auto simp: good_ins look_ins)

lemma ins_overwrite: "good m \<Longrightarrow> ins k v (ins k v' m) = ins k v m"
  by (rule look_ext) (auto simp: good_ins look_ins)

lemma move_key:
  assumes "good m" "k \<noteq> k'"
  shows "look (ins k' v (del k m)) x = (if x = k' then Some v else if x = k then None else look m x)"
  using assms by (simp add: good_del look_ins look_del)

end

text \<open>
  Folding keyed events into a map: \<^verbatim>\<open>map.entry(key).or_insert(init)\<close> followed by an update in place. The entry
  of a key is the fold of the events of that key alone.
\<close>

locale keyed_fold = ordered_map ins del look emp good
  for ins :: "'k \<Rightarrow> 'v \<Rightarrow> 'm \<Rightarrow> 'm" and del :: "'k \<Rightarrow> 'm \<Rightarrow> 'm" and look :: "'m \<Rightarrow> 'k \<Rightarrow> 'v option"
    and emp :: "'m" and good :: "'m \<Rightarrow> bool" +
  fixes key :: "'o \<Rightarrow> 'k"
    and upd :: "'o \<Rightarrow> 'v \<Rightarrow> 'v"
    and dflt :: "'v"
begin

definition entry_of :: "'m \<Rightarrow> 'k \<Rightarrow> 'v" where
  "entry_of m k = (case look m k of None \<Rightarrow> dflt | Some v \<Rightarrow> v)"

definition event :: "'o \<Rightarrow> 'm \<Rightarrow> 'm" where
  "event x m = ins (key x) (upd x (entry_of m (key x))) m"

lemma good_event: "good m \<Longrightarrow> good (event x m)"
  by (simp add: event_def good_ins)

lemma good_events: "good m \<Longrightarrow> good (fold event xs m)"
  by (induction xs arbitrary: m) (auto simp: good_event)

lemma look_event: "good m \<Longrightarrow> look (event x m) k = (if k = key x then Some (upd x (entry_of m k)) else look m k)"
  by (simp add: event_def look_ins)

lemma entry_of_event: "good m \<Longrightarrow> entry_of (event x m) k = (if k = key x then upd x (entry_of m k) else entry_of m k)"
  by (simp add: entry_of_def look_event)

lemma entry_of_events:
  "good m \<Longrightarrow> entry_of (fold event xs m) k = fold upd (filter (\<lambda>x. key x = k) xs) (entry_of m k)"
  by (induction xs arbitrary: m) (auto simp: good_event entry_of_event)

lemma look_events:
  "good m \<Longrightarrow> look (fold event xs m) k =
     (if filter (\<lambda>x. key x = k) xs = [] then look m k
      else Some (fold upd (filter (\<lambda>x. key x = k) xs) (entry_of m k)))"
proof (induction xs arbitrary: m)
  case (Cons x xs)
  then show ?case by (auto simp: good_event look_event entry_of_event)
qed simp

lemma events_independent:
  "good m \<Longrightarrow> (\<And>k. filter (\<lambda>x. key x = k) xs = filter (\<lambda>x. key x = k) ys) \<Longrightarrow>
   fold event xs m = fold event ys m"
  by (rule look_ext) (simp_all add: good_events look_events)

end

text \<open>A state that a fold cannot leave.\<close>

locale absorbing =
  fixes upd :: "'o \<Rightarrow> 's \<Rightarrow> 's"
    and absorbed :: "'s \<Rightarrow> bool"
    and view :: "'s \<Rightarrow> 'v"
  assumes stays: "absorbed s \<Longrightarrow> absorbed (upd x s)"
    and frozen: "absorbed s \<Longrightarrow> view (upd x s) = view s"
begin

lemma absorbed_fold: "absorbed s \<Longrightarrow> absorbed (fold upd xs s) \<and> view (fold upd xs s) = view s"
  by (induction xs arbitrary: s) (auto simp: stays frozen)

lemma first_entry:
  "(\<And>x s. P x \<Longrightarrow> absorbed (upd x s)) \<Longrightarrow> List.find P xs \<noteq> None \<Longrightarrow> absorbed (fold upd xs s)"
  by (induction xs arbitrary: s) (auto simp: absorbed_fold split: if_splits)

end

interpretation btm: ordered_map bt_insert bt_remove bt_lookup "[]" bt_ok
  by unfold_locales (simp_all add: bt_ext)

interpretation bump: keyed_fold bt_insert bt_remove bt_lookup "[]" bt_ok "\<lambda>k. k" "\<lambda>_. Suc" "0::nat"
  by unfold_locales

lemma bt_bump_event: "bt_bump = bump.event"
  by (intro ext) (auto simp: bt_bump_def bump.event_def bump.entry_of_def split: option.split)

lemma fold_Suc: "fold (\<lambda>_. Suc) xs n = length xs + n"
  by (induction xs arbitrary: n) auto

lemma bt_bumps:
  "bt_ok m \<Longrightarrow> (case bt_lookup (fold bt_bump ks m) k of None \<Rightarrow> 0 | Some n \<Rightarrow> n) =
     (case bt_lookup m k of None \<Rightarrow> 0 | Some n \<Rightarrow> n) + length (filter (\<lambda>x. x = k) ks)"
proof -
  assume "bt_ok m"
  then show ?thesis
    using bump.entry_of_events[of m ks k] by (simp add: bt_bump_event bump.entry_of_def fold_Suc)
qed

lemma bt_ok_bumps: "bt_ok m \<Longrightarrow> bt_ok (fold bt_bump ks m)"
  by (induction ks arbitrary: m) auto

lemma bt_from_list_build: "bt_from_list kvs = btm.build kvs"
  by (simp add: bt_from_list_def btm.build_def)

lemma bt_ok_from_list [simp]: "bt_ok (bt_from_list kvs)"
  by (simp add: bt_from_list_build btm.good_build)

lemma bt_lookup_from_list [simp]: "bt_lookup (bt_from_list kvs) k = map_of (rev kvs) k"
  by (simp add: bt_from_list_build btm.look_build)

section \<open>Fuses\<close>

type_synonym fuse = "nat option"

fun poll :: "fuse \<Rightarrow> bool \<times> fuse" where
  "poll None = (False, None)"
| "poll (Some 0) = (True, Some 0)"
| "poll (Some (Suc k)) = (False, Some k)"

definition blown :: "fuse \<Rightarrow> bool" where
  "blown f = (f = Some 0)"

lemma poll_None [fuse_simps]: "poll None = (False, None)"
  by simp

lemma poll_blown [fuse_simps]: "blown f \<Longrightarrow> poll f = (True, f)"
  by (simp add: blown_def)

lemma poll_fst: "fst (poll f) = blown f"
  by (cases f rule: poll.cases) (auto simp: blown_def)

lemma poll_TrueD: "poll f = (True, f') \<Longrightarrow> f = Some 0 \<and> f' = Some 0"
  by (cases f rule: poll.cases) auto

lemma poll_FalseD: "poll f = (False, f') \<Longrightarrow> f \<noteq> Some 0"
  by (cases f rule: poll.cases) auto

section \<open>Lists and results\<close>

text \<open>The first element for which a fallible step fails stops the whole fold (the \<^verbatim>\<open>?\<close> of a loop body).\<close>

fun fold_result :: "('a \<Rightarrow> 's \<Rightarrow> 'e + 's) \<Rightarrow> 'a list \<Rightarrow> 's \<Rightarrow> 'e + 's" where
  "fold_result f [] s = Inr s"
| "fold_result f (x # xs) s = (case f x s of Inl e \<Rightarrow> Inl e | Inr s' \<Rightarrow> fold_result f xs s')"

lemma fold_result_append:
  "fold_result f (xs @ ys) s =
     (case fold_result f xs s of Inl e \<Rightarrow> Inl e | Inr s' \<Rightarrow> fold_result f ys s')"
  by (induction xs arbitrary: s) (auto split: sum.splits)

lemma fold_result_inv:
  assumes "fold_result f xs s = Inr s'" "P s"
    and "\<And>x s s'. x \<in> set xs \<Longrightarrow> P s \<Longrightarrow> f x s = Inr s' \<Longrightarrow> P s'"
  shows "P s'"
  using assms
proof (induction xs arbitrary: s)
  case (Cons x xs)
  then obtain s1 where s1: "f x s = Inr s1" "fold_result f xs s1 = Inr s'"
    by (auto split: sum.splits)
  have "P s1" by (rule Cons.prems(3)[OF _ Cons.prems(2) s1(1)]) simp
  then show ?case using Cons.IH[OF s1(2)] Cons.prems(3) by (meson list.set_intros(2))
qed simp

lemma fold_result_total:
  "(\<And>x s. x \<in> set xs \<Longrightarrow> f x s = Inr (g x s)) \<Longrightarrow> fold_result f xs s = Inr (fold g xs s)"
  by (induction xs arbitrary: s) auto

text \<open>The index of the first occurrence (\<^verbatim>\<open>iter().position\<close>).\<close>

fun position :: "'a \<Rightarrow> 'a list \<Rightarrow> nat option" where
  "position x [] = None"
| "position x (y # ys) = (if x = y then Some 0 else map_option Suc (position x ys))"

lemma position_nth: "position x xs = Some i \<Longrightarrow> i < length xs \<and> xs ! i = x"
  by (induction xs arbitrary: i) (auto split: if_splits)

lemma position_None: "position x xs = None \<longleftrightarrow> x \<notin> set xs"
  by (induction xs) auto

lemma strict_sorted_append_less:
  "sorted_wrt (<) (xs @ ys) \<longleftrightarrow> sorted_wrt (<) xs \<and> sorted_wrt (<) ys \<and> (\<forall>x\<in>set xs. \<forall>y\<in>set ys. x < y)"
  by (auto simp: sorted_wrt_append)

end
