(* ===== verification/Core_Error.thy ===== *)
theory Core_Error
  imports Prelude "HOL-Library.Word"
begin

text \<open>
  \<^verbatim>\<open>CoreError\<close> (\<^verbatim>\<open>error.rs\<close>) with its \<^verbatim>\<open>Display\<close> text, and the integer casts of the code that narrow
  or reinterpret a value.
\<close>

datatype core_error =
    Startup_Timeout nat
  | Handler_Exit "int option"
  | Io string
  | Protocol_Error string
  | Sqlite string
  | Store string
  | Schema_Too_New "8 word" "8 word"
  | Other string

definition opt_int_debug :: "(int \<Rightarrow> string) \<Rightarrow> int option \<Rightarrow> string" where
  "opt_int_debug show_int c = (case c of None \<Rightarrow> ''None'' | Some i \<Rightarrow> ''Some('' @ show_int i @ '')'')"

definition int_str :: "int \<Rightarrow> string" where
  "int_str i = (if i < 0 then ''-'' @ nat_str (nat (- i)) else nat_str (nat i))"

fun core_error_text :: "core_error \<Rightarrow> string" where
  "core_error_text (Startup_Timeout ms) = ''handler startup timeout after '' @ nat_str ms @ ''ms''"
| "core_error_text (Handler_Exit c) = ''handler exited unexpectedly with code '' @ opt_int_debug int_str c"
| "core_error_text (Io e) = ''io: '' @ e"
| "core_error_text (Protocol_Error e) = ''protocol: '' @ e"
| "core_error_text (Sqlite e) = ''sqlite: '' @ e"
| "core_error_text (Store e) = ''store: '' @ e"
| "core_error_text (Schema_Too_New f m) =
     ''schema version '' @ nat_str (unat f) @ '' is newer than this binary knows about (max '' @ nat_str (unat m) @ '')''"
| "core_error_text (Other e) = e"

section \<open>Codes of failed rows\<close>

definition ERR_WORKER_CRASH :: string where "ERR_WORKER_CRASH = ''WORKER_CRASH''"
definition ERR_WORKER_CRASH_UNSAFE :: string where "ERR_WORKER_CRASH_UNSAFE = ''WORKER_CRASH_UNSAFE''"
definition ERR_CANCELLED :: string where "ERR_CANCELLED = ''CANCELLED''"
definition ERR_ROW_TOO_LARGE :: string where "ERR_ROW_TOO_LARGE = ''ROW_TOO_LARGE''"
definition ERR_BATCH_PROTOCOL_ERROR :: string where "ERR_BATCH_PROTOCOL_ERROR = ''BATCH_PROTOCOL_ERROR''"
definition ERR_PROTOCOL_ERROR :: string where "ERR_PROTOCOL_ERROR = ''ROW_PROTOCOL_ERROR''"

lemmas err_defs = ERR_WORKER_CRASH_def ERR_WORKER_CRASH_UNSAFE_def ERR_CANCELLED_def ERR_ROW_TOO_LARGE_def
  ERR_BATCH_PROTOCOL_ERROR_def ERR_PROTOCOL_ERROR_def

section \<open>Casts\<close>

text \<open>\<^verbatim>\<open>n as i64\<close> for a \<^verbatim>\<open>u64\<close>, \<^verbatim>\<open>i as u64\<close> and \<^verbatim>\<open>i as u32\<close> for an \<^verbatim>\<open>i64\<close>, \<^verbatim>\<open>n as u32\<close> for a \<^verbatim>\<open>u64\<close>.\<close>

definition u64_as_i64 :: "nat \<Rightarrow> int" where "u64_as_i64 n = sint (word_of_nat n :: 64 word)"
definition i64_as_u64 :: "int \<Rightarrow> nat" where "i64_as_u64 i = unat (word_of_int i :: 64 word)"
definition i64_as_u32 :: "int \<Rightarrow> nat" where "i64_as_u32 i = unat (word_of_int i :: 32 word)"
definition i64_as_u8 :: "int \<Rightarrow> 8 word" where "i64_as_u8 i = word_of_int i"
definition u64_as_u32 :: "nat \<Rightarrow> nat" where "u64_as_u32 n = unat (word_of_nat n :: 32 word)"

lemma i64_u64_roundtrip [simp]: "n < 2 ^ 64 \<Longrightarrow> i64_as_u64 (u64_as_i64 n) = n"
  by (simp add: i64_as_u64_def u64_as_i64_def unat_of_nat)

lemma i64_u32_roundtrip [simp]: "n < 2 ^ 32 \<Longrightarrow> i64_as_u32 (int n) = n"
  by (simp add: i64_as_u32_def unat_of_nat)

lemma u64_as_u32_mod: "u64_as_u32 n = n mod 2 ^ 32"
  by (simp add: u64_as_u32_def unat_of_nat)

lemma u64_as_u32_small [simp]: "n < 2 ^ 32 \<Longrightarrow> u64_as_u32 n = n"
  by (simp add: u64_as_u32_mod)

lemma i64_as_u64_0 [simp]: "i64_as_u64 0 = 0"
  by (simp add: i64_as_u64_def)

end
