(* ===== verification/Execution_Store.thy ===== *)
theory Execution_Store
  imports Core_Error
begin

text \<open>
  The registry of executions, handler instances and attempts (\<^verbatim>\<open>execution_store.rs\<close>): the rows as SQLite
  keeps them (states as text, counters as signed 64-bit integers), the Rust values read back from them, the
  migrations, and every operation of \<^verbatim>\<open>ExecutionStore\<close> as a function on the state of the store. The
  state also has the files the store writes: the snapshot of the input, its hash, and the \<^verbatim>\<open>manifest.json\<close>
  mirror. Fresh ULIDs, the clock and the hash are arguments; a fuse makes the next file operation fail.

  Times are naturals: the RFC 3339 texts of the columns order as the instants do and parse back to them.
\<close>

section \<open>States and records\<close>

datatype execution_state = Open | Iterating | Settled | Closed | Abandoned

fun execution_state_str :: "execution_state \<Rightarrow> string" where
  "execution_state_str Open = ''open''"
| "execution_state_str Iterating = ''iterating''"
| "execution_state_str Settled = ''settled''"
| "execution_state_str Closed = ''closed''"
| "execution_state_str Abandoned = ''abandoned''"

definition execution_state_parse :: "string \<Rightarrow> core_error + execution_state" where
  "execution_state_parse s =
     (if s = ''open'' then Inr Open
      else if s = ''iterating'' then Inr Iterating
      else if s = ''settled'' then Inr Settled
      else if s = ''closed'' then Inr Closed
      else if s = ''abandoned'' then Inr Abandoned
      else Inl (Store (''unknown execution state: '' @ s)))"

datatype attempt_state = Running | Completed | Aborted

fun attempt_state_str :: "attempt_state \<Rightarrow> string" where
  "attempt_state_str Running = ''running''"
| "attempt_state_str Completed = ''completed''"
| "attempt_state_str Aborted = ''aborted''"

definition attempt_state_parse :: "string \<Rightarrow> core_error + attempt_state" where
  "attempt_state_parse s =
     (if s = ''running'' then Inr Running
      else if s = ''completed'' then Inr Completed
      else if s = ''aborted'' then Inr Aborted
      else Inl (Store (''unknown attempt state: '' @ s)))"

datatype run_source = Full | Sampled nat
datatype simulation = Real | Dry

type_synonym time = nat

record execution =
  ex_id :: string
  ex_name :: "string option"
  ex_input_csv_id :: string
  ex_input_csv_hash :: string
  ex_input_row_count :: nat
  ex_current_handler_instance_id :: "string option"
  ex_state :: execution_state
  ex_created_at :: time
  ex_settled_at :: "time option"
  ex_closed_at :: "time option"
  ex_abandoned_at :: "time option"
  ex_abandoned_reason :: "string option"
  ex_dir :: path
  ex_last_handler_dir :: "path option"

record handler_instance =
  hi_id :: string
  hi_handler_id :: string
  hi_manifest_hash :: string
  hi_source_snapshot_dir :: path
  hi_binary_hash :: "string option"
  hi_created_at :: time

record attempt =
  at_id :: string
  at_execution_id :: string
  at_handler_instance_id :: string
  at_parent_attempt_id :: "string option"
  at_source :: run_source
  at_simulation :: simulation
  at_state :: attempt_state
  at_success_count :: nat
  at_failed_count :: nat
  at_aborted_reason :: "string option"
  at_cancelled_reason :: "string option"
  at_started_at :: time
  at_ended_at :: "time option"
  at_dir :: path

record new_execution =
  nx_name :: "string option"
  nx_input_csv_id :: string
  nx_input_csv_path :: path
  nx_current_handler_instance_id :: "string option"

record new_handler_instance =
  nh_handler_id :: string
  nh_manifest_hash :: string
  nh_source_snapshot_dir :: path
  nh_binary_hash :: "string option"

record new_attempt =
  na_execution_id :: string
  na_handler_instance_id :: string
  na_parent_attempt_id :: "string option"
  na_source :: run_source
  na_simulation :: simulation

record finish =
  fi_success_count :: nat
  fi_failed_count :: nat
  fi_aborted :: bool
  fi_aborted_reason :: "string option"
  fi_cancelled_reason :: "string option"

section \<open>Rows of the database\<close>

record exec_row =
  xr_id :: string
  xr_name :: "string option"
  xr_input_csv_id :: string
  xr_input_csv_hash :: string
  xr_input_row_count :: int
  xr_current_handler_instance_id :: "string option"
  xr_state :: string
  xr_created_at :: time
  xr_settled_at :: "time option"
  xr_closed_at :: "time option"
  xr_abandoned_at :: "time option"
  xr_abandoned_reason :: "string option"
  xr_last_handler_dir :: "string option"

record attempt_row =
  ar_id :: string
  ar_execution_id :: string
  ar_handler_instance_id :: string
  ar_parent_attempt_id :: "string option"
  ar_source :: string
  ar_sample_size :: "int option"
  ar_simulation :: string
  ar_state :: string
  ar_success_count :: int
  ar_failed_count :: int
  ar_aborted_reason :: "string option"
  ar_started_at :: time
  ar_ended_at :: "time option"
  ar_cancelled_reason :: "string option"

record store =
  st_home :: path
  st_execs :: "exec_row list"
  st_his :: "handler_instance list"
  st_attempts :: "attempt_row list"
  st_files :: "path \<Rightarrow> string option"
  st_dirs :: "path set"
  st_mirror :: "path \<Rightarrow> execution option"

definition execution_dir :: "store \<Rightarrow> string \<Rightarrow> path" where
  "execution_dir st i = path_join (path_join (st_home st) ''executions'') i"

definition attempt_dir :: "store \<Rightarrow> string \<Rightarrow> string \<Rightarrow> path" where
  "attempt_dir st e a = path_join (path_join (execution_dir st e) ''attempts'') a"

definition row_to_execution :: "store \<Rightarrow> exec_row \<Rightarrow> core_error + execution" where
  "row_to_execution st r =
     (case execution_state_parse (xr_state r) of
        Inl e \<Rightarrow> Inl (Sqlite (core_error_text e))
      | Inr s \<Rightarrow> Inr
         \<lparr> ex_id = xr_id r, ex_name = xr_name r, ex_input_csv_id = xr_input_csv_id r,
           ex_input_csv_hash = xr_input_csv_hash r,
           ex_input_row_count = i64_as_u64 (xr_input_row_count r),
           ex_current_handler_instance_id = xr_current_handler_instance_id r,
           ex_state = s, ex_created_at = xr_created_at r,
           ex_settled_at = xr_settled_at r, ex_closed_at = xr_closed_at r,
           ex_abandoned_at = xr_abandoned_at r, ex_abandoned_reason = xr_abandoned_reason r,
           ex_dir = execution_dir st (xr_id r), ex_last_handler_dir = xr_last_handler_dir r \<rparr>)"

definition row_source :: "attempt_row \<Rightarrow> core_error + run_source" where
  "row_source r =
     (if ar_source r = ''full'' then Inr Full
      else if ar_source r = ''sampled'' then
        Inr (Sampled (i64_as_u32 (case ar_sample_size r of None \<Rightarrow> 0 | Some n \<Rightarrow> n)))
      else Inl (Sqlite (''unknown run_type_source: '' @ ar_source r)))"

definition row_simulation :: "attempt_row \<Rightarrow> core_error + simulation" where
  "row_simulation r =
     (if ar_simulation r = ''real'' then Inr Real
      else if ar_simulation r = ''dry'' then Inr Dry
      else Inl (Sqlite (''unknown run_type_simulation: '' @ ar_simulation r)))"

definition row_to_attempt :: "store \<Rightarrow> attempt_row \<Rightarrow> core_error + attempt" where
  "row_to_attempt st r =
     (case row_source r of Inl e \<Rightarrow> Inl e | Inr src \<Rightarrow>
     (case row_simulation r of Inl e \<Rightarrow> Inl e | Inr sim \<Rightarrow>
     (case attempt_state_parse (ar_state r) of
        Inl e \<Rightarrow> Inl (Sqlite (core_error_text e))
      | Inr s \<Rightarrow> Inr
         \<lparr> at_id = ar_id r, at_execution_id = ar_execution_id r,
           at_handler_instance_id = ar_handler_instance_id r,
           at_parent_attempt_id = ar_parent_attempt_id r, at_source = src, at_simulation = sim,
           at_state = s, at_success_count = i64_as_u64 (ar_success_count r),
           at_failed_count = i64_as_u64 (ar_failed_count r),
           at_aborted_reason = ar_aborted_reason r, at_cancelled_reason = ar_cancelled_reason r,
           at_started_at = ar_started_at r, at_ended_at = ar_ended_at r,
           at_dir = attempt_dir st (ar_execution_id r) (ar_id r) \<rparr>)))"

section \<open>Schema and migrations\<close>

text \<open>The schema is the version recorded and the columns of each table.\<close>

record schema =
  sc_version :: "int option"
  sc_tables :: "(string \<times> string list) list"

definition SCHEMA_VERSION :: int where "SCHEMA_VERSION = 4"

definition execution_columns_v1 :: "string list" where
  "execution_columns_v1 =
     [''id'', ''name'', ''input_csv_id'', ''input_csv_hash'', ''input_row_count'',
      ''current_handler_instance_id'', ''state'', ''created_at'', ''settled_at'', ''closed_at'',
      ''abandoned_at'', ''abandoned_reason'']"

definition handler_instance_columns :: "string list" where
  "handler_instance_columns =
     [''id'', ''handler_id'', ''manifest_hash'', ''source_snapshot_dir'', ''binary_hash'', ''created_at'']"

definition attempt_columns_v2 :: "string list" where
  "attempt_columns_v2 =
     [''id'', ''execution_id'', ''handler_instance_id'', ''parent_attempt_id'', ''run_type_source'',
      ''run_type_sample_size'', ''run_type_simulation'', ''state'', ''success_count'', ''failed_count'',
      ''aborted_reason'', ''started_at'', ''ended_at'']"

definition create_table :: "string \<Rightarrow> string list \<Rightarrow> (string \<times> string list) list \<Rightarrow> core_error + (string \<times> string list) list" where
  "create_table t cols ts =
     (if map_of ts t \<noteq> None then Inl (Sqlite (''table '' @ t @ '' already exists''))
      else Inr (ts @ [(t, cols)]))"

definition add_column :: "string \<Rightarrow> string \<Rightarrow> (string \<times> string list) list \<Rightarrow> core_error + (string \<times> string list) list" where
  "add_column t c ts =
     (case map_of ts t of
        None \<Rightarrow> Inl (Sqlite (''no such table: '' @ t))
      | Some cols \<Rightarrow>
          if c \<in> set cols then Inl (Sqlite (''duplicate column name: '' @ c))
          else Inr (map (\<lambda>(t', cs). if t' = t then (t', cs @ [c]) else (t', cs)) ts))"

definition MIGRATION_V1 :: "(string \<times> string list) list \<Rightarrow> core_error + (string \<times> string list) list" where
  "MIGRATION_V1 ts =
     (case create_table ''executions'' execution_columns_v1 ts of
        Inl e \<Rightarrow> Inl e | Inr ts' \<Rightarrow> create_table ''handler_instances'' handler_instance_columns ts')"

definition MIGRATION_V2 :: "(string \<times> string list) list \<Rightarrow> core_error + (string \<times> string list) list" where
  "MIGRATION_V2 ts = create_table ''attempts'' attempt_columns_v2 ts"

definition MIGRATION_V3 :: "(string \<times> string list) list \<Rightarrow> core_error + (string \<times> string list) list" where
  "MIGRATION_V3 ts = add_column ''executions'' ''last_handler_dir'' ts"

definition MIGRATION_V4 :: "(string \<times> string list) list \<Rightarrow> core_error + (string \<times> string list) list" where
  "MIGRATION_V4 ts = add_column ''attempts'' ''cancelled_reason'' ts"

definition run_migrations ::
    "((string \<times> string list) list \<Rightarrow> core_error + (string \<times> string list) list) list \<Rightarrow> schema \<Rightarrow> core_error + schema" where
  "run_migrations ms sc =
     (case fold_result (\<lambda>m ts. m ts) ms (sc_tables sc) of
        Inl e \<Rightarrow> Inl e
      | Inr ts \<Rightarrow> Inr \<lparr> sc_version = Some SCHEMA_VERSION, sc_tables = ts \<rparr>)"

definition migrate :: "schema \<Rightarrow> core_error + schema" where
  "migrate sc =
     (case sc_version sc of
        None \<Rightarrow> run_migrations [MIGRATION_V1, MIGRATION_V2, MIGRATION_V3, MIGRATION_V4] sc
      | Some v \<Rightarrow>
          if v = 1 then run_migrations [MIGRATION_V2, MIGRATION_V3, MIGRATION_V4] sc
          else if v = 2 then run_migrations [MIGRATION_V3, MIGRATION_V4] sc
          else if v = 3 then run_migrations [MIGRATION_V4] sc
          else if v = SCHEMA_VERSION then Inr sc
          else if v > SCHEMA_VERSION then Inl (Schema_Too_New (i64_as_u8 v) (i64_as_u8 SCHEMA_VERSION))
          else Inl (Store (''executions.db schema version '' @ int_str v @ '' not supported (expected '' @
                           int_str SCHEMA_VERSION @ '')'')))"

definition schema_version :: "8 word" where "schema_version = i64_as_u8 SCHEMA_VERSION"

section \<open>Counting rows\<close>

text \<open>
  \<^verbatim>\<open>hash_and_count_rows\<close> reads the file in chunks of 64 KiB; the counters go through every byte. The hash
  is a parameter on the bytes read.
\<close>

record row_counter =
  rc_newlines :: nat
  rc_last_nl :: bool
  rc_total :: nat

definition count_byte :: "char \<Rightarrow> row_counter \<Rightarrow> row_counter" where
  "count_byte b c =
     (if b = newline then c\<lparr> rc_newlines := rc_newlines c + 1, rc_last_nl := True \<rparr>
      else c\<lparr> rc_last_nl := False \<rparr>)"

definition count_chunk :: "string \<Rightarrow> row_counter \<Rightarrow> row_counter" where
  "count_chunk buf c = (let c' = fold count_byte buf c in c'\<lparr> rc_total := rc_total c' + length buf \<rparr>)"

definition hash_and_count_rows :: "(string \<Rightarrow> string) \<Rightarrow> bool \<Rightarrow> string list \<Rightarrow> string \<times> nat" where
  "hash_and_count_rows sha is_jsonl chunks =
     (let c = fold count_chunk chunks \<lparr> rc_newlines = 0, rc_last_nl = True, rc_total = 0 \<rparr>;
          lines = (if rc_total c > 0 \<and> \<not> rc_last_nl c then rc_newlines c + 1 else rc_newlines c);
          row_count = (if is_jsonl then lines else lines - 1)
      in (''sha256:'' @ sha (concat chunks), row_count))"

section \<open>Operations\<close>

text \<open>\<^verbatim>\<open>write_manifest\<close>: write the temporary file, rename it onto the target.\<close>

definition write_manifest :: "path \<Rightarrow> execution \<Rightarrow> fuse \<Rightarrow> store \<Rightarrow> (core_error + unit) \<times> store \<times> fuse" where
  "write_manifest dir x f st =
     (let (bad, f1) = poll f in
      if bad then (Inl (Io ''write manifest.json.tmp''), st, f1)
      else
        let st1 = st\<lparr> st_mirror := (st_mirror st)(path_join dir ''manifest.json.tmp'' \<mapsto> x) \<rparr>;
            (bad2, f2) = poll f1 in
        if bad2 then (Inl (Io ''rename manifest.json.tmp''), st1, f2)
        else (Inr (), st1\<lparr> st_mirror := (st_mirror st1)(path_join dir ''manifest.json.tmp'' := None,
                                                        path_join dir ''manifest.json'' \<mapsto> x) \<rparr>, f2))"

definition find_exec :: "store \<Rightarrow> string \<Rightarrow> exec_row option" where
  "find_exec st i = List.find (\<lambda>r. xr_id r = i) (st_execs st)"

definition get_execution :: "store \<Rightarrow> string \<Rightarrow> core_error + execution option" where
  "get_execution st i =
     (case find_exec st i of
        None \<Rightarrow> Inr None
      | Some r \<Rightarrow> (case row_to_execution st r of Inl e \<Rightarrow> Inl e | Inr x \<Rightarrow> Inr (Some x)))"

definition snapshot_name_of :: "string option \<Rightarrow> string" where
  "snapshot_name_of ext =
     (case ext of
        Some e \<Rightarrow> if e = ''jsonl'' then ''input.jsonl'' else if e = ''ndjson'' then ''input.ndjson'' else ''input.csv''
      | None \<Rightarrow> ''input.csv'')"

definition ascii_lower :: "char \<Rightarrow> char" where
  "ascii_lower c = (let n = (of_char c :: nat) in if 65 \<le> n \<and> n \<le> 90 then char_of (n + 32) else c)"

text \<open>
  \<^verbatim>\<open>create_execution\<close>, first part: the input is copied into the directory of the execution, hashed and
  counted. The source file is given by its bytes in chunks.
\<close>

definition snapshot_input ::
    "(string \<Rightarrow> string) \<Rightarrow> string list \<Rightarrow> string option \<Rightarrow> path \<Rightarrow> fuse \<Rightarrow> store
      \<Rightarrow> (core_error + (string \<times> nat)) \<times> store \<times> fuse" where
  "snapshot_input sha chunks ext dir f st =
     (let (bad, f1) = poll f in
      if bad then (Inl (Io ''create_dir_all''), st, f1) else
      let st1 = st\<lparr> st_dirs := insert dir (st_dirs st) \<rparr>;
          name = snapshot_name_of (map_option (map ascii_lower) ext);
          is_jsonl = (name = ''input.jsonl'' \<or> name = ''input.ndjson'');
          dest = path_join dir name; (bad2, f2) = poll f1 in
      if bad2 then (Inl (Io ''copy''), st1, f2) else
      let st2 = st1\<lparr> st_files := (st_files st1)(dest \<mapsto> concat chunks) \<rparr>; (bad3, f3) = poll f2 in
      if bad3 then (Inl (Io ''hash''), st2, f3) else
      let (hsh, n) = hash_and_count_rows sha is_jsonl chunks; (bad4, f4) = poll f3 in
      if bad4 then (Inl (Io ''write sha256''), st2, f4) else
      (Inr (hsh, n), st2\<lparr> st_files := (st_files st2)(path_join dir (name @ ''.sha256'') \<mapsto> hsh) \<rparr>, f4))"

definition new_execution_value :: "string \<Rightarrow> path \<Rightarrow> string \<Rightarrow> nat \<Rightarrow> time \<Rightarrow> new_execution \<Rightarrow> execution" where
  "new_execution_value i dir hsh n now nx =
     \<lparr> ex_id = i, ex_name = nx_name nx, ex_input_csv_id = nx_input_csv_id nx,
       ex_input_csv_hash = hsh, ex_input_row_count = n,
       ex_current_handler_instance_id = nx_current_handler_instance_id nx, ex_state = Open,
       ex_created_at = now, ex_settled_at = None, ex_closed_at = None, ex_abandoned_at = None,
       ex_abandoned_reason = None, ex_dir = dir, ex_last_handler_dir = None \<rparr>"

definition new_execution_row :: "string \<Rightarrow> string \<Rightarrow> nat \<Rightarrow> time \<Rightarrow> new_execution \<Rightarrow> exec_row" where
  "new_execution_row i hsh n now nx =
     \<lparr> xr_id = i, xr_name = nx_name nx, xr_input_csv_id = nx_input_csv_id nx,
       xr_input_csv_hash = hsh, xr_input_row_count = u64_as_i64 n,
       xr_current_handler_instance_id = nx_current_handler_instance_id nx,
       xr_state = execution_state_str Open, xr_created_at = now, xr_settled_at = None,
       xr_closed_at = None, xr_abandoned_at = None, xr_abandoned_reason = None,
       xr_last_handler_dir = None \<rparr>"

text \<open>
  The second part: the row is inserted, then the mirror written. \<open>src\<close> is \<open>None\<close> when the path is not a file,
  \<open>ext\<close> is the extension of the path, \<open>ulid\<close> the fresh identifier.
\<close>

definition create_execution ::
    "(string \<Rightarrow> string) \<Rightarrow> string list option \<Rightarrow> string option \<Rightarrow> string \<Rightarrow> time \<Rightarrow> new_execution \<Rightarrow> fuse \<Rightarrow> store
      \<Rightarrow> (core_error + execution) \<times> store" where
  "create_execution sha src ext ulid now nx f st =
     (case src of
        None \<Rightarrow> (Inl (Store (''input csv not found: '' @ nx_input_csv_path nx)), st)
      | Some chunks \<Rightarrow>
         let i = ''e_'' @ ulid; dir = execution_dir st i in
         (case snapshot_input sha chunks ext dir f st of
            (Inl e, st1, _) \<Rightarrow> (Inl e, st1)
          | (Inr (hsh, n), st1, f1) \<Rightarrow>
             let x = new_execution_value i dir hsh n now nx; row = new_execution_row i hsh n now nx in
             if find_exec st1 i \<noteq> None then (Inl (Sqlite ''UNIQUE constraint failed: executions.id''), st1)
             else
               (case write_manifest dir x f1 (st1\<lparr> st_execs := st_execs st1 @ [row] \<rparr>) of
                  (Inl e, st2, _) \<Rightarrow> (Inl e, st2)
                | (Inr _, st2, _) \<Rightarrow> (Inr x, st2))))"

definition list_executions :: "store \<Rightarrow> core_error + execution list" where
  "list_executions st =
     fold_result (\<lambda>r xs. case row_to_execution st r of Inl e \<Rightarrow> Inl e | Inr x \<Rightarrow> Inr (xs @ [x]))
       (rev (sort_key xr_created_at (st_execs st))) []"

definition coalesce :: "'a option \<Rightarrow> 'a \<Rightarrow> 'a option" where
  "coalesce a b = (case a of None \<Rightarrow> Some b | Some x \<Rightarrow> Some x)"

definition update_exec :: "string \<Rightarrow> (exec_row \<Rightarrow> exec_row) \<Rightarrow> store \<Rightarrow> nat \<times> store" where
  "update_exec i g st =
     (length (filter (\<lambda>r. xr_id r = i) (st_execs st)),
      st\<lparr> st_execs := map (\<lambda>r. if xr_id r = i then g r else r) (st_execs st) \<rparr>)"

definition set_state_row :: "execution_state \<Rightarrow> string option \<Rightarrow> time \<Rightarrow> exec_row \<Rightarrow> exec_row" where
  "set_state_row s reason now r =
     (let r' = r\<lparr> xr_state := execution_state_str s \<rparr> in
      case s of
        Settled \<Rightarrow> r'\<lparr> xr_settled_at := coalesce (xr_settled_at r) now \<rparr>
      | Closed \<Rightarrow> r'\<lparr> xr_closed_at := coalesce (xr_closed_at r) now \<rparr>
      | Abandoned \<Rightarrow> r'\<lparr> xr_abandoned_at := coalesce (xr_abandoned_at r) now, xr_abandoned_reason := reason \<rparr>
      | _ \<Rightarrow> r')"

definition set_execution_state ::
    "string \<Rightarrow> execution_state \<Rightarrow> string option \<Rightarrow> time \<Rightarrow> fuse \<Rightarrow> store \<Rightarrow> (core_error + execution) \<times> store" where
  "set_execution_state i s reason now f st =
     (let (n, st1) = update_exec i (set_state_row s reason now) st in
      if n = 0 then (Inl (Store (''execution not found: '' @ i)), st)
      else (case get_execution st1 i of
          Inl e \<Rightarrow> (Inl e, st1)
        | Inr None \<Rightarrow> (Inl (Store (''execution vanished mid-update: '' @ i)), st1)
        | Inr (Some x) \<Rightarrow>
            (case write_manifest (ex_dir x) x f st1 of
               (Inl e, st2, _) \<Rightarrow> (Inl e, st2)
             | (Inr _, st2, _) \<Rightarrow> (Inr x, st2))))"

definition set_last_handler_dir :: "string \<Rightarrow> path \<Rightarrow> store \<Rightarrow> (core_error + unit) \<times> store" where
  "set_last_handler_dir i dir st =
     (let (n, st1) = update_exec i (\<lambda>r. r\<lparr> xr_last_handler_dir := Some dir \<rparr>) st in
      if n = 0 then (Inl (Store (''execution '' @ i @ '' not found'')), st1) else (Inr (), st1))"

definition find_content :: "store \<Rightarrow> string \<Rightarrow> string \<Rightarrow> path \<Rightarrow> handler_instance option" where
  "find_content st h m d =
     List.find (\<lambda>r. hi_handler_id r = h \<and> hi_manifest_hash r = m \<and> hi_source_snapshot_dir r = d) (st_his st)"

definition get_handler_instance :: "store \<Rightarrow> string \<Rightarrow> handler_instance option" where
  "get_handler_instance st i = List.find (\<lambda>r. hi_id r = i) (st_his st)"

definition register_handler_instance ::
    "string \<Rightarrow> time \<Rightarrow> new_handler_instance \<Rightarrow> store \<Rightarrow> (core_error + handler_instance) \<times> store" where
  "register_handler_instance ulid now nh st =
     (case find_content st (nh_handler_id nh) (nh_manifest_hash nh) (nh_source_snapshot_dir nh) of
        Some existing \<Rightarrow> (Inr existing, st)
      | None \<Rightarrow>
         let hi = \<lparr> hi_id = ''hi_'' @ ulid, hi_handler_id = nh_handler_id nh,
                    hi_manifest_hash = nh_manifest_hash nh,
                    hi_source_snapshot_dir = nh_source_snapshot_dir nh,
                    hi_binary_hash = nh_binary_hash nh, hi_created_at = now \<rparr> in
         if get_handler_instance st (hi_id hi) \<noteq> None
         then (Inl (Sqlite ''UNIQUE constraint failed: handler_instances.id''), st)
         else (Inr hi, st\<lparr> st_his := st_his st @ [hi] \<rparr>))"

definition find_attempt :: "store \<Rightarrow> string \<Rightarrow> attempt_row option" where
  "find_attempt st i = List.find (\<lambda>r. ar_id r = i) (st_attempts st)"

definition get_attempt :: "store \<Rightarrow> string \<Rightarrow> core_error + attempt option" where
  "get_attempt st i =
     (case find_attempt st i of
        None \<Rightarrow> Inr None
      | Some r \<Rightarrow> (case row_to_attempt st r of Inl e \<Rightarrow> Inl e | Inr x \<Rightarrow> Inr (Some x)))"

definition accepts_attempts :: "execution_state \<Rightarrow> bool" where
  "accepts_attempts s = (case s of Open \<Rightarrow> True | Iterating \<Rightarrow> True | Settled \<Rightarrow> True | Closed \<Rightarrow> False | Abandoned \<Rightarrow> False)"

fun execution_state_debug :: "execution_state \<Rightarrow> string" where
  "execution_state_debug Open = ''Open''"
| "execution_state_debug Iterating = ''Iterating''"
| "execution_state_debug Settled = ''Settled''"
| "execution_state_debug Closed = ''Closed''"
| "execution_state_debug Abandoned = ''Abandoned''"

definition new_attempt_row :: "string \<Rightarrow> string \<Rightarrow> time \<Rightarrow> new_attempt \<Rightarrow> attempt_row" where
  "new_attempt_row i e now na =
     \<lparr> ar_id = i, ar_execution_id = e, ar_handler_instance_id = na_handler_instance_id na,
       ar_parent_attempt_id = na_parent_attempt_id na,
       ar_source = (case na_source na of Full \<Rightarrow> ''full'' | Sampled _ \<Rightarrow> ''sampled''),
       ar_sample_size = (case na_source na of Full \<Rightarrow> None | Sampled n \<Rightarrow> Some (int n)),
       ar_simulation = (case na_simulation na of Real \<Rightarrow> ''real'' | Dry \<Rightarrow> ''dry''),
       ar_state = attempt_state_str Running, ar_success_count = 0, ar_failed_count = 0,
       ar_aborted_reason = None, ar_started_at = now, ar_ended_at = None, ar_cancelled_reason = None \<rparr>"

definition new_attempt_value :: "string \<Rightarrow> string \<Rightarrow> path \<Rightarrow> time \<Rightarrow> new_attempt \<Rightarrow> attempt" where
  "new_attempt_value i e dir now na =
     \<lparr> at_id = i, at_execution_id = e, at_handler_instance_id = na_handler_instance_id na,
       at_parent_attempt_id = na_parent_attempt_id na, at_source = na_source na,
       at_simulation = na_simulation na, at_state = Running, at_success_count = 0,
       at_failed_count = 0, at_aborted_reason = None, at_cancelled_reason = None,
       at_started_at = now, at_ended_at = None, at_dir = dir \<rparr>"

definition create_attempt ::
    "string \<Rightarrow> time \<Rightarrow> new_attempt \<Rightarrow> fuse \<Rightarrow> store \<Rightarrow> (core_error + attempt) \<times> store" where
  "create_attempt ulid now na f st =
     (case get_execution st (na_execution_id na) of
        Inl e \<Rightarrow> (Inl e, st)
      | Inr None \<Rightarrow> (Inl (Store (''execution not found: '' @ na_execution_id na)), st)
      | Inr (Some x) \<Rightarrow>
         if \<not> accepts_attempts (ex_state x) then
           (Inl (Store (''execution '' @ ex_id x @ '' is '' @ execution_state_debug (ex_state x) @
                        ''; no further attempts allowed'')), st)
         else if get_handler_instance st (na_handler_instance_id na) = None then
           (Inl (Store (''handler instance not found: '' @ na_handler_instance_id na)), st)
         else
           let i = ''r_'' @ ulid; dir = attempt_dir st (ex_id x) i; (bad, f1) = poll f in
           if bad then (Inl (Io ''create_dir_all''), st) else
           let st1 = st\<lparr> st_dirs := insert dir (st_dirs st) \<rparr>;
               row = new_attempt_row i (ex_id x) now na in
           if find_attempt st1 i \<noteq> None then (Inl (Sqlite ''UNIQUE constraint failed: attempts.id''), st1)
           else (Inr (new_attempt_value i (ex_id x) dir now na), st1\<lparr> st_attempts := st_attempts st1 @ [row] \<rparr>))"

definition finish_row :: "finish \<Rightarrow> time \<Rightarrow> attempt_row \<Rightarrow> attempt_row" where
  "finish_row fi now r =
     r\<lparr> ar_state := attempt_state_str (if fi_aborted fi then Aborted else Completed),
        ar_success_count := u64_as_i64 (fi_success_count fi),
        ar_failed_count := u64_as_i64 (fi_failed_count fi),
        ar_aborted_reason := fi_aborted_reason fi, ar_ended_at := Some now,
        ar_cancelled_reason := fi_cancelled_reason fi \<rparr>"

definition finish_attempt ::
    "string \<Rightarrow> finish \<Rightarrow> time \<Rightarrow> fuse \<Rightarrow> store \<Rightarrow> (core_error + attempt) \<times> store" where
  "finish_attempt i fi now f st =
     (let hit = (\<lambda>r. ar_id r = i \<and> ar_state r = ''running'');
          st1 = st\<lparr> st_attempts := map (\<lambda>r. if hit r then finish_row fi now r else r) (st_attempts st) \<rparr> in
      if filter hit (st_attempts st) = [] then (Inl (Store (''attempt not found or not running: '' @ i)), st)
      else (case get_attempt st1 i of
          Inl e \<Rightarrow> (Inl e, st1)
        | Inr None \<Rightarrow> (Inl (Store (''attempt vanished mid-finish: '' @ i)), st1)
        | Inr (Some a) \<Rightarrow>
           (case get_execution st1 (at_execution_id a) of
              Inl e \<Rightarrow> (Inl e, st1)
            | Inr None \<Rightarrow> (Inl (Store (''orphan attempt '' @ i)), st1)
            | Inr (Some x) \<Rightarrow>
                if ex_state x = Open then
                  (case set_execution_state (ex_id x) Iterating None now f st1 of
                     (Inl e, st2) \<Rightarrow> (Inl e, st2)
                   | (Inr _, st2) \<Rightarrow> (Inr a, st2))
                else (Inr a, st1))))"

definition list_attempts_for_execution :: "store \<Rightarrow> string \<Rightarrow> core_error + attempt list" where
  "list_attempts_for_execution st e =
     fold_result (\<lambda>r xs. case row_to_attempt st r of Inl err \<Rightarrow> Inl err | Inr x \<Rightarrow> Inr (xs @ [x]))
       (sort_key ar_started_at (filter (\<lambda>r. ar_execution_id r = e) (st_attempts st))) []"

definition is_terminal_text :: "string \<Rightarrow> bool" where
  "is_terminal_text s = (s = ''completed'' \<or> s = ''aborted'')"

definition has_active_attempt :: "store \<Rightarrow> string \<Rightarrow> bool" where
  "has_active_attempt st e =
     (0 < length (filter (\<lambda>r. ar_execution_id r = e \<and> \<not> is_terminal_text (ar_state r)) (st_attempts st)))"

definition has_active_attempt_for_handler_dir :: "store \<Rightarrow> path \<Rightarrow> bool" where
  "has_active_attempt_for_handler_dir st d =
     (0 < length [() . a \<leftarrow> st_attempts st, h \<leftarrow> st_his st,
                  ar_handler_instance_id a = hi_id h \<and> hi_source_snapshot_dir h = d \<and> \<not> is_terminal_text (ar_state a)])"

definition delete_execution :: "string \<Rightarrow> store \<Rightarrow> bool \<times> store" where
  "delete_execution e st =
     (filter (\<lambda>r. xr_id r = e) (st_execs st) \<noteq> [],
      st\<lparr> st_attempts := filter (\<lambda>r. ar_execution_id r \<noteq> e) (st_attempts st),
          st_execs := filter (\<lambda>r. xr_id r \<noteq> e) (st_execs st) \<rparr>)"

end
