(* ===== verification/Store_Invariants.thy ===== *)
theory Store_Invariants
  imports Execution_Store
begin

text \<open>
  What the registry guarantees: the well-formedness of its tables (keys, references, states that parse) is
  kept by every operation, on error paths too; a terminal attempt never changes again; the values read back
  are the values written; registering a handler twice gives the same instance; counting rows does not depend
  on the chunks read; every supported schema version migrates to the same tables.
\<close>

section \<open>Well-formed stores\<close>

definition attempt_row_ok :: "attempt_row \<Rightarrow> bool" where
  "attempt_row_ok r =
     (ar_source r \<in> {''full'', ''sampled''} \<and> ar_simulation r \<in> {''real'', ''dry''} \<and>
      ar_state r \<in> {''running'', ''completed'', ''aborted''} \<and>
      (ar_state r = ''running'' \<longleftrightarrow> ar_ended_at r = None))"

definition exec_row_ok :: "exec_row \<Rightarrow> bool" where
  "exec_row_ok r =
     (xr_state r \<in> {''open'', ''iterating'', ''settled'', ''closed'', ''abandoned''} \<and>
      (xr_state r = ''settled'' \<longrightarrow> xr_settled_at r \<noteq> None) \<and>
      (xr_state r = ''closed'' \<longrightarrow> xr_closed_at r \<noteq> None) \<and>
      (xr_state r = ''abandoned'' \<longrightarrow> xr_abandoned_at r \<noteq> None))"

definition hi_content :: "handler_instance \<Rightarrow> string \<times> string \<times> path" where
  "hi_content h = (hi_handler_id h, hi_manifest_hash h, hi_source_snapshot_dir h)"

definition tables_ok :: "exec_row list \<Rightarrow> handler_instance list \<Rightarrow> attempt_row list \<Rightarrow> bool" where
  "tables_ok xs hs as =
     (distinct (map xr_id xs) \<and> distinct (map hi_id hs) \<and> distinct (map hi_content hs) \<and>
      distinct (map ar_id as) \<and> list_all exec_row_ok xs \<and> list_all attempt_row_ok as \<and>
      ar_execution_id ` set as \<subseteq> xr_id ` set xs \<and>
      ar_handler_instance_id ` set as \<subseteq> hi_id ` set hs)"

definition store_ok :: "store \<Rightarrow> bool" where
  "store_ok st = tables_ok (st_execs st) (st_his st) (st_attempts st)"

lemma exec_parse_ok: "exec_row_ok r \<Longrightarrow> \<exists>s. execution_state_parse (xr_state r) = Inr s"
  by (auto simp: exec_row_ok_def execution_state_parse_def)

lemma exec_parse_str [simp]: "execution_state_parse (execution_state_str s) = Inr s"
  by (cases s) (simp_all add: execution_state_parse_def)

lemma attempt_parse_str [simp]: "attempt_state_parse (attempt_state_str s) = Inr s"
  by (cases s) (simp_all add: attempt_state_parse_def)

lemma find_in: "List.find P xs = Some x \<Longrightarrow> x \<in> set xs \<and> P x"
  by (auto simp: find_Some_iff)

lemma find_none_iff: "List.find P xs = None \<longleftrightarrow> (\<forall>x\<in>set xs. \<not> P x)"
  by (auto simp: find_None_iff)

lemma write_manifest_tables [simp]:
  "st_execs (fst (snd (write_manifest d x f st))) = st_execs st"
  "st_his (fst (snd (write_manifest d x f st))) = st_his st"
  "st_attempts (fst (snd (write_manifest d x f st))) = st_attempts st"
  "st_home (fst (snd (write_manifest d x f st))) = st_home st"
  by (auto simp: write_manifest_def Let_def split_def)

lemma set_state_row_id [simp]: "xr_id (set_state_row s re now r) = xr_id r"
  by (simp add: set_state_row_def Let_def split: execution_state.splits)

lemma set_state_row_ok: "exec_row_ok (set_state_row s re now r)"
  by (cases s) (auto simp: set_state_row_def exec_row_ok_def coalesce_def split: option.splits)

lemma tables_ok_execs:
  assumes "tables_ok xs hs as"
    and "\<And>r. xr_id (g r) = xr_id r" "\<And>r. exec_row_ok r \<Longrightarrow> exec_row_ok (g r)"
  shows "tables_ok (map g xs) hs as"
proof -
  have "map xr_id (map g xs) = map xr_id xs" using assms(2) by simp
  moreover then have "xr_id ` set (map g xs) = xr_id ` set xs" by (metis set_map)
  moreover have "list_all exec_row_ok (map g xs)"
    using assms(1,3) by (auto simp: tables_ok_def list_all_iff)
  ultimately show ?thesis using assms(1) unfolding tables_ok_def by (simp only: simp_thms)
qed

lemma tables_ok_attempts:
  assumes "tables_ok xs hs as"
    and "\<And>r. attempt_row_ok r \<Longrightarrow> attempt_row_ok (h r)"
    and "\<And>r. ar_id (h r) = ar_id r" "\<And>r. ar_execution_id (h r) = ar_execution_id r"
    and "\<And>r. ar_handler_instance_id (h r) = ar_handler_instance_id r"
  shows "tables_ok xs hs (map h as)"
proof -
  have "map ar_id (map h as) = map ar_id as" using assms(3) by simp
  moreover have "ar_execution_id ` set (map h as) = ar_execution_id ` set as"
    using assms(4) by (auto simp: image_iff)
  moreover have "ar_handler_instance_id ` set (map h as) = ar_handler_instance_id ` set as"
    using assms(5) by (auto simp: image_iff)
  moreover have "list_all attempt_row_ok (map h as)"
    using assms(1,2) by (auto simp: tables_ok_def list_all_iff)
  ultimately show ?thesis using assms(1) unfolding tables_ok_def by (simp only: simp_thms)
qed

lemma update_exec_simps [simp]:
  "st_execs (snd (update_exec i g st)) = map (\<lambda>r. if xr_id r = i then g r else r) (st_execs st)"
  "st_his (snd (update_exec i g st)) = st_his st"
  "st_attempts (snd (update_exec i g st)) = st_attempts st"
  "st_home (snd (update_exec i g st)) = st_home st"
  "fst (update_exec i g st) = length (filter (\<lambda>r. xr_id r = i) (st_execs st))"
  by (simp_all add: update_exec_def)

section \<open>Every operation keeps the store well formed\<close>

lemma write_manifest_ok: "write_manifest d x f st = (r, st', f') \<Longrightarrow> store_ok st' = store_ok st"
  using write_manifest_tables[of d x f st] by (simp add: store_ok_def)

lemma set_execution_state_ok:
  assumes "store_ok st"
  shows "store_ok (snd (set_execution_state i s re now f st))"
proof -
  obtain n st1 where u: "update_exec i (set_state_row s re now) st = (n, st1)" by force
  have "store_ok (snd (update_exec i (set_state_row s re now) st))"
    unfolding store_ok_def update_exec_simps
    by (rule tables_ok_execs) (use assms in \<open>simp_all add: set_state_row_ok store_ok_def\<close>)
  then have "store_ok st1" using u by simp
  then show ?thesis
    using assms u unfolding set_execution_state_def
    by (auto split: sum.split option.split prod.split dest: write_manifest_ok)
qed

lemma set_last_handler_dir_ok:
  assumes "store_ok st"
  shows "store_ok (snd (set_last_handler_dir i d st))"
proof -
  let ?g = "\<lambda>r. r\<lparr> xr_last_handler_dir := Some d \<rparr>"
  have "store_ok (snd (update_exec i ?g st))"
    unfolding store_ok_def update_exec_simps
    by (rule tables_ok_execs) (use assms in \<open>simp_all add: exec_row_ok_def store_ok_def\<close>)
  then show ?thesis using assms by (auto simp: set_last_handler_dir_def split_def Let_def)
qed

lemma insert_exec_ok:
  "tables_ok xs hs as \<Longrightarrow> List.find (\<lambda>r. xr_id r = xr_id x) xs = None \<Longrightarrow> exec_row_ok x \<Longrightarrow>
   tables_ok (xs @ [x]) hs as"
  by (auto simp: tables_ok_def find_none_iff)

lemma snapshot_input_tables:
  "snapshot_input sha c ext d f st = (r, st', f') \<Longrightarrow>
   st_execs st' = st_execs st \<and> st_his st' = st_his st \<and> st_attempts st' = st_attempts st \<and> st_home st' = st_home st"
  by (auto simp: snapshot_input_def Let_def split_def split: if_splits)

lemma create_execution_ok:
  assumes "store_ok st"
  shows "store_ok (snd (create_execution sha src ext ulid now nx f st))"
proof (cases src)
  case None
  then show ?thesis using assms by (simp add: create_execution_def)
next
  case (Some chunks)
  let ?dir = "execution_dir st (''e_'' @ ulid)"
  obtain r st1 f1 where s: "snapshot_input sha chunks ext ?dir f st = (r, st1, f1)" by (metis prod_cases3)
  have ok1: "store_ok st1" using assms snapshot_input_tables[OF s] by (simp add: store_ok_def)
  have "store_ok (st1\<lparr> st_execs := st_execs st1 @ [row] \<rparr>)"
    if "find_exec st1 (xr_id row) = None" "exec_row_ok row" for row
    using ok1 that insert_exec_ok by (simp add: store_ok_def find_exec_def)
  note ins = this
  show ?thesis
    using assms s ok1 unfolding create_execution_def Some option.case Let_def s
    by (auto split: sum.split prod.split dest!: write_manifest_ok intro!: ins simp: exec_row_ok_def new_execution_row_def)
qed

lemma register_ok: "store_ok st \<Longrightarrow> store_ok (snd (register_handler_instance u now nh st))"
  by (auto simp: register_handler_instance_def store_ok_def tables_ok_def get_handler_instance_def
        find_content_def find_none_iff hi_content_def Let_def split: option.split)

lemma get_execution_id: "get_execution st i = Inr (Some x) \<Longrightarrow> ex_id x = i \<and> i \<in> xr_id ` set (st_execs st)"
  by (auto simp: get_execution_def find_exec_def row_to_execution_def split: option.splits sum.splits
      dest!: find_in)

lemma get_handler_instance_id: "get_handler_instance st i = Some y \<Longrightarrow> i \<in> hi_id ` set (st_his st)"
  by (auto simp: get_handler_instance_def dest!: find_in)

lemma insert_attempt_ok:
  "tables_ok xs hs as \<Longrightarrow> List.find (\<lambda>r. ar_id r = ar_id a) as = None \<Longrightarrow> attempt_row_ok a \<Longrightarrow>
   ar_execution_id a \<in> xr_id ` set xs \<Longrightarrow> ar_handler_instance_id a \<in> hi_id ` set hs \<Longrightarrow>
   tables_ok xs hs (as @ [a])"
  by (auto simp: tables_ok_def find_none_iff)

lemma create_attempt_ok: "store_ok st \<Longrightarrow> store_ok (snd (create_attempt u now na f st))"
  by (auto simp: create_attempt_def split_def Let_def store_ok_def find_attempt_def attempt_row_ok_def new_attempt_row_def
        dest: get_execution_id get_handler_instance_id
        intro!: insert_attempt_ok split: sum.split option.split run_source.split simulation.split)

lemma finish_row_simps [simp]:
  "ar_id (finish_row fi now r) = ar_id r"
  "ar_execution_id (finish_row fi now r) = ar_execution_id r"
  "ar_handler_instance_id (finish_row fi now r) = ar_handler_instance_id r"
  "ar_source (finish_row fi now r) = ar_source r"
  "ar_simulation (finish_row fi now r) = ar_simulation r"
  by (simp_all add: finish_row_def)

lemma finish_row_ok: "attempt_row_ok r \<Longrightarrow> attempt_row_ok (finish_row fi now r)"
  by (simp add: attempt_row_ok_def) (auto simp: finish_row_def)

lemma finish_attempt_ok: "store_ok st \<Longrightarrow> store_ok (snd (finish_attempt i fi now f st))"
proof -
  assume ok: "store_ok st"
  let ?h = "\<lambda>r. if ar_id r = i \<and> ar_state r = ''running'' then finish_row fi now r else r"
  let ?st1 = "st\<lparr> st_attempts := map ?h (st_attempts st) \<rparr>"
  have ok1: "store_ok ?st1"
    using ok by (auto simp: store_ok_def finish_row_ok intro!: tables_ok_attempts)
  have "store_ok st2" if "set_execution_state j Iterating None now f ?st1 = (r, st2)" for j r st2
    using set_execution_state_ok[OF ok1, of j Iterating None now f] that by simp
  then show ?thesis
    using ok ok1 unfolding finish_attempt_def Let_def
    by (auto split: sum.split option.split prod.split)
qed

lemma delete_execution_ok: "store_ok st \<Longrightarrow> store_ok (snd (delete_execution e st))"
proof -
  assume ok: "store_ok st"
  have "ar_execution_id a \<in> xr_id ` {x \<in> set (st_execs st). xr_id x \<noteq> e}"
    if "a \<in> set (st_attempts st)" "ar_execution_id a \<noteq> e" for a
    using ok that by (auto simp: store_ok_def tables_ok_def image_iff subset_iff)
  then show ?thesis
    using ok by (auto simp: store_ok_def tables_ok_def delete_execution_def list_all_iff
        distinct_map_filter)
qed

section \<open>Sequences of operations\<close>

datatype store_op =
    Op_Create_Execution "string list option" "string option" string time new_execution fuse
  | Op_Set_State string execution_state "string option" time fuse
  | Op_Set_Last_Handler_Dir string path
  | Op_Register string time new_handler_instance
  | Op_Create_Attempt string time new_attempt fuse
  | Op_Finish_Attempt string finish time fuse
  | Op_Delete string

fun run_op :: "(string \<Rightarrow> string) \<Rightarrow> store_op \<Rightarrow> store \<Rightarrow> store" where
  "run_op sha (Op_Create_Execution src ext u now nx f) st = snd (create_execution sha src ext u now nx f st)"
| "run_op sha (Op_Set_State i s re now f) st = snd (set_execution_state i s re now f st)"
| "run_op sha (Op_Set_Last_Handler_Dir i d) st = snd (set_last_handler_dir i d st)"
| "run_op sha (Op_Register u now nh) st = snd (register_handler_instance u now nh st)"
| "run_op sha (Op_Create_Attempt u now na f) st = snd (create_attempt u now na f st)"
| "run_op sha (Op_Finish_Attempt i fi now f) st = snd (finish_attempt i fi now f st)"
| "run_op sha (Op_Delete e) st = snd (delete_execution e st)"

definition empty_store :: "path \<Rightarrow> store" where
  "empty_store home =
     \<lparr> st_home = home, st_execs = [], st_his = [], st_attempts = [], st_files = (\<lambda>_. None), st_dirs = {},
       st_mirror = (\<lambda>_. None) \<rparr>"

lemma run_op_ok: "store_ok st \<Longrightarrow> store_ok (run_op sha op st)"
  by (cases op) (simp_all add: create_execution_ok set_execution_state_ok set_last_handler_dir_ok register_ok
      create_attempt_ok finish_attempt_ok delete_execution_ok)

lemma run_ops_ok: "store_ok st \<Longrightarrow> store_ok (fold (run_op sha) ops st)"
  by (induction ops arbitrary: st) (auto simp: run_op_ok)

lemma empty_store_ok: "store_ok (empty_store h)"
  by (simp add: empty_store_def store_ok_def tables_ok_def)

text \<open>C12: Whatever operations run on a fresh registry, in whatever order and with file operations failing
  anywhere, its tables stay well formed: keys and handler contents are unique, every attempt refers to an
  execution and a handler instance that exist, every state parses, and an attempt has an end time exactly
  when it is not running.\<close>

theorem registry_invariant: "store_ok (fold (run_op sha) ops (empty_store home))"
  by (rule run_ops_ok[OF empty_store_ok])

section \<open>Terminal attempts\<close>

lemma find_map_same:
  "(\<And>x. x \<in> set xs \<Longrightarrow> P (h x) = P x) \<Longrightarrow> List.find P (map h xs) = map_option h (List.find P xs)"
  by (induction xs) auto

lemma find_append: "List.find P (xs @ ys) = (case List.find P xs of None \<Rightarrow> List.find P ys | Some x \<Rightarrow> Some x)"
  by (induction xs) auto

lemma set_execution_state_attempts [simp]:
  "st_attempts (snd (set_execution_state i s re now f st)) = st_attempts st"
proof -
  have w: "write_manifest d x f st' = (r, st'', f') \<Longrightarrow> st_attempts st'' = st_attempts st'" for d x st' r st'' f'
    using write_manifest_tables(3)[of d x f st'] by simp
  show ?thesis
    by (auto simp: set_execution_state_def update_exec_def Let_def split: sum.split option.split prod.split dest!: w)
qed

lemma create_execution_attempts [simp]:
  "st_attempts (snd (create_execution sha src ext u now nx f st)) = st_attempts st"
proof -
  have w: "write_manifest d x f st' = (r, st'', f') \<Longrightarrow> st_attempts st'' = st_attempts st'" for d x f st' r st'' f'
    using write_manifest_tables(3)[of d x f st'] by simp
  show ?thesis
    by (auto simp: create_execution_def Let_def split: option.split sum.split prod.split
        dest!: w snapshot_input_tables)
qed

lemma finish_attempt_attempts:
  "st_attempts (snd (finish_attempt i fi now f st)) =
     map (\<lambda>r. if ar_id r = i \<and> ar_state r = ''running'' then finish_row fi now r else r) (st_attempts st)"
proof (cases "filter (\<lambda>r. ar_id r = i \<and> ar_state r = ''running'') (st_attempts st) = []")
  case True
  then have "map (\<lambda>r. if ar_id r = i \<and> ar_state r = ''running'' then finish_row fi now r else r) (st_attempts st)
       = st_attempts st"
    by (auto simp: filter_empty_conv intro!: map_idI)
  then show ?thesis using True by (simp add: finish_attempt_def)
next
  case False
  have s: "set_execution_state j Iterating None now f st' = (r, st'') \<Longrightarrow> st_attempts st'' = st_attempts st'" for j st' r st''
    using set_execution_state_attempts[of j Iterating None now f st'] by simp
  show ?thesis using False
    unfolding finish_attempt_def Let_def
    by (auto split: sum.split option.split prod.split dest!: s)
qed

lemma create_attempt_attempts:
  "\<exists>new. st_attempts (snd (create_attempt u now na f st)) = st_attempts st @ new"
  by (auto simp: create_attempt_def Let_def split_def split: sum.split option.split)

lemma terminal_kept_op:
  assumes "find_attempt st a = Some r" "is_terminal_text (ar_state r)" "op \<noteq> Op_Delete (ar_execution_id r)"
  shows "find_attempt (run_op sha op st) a = Some r"
proof (cases op)
  case (Op_Create_Attempt u now na f)
  then show ?thesis
    using assms create_attempt_attempts[of u now na f st] by (auto simp: find_attempt_def find_append)
next
  case (Op_Finish_Attempt i fi now f)
  have "r \<in> set (st_attempts st)" using assms(1) by (auto simp: find_attempt_def dest: find_in)
  then show ?thesis
    using assms Op_Finish_Attempt
    by (auto simp: find_attempt_def finish_attempt_attempts find_map_same is_terminal_text_def)
next
  case (Op_Delete e)
  have "List.find (\<lambda>r. ar_id r = a) (filter (\<lambda>r. ar_execution_id r \<noteq> e) xs) = Some r"
    if "List.find (\<lambda>r. ar_id r = a) xs = Some r" "ar_execution_id r \<noteq> e" for xs
    using that by (induction xs) (auto split: if_splits)
  then show ?thesis using assms Op_Delete by (auto simp: find_attempt_def delete_execution_def)
qed (use assms in \<open>simp_all add: find_attempt_def set_last_handler_dir_def update_exec_def
        register_handler_instance_def Let_def split: option.split\<close>)

text \<open>C13: A terminal attempt is final. Once an attempt is completed or aborted, no sequence of operations
  other than the deletion of its execution changes any column of its row: a second finish, a concurrent
  finish or a failing file operation cannot rewrite the counts or the reasons recorded.\<close>

theorem terminal_attempt_final:
  assumes "find_attempt st a = Some r" "is_terminal_text (ar_state r)"
    and "\<forall>op\<in>set ops. op \<noteq> Op_Delete (ar_execution_id r)"
  shows "find_attempt (fold (run_op sha) ops st) a = Some r"
  using assms by (induction ops arbitrary: st) (auto simp: terminal_kept_op)

definition demo_ops :: "store_op list" where
  "demo_ops =
     [Op_Create_Execution (Some [''h'', [newline], ''a'']) (Some ''CSV'') ''1'' 5
        \<lparr> nx_name = None, nx_input_csv_id = ''in'', nx_input_csv_path = ''/in.CSV'', nx_current_handler_instance_id = None \<rparr> None,
      Op_Register ''1'' 6 \<lparr> nh_handler_id = ''h'', nh_manifest_hash = ''m'', nh_source_snapshot_dir = ''/h'', nh_binary_hash = None \<rparr>,
      Op_Create_Attempt ''1'' 7
        \<lparr> na_execution_id = ''e_1'', na_handler_instance_id = ''hi_1'', na_parent_attempt_id = None,
          na_source = Sampled 3, na_simulation = Real \<rparr> None,
      Op_Finish_Attempt ''r_1''
        \<lparr> fi_success_count = 2, fi_failed_count = 1, fi_aborted = False, fi_aborted_reason = None, fi_cancelled_reason = None \<rparr> 9 None]"

definition demo_store :: store where
  "demo_store = fold (run_op (\<lambda>s. s)) demo_ops (empty_store ''/w'')"

lemma demo_attempts: "map (\<lambda>r. (ar_id r, ar_execution_id r, ar_state r, ar_success_count r, ar_failed_count r)) (st_attempts demo_store)
    = [(''r_1'', ''e_1'', ''completed'', 2, 1)]"
  by code_simp

lemma terminal_attempt_final_witness:
  "\<exists>r. find_attempt (fold (run_op (\<lambda>s. s)) [Op_Finish_Attempt ''r_1'' \<lparr> fi_success_count = 0, fi_failed_count = 9,
      fi_aborted = True, fi_aborted_reason = None, fi_cancelled_reason = None \<rparr> 11 None,
      Op_Set_State ''e_1'' Closed None 12 None] demo_store) ''r_1'' = Some r \<and> ar_state r = ''completed''"
proof -
  obtain r where r: "find_attempt demo_store ''r_1'' = Some r" "ar_state r = ''completed''"
  proof -
    have "\<exists>r. st_attempts demo_store = [r] \<and> ar_id r = ''r_1'' \<and> ar_state r = ''completed''"
      using demo_attempts by (auto simp: map_eq_Cons_conv)
    then show ?thesis using that by (auto simp: find_attempt_def)
  qed
  show ?thesis
    using terminal_attempt_final[OF r(1), of "[Op_Finish_Attempt ''r_1'' _ 11 None, Op_Set_State ''e_1'' Closed None 12 None]" "\<lambda>s. s"]
      r(2) by (auto simp: is_terminal_text_def)
qed

section \<open>Values read back\<close>

lemma find_attempt_snoc:
  "find_attempt st (ar_id r) = None \<Longrightarrow> find_attempt (st\<lparr> st_attempts := st_attempts st @ [r] \<rparr>) (ar_id r) = Some r"
  by (auto simp: find_attempt_def find_append)

lemma dir_updates [simp]:
  "attempt_dir (st_dirs_update g st) e a = attempt_dir st e a"
  "attempt_dir (st_attempts_update h st) e a = attempt_dir st e a"
  by (simp_all add: attempt_dir_def execution_dir_def)

lemma new_attempt_ids [simp]:
  "ar_id (new_attempt_row i e now na) = i" "at_id (new_attempt_value i e d now na) = i"
  by (simp_all add: new_attempt_row_def new_attempt_value_def)

lemma new_execution_row_id [simp]: "xr_id (new_execution_row i h n now nx) = i"
  by (simp add: new_execution_row_def)

lemma row_to_new_attempt:
  "\<forall>n. na_source na = Sampled n \<longrightarrow> n < 2 ^ 32 \<Longrightarrow>
   row_to_attempt st (new_attempt_row i e now na) = Inr (new_attempt_value i e (attempt_dir st e i) now na)"
  by (cases "na_source na"; cases "na_simulation na")
     (simp_all add: row_to_attempt_def row_source_def row_simulation_def new_attempt_row_def
        new_attempt_value_def attempt_state_parse_def)

lemma row_to_new_execution:
  "n < 2 ^ 64 \<Longrightarrow>
   row_to_execution st (new_execution_row i h n now nx) = Inr (new_execution_value i (execution_dir st i) h n now nx)"
  by (simp add: row_to_execution_def new_execution_row_def new_execution_value_def execution_state_parse_def)

text \<open>\<^verbatim>\<open>create_attempt\<close> stores what it returns: reading the new attempt back by its id gives the very
  record returned, casts of the sample size through SQLite's signed column included.\<close>

theorem create_attempt_read_back:
  assumes "create_attempt u now na f st = (Inr a, st')"
    and "\<forall>n. na_source na = Sampled n \<longrightarrow> n < 2 ^ 32"
  shows "get_attempt st' (at_id a) = Inr (Some a)"
  using assms(1) row_to_new_attempt[OF assms(2)]
  by (auto simp: create_attempt_def Let_def split_def get_attempt_def find_attempt_def find_append
      split: if_splits option.splits sum.splits)

lemma create_attempt_read_back_witness:
  "\<exists>a st'. create_attempt ''2'' 20 \<lparr> na_execution_id = ''e_1'', na_handler_instance_id = ''hi_1'',
      na_parent_attempt_id = None, na_source = Sampled 3, na_simulation = Real \<rparr> None demo_store = (Inr a, st') \<and>
    get_attempt st' (at_id a) = Inr (Some a)"
proof -
  let ?na = "\<lparr> na_execution_id = ''e_1'', na_handler_instance_id = ''hi_1'',
      na_parent_attempt_id = None, na_source = Sampled 3, na_simulation = Real \<rparr>"
  have "\<not> isl (fst (create_attempt ''2'' 20 ?na None demo_store))"
    by code_simp
  then obtain a st' where c: "create_attempt ''2'' 20 ?na None demo_store = (Inr a, st')"
    by (cases "create_attempt ''2'' 20 ?na None demo_store") (auto simp: isl_def, metis sum.exhaust)
  show ?thesis using create_attempt_read_back[OF c] c by auto
qed

lemma count_byte_total: "fold count_byte xs (c\<lparr> rc_total := t \<rparr>) = (fold count_byte xs c)\<lparr> rc_total := t \<rparr>"
proof (induction xs arbitrary: c)
  case (Cons x xs)
  have "count_byte x (c\<lparr> rc_total := t \<rparr>) = (count_byte x c)\<lparr> rc_total := t \<rparr>"
    by (simp add: count_byte_def)
  then show ?case by (simp add: Cons)
qed simp

lemma count_bytes:
  "fold count_byte xs c =
     \<lparr> rc_newlines = rc_newlines c + length (filter (\<lambda>b. b = newline) xs),
       rc_last_nl = (if xs = [] then rc_last_nl c else last xs = newline), rc_total = rc_total c \<rparr>"
  by (induction xs arbitrary: c) (auto simp: count_byte_def)

lemma count_chunks:
  "fold count_chunk chunks c =
     (fold count_byte (concat chunks) c)\<lparr> rc_total := rc_total c + length (concat chunks) \<rparr>"
proof (induction chunks arbitrary: c)
  case (Cons b chunks)
  then show ?case by (simp add: count_chunk_def Let_def count_byte_total count_bytes)
qed simp

lemma split_lines_length:
  "length (split_lines xs) =
     length (filter (\<lambda>b. b = newline) xs) + (if xs \<noteq> [] \<and> last xs \<noteq> newline then 1 else 0)"
  by (induction xs rule: split_lines.induct) (auto split: list.splits if_splits)

lemma hash_and_count_rows_lines:
  "hash_and_count_rows sha j chunks =
     (''sha256:'' @ sha (concat chunks),
      if j then length (split_lines (concat chunks)) else length (split_lines (concat chunks)) - 1)"
  by (auto simp: hash_and_count_rows_def count_chunks count_bytes split_lines_length Let_def)

lemma split_lines_le: "length (split_lines xs) \<le> length xs"
  by (induction xs rule: split_lines.induct) (auto split: list.splits)

lemma snapshot_count: "snapshot_input sha chunks ext d f st = (Inr (h, n), st', f') \<Longrightarrow> n \<le> length (concat chunks)"
  using split_lines_le[of "concat chunks"]
  by (auto simp: snapshot_input_def Let_def split_def hash_and_count_rows_lines split: if_splits)

text \<open>Counting the rows of an input does not depend on how the file was cut into the chunks read: the hash is
  that of the whole content, and the count is the number of its lines (an unterminated last line counts), less
  the header line of a CSV.\<close>

theorem row_count_is_lines:
  "hash_and_count_rows sha is_jsonl chunks =
     (''sha256:'' @ sha (concat chunks),
      if is_jsonl then length (split_lines (concat chunks)) else length (split_lines (concat chunks)) - 1)"
  by (rule hash_and_count_rows_lines)

lemma path_join_tmp: "path_join d ''manifest.json.tmp'' \<noteq> path_join d ''manifest.json''"
  by (simp add: path_join_def starts_with_def)

lemma write_manifest_mirror:
  "write_manifest d x f st = (Inr (), st', f') \<Longrightarrow>
   st_mirror st' (path_join d ''manifest.json'') = Some x \<and> st_mirror st' (path_join d ''manifest.json.tmp'') = None"
  using path_join_tmp[of d] by (auto simp: write_manifest_def Let_def split_def split: if_splits)

text \<open>The same for \<^verbatim>\<open>create_execution\<close>: when it succeeds, reading the execution back gives the record
  returned (row counts below \<open>2 ^ 64\<close>), and the \<^verbatim>\<open>manifest.json\<close> mirror in its directory is that record,
  with no temporary file left.\<close>

theorem create_execution_read_back:
  assumes "create_execution sha src ext u now nx f st = (Inr x, st')"
    and "\<forall>cs. src = Some cs \<longrightarrow> length (concat cs) < 2 ^ 64"
  shows "get_execution st' (ex_id x) = Inr (Some x) \<and>
     st_mirror st' (path_join (ex_dir x) ''manifest.json'') = Some x \<and>
     st_mirror st' (path_join (ex_dir x) ''manifest.json.tmp'') = None"
proof -
  obtain chunks where src: "src = Some chunks"
    using assms(1) by (cases src) (simp_all add: create_execution_def)
  define i where "i = ''e_'' @ u"
  let ?dir = "execution_dir st i"
  note c = assms(1)[unfolded create_execution_def src option.case Let_def, folded i_def]
  obtain r st1 f1 where s: "snapshot_input sha chunks ext ?dir f st = (r, st1, f1)" by (metis prod_cases3)
  obtain hsh n where r: "r = Inr (hsh, n)"
    using c by (cases r) (auto simp: s)
  have n: "n < 2 ^ 64"
    using snapshot_count[OF s[unfolded r]] assms(2) src by simp
  let ?x = "new_execution_value i ?dir hsh n now nx" and ?row = "new_execution_row i hsh n now nx"
  let ?st2 = "st1\<lparr> st_execs := st_execs st1 @ [?row] \<rparr>"
  obtain w st3 f3 where w: "write_manifest ?dir ?x f1 ?st2 = (w, st3, f3)" by (metis prod_cases3)
  have fresh: "find_exec st1 i = None" and x: "x = ?x" and wr: "w = Inr ()" and st': "st' = st3"
    using c by (auto simp: s r w split: if_splits sum.splits)
  have "st_execs (fst (snd (write_manifest ?dir ?x f1 ?st2))) = st_execs st1 @ [?row]"
    by simp
  then have fe: "find_exec st3 i = Some ?row"
    using fresh unfolding w by (simp add: find_exec_def find_append)
  have "st_home (fst (snd (write_manifest ?dir ?x f1 ?st2))) = st_home st"
    using snapshot_input_tables[OF s] by simp
  then have home: "execution_dir st3 i = ?dir" unfolding w by (simp add: execution_dir_def)
  have ids: "ex_id x = i" "ex_dir x = ?dir" by (simp_all add: x new_execution_value_def)
  have "get_execution st' i = Inr (Some x)"
    using row_to_new_execution[OF n, of st3 i hsh now nx] fe home by (simp add: get_execution_def x st')
  then show ?thesis
    using write_manifest_mirror[OF w[unfolded wr]] ids x st' by simp
qed

lemma create_execution_read_back_witness:
  "\<exists>x st'. create_execution (\<lambda>s. s) (Some [''h'', [newline], ''a'']) None ''7'' 5
      \<lparr> nx_name = None, nx_input_csv_id = ''in'', nx_input_csv_path = ''/in'', nx_current_handler_instance_id = None \<rparr>
      None (empty_store ''/w'') = (Inr x, st') \<and> get_execution st' (ex_id x) = Inr (Some x)"
proof -
  let ?nx = "\<lparr> nx_name = None, nx_input_csv_id = ''in'', nx_input_csv_path = ''/in'',
      nx_current_handler_instance_id = None \<rparr>"
  let ?c = "create_execution (\<lambda>s. s) (Some [''h'', [newline], ''a'']) None ''7'' 5 ?nx None (empty_store ''/w'')"
  have "\<not> isl (fst ?c)" by code_simp
  then obtain x st' where c: "?c = (Inr x, st')"
    by (cases ?c) (auto simp: isl_def, metis sum.exhaust)
  show ?thesis using create_execution_read_back[OF c] c by auto
qed

section \<open>Finishing, deleting, registering\<close>

lemma has_active_iff:
  "has_active_attempt st e \<longleftrightarrow> (\<exists>r\<in>set (st_attempts st). ar_execution_id r = e \<and> \<not> is_terminal_text (ar_state r))"
  by (auto simp: has_active_attempt_def filter_empty_conv)

lemma has_active_handler_iff:
  "has_active_attempt_for_handler_dir st d \<longleftrightarrow>
     (\<exists>r\<in>set (st_attempts st). \<not> is_terminal_text (ar_state r) \<and>
        (\<exists>h\<in>set (st_his st). hi_id h = ar_handler_instance_id r \<and> hi_source_snapshot_dir h = d))"
  by (fastforce simp: has_active_attempt_for_handler_dir_def concat_eq_Nil_conv)

lemma find_distinct:
  "distinct (map f xs) \<Longrightarrow> x \<in> set xs \<Longrightarrow> List.find (\<lambda>y. f y = f x) xs = Some x"
  by (induction xs) auto

lemma attempt_row_parses: "attempt_row_ok r \<Longrightarrow> \<exists>a. row_to_attempt st r = Inr a \<and>
    at_id a = ar_id r \<and> at_execution_id a = ar_execution_id r \<and>
    (at_state a = Running \<longleftrightarrow> ar_state r = ''running'')"
  by (auto simp: attempt_row_ok_def row_to_attempt_def row_source_def row_simulation_def attempt_state_parse_def)

lemma exec_row_parses: "exec_row_ok r \<Longrightarrow> \<exists>x. row_to_execution st r = Inr x \<and>
    ex_id x = xr_id r \<and> execution_state_str (ex_state x) = xr_state r"
  by (auto simp: exec_row_ok_def row_to_execution_def execution_state_parse_def)

lemma get_execution_found:
  assumes "store_ok st" "i \<in> xr_id ` set (st_execs st)"
  shows "\<exists>x. get_execution st i = Inr (Some x) \<and> ex_id x = i"
proof -
  obtain r where r: "find_exec st i = Some r"
    using assms(2) by (cases "find_exec st i") (auto simp: find_exec_def find_none_iff)
  then have "exec_row_ok r \<and> xr_id r = i"
    using assms(1) find_in[of "\<lambda>r. xr_id r = i" "st_execs st" r]
    by (simp add: find_exec_def store_ok_def tables_ok_def list_all_iff)
  then show ?thesis using exec_row_parses[of r st] r by (auto simp: get_execution_def)
qed

lemma set_state_writes:
  assumes "store_ok st" "i \<in> xr_id ` set (st_execs st)"
  shows "\<exists>x. fst (set_execution_state i s re now None st) = Inr x \<and> ex_state x = s \<and> ex_id x = i"
proof -
  let ?g = "set_state_row s re now"
  let ?st1 = "snd (update_exec i ?g st)"
  obtain r where r: "find_exec st i = Some r"
    using assms(2) by (cases "find_exec st i") (auto simp: find_exec_def find_none_iff)
  have f1: "find_exec ?st1 i = Some (?g r)"
    using r find_in[OF r[unfolded find_exec_def]]
    by (auto simp: find_exec_def find_map_same)
  have n: "fst (update_exec i ?g st) \<noteq> 0"
    using assms(2) by (auto simp: filter_empty_conv)
  have ok: "exec_row_ok (?g r)" by (rule set_state_row_ok)
  obtain x where x: "row_to_execution ?st1 (?g r) = Inr x" "ex_id x = xr_id r"
      "execution_state_str (ex_state x) = xr_state (?g r)"
    using exec_row_parses[OF ok, of ?st1] by auto
  have "xr_state (?g r) = execution_state_str s"
    by (simp add: set_state_row_def Let_def split: execution_state.splits)
  then have xs: "ex_state x = s" using x(3) by (metis exec_parse_str sum.inject(2))
  have g: "get_execution ?st1 i = Inr (Some x)" using f1 x by (simp add: get_execution_def)
  have "xr_id r = i" using find_in[OF r[unfolded find_exec_def]] by simp
  then show ?thesis
    using n g x xs
    by (simp add: set_execution_state_def split_def Let_def write_manifest_def)
qed

lemma finish_running:
  assumes "store_ok st" "r \<in> set (st_attempts st)" "ar_state r = ''running''"
    and "finish_attempt (ar_id r) fi now None st = (res, st')"
  shows "(\<exists>a. res = Inr a \<and> at_id a = ar_id r \<and> at_state a = (if fi_aborted fi then Aborted else Completed)) \<and>
     find_attempt st' (ar_id r) = Some (finish_row fi now r) \<and>
     finish_attempt (ar_id r) fi2 now2 f2 st' =
       (Inl (Store (''attempt not found or not running: '' @ ar_id r)), st')"
proof -
  let ?h = "\<lambda>x. if ar_id x = ar_id r \<and> ar_state x = ''running'' then finish_row fi now x else x"
  let ?st1 = "st\<lparr> st_attempts := map ?h (st_attempts st) \<rparr>" and ?r = "finish_row fi now r"
  have rok: "attempt_row_ok r" and d: "distinct (map ar_id (st_attempts st))"
    using assms(1,2) by (auto simp: store_ok_def tables_ok_def list_all_iff)
  have ok1: "store_ok ?st1"
    using assms(1) by (auto simp: store_ok_def finish_row_ok intro!: tables_ok_attempts)
  have fa: "find_attempt ?st1 (ar_id r) = Some ?r"
    using find_distinct[OF d assms(2)] assms(3) by (simp add: find_attempt_def find_map_same)
  obtain a where a: "row_to_attempt ?st1 ?r = Inr a" "at_id a = ar_id r" "at_execution_id a = ar_execution_id r"
      "at_state a = (if fi_aborted fi then Aborted else Completed)"
    using finish_row_ok[OF rok, of fi now]
    by (cases "fi_aborted fi") (auto simp: attempt_row_ok_def row_to_attempt_def row_source_def
        row_simulation_def attempt_state_parse_def finish_row_def)
  have e: "ar_execution_id r \<in> xr_id ` set (st_execs ?st1)"
    using assms(1,2) by (auto simp: store_ok_def tables_ok_def)
  obtain x where x: "get_execution ?st1 (ar_execution_id r) = Inr (Some x)" "ex_id x = ar_execution_id r"
    using get_execution_found[OF ok1 e] by auto
  have hit: "filter (\<lambda>x. ar_id x = ar_id r \<and> ar_state x = ''running'') (st_attempts st) \<noteq> []"
    using assms(2,3) by (auto simp: filter_empty_conv)
  have res: "res = Inr a \<and> st_attempts st' = st_attempts ?st1"
  proof (cases "ex_state x = Open")
    case True
    obtain y st2 where y: "set_execution_state (ex_id x) Iterating None now None ?st1 = (Inr y, st2)"
      using set_state_writes[OF ok1 e, of Iterating None now] x(2)
      by (cases "set_execution_state (ex_id x) Iterating None now None ?st1") auto
    then have "st_attempts st2 = st_attempts ?st1"
      using set_execution_state_attempts[of "ex_id x" Iterating None now None ?st1] by simp
    then show ?thesis
      using assms(4) hit fa a x True y by (auto simp: finish_attempt_def Let_def get_attempt_def)
  next
    case False
    then show ?thesis
      using assms(4) hit fa a x by (auto simp: finish_attempt_def Let_def get_attempt_def)
  qed
  have gone: "filter (\<lambda>x. ar_id x = ar_id r \<and> ar_state x = ''running'') (st_attempts st') = []"
    using res by (auto simp: filter_empty_conv finish_row_def)
  show ?thesis
    using res a fa gone by (simp add: find_attempt_def finish_attempt_def)
qed

text \<open>Finishing a running attempt of a well-formed registry succeeds (no file operation failing): the value
  returned is terminal, the stored row carries the counts and reasons given, and an execution that was
  OPEN is ITERATING afterwards; finishing it a second time is refused and changes nothing.\<close>

theorem finish_attempt_once:
  assumes "store_ok st" "r \<in> set (st_attempts st)" "ar_state r = ''running''"
    and "finish_attempt (ar_id r) fi now None st = (res, st')"
  shows "(\<exists>a. res = Inr a \<and> at_id a = ar_id r \<and> at_state a = (if fi_aborted fi then Aborted else Completed)) \<and>
     find_attempt st' (ar_id r) = Some (finish_row fi now r) \<and>
     finish_attempt (ar_id r) fi2 now2 f2 st' =
       (Inl (Store (''attempt not found or not running: '' @ ar_id r)), st')"
  by (rule finish_running[OF assms])

definition demo_running :: store where
  "demo_running = fold (run_op (\<lambda>s. s)) (take 3 demo_ops) (empty_store ''/w'')"

lemma demo_running_row: "\<exists>r. st_attempts demo_running = [r] \<and> ar_id r = ''r_1'' \<and> ar_state r = ''running''"
proof -
  have "map (\<lambda>r. (ar_id r, ar_state r)) (st_attempts demo_running) = [(''r_1'', ''running'')]"
    by code_simp
  then show ?thesis by (auto simp: map_eq_Cons_conv)
qed

lemma demo_running_ok: "store_ok demo_running"
  unfolding demo_running_def by (rule run_ops_ok[OF empty_store_ok])

lemma finish_attempt_once_witness:
  "\<exists>a. fst (finish_attempt ''r_1'' \<lparr> fi_success_count = 2, fi_failed_count = 1, fi_aborted = True,
      fi_aborted_reason = None, fi_cancelled_reason = None \<rparr> 9 None demo_running) = Inr a \<and> at_state a = Aborted"
proof -
  let ?fi = "\<lparr> fi_success_count = 2, fi_failed_count = 1, fi_aborted = True,
      fi_aborted_reason = None, fi_cancelled_reason = None \<rparr>"
  obtain r where r: "st_attempts demo_running = [r]" "ar_id r = ''r_1''" "ar_state r = ''running''"
    using demo_running_row by auto
  obtain res st' where f: "finish_attempt (ar_id r) ?fi 9 None demo_running = (res, st')" by force
  show ?thesis
    using conjunct1[OF finish_attempt_once[OF demo_running_ok _ r(3) f]] r f by auto
qed

text \<open>Deleting an execution removes it and every attempt of it, touches no row of any other execution and
  no handler instance, and answers whether it existed; deleting it again answers false.\<close>

theorem delete_execution_exact:
  assumes "store_ok st" "delete_execution e st = (b, st')"
  shows "(b \<longleftrightarrow> e \<in> xr_id ` set (st_execs st)) \<and>
     get_execution st' e = Inr None \<and> list_attempts_for_execution st' e = Inr [] \<and>
     (\<forall>e'. e' \<noteq> e \<longrightarrow> get_execution st' e' = get_execution st e' \<and>
        list_attempts_for_execution st' e' = list_attempts_for_execution st e') \<and>
     st_his st' = st_his st \<and> \<not> has_active_attempt st' e \<and>
     fst (delete_execution e st') = False"
proof -
  have st': "st' = st\<lparr> st_attempts := filter (\<lambda>r. ar_execution_id r \<noteq> e) (st_attempts st),
      st_execs := filter (\<lambda>r. xr_id r \<noteq> e) (st_execs st) \<rparr>"
    and b: "b = (filter (\<lambda>r. xr_id r = e) (st_execs st) \<noteq> [])"
    using assms(2) by (auto simp: delete_execution_def)
  have fe: "List.find (\<lambda>r. xr_id r = e') (filter (\<lambda>r. xr_id r \<noteq> e) xs) =
      (if e' = e then None else List.find (\<lambda>r. xr_id r = e') xs)" for e' xs
    by (induction xs) auto
  have fa: "filter (\<lambda>r. ar_execution_id r = e') (filter (\<lambda>r. ar_execution_id r \<noteq> e) xs) =
      (if e' = e then [] else filter (\<lambda>r. ar_execution_id r = e') xs)" for e' xs
    by (induction xs) auto
  have dir: "execution_dir st' = execution_dir st"
    by (rule ext) (simp add: execution_dir_def st')
  have rx: "row_to_execution st' = row_to_execution st"
    unfolding fun_eq_iff row_to_execution_def dir by simp
  have ra: "row_to_attempt st' = row_to_attempt st"
    unfolding fun_eq_iff row_to_attempt_def attempt_dir_def dir by simp
  have tabs: "st_execs st' = filter (\<lambda>r. xr_id r \<noteq> e) (st_execs st)"
    "st_attempts st' = filter (\<lambda>r. ar_execution_id r \<noteq> e) (st_attempts st)" "st_his st' = st_his st"
    by (simp_all add: st')
  have ge: "get_execution st' e' = (if e' = e then Inr None else get_execution st e')" for e'
    by (simp only: get_execution_def find_exec_def tabs fe rx) simp
  have la: "list_attempts_for_execution st' e' = (if e' = e then Inr [] else list_attempts_for_execution st e')" for e'
    by (simp only: list_attempts_for_execution_def tabs fa ra) simp
  show ?thesis
    using b tabs by (auto simp: ge la has_active_iff delete_execution_def filter_empty_conv)
qed

lemma demo_store_ok: "store_ok demo_store"
  unfolding demo_store_def by (rule run_ops_ok[OF empty_store_ok])

lemma delete_execution_exact_witness:
  "get_execution (snd (delete_execution ''e_1'' demo_store)) ''e_1'' = Inr None"
  using delete_execution_exact[OF demo_store_ok, of "''e_1''"] by (metis prod.collapse)

text \<open>Handler instances are content addressed: registering the same handler, manifest hash and snapshot
  directory again, with another fresh id at another time, returns the first instance and leaves the registry as it is.\<close>

theorem register_idempotent:
  assumes "register_handler_instance u now nh st = (Inr h, st')"
    and "nh_handler_id nh' = nh_handler_id nh" "nh_manifest_hash nh' = nh_manifest_hash nh"
    and "nh_source_snapshot_dir nh' = nh_source_snapshot_dir nh"
  shows "register_handler_instance u' now' nh' st' = (Inr h, st') \<and>
     hi_content h = (nh_handler_id nh, nh_manifest_hash nh, nh_source_snapshot_dir nh)"
proof (cases "find_content st (nh_handler_id nh) (nh_manifest_hash nh) (nh_source_snapshot_dir nh)")
  case None
  then show ?thesis
    using assms
    by (auto simp: register_handler_instance_def Let_def find_content_def find_append hi_content_def split: if_splits)
next
  case (Some h')
  then show ?thesis
    using assms find_in[OF Some[unfolded find_content_def]]
    by (auto simp: register_handler_instance_def hi_content_def)
qed

lemma register_idempotent_witness:
  "\<exists>h st'. register_handler_instance ''2'' 30
      \<lparr> nh_handler_id = ''h'', nh_manifest_hash = ''m'', nh_source_snapshot_dir = ''/h'', nh_binary_hash = Some ''b'' \<rparr> st'
      = (Inr h, st')"
proof -
  let ?nh = "\<lparr> nh_handler_id = ''h'', nh_manifest_hash = ''m'', nh_source_snapshot_dir = ''/h'', nh_binary_hash = None \<rparr>"
  have "\<exists>h st'. register_handler_instance ''1'' 6 ?nh (empty_store ''/w'') = (Inr h, st')"
    by (simp add: register_handler_instance_def find_content_def get_handler_instance_def empty_store_def Let_def)
  then obtain h st' where r: "register_handler_instance ''1'' 6 ?nh (empty_store ''/w'') = (Inr h, st')" by blast
  show ?thesis
    using register_idempotent[OF r, of "?nh\<lparr> nh_binary_hash := Some ''b'' \<rparr>" "''2''" 30] by auto
qed

section \<open>Migrations\<close>

definition tables_v1 :: "(string \<times> string list) list" where
  "tables_v1 = [(''executions'', execution_columns_v1), (''handler_instances'', handler_instance_columns)]"

definition tables_v4 :: "(string \<times> string list) list" where
  "tables_v4 =
     [(''executions'', execution_columns_v1 @ [''last_handler_dir'']),
      (''handler_instances'', handler_instance_columns),
      (''attempts'', attempt_columns_v2 @ [''cancelled_reason''])]"

text \<open>The tables a binary of each older schema version left behind.\<close>

definition schema_at :: "nat \<Rightarrow> schema" where
  "schema_at v =
     (if v = 0 then \<lparr> sc_version = None, sc_tables = [] \<rparr>
      else if v = 1 then \<lparr> sc_version = Some 1, sc_tables = tables_v1 \<rparr>
      else if v = 2 then \<lparr> sc_version = Some 2, sc_tables = tables_v1 @ [(''attempts'', attempt_columns_v2)] \<rparr>
      else if v = 3 then
        \<lparr> sc_version = Some 3,
          sc_tables = [(''executions'', execution_columns_v1 @ [''last_handler_dir'']),
                       (''handler_instances'', handler_instance_columns), (''attempts'', attempt_columns_v2)] \<rparr>
      else \<lparr> sc_version = Some 4, sc_tables = tables_v4 \<rparr>)"

lemmas migration_defs = migrate_def run_migrations_def MIGRATION_V1_def MIGRATION_V2_def MIGRATION_V3_def
  MIGRATION_V4_def create_table_def add_column_def SCHEMA_VERSION_def schema_at_def tables_v1_def tables_v4_def
  execution_columns_v1_def handler_instance_columns_def attempt_columns_v2_def

lemma migrate_each:
  "migrate (schema_at 0) = Inr (schema_at 4)" "migrate (schema_at 1) = Inr (schema_at 4)"
  "migrate (schema_at 2) = Inr (schema_at 4)" "migrate (schema_at 3) = Inr (schema_at 4)"
  "migrate (schema_at 4) = Inr (schema_at 4)"
  by (simp_all add: migration_defs)

text \<open>Opening a registry of any schema version up to the current one, or a new file, ends in the same
  tables at version 4, and opening it again changes nothing; a newer version is refused (the error shows the
  version modulo 256) and leaves the file alone, as does a version below 1.\<close>

theorem migrate_converges:
  "v \<le> 4 \<Longrightarrow> migrate (schema_at v) = Inr (schema_at 4) \<and> migrate (schema_at 4) = Inr (schema_at 4) \<and>
   (\<forall>n ts. n > 4 \<longrightarrow> migrate \<lparr> sc_version = Some n, sc_tables = ts \<rparr> = Inl (Schema_Too_New (word_of_int n) 4)) \<and>
   (\<forall>n ts. n < 1 \<longrightarrow> (\<exists>m. migrate \<lparr> sc_version = Some n, sc_tables = ts \<rparr> = Inl (Store m)))"
proof -
  assume "v \<le> 4"
  then have "v \<in> {0, 1, 2, 3, 4}" by auto
  then have "migrate (schema_at v) = Inr (schema_at 4)" using migrate_each by auto
  then show ?thesis
    using migrate_each(5) by (auto simp: migrate_def SCHEMA_VERSION_def i64_as_u8_def)
qed

lemma migrate_converges_witness: "migrate (schema_at 2) = Inr (schema_at 4)"
  using migrate_converges[of 2] by simp


section \<open>Registering, creating and finishing, for the callers\<close>

lemma create_attempt_Inr:
  assumes "create_attempt u now na f st = (Inr att, st')"
  shows "\<exists>e. st_attempts st' = st_attempts st @ [new_attempt_row (''r_'' @ u) e now na] \<and> at_id att = ''r_'' @ u \<and>
     find_attempt st (''r_'' @ u) = None"
proof -
  have "find_attempt (st_dirs_update g st) i = find_attempt st i" for g i by (simp add: find_attempt_def)
  then show ?thesis
    using assms by (auto simp: create_attempt_def Let_def split_def split: sum.splits option.splits if_splits)
qed

lemma create_attempt_Inl: "create_attempt u now na f st = (Inl e, st') \<Longrightarrow> st_attempts st' = st_attempts st"
  by (auto simp: create_attempt_def Let_def split_def split: sum.splits option.splits if_splits)

lemma register_attempts: "register_handler_instance u now nh st = (r, st') \<Longrightarrow> st_attempts st' = st_attempts st"
  by (auto simp: register_handler_instance_def Let_def split: option.splits if_splits)

lemma find_attempt_finish:
  "find_attempt (snd (finish_attempt i fi t f st)) i =
     map_option (\<lambda>r. if ar_id r = i \<and> ar_state r = ''running'' then finish_row fi t r else r) (find_attempt st i)"
  unfolding find_attempt_def finish_attempt_attempts by (rule find_map_same) simp

lemma find_attempt_finished:
  assumes "st_attempts st2 = st_attempts st @ [new_attempt_row i e now na]" "find_attempt st i = None"
  shows "find_attempt (snd (finish_attempt i fi t f st2)) i = Some (finish_row fi t (new_attempt_row i e now na))"
proof -
  let ?h = "\<lambda>r. if ar_id r = i \<and> ar_state r = ''running'' then finish_row fi t r else r"
  have "find_attempt (snd (finish_attempt i fi t f st2)) i = map_option ?h (find_attempt st2 i)"
    by (rule find_attempt_finish)
  moreover have "find_attempt st2 i = Some (new_attempt_row i e now na)"
    using assms by (simp add: find_attempt_def find_append new_attempt_row_def)
  moreover have "ar_state (new_attempt_row i e now na) = ''running''" by (simp add: new_attempt_row_def)
  ultimately show ?thesis by (simp add: new_attempt_row_def)
qed

lemma finish_row_state: "ar_state (finish_row fi t r) = (if fi_aborted fi then ''aborted'' else ''completed'')"
  by (simp add: finish_row_def)

end
