(* ===== verification/Json_Values.thy ===== *)
theory Json_Values
  imports Prelude
begin

text \<open>
  The JSON values of \<^verbatim>\<open>serde_json\<close>: numbers keep the three representations of \<^verbatim>\<open>serde_json::Number\<close>
  (a non-negative integer, a negative one given by its magnitude, a float given by its printed text), and
  objects are ordered maps (\<^verbatim>\<open>serde_json::Map\<close> without the \<^verbatim>\<open>preserve_order\<close> feature is a
  \<^verbatim>\<open>BTreeMap\<close>). The text of a value and the parser of it belong to the library and are parameters
  of the definitions that use them.
\<close>

datatype jnum = PosInt nat | NegInt nat | Float string

datatype json =
    JNull
  | JBool bool
  | JNumber jnum
  | JString string
  | JArray "json list"
  | JObject "(string \<times> json) list"

type_synonym obj = "(string, json) bt"

fun as_u64 :: "json \<Rightarrow> nat option" where
  "as_u64 (JNumber (PosInt n)) = Some n"
| "as_u64 _ = None"

fun as_str :: "json \<Rightarrow> string option" where
  "as_str (JString s) = Some s"
| "as_str _ = None"

fun as_object :: "json \<Rightarrow> obj option" where
  "as_object (JObject m) = Some m"
| "as_object _ = None"

fun as_array :: "json \<Rightarrow> json list option" where
  "as_array (JArray xs) = Some xs"
| "as_array _ = None"

text \<open>\<^verbatim>\<open>v["key"]\<close> and \<^verbatim>\<open>v.get("key")\<close>\<close>

definition jget :: "json \<Rightarrow> string \<Rightarrow> json option" where
  "jget v k = (case as_object v of None \<Rightarrow> None | Some m \<Rightarrow> bt_lookup m k)"

definition junum :: "nat \<Rightarrow> json" where "junum n = JNumber (PosInt n)"

definition jfield_u64 :: "obj \<Rightarrow> string \<Rightarrow> nat option" where
  "jfield_u64 m k = Option.bind (bt_lookup m k) as_u64"

definition jfield_str :: "obj \<Rightarrow> string \<Rightarrow> string option" where
  "jfield_str m k = Option.bind (bt_lookup m k) as_str"

definition jfield_obj :: "obj \<Rightarrow> string \<Rightarrow> obj option" where
  "jfield_obj m k = Option.bind (bt_lookup m k) as_object"

definition jfield_list :: "obj \<Rightarrow> string \<Rightarrow> json list option" where
  "jfield_list m k = Option.bind (bt_lookup m k) as_array"

text \<open>A field of type \<^verbatim>\<open>Option<Map>\<close>: absent and \<^verbatim>\<open>null\<close> are both \<^verbatim>\<open>None\<close>, any other value must be an object.\<close>

definition jfield_opt_obj :: "obj \<Rightarrow> string \<Rightarrow> obj option option" where
  "jfield_opt_obj m k =
     (case bt_lookup m k of
        None \<Rightarrow> Some None
      | Some JNull \<Rightarrow> Some None
      | Some v \<Rightarrow> map_option Some (as_object v))"

fun those_map :: "('a \<Rightarrow> 'b option) \<Rightarrow> 'a list \<Rightarrow> 'b list option" where
  "those_map f [] = Some []"
| "those_map f (x # xs) =
     (case f x of None \<Rightarrow> None | Some y \<Rightarrow> map_option ((#) y) (those_map f xs))"

lemma those_map_roundtrip: "(\<And>x. x \<in> set xs \<Longrightarrow> f (g x) = Some x) \<Longrightarrow> those_map f (map g xs) = Some xs"
  by (induction xs) auto

lemma those_map_length: "those_map f xs = Some ys \<Longrightarrow> length ys = length xs"
  by (induction xs arbitrary: ys) (auto split: option.splits)

named_theorems jsimps "reading fields back"

lemmas [jsimps] = jfield_u64_def jfield_str_def jfield_obj_def jfield_list_def jfield_opt_obj_def
  bt_lookup_from_list junum_def

end
