(* ===== verification/Runtime_Manifest.thy ===== *)
theory Runtime_Manifest
  imports Json_Values
begin

text \<open>
  The manifest of a handler and its \<^verbatim>\<open>runtime:\<close> block (\<^verbatim>\<open>runtime.rs\<close>, \<^verbatim>\<open>manifest.rs\<close>): the records, the
  serde defaults, \<^verbatim>\<open>Runtime::validate\<close> with its messages, and \<^verbatim>\<open>Manifest::load_from_dir\<close> over a
  parameter for the YAML parser and for the file.
\<close>

definition MIN_BATCH_SIZE :: nat where "MIN_BATCH_SIZE = 1"
definition MAX_BATCH_SIZE :: nat where "MAX_BATCH_SIZE = 10000"
definition DEFAULT_MAX_BATCH_BYTES :: nat where "DEFAULT_MAX_BATCH_BYTES = 16 * 1024 * 1024"
definition DEFAULT_BATCH_BYTES_TARGET :: nat where "DEFAULT_BATCH_BYTES_TARGET = 4 * 1024 * 1024"
definition ROW_HARD_CAP_BYTES :: nat where "ROW_HARD_CAP_BYTES = 4 * 1024 * 1024"

datatype mode = Row | Batch

record runtime =
  rt_mode :: mode
  rt_batch_size :: "nat option"
  rt_max_batch_bytes :: nat
  rt_batch_bytes_target :: nat
  rt_idempotent :: "bool option"
  rt_stateful :: bool

definition runtime_default :: runtime where
  "runtime_default =
     \<lparr> rt_mode = Row, rt_batch_size = None, rt_max_batch_bytes = DEFAULT_MAX_BATCH_BYTES,
       rt_batch_bytes_target = DEFAULT_BATCH_BYTES_TARGET, rt_idempotent = None, rt_stateful = False \<rparr>"

text \<open>The fields as YAML gives them, each absent one filled by its \<^verbatim>\<open>#[serde(default)]\<close>.\<close>

definition runtime_of_fields ::
    "mode \<Rightarrow> nat option \<Rightarrow> nat option \<Rightarrow> nat option \<Rightarrow> bool option \<Rightarrow> bool option \<Rightarrow> runtime" where
  "runtime_of_fields m bs mbb bbt idem st =
     \<lparr> rt_mode = m, rt_batch_size = bs,
       rt_max_batch_bytes = (case mbb of None \<Rightarrow> DEFAULT_MAX_BATCH_BYTES | Some n \<Rightarrow> n),
       rt_batch_bytes_target = (case bbt of None \<Rightarrow> DEFAULT_BATCH_BYTES_TARGET | Some n \<Rightarrow> n),
       rt_idempotent = idem, rt_stateful = (case st of None \<Rightarrow> False | Some b \<Rightarrow> b) \<rparr>"

definition runtime_validate :: "runtime \<Rightarrow> string + unit" where
  "runtime_validate r =
     (case rt_mode r of
        Row \<Rightarrow> Inr ()
      | Batch \<Rightarrow>
         (case rt_batch_size r of
            None \<Rightarrow> Inl ''runtime.batch_size required when mode=batch''
          | Some bs \<Rightarrow>
              if \<not> (MIN_BATCH_SIZE \<le> bs \<and> bs \<le> MAX_BATCH_SIZE) then
                Inl (''runtime.batch_size must be in '' @ nat_str MIN_BATCH_SIZE @ ''..='' @
                     nat_str MAX_BATCH_SIZE @ '', got '' @ nat_str bs)
              else (case rt_idempotent r of
                 None \<Rightarrow> Inl ''runtime.idempotent required when mode=batch (true or false; no default)''
               | Some _ \<Rightarrow>
                   if rt_max_batch_bytes r = 0 then Inl ''runtime.max_batch_bytes must be > 0''
                   else if rt_max_batch_bytes r < ROW_HARD_CAP_BYTES then
                     Inl (''runtime.max_batch_bytes ('' @ nat_str (rt_max_batch_bytes r) @
                          '') must be >= per-row hard cap ('' @ nat_str ROW_HARD_CAP_BYTES @ '')'')
                   else Inr ())))"

text \<open>What a validated block promises the pool.\<close>

definition runtime_ok :: "runtime \<Rightarrow> bool" where
  "runtime_ok r =
     (rt_mode r = Row \<or>
      ((\<exists>bs. rt_batch_size r = Some bs \<and> 1 \<le> bs \<and> bs \<le> 10000) \<and>
       rt_idempotent r \<noteq> None \<and> ROW_HARD_CAP_BYTES \<le> rt_max_batch_bytes r))"

lemma runtime_validate_iff: "runtime_validate r = Inr () \<longleftrightarrow> runtime_ok r"
  by (auto simp: runtime_validate_def runtime_ok_def MIN_BATCH_SIZE_def MAX_BATCH_SIZE_def
        ROW_HARD_CAP_BYTES_def split: mode.splits option.splits if_splits)

lemma runtime_default_ok: "runtime_validate runtime_default = Inr ()"
  by (simp add: runtime_validate_def runtime_default_def)

section \<open>Manifest\<close>

record entry =
  en_cmd :: "string list"
  en_build :: "string list option"
  en_cwd :: string
  en_env :: "(string, string) bt"
  en_startup_timeout_ms :: nat

definition default_cwd :: string where "default_cwd = ''.''"
definition default_startup_timeout_ms :: nat where "default_startup_timeout_ms = 30000"

definition entry_of_fields ::
    "string list \<Rightarrow> string list option \<Rightarrow> string option \<Rightarrow> (string, string) bt option \<Rightarrow> nat option \<Rightarrow> entry" where
  "entry_of_fields cmd bld cwd env to =
     \<lparr> en_cmd = cmd, en_build = bld,
       en_cwd = (case cwd of None \<Rightarrow> default_cwd | Some c \<Rightarrow> c),
       en_env = (case env of None \<Rightarrow> [] | Some e \<Rightarrow> e),
       en_startup_timeout_ms = (case to of None \<Rightarrow> default_startup_timeout_ms | Some t \<Rightarrow> t) \<rparr>"

record manifest =
  mf_name :: string
  mf_version :: string
  mf_description :: string
  mf_language :: string
  mf_entry :: entry
  mf_required_input :: "string list"
  mf_config :: "(string, json) bt"
  mf_runtime :: "runtime option"
  mf_output :: "bool option"

text \<open>
  \<open>mf_config\<close> maps a name to the \<^verbatim>\<open>default\<close> of its \<^verbatim>\<open>ConfigField\<close>; \<open>mf_output\<close> is the
  \<^verbatim>\<open>include_meta\<close> flag of the optional \<^verbatim>\<open>output:\<close> block.
\<close>

definition include_meta :: "manifest \<Rightarrow> bool" where
  "include_meta m = (case mf_output m of None \<Rightarrow> False | Some b \<Rightarrow> b)"

text \<open>
  \<^verbatim>\<open>Manifest::load_from_dir\<close>: \<open>read\<close> gives the text of a file or an error message, \<open>yaml\<close> the parsed
  manifest or an error message.
\<close>

definition load_from_dir ::
    "(path \<Rightarrow> string + string) \<Rightarrow> (string \<Rightarrow> string + manifest) \<Rightarrow> path \<Rightarrow> string + (manifest \<times> path)" where
  "load_from_dir read yaml dir =
     (let path = path_join dir ''rowforge.yaml'' in
      case read path of
        Inl e \<Rightarrow> Inl (''read '' @ path @ '': '' @ e)
      | Inr raw \<Rightarrow>
         (case yaml raw of
            Inl e \<Rightarrow> Inl (''parse '' @ path @ '': '' @ e)
          | Inr m \<Rightarrow>
             (case mf_runtime m of
                None \<Rightarrow> Inr (m, path)
              | Some rt \<Rightarrow>
                 (case runtime_validate rt of
                    Inl e \<Rightarrow> Inl (''manifest.runtime: '' @ e)
                  | Inr () \<Rightarrow> Inr (m, path)))))"

lemma load_from_dir_runtime_ok:
  assumes "load_from_dir read yaml dir = Inr (m, p)" "mf_runtime m = Some rt"
  shows "runtime_ok rt"
  using assms
  by (auto simp: load_from_dir_def runtime_validate_iff[symmetric] Let_def split: sum.splits option.splits unit.splits)

end
