(* ===== verification/Protocol.thy ===== *)
theory Protocol
  imports Runtime_Manifest Core_Error
begin

text \<open>
  The messages between the application and a handler (\<^verbatim>\<open>protocol.rs\<close>) and the outcomes recorded in
  \<^verbatim>\<open>outcomes.jsonl\<close> (\<^verbatim>\<open>pool.rs\<close>), with the JSON each serde attribute of the source prescribes: the
  internal tag, the snake case names, unknown fields ignored, the optional \<^verbatim>\<open>data\<close>. The text
  of a JSON value is a parameter (\<open>ser\<close>, \<open>parse\<close>).
\<close>

section \<open>Messages\<close>

record row_meta =
  rm_dry_run :: bool
  rm_row_index :: nat

record row_envelope =
  env_seq :: nat
  env_data :: obj
  env_meta :: row_meta

datatype outbound =
    Init string obj "string list"
  | Out_Row nat obj row_meta
  | Out_Batch "row_envelope list"
  | Shutdown

datatype batch_entry =
    Entry_Result obj
  | Entry_Error string string "obj option"

datatype inbound =
    Ready string
  | Inb_Result nat obj
  | Inb_Error nat string string "obj option"
  | Batch_Result "batch_entry list"

definition row_meta_json :: "row_meta \<Rightarrow> json" where
  "row_meta_json m = JObject (bt_from_list
     [(''dry_run'', JBool (rm_dry_run m)), (''row_index'', junum (rm_row_index m))])"

definition row_envelope_json :: "row_envelope \<Rightarrow> json" where
  "row_envelope_json e = JObject (bt_from_list
     [(''seq'', junum (env_seq e)), (''data'', JObject (env_data e)), (''meta'', row_meta_json (env_meta e))])"

fun outbound_json :: "outbound \<Rightarrow> json" where
  "outbound_json (Init rid config cols) = JObject (bt_from_list
     [(''type'', JString ''init''), (''run_id'', JString rid), (''config'', JObject config),
      (''meta'', JObject [(''columns'', JArray (map JString cols))])])"
| "outbound_json (Out_Row sq d m) = JObject (bt_from_list
     [(''type'', JString ''row''), (''seq'', junum sq), (''data'', JObject d), (''meta'', row_meta_json m)])"
| "outbound_json (Out_Batch rows) = JObject (bt_from_list
     [(''type'', JString ''batch''), (''rows'', JArray (map row_envelope_json rows))])"
| "outbound_json Shutdown = JObject [(''type'', JString ''shutdown'')]"

text \<open>\<^verbatim>\<open>skip_serializing_if = "Option::is_none"\<close>\<close>

definition opt_field :: "string \<Rightarrow> obj option \<Rightarrow> (string \<times> json) list" where
  "opt_field k d = (case d of None \<Rightarrow> [] | Some m \<Rightarrow> [(k, JObject m)])"

fun batch_entry_json :: "batch_entry \<Rightarrow> json" where
  "batch_entry_json (Entry_Result d) = JObject (bt_from_list [(''kind'', JString ''result''), (''data'', JObject d)])"
| "batch_entry_json (Entry_Error c m d) = JObject (bt_from_list
     ([(''kind'', JString ''error''), (''code'', JString c), (''message'', JString m)] @ opt_field ''data'' d))"

fun inbound_json :: "inbound \<Rightarrow> json" where
  "inbound_json (Ready v) = JObject (bt_from_list [(''type'', JString ''ready''), (''handler_version'', JString v)])"
| "inbound_json (Inb_Result sq d) = JObject (bt_from_list
     [(''type'', JString ''result''), (''seq'', junum sq), (''data'', JObject d)])"
| "inbound_json (Inb_Error sq c m d) = JObject (bt_from_list
     ([(''type'', JString ''error''), (''seq'', junum sq), (''code'', JString c), (''message'', JString m)]
      @ opt_field ''data'' d))"
| "inbound_json (Batch_Result es) = JObject (bt_from_list
     [(''type'', JString ''batch_result''), (''results'', JArray (map batch_entry_json es))])"

definition batch_entry_of_json :: "json \<Rightarrow> batch_entry option" where
  "batch_entry_of_json v =
     Option.bind (as_object v) (\<lambda>m.
     Option.bind (jfield_str m ''kind'') (\<lambda>k.
       if k = ''result'' then map_option Entry_Result (jfield_obj m ''data'')
       else if k = ''error'' then
         Option.bind (jfield_str m ''code'') (\<lambda>c.
         Option.bind (jfield_str m ''message'') (\<lambda>msg.
         map_option (Entry_Error c msg) (jfield_opt_obj m ''data'')))
       else None))"

definition inbound_of_json :: "json \<Rightarrow> inbound option" where
  "inbound_of_json v =
     Option.bind (as_object v) (\<lambda>m.
     Option.bind (jfield_str m ''type'') (\<lambda>t.
       if t = ''ready'' then map_option Ready (jfield_str m ''handler_version'')
       else if t = ''result'' then
         Option.bind (jfield_u64 m ''seq'') (\<lambda>sq. map_option (Inb_Result sq) (jfield_obj m ''data''))
       else if t = ''error'' then
         Option.bind (jfield_u64 m ''seq'') (\<lambda>sq.
         Option.bind (jfield_str m ''code'') (\<lambda>c.
         Option.bind (jfield_str m ''message'') (\<lambda>msg.
         map_option (Inb_Error sq c msg) (jfield_opt_obj m ''data''))))
       else if t = ''batch_result'' then
         Option.bind (jfield_list m ''results'') (\<lambda>es. map_option Batch_Result (those_map batch_entry_of_json es))
       else None))"

definition outbound_to_jsonl :: "(json \<Rightarrow> string) \<Rightarrow> outbound \<Rightarrow> string" where
  "outbound_to_jsonl ser m = ser (outbound_json m) @ [newline]"

definition inbound_from_jsonl_line :: "(string \<Rightarrow> json option) \<Rightarrow> string \<Rightarrow> inbound option" where
  "inbound_from_jsonl_line parse line = Option.bind (parse (trim_end_newline line)) inbound_of_json"

section \<open>Outcomes\<close>

record row_job =
  rj_seq :: nat
  rj_data :: obj
  rj_meta :: row_meta

datatype row_outcome =
    Success nat obj nat
  | Error_Row nat string string nat "obj option"
  | Crash nat nat nat

fun outcome_seq :: "row_outcome \<Rightarrow> nat" where
  "outcome_seq (Success s _ _) = s"
| "outcome_seq (Error_Row s _ _ _ _) = s"
| "outcome_seq (Crash s _ _) = s"

fun is_success :: "row_outcome \<Rightarrow> bool" where
  "is_success (Success _ _ _) = True"
| "is_success _ = False"

record batch_outcome =
  bo_first_seq :: nat
  bo_seqs :: "nat list"
  bo_outcomes :: "row_outcome list"

text \<open>\<^verbatim>\<open>BatchOutcome::from_outcomes\<close> panics on an empty list (\<^verbatim>\<open>seqs[0]\<close>).\<close>

definition from_outcomes :: "row_outcome list \<Rightarrow> batch_outcome option" where
  "from_outcomes os =
     (case map outcome_seq os of
        [] \<Rightarrow> None
      | s # ss \<Rightarrow> Some \<lparr> bo_first_seq = s, bo_seqs = s # ss, bo_outcomes = os \<rparr>)"

definition bo_ok :: "batch_outcome \<Rightarrow> bool" where
  "bo_ok b = (bo_outcomes b \<noteq> [] \<and> bo_seqs b = map outcome_seq (bo_outcomes b) \<and> bo_first_seq b = hd (bo_seqs b))"

definition opt_obj_json :: "obj option \<Rightarrow> json" where
  "opt_obj_json d = (case d of None \<Rightarrow> JNull | Some m \<Rightarrow> JObject m)"

fun outcome_json :: "row_outcome \<Rightarrow> json" where
  "outcome_json (Success sq d dur) = JObject (bt_from_list
     [(''type'', JString ''success''), (''seq'', junum sq), (''data'', JObject d), (''dur_ms'', junum dur)])"
| "outcome_json (Error_Row sq c m dur d) = JObject (bt_from_list
     [(''type'', JString ''error''), (''seq'', junum sq), (''code'', JString c), (''message'', JString m),
      (''dur_ms'', junum dur), (''data'', opt_obj_json d)])"
| "outcome_json (Crash sq w cs) = JObject (bt_from_list
     [(''type'', JString ''crash''), (''seq'', junum sq), (''worker_id'', junum w), (''crash_at_seq'', junum cs)])"

definition outcome_of_json :: "json \<Rightarrow> row_outcome option" where
  "outcome_of_json v =
     Option.bind (as_object v) (\<lambda>m.
     Option.bind (jfield_str m ''type'') (\<lambda>t.
     Option.bind (jfield_u64 m ''seq'') (\<lambda>sq.
       if t = ''success'' then
         Option.bind (jfield_obj m ''data'') (\<lambda>d. map_option (Success sq d) (jfield_u64 m ''dur_ms''))
       else if t = ''error'' then
         Option.bind (jfield_str m ''code'') (\<lambda>c.
         Option.bind (jfield_str m ''message'') (\<lambda>msg.
         Option.bind (jfield_u64 m ''dur_ms'') (\<lambda>dur.
         map_option (Error_Row sq c msg dur) (jfield_opt_obj m ''data''))))
       else if t = ''crash'' then
         Option.bind (jfield_u64 m ''worker_id'') (\<lambda>w.
         if w < 2 ^ 32 then map_option (Crash sq w) (jfield_u64 m ''crash_at_seq'') else None)
       else None)))"

definition batch_outcome_json :: "batch_outcome \<Rightarrow> json" where
  "batch_outcome_json b = JObject (bt_from_list
     [(''first_seq'', junum (bo_first_seq b)), (''seqs'', JArray (map junum (bo_seqs b))),
      (''outcomes'', JArray (map outcome_json (bo_outcomes b)))])"

definition batch_outcome_of_json :: "json \<Rightarrow> batch_outcome option" where
  "batch_outcome_of_json v =
     Option.bind (as_object v) (\<lambda>m.
     Option.bind (jfield_u64 m ''first_seq'') (\<lambda>fs.
     Option.bind (Option.bind (jfield_list m ''seqs'') (those_map as_u64)) (\<lambda>ss.
     map_option (\<lambda>os. \<lparr> bo_first_seq = fs, bo_seqs = ss, bo_outcomes = os \<rparr>)
       (Option.bind (jfield_list m ''outcomes'') (those_map outcome_of_json)))))"

section \<open>Lemmas\<close>

lemma batch_entry_roundtrip [simp]: "batch_entry_of_json (batch_entry_json e) = Some e"
  by (cases e) (auto simp: batch_entry_of_json_def jsimps opt_field_def split: option.splits)

lemma inbound_json_roundtrip [simp]: "inbound_of_json (inbound_json m) = Some m"
  by (cases m) (auto simp: inbound_of_json_def jsimps opt_field_def those_map_roundtrip split: option.splits)

fun outcome_ok :: "row_outcome \<Rightarrow> bool" where
  "outcome_ok (Crash _ w _) = (w < 2 ^ 32)"
| "outcome_ok _ = True"

lemma outcome_json_roundtrip: "outcome_ok r \<Longrightarrow> outcome_of_json (outcome_json r) = Some r"
  by (cases r) (auto simp: outcome_of_json_def jsimps opt_obj_json_def split: option.splits)

lemma batch_outcome_json_roundtrip:
  "list_all outcome_ok (bo_outcomes b) \<Longrightarrow> batch_outcome_of_json (batch_outcome_json b) = Some b"
  by (auto simp: batch_outcome_of_json_def batch_outcome_json_def jsimps those_map_roundtrip
      outcome_json_roundtrip list_all_iff)

lemma from_outcomes_ok: "from_outcomes os = Some b \<Longrightarrow> bo_ok b \<and> bo_outcomes b = os"
  by (auto simp: from_outcomes_def bo_ok_def split: list.splits)

lemma from_outcomes_None [simp]: "from_outcomes os = None \<longleftrightarrow> os = []"
  by (auto simp: from_outcomes_def split: list.splits)

lemma from_outcomes_Some: "os \<noteq> [] \<Longrightarrow>
   from_outcomes os = Some \<lparr> bo_first_seq = outcome_seq (hd os), bo_seqs = map outcome_seq os, bo_outcomes = os \<rparr>"
  by (cases os) (auto simp: from_outcomes_def)

end
