(* ===== verification/Row_Resolution.thy ===== *)
theory Row_Resolution
  imports Protocol Store_Invariants
begin

text \<open>
  The state of every input row across all attempts of an execution (\<^verbatim>\<open>row_resolution.rs\<close>): reading the
  \<^verbatim>\<open>outcomes.jsonl\<close> of each attempt, folding its outcomes into the map of rows, and counting. The files are
  a parameter (their lines, each possibly unreadable), as are the parser of a line and the text of a JSON value.
\<close>

section \<open>Definitions\<close>

datatype resolution_state = NeverAttempted | Resolved | FailedLast | CrashedLast | CancelledLast | TooLarge

datatype outcome_kind = Kind_Success | Kind_Failed

record outcome_record =
  or_attempt_id :: string
  or_seq :: nat
  or_kind :: outcome_kind
  or_raw :: "string list"
  or_headers :: "string list"
  or_code :: "string option"

record per_seq =
  ps_state :: resolution_state
  ps_canonical_success :: "outcome_record option"
  ps_latest_failure :: "outcome_record option"

record resolution_counts =
  rc_resolved :: nat
  rc_failed_last :: nat
  rc_crashed_last :: nat
  rc_cancelled_last :: nat
  rc_too_large :: nat
  rc_never_attempted :: nat

record row_resolution =
  rr_execution_id :: string
  rr_input_row_count :: nat
  rr_per_seq :: "(nat, per_seq) bt"
  rr_counts :: resolution_counts
  rr_by_error_code :: "(string, nat) bt"
  rr_merged_from_attempts :: "string list"
  rr_skipped_running :: "string list"

definition never_attempted :: per_seq where
  "never_attempted = \<lparr> ps_state = NeverAttempted, ps_canonical_success = None, ps_latest_failure = None \<rparr>"

definition seqs_where :: "(resolution_state \<Rightarrow> bool) \<Rightarrow> row_resolution \<Rightarrow> nat set" where
  "seqs_where p r = fst ` set (filter (\<lambda>(s, e). p (ps_state e)) (rr_per_seq r))"

definition resolved_seqs :: "row_resolution \<Rightarrow> nat set" where
  "resolved_seqs r = seqs_where (\<lambda>s. s = Resolved) r"

definition attempted_seqs :: "row_resolution \<Rightarrow> nat set" where
  "attempted_seqs r = seqs_where (\<lambda>s. s \<noteq> NeverAttempted) r"

definition failed_seqs :: "row_resolution \<Rightarrow> nat set" where
  "failed_seqs r = seqs_where (\<lambda>s. s \<in> {FailedLast, CrashedLast, CancelledLast, TooLarge}) r"

definition json_value_to_csv :: "(json \<Rightarrow> string) \<Rightarrow> json \<Rightarrow> string" where
  "json_value_to_csv show v = (case v of JString s \<Rightarrow> s | JNull \<Rightarrow> [] | _ \<Rightarrow> show v)"

definition classify_failure :: "string option \<Rightarrow> resolution_state" where
  "classify_failure c =
     (case c of
        Some k \<Rightarrow>
          if k = ERR_WORKER_CRASH \<or> k = ERR_WORKER_CRASH_UNSAFE then CrashedLast
          else if k = ERR_CANCELLED then CancelledLast
          else if k = ERR_ROW_TOO_LARGE then TooLarge
          else FailedLast
      | None \<Rightarrow> FailedLast)"

definition sorted_values :: "(json \<Rightarrow> string) \<Rightarrow> obj \<Rightarrow> string list" where
  "sorted_values show d =
     map (\<lambda>k. json_value_to_csv show (case bt_lookup d k of Some v \<Rightarrow> v | None \<Rightarrow> JNull)) (sort (bt_keys d))"

definition build_success_record :: "(json \<Rightarrow> string) \<Rightarrow> string \<Rightarrow> nat \<Rightarrow> obj \<Rightarrow> outcome_record" where
  "build_success_record show aid sq d =
     \<lparr> or_attempt_id = aid, or_seq = sq, or_kind = Kind_Success,
       or_raw = nat_str sq # sorted_values show d,
       or_headers = ''seqid'' # sort (bt_keys d), or_code = None \<rparr>"

definition build_error_record ::
    "(json \<Rightarrow> string) \<Rightarrow> string \<Rightarrow> nat \<Rightarrow> string \<Rightarrow> string \<Rightarrow> obj option \<Rightarrow> outcome_record" where
  "build_error_record show aid sq code msg d =
     \<lparr> or_attempt_id = aid, or_seq = sq, or_kind = Kind_Failed,
       or_raw = [nat_str sq, code, msg] @ (case d of None \<Rightarrow> [] | Some m \<Rightarrow> sorted_values show m),
       or_headers = [''seqid'', ''errcode'', ''errmessage''] @ (case d of None \<Rightarrow> [] | Some m \<Rightarrow> sort (bt_keys m)),
       or_code = Some code \<rparr>"

text \<open>What one outcome does to the entry of its row.\<close>

fun apply_entry :: "(json \<Rightarrow> string) \<Rightarrow> string \<Rightarrow> row_outcome \<Rightarrow> per_seq \<Rightarrow> per_seq" where
  "apply_entry show aid (Success sq d dur) e =
     (let e' = (if ps_canonical_success e = None
                then e\<lparr> ps_canonical_success := Some (build_success_record show aid sq d) \<rparr> else e)
      in e'\<lparr> ps_state := Resolved \<rparr>)"
| "apply_entry show aid (Error_Row sq code msg dur d) e =
     (if ps_state e = Resolved then e
      else e\<lparr> ps_state := classify_failure (Some code),
              ps_latest_failure := Some (build_error_record show aid sq code msg d) \<rparr>)"
| "apply_entry show aid (Crash sq w at) e =
     (if ps_state e = Resolved then e
      else e\<lparr> ps_state := CrashedLast,
              ps_latest_failure := Some (build_error_record show aid sq ERR_WORKER_CRASH
                (''worker '' @ nat_str w @ '' crashed at seq '' @ nat_str at) None) \<rparr>)"

definition apply_row_outcome ::
    "(json \<Rightarrow> string) \<Rightarrow> string \<Rightarrow> row_outcome \<Rightarrow> (nat, per_seq) bt \<Rightarrow> (nat, per_seq) bt" where
  "apply_row_outcome show aid r m =
     (let sq = outcome_seq r; e = (case bt_lookup m sq of None \<Rightarrow> never_attempted | Some e \<Rightarrow> e)
      in bt_insert sq (apply_entry show aid r e) m)"

text \<open>A line of a file, or the error reading it; \<open>None\<close> is a file that is not there.\<close>

type_synonym text_file = "(string + string) list option"

fun ingest_lines ::
    "(json \<Rightarrow> string) \<Rightarrow> (string \<Rightarrow> string + batch_outcome) \<Rightarrow> path \<Rightarrow> string \<Rightarrow> nat \<Rightarrow> (string + string) list
      \<Rightarrow> (nat, per_seq) bt \<Rightarrow> core_error + (nat, per_seq) bt" where
  "ingest_lines show parse p aid n [] m = Inr m"
| "ingest_lines show parse p aid n (Inl e # ls) m = Inl (Store (''read '' @ p @ '': '' @ e))"
| "ingest_lines show parse p aid n (Inr l # ls) m =
     (if trim l = [] then ingest_lines show parse p aid (Suc n) ls m
      else (case parse l of
          Inl e \<Rightarrow> Inl (Store (''outcomes.jsonl corruption at '' @ p @ '':'' @ nat_str (n + 1) @ '': '' @ e @
                             ''; attempt '' @ aid @ '' ingest aborted''))
        | Inr b \<Rightarrow> ingest_lines show parse p aid (Suc n) ls (fold (apply_row_outcome show aid) (bo_outcomes b) m)))"

definition ingest_jsonl ::
    "(json \<Rightarrow> string) \<Rightarrow> (string \<Rightarrow> string + batch_outcome) \<Rightarrow> (path \<Rightarrow> text_file) \<Rightarrow> path \<Rightarrow> string
      \<Rightarrow> (nat, per_seq) bt \<Rightarrow> core_error + (nat, per_seq) bt" where
  "ingest_jsonl show parse files p aid m =
     (case files p of None \<Rightarrow> Inr m | Some ls \<Rightarrow> ingest_lines show parse p aid 0 ls m)"

definition count_state :: "resolution_state \<Rightarrow> resolution_counts \<Rightarrow> resolution_counts" where
  "count_state s c =
     (case s of
        Resolved \<Rightarrow> c\<lparr> rc_resolved := rc_resolved c + 1 \<rparr>
      | FailedLast \<Rightarrow> c\<lparr> rc_failed_last := rc_failed_last c + 1 \<rparr>
      | CrashedLast \<Rightarrow> c\<lparr> rc_crashed_last := rc_crashed_last c + 1 \<rparr>
      | CancelledLast \<Rightarrow> c\<lparr> rc_cancelled_last := rc_cancelled_last c + 1 \<rparr>
      | TooLarge \<Rightarrow> c\<lparr> rc_too_large := rc_too_large c + 1 \<rparr>
      | NeverAttempted \<Rightarrow> c\<lparr> rc_never_attempted := rc_never_attempted c + 1 \<rparr>)"

definition zero_counts :: resolution_counts where
  "zero_counts = \<lparr> rc_resolved = 0, rc_failed_last = 0, rc_crashed_last = 0, rc_cancelled_last = 0,
     rc_too_large = 0, rc_never_attempted = 0 \<rparr>"

definition failed_code :: "per_seq \<Rightarrow> string option" where
  "failed_code e =
     (if ps_state e = FailedLast then (case ps_latest_failure e of None \<Rightarrow> None | Some f \<Rightarrow> or_code f) else None)"

definition count_entry ::
    "nat \<times> per_seq \<Rightarrow> resolution_counts \<times> (string, nat) bt \<Rightarrow> resolution_counts \<times> (string, nat) bt" where
  "count_entry se cb =
     (count_state (ps_state (snd se)) (fst cb),
      case failed_code (snd se) of None \<Rightarrow> snd cb | Some k \<Rightarrow> bt_bump k (snd cb))"

record walk =
  wk_per_seq :: "(nat, per_seq) bt"
  wk_merged :: "string list"
  wk_skipped :: "string list"

definition walk_attempt ::
    "(json \<Rightarrow> string) \<Rightarrow> (string \<Rightarrow> string + batch_outcome) \<Rightarrow> (path \<Rightarrow> text_file) \<Rightarrow> attempt \<Rightarrow> walk
      \<Rightarrow> core_error + walk" where
  "walk_attempt show parse files a w =
     (case at_state a of
        Running \<Rightarrow> Inr (w\<lparr> wk_skipped := wk_skipped w @ [at_id a] \<rparr>)
      | _ \<Rightarrow>
         (case ingest_jsonl show parse files (path_join (at_dir a) ''outcomes.jsonl'') (at_id a) (wk_per_seq w) of
            Inl e \<Rightarrow> Inl e
          | Inr m \<Rightarrow> Inr (w\<lparr> wk_per_seq := m, wk_merged := wk_merged w @ [at_id a] \<rparr>)))"

definition initial_rows :: "nat \<Rightarrow> (nat, per_seq) bt" where
  "initial_rows n = fold (\<lambda>s m. bt_insert s never_attempted m) [0..<n] []"

definition compute_resolution ::
    "(json \<Rightarrow> string) \<Rightarrow> (string \<Rightarrow> string + batch_outcome) \<Rightarrow> (path \<Rightarrow> text_file) \<Rightarrow> store \<Rightarrow> string
      \<Rightarrow> core_error + row_resolution" where
  "compute_resolution show parse files st e =
     (case get_execution st e of
        Inl err \<Rightarrow> Inl err
      | Inr None \<Rightarrow> Inl (Store (''execution not found: '' @ e))
      | Inr (Some x) \<Rightarrow>
         (case list_attempts_for_execution st (ex_id x) of
            Inl err \<Rightarrow> Inl err
          | Inr ats \<Rightarrow>
             (case fold_result (walk_attempt show parse files) ats
                \<lparr> wk_per_seq = initial_rows (ex_input_row_count x), wk_merged = [], wk_skipped = [] \<rparr> of
                Inl err \<Rightarrow> Inl err
              | Inr w \<Rightarrow>
                  let (c, by_code) = fold count_entry (wk_per_seq w) (zero_counts, []) in
                  Inr \<lparr> rr_execution_id = ex_id x, rr_input_row_count = ex_input_row_count x,
                        rr_per_seq = wk_per_seq w, rr_counts = c, rr_by_error_code = by_code,
                        rr_merged_from_attempts = wk_merged w, rr_skipped_running = wk_skipped w \<rparr>)))"

definition compute_resolution_counts_only ::
    "(json \<Rightarrow> string) \<Rightarrow> (string \<Rightarrow> string + batch_outcome) \<Rightarrow> (path \<Rightarrow> text_file) \<Rightarrow> store \<Rightarrow> string
      \<Rightarrow> core_error + resolution_counts" where
  "compute_resolution_counts_only show parse files st e =
     (case compute_resolution show parse files st e of Inl err \<Rightarrow> Inl err | Inr r \<Rightarrow> Inr (rr_counts r))"

section \<open>Entries\<close>

interpretation rows: keyed_fold bt_insert bt_remove bt_lookup "[]" bt_ok
    "\<lambda>x. outcome_seq (snd x)" "\<lambda>x. apply_entry js (fst x) (snd x)" never_attempted
  for js :: "json \<Rightarrow> string"
  by unfold_locales

lemma apply_is_event: "apply_row_outcome show aid r m = rows.event show (aid, r) m"
  by (simp add: apply_row_outcome_def rows.event_def rows.entry_of_def Let_def)

lemma apply_entry_resolved: "ps_state e = Resolved \<Longrightarrow> ps_canonical_success e \<noteq> None \<Longrightarrow>
    ps_state (apply_entry show aid r e) = Resolved \<and>
    ps_canonical_success (apply_entry show aid r e) = ps_canonical_success e"
  by (cases r) auto

interpretation resolved: absorbing "\<lambda>x. apply_entry js (fst x) (snd x)"
    "\<lambda>e. ps_state e = Resolved \<and> ps_canonical_success e \<noteq> None" "\<lambda>e. (ps_state e, ps_canonical_success e)"
  for js :: "json \<Rightarrow> string"
  by unfold_locales (auto simp: apply_entry_resolved)

section \<open>What the walk computes\<close>

text \<open>The outcomes of a file whose lines all parse, and the outcomes of all attempts that are ingested.\<close>

fun line_outcomes :: "(string \<Rightarrow> string + batch_outcome) \<Rightarrow> string + string \<Rightarrow> row_outcome list" where
  "line_outcomes parse (Inl e) = []"
| "line_outcomes parse (Inr l) =
     (if trim l = [] then [] else (case parse l of Inl e \<Rightarrow> [] | Inr b \<Rightarrow> bo_outcomes b))"

definition file_outcomes :: "(string \<Rightarrow> string + batch_outcome) \<Rightarrow> text_file \<Rightarrow> row_outcome list" where
  "file_outcomes parse f = (case f of None \<Rightarrow> [] | Some ls \<Rightarrow> concat (map (line_outcomes parse) ls))"

definition attempt_events ::
    "(string \<Rightarrow> string + batch_outcome) \<Rightarrow> (path \<Rightarrow> text_file) \<Rightarrow> attempt \<Rightarrow> (string \<times> row_outcome) list" where
  "attempt_events parse files a =
     (if at_state a = Running then []
      else map (Pair (at_id a)) (file_outcomes parse (files (path_join (at_dir a) ''outcomes.jsonl''))))"

definition row_events ::
    "(string \<Rightarrow> string + batch_outcome) \<Rightarrow> (path \<Rightarrow> text_file) \<Rightarrow> attempt list \<Rightarrow> nat \<Rightarrow> (string \<times> row_outcome) list" where
  "row_events parse files ats s =
     filter (\<lambda>x. outcome_seq (snd x) = s) (concat (map (attempt_events parse files) ats))"

lemma ingest_lines_events:
  "ingest_lines js parse p aid n ls m = Inr m' \<Longrightarrow>
   m' = fold (rows.event js) (map (Pair aid) (concat (map (line_outcomes parse) ls))) m"
proof (induction ls arbitrary: n m)
  case (Cons l ls)
  have f: "fold (apply_row_outcome js aid) os m = fold (rows.event js) (map (Pair aid) os) m" for os
    by (simp add: fold_map comp_def apply_is_event[abs_def])
  show ?case
    using Cons.prems Cons.IH by (cases l) (auto simp: f split: if_splits sum.splits)
qed simp

lemma walk_attempt_events:
  "walk_attempt js parse files a w = Inr w' \<Longrightarrow>
   wk_per_seq w' = fold (rows.event js) (attempt_events parse files a) (wk_per_seq w) \<and>
   wk_skipped w' = wk_skipped w @ (if at_state a = Running then [at_id a] else []) \<and>
   wk_merged w' = wk_merged w @ (if at_state a = Running then [] else [at_id a])"
  by (auto simp: walk_attempt_def ingest_jsonl_def attempt_events_def file_outcomes_def
      split: attempt_state.splits option.splits sum.splits dest: ingest_lines_events)

lemma walk_events:
  "fold_result (walk_attempt js parse files) ats w = Inr w' \<Longrightarrow>
   wk_per_seq w' = fold (rows.event js) (concat (map (attempt_events parse files) ats)) (wk_per_seq w) \<and>
   wk_skipped w' = wk_skipped w @ map at_id (filter (\<lambda>a. at_state a = Running) ats) \<and>
   wk_merged w' = wk_merged w @ map at_id (filter (\<lambda>a. at_state a \<noteq> Running) ats)"
proof (induction ats arbitrary: w)
  case (Cons a ats)
  obtain w1 where w1: "walk_attempt js parse files a w = Inr w1" "fold_result (walk_attempt js parse files) ats w1 = Inr w'"
    using Cons.prems by (auto split: sum.splits)
  show ?case using walk_attempt_events[OF w1(1)] Cons.IH[OF w1(2)] by simp
qed simp

lemma initial_rows_lookup: "bt_ok (initial_rows n) \<and> bt_lookup (initial_rows n) s = (if s < n then Some never_attempted else None)"
proof -
  have "bt_ok (fold (\<lambda>s m. bt_insert s never_attempted m) xs m) \<and>
      bt_lookup (fold (\<lambda>s m. bt_insert s never_attempted m) xs m) s =
        (if s \<in> set xs then Some never_attempted else bt_lookup m s)"
    if "bt_ok m" for xs :: "nat list" and m
    using that by (induction xs arbitrary: m) auto
  from this[of "[]" "[0..<n]"] show ?thesis by (simp add: initial_rows_def)
qed

lemma initial_entry: "rows.entry_of (initial_rows n) s = never_attempted"
  using initial_rows_lookup[of n s] by (simp add: rows.entry_of_def)

text \<open>The rule the walk implements: a success anywhere wins, otherwise the last outcome counts.\<close>

fun outcome_class :: "row_outcome \<Rightarrow> resolution_state" where
  "outcome_class (Success _ _ _) = Resolved"
| "outcome_class (Error_Row _ c _ _ _) = classify_failure (Some c)"
| "outcome_class (Crash _ _ _) = CrashedLast"

definition row_state_spec :: "row_outcome list \<Rightarrow> resolution_state" where
  "row_state_spec os =
     (if list_ex is_success os then Resolved
      else if os = [] then NeverAttempted else outcome_class (last os))"

fun success_record :: "(json \<Rightarrow> string) \<Rightarrow> string \<times> row_outcome \<Rightarrow> outcome_record option" where
  "success_record js (aid, Success sq d dur) = Some (build_success_record js aid sq d)"
| "success_record js _ = None"

definition canonical_spec :: "(json \<Rightarrow> string) \<Rightarrow> (string \<times> row_outcome) list \<Rightarrow> outcome_record option" where
  "canonical_spec js xs =
     (case List.find (\<lambda>x. is_success (snd x)) xs of None \<Rightarrow> None | Some x \<Rightarrow> success_record js x)"

lemma classify_not_resolved [simp]: "classify_failure c \<noteq> Resolved" "classify_failure c \<noteq> NeverAttempted"
  by (auto simp: classify_failure_def split: option.splits)

lemma outcome_class_resolved [simp]: "outcome_class r = Resolved \<longleftrightarrow> is_success r"
  by (cases r) simp_all

lemma outcome_class_attempted [simp]: "outcome_class r \<noteq> NeverAttempted"
  by (cases r) simp_all

lemma row_state_resolved: "row_state_spec os = Resolved \<longleftrightarrow> list_ex is_success os"
  by (cases os rule: rev_cases) (auto simp: row_state_spec_def)

lemma row_state_never: "row_state_spec os = NeverAttempted \<longleftrightarrow> os = []"
  by (auto simp: row_state_spec_def)

lemma row_state_snoc_failure:
  "\<not> is_success r \<Longrightarrow> row_state_spec (os @ [r]) = (if row_state_spec os = Resolved then Resolved else outcome_class r)"
  by (auto simp: row_state_resolved) (auto simp: row_state_spec_def)

lemma find_snoc: "List.find P (xs @ [x]) = (case List.find P xs of None \<Rightarrow> if P x then Some x else None | Some y \<Rightarrow> Some y)"
  by (induction xs) auto

lemma find_none_ex: "(List.find P xs = None) = (\<not> list_ex P xs)"
  by (induction xs) auto

lemma entry_spec:
  "let e = fold (\<lambda>x. apply_entry js (fst x) (snd x)) xs never_attempted in
     ps_state e = row_state_spec (map snd xs) \<and> ps_canonical_success e = canonical_spec js xs"
proof (induction xs rule: rev_induct)
  case Nil
  then show ?case by (simp add: never_attempted_def row_state_spec_def canonical_spec_def)
next
  case (snoc x xs)
  let ?e = "fold (\<lambda>x. apply_entry js (fst x) (snd x)) xs never_attempted"
  have ih: "ps_state ?e = row_state_spec (map snd xs)" "ps_canonical_success ?e = canonical_spec js xs"
    using snoc by (simp_all add: Let_def)
  have suc: "list_ex is_success (map snd xs) = (List.find (\<lambda>x. is_success (snd x)) xs \<noteq> None)"
    by (simp add: find_none_ex list_ex_iff)
  have some: "canonical_spec js xs = None \<longleftrightarrow> List.find (\<lambda>x. is_success (snd x)) xs = None"
  proof (cases "List.find (\<lambda>x. is_success (snd x)) xs")
    case (Some y)
    then have "is_success (snd y)" by (auto simp: find_Some_iff)
    then show ?thesis using Some by (cases y; cases "snd y") (auto simp: canonical_spec_def)
  qed (simp add: canonical_spec_def)
  obtain aid r where x: "x = (aid, r)" by force
  show ?case
  proof (cases r)
    case (Success sq d dur)
    then show ?thesis
      using ih suc some unfolding x
      by (auto simp: Let_def row_state_spec_def canonical_spec_def find_snoc split: option.splits)
  next
    case (Error_Row sq c m dur d)
    then show ?thesis
      using ih row_state_snoc_failure[of r "map snd xs"] unfolding x
      by (auto simp: Let_def canonical_spec_def find_snoc split: option.splits)
  next
    case (Crash sq w c)
    then show ?thesis
      using ih row_state_snoc_failure[of r "map snd xs"] unfolding x
      by (auto simp: Let_def canonical_spec_def find_snoc split: option.splits)
  qed
qed

section \<open>Resolution of an execution\<close>

definition row_state :: "row_resolution \<Rightarrow> nat \<Rightarrow> resolution_state" where
  "row_state r s = (case bt_lookup (rr_per_seq r) s of None \<Rightarrow> NeverAttempted | Some e \<Rightarrow> ps_state e)"

definition row_canonical :: "row_resolution \<Rightarrow> nat \<Rightarrow> outcome_record option" where
  "row_canonical r s = (case bt_lookup (rr_per_seq r) s of None \<Rightarrow> None | Some e \<Rightarrow> ps_canonical_success e)"

lemma compute_resolutionD:
  assumes "compute_resolution js parse files st e = Inr r"
  obtains x ats w where "get_execution st e = Inr (Some x)" "list_attempts_for_execution st (ex_id x) = Inr ats"
    "fold_result (walk_attempt js parse files) ats
       \<lparr> wk_per_seq = initial_rows (ex_input_row_count x), wk_merged = [], wk_skipped = [] \<rparr> = Inr w"
    "rr_per_seq r = wk_per_seq w" "rr_input_row_count r = ex_input_row_count x"
    "rr_skipped_running r = wk_skipped w" "rr_merged_from_attempts r = wk_merged w"
    "(rr_counts r, rr_by_error_code r) = fold count_entry (wk_per_seq w) (zero_counts, [])"
  using assms
  by (auto simp: compute_resolution_def Let_def split: sum.splits option.splits prod.splits)

lemma resolution_rows:
  assumes "compute_resolution js parse files st e = Inr r" "get_execution st e = Inr (Some x)"
    and "list_attempts_for_execution st (ex_id x) = Inr ats"
  shows "rr_per_seq r = fold (rows.event js) (concat (map (attempt_events parse files) ats)) (initial_rows (ex_input_row_count x))"
proof -
  obtain x' ats' w where w: "get_execution st e = Inr (Some x')" "list_attempts_for_execution st (ex_id x') = Inr ats'"
    "fold_result (walk_attempt js parse files) ats'
       \<lparr> wk_per_seq = initial_rows (ex_input_row_count x'), wk_merged = [], wk_skipped = [] \<rparr> = Inr w"
    "rr_per_seq r = wk_per_seq w"
    by (rule compute_resolutionD[OF assms(1)])
  have "x' = x" "ats' = ats" using w(1,2) assms(2,3) by simp_all
  then show ?thesis using walk_events[OF w(3)] w(4) by simp
qed

lemma resolution_ok: "compute_resolution js parse files st e = Inr r \<Longrightarrow> bt_ok (rr_per_seq r)"
proof -
  assume r: "compute_resolution js parse files st e = Inr r"
  then obtain x ats where x: "get_execution st e = Inr (Some x)" "list_attempts_for_execution st (ex_id x) = Inr ats"
    by (rule compute_resolutionD)
  have "bt_ok (initial_rows (ex_input_row_count x))" using initial_rows_lookup by blast
  then show ?thesis using resolution_rows[OF r x] rows.good_events by metis
qed

lemma resolution_entry:
  assumes "compute_resolution js parse files st e = Inr r" "get_execution st e = Inr (Some x)"
    and "list_attempts_for_execution st (ex_id x) = Inr ats"
  shows "bt_lookup (rr_per_seq r) s =
     (if s < ex_input_row_count x \<or> row_events parse files ats s \<noteq> []
      then Some (fold (\<lambda>x. apply_entry js (fst x) (snd x)) (row_events parse files ats s) never_attempted) else None)"
  using rows.look_events[of "initial_rows (ex_input_row_count x)" js "concat (map (attempt_events parse files) ats)" s]
    initial_rows_lookup[of "ex_input_row_count x" s] initial_entry[of "ex_input_row_count x" s]
  by (auto simp: resolution_rows[OF assms] row_events_def)

lemma resolution_state_and_canonical:
  assumes "compute_resolution js parse files st e = Inr r" "get_execution st e = Inr (Some x)"
    and "list_attempts_for_execution st (ex_id x) = Inr ats"
  shows "row_state r s = row_state_spec (map snd (row_events parse files ats s)) \<and>
     row_canonical r s = canonical_spec js (row_events parse files ats s)"
  using resolution_entry[OF assms, of s] entry_spec[of js "row_events parse files ats s"]
  by (auto simp: row_state_def row_canonical_def Let_def row_state_spec_def canonical_spec_def)

text \<open>C4: cross-attempt resolution implements its rule. Whenever it returns, the state of every row is the one
  the outcomes recorded for it by the ingested attempts dictate, taken in the order of the attempts: RESOLVED if
  any of them is a success, NEVER ATTEMPTED if there is none, otherwise the class of the last one; and the
  canonical success of a row is its first success.\<close>

theorem resolution_rule:
  assumes "compute_resolution js parse files st e = Inr r" "get_execution st e = Inr (Some x)"
    and "list_attempts_for_execution st (ex_id x) = Inr ats"
  shows "row_state r s = row_state_spec (map snd (row_events parse files ats s)) \<and>
     row_canonical r s = canonical_spec js (row_events parse files ats s)"
  by (rule resolution_state_and_canonical[OF assms])

definition demo_outcomes :: batch_outcome where
  "demo_outcomes = \<lparr> bo_first_seq = 0, bo_seqs = [0, 0, 0, 1],
     bo_outcomes = [Error_Row 0 ''E'' ''m'' 0 None, Success 0 [] 1, Crash 0 1 0, Error_Row 1 ''CANCELLED'' ''c'' 0 None] \<rparr>"

definition demo_parse :: "string \<Rightarrow> string + batch_outcome" where
  "demo_parse l = (if l = ''x'' then Inr demo_outcomes else Inl ''bad'')"

definition demo_files :: "path \<Rightarrow> text_file" where
  "demo_files p = (if p = ''/w/executions/e_1/attempts/r_1/outcomes.jsonl'' then Some [Inr ''x'', Inr '' ''] else None)"

definition demo_resolution :: "core_error + row_resolution" where
  "demo_resolution = compute_resolution (\<lambda>_. []) demo_parse demo_files demo_store ''e_1''"

lemma demo_resolution_value:
  "map_sum id (\<lambda>r. (map (\<lambda>(s, e). (s, ps_state e)) (rr_per_seq r), rr_merged_from_attempts r, rc_resolved (rr_counts r))) demo_resolution
     = Inr ([(0, Resolved), (1, CancelledLast)], [''r_1''], 1)"
  by code_simp

lemma demo_resolution_ok: "\<exists>r. compute_resolution (\<lambda>_. []) demo_parse demo_files demo_store ''e_1'' = Inr r"
  using demo_resolution_value unfolding demo_resolution_def
  by (cases "compute_resolution (\<lambda>_. []) demo_parse demo_files demo_store ''e_1''") auto

lemma resolution_rule_witness:
  "\<exists>r ats. compute_resolution (\<lambda>_. []) demo_parse demo_files demo_store ''e_1'' = Inr r \<and>
     list_attempts_for_execution demo_store ''e_1'' = Inr ats \<and>
     row_state r 0 = row_state_spec (map snd (row_events demo_parse demo_files ats 0))"
proof -
  obtain r where r: "compute_resolution (\<lambda>_. []) demo_parse demo_files demo_store ''e_1'' = Inr r"
    using demo_resolution_ok by auto
  then obtain x ats where x: "get_execution demo_store ''e_1'' = Inr (Some x)"
      "list_attempts_for_execution demo_store (ex_id x) = Inr ats"
    by (rule compute_resolutionD)
  moreover have "ex_id x = ''e_1''" using get_execution_id[OF x(1)] by simp
  ultimately show ?thesis using resolution_rule[OF r x] r by auto
qed

section \<open>Counts\<close>

fun rc_of :: "resolution_state \<Rightarrow> resolution_counts \<Rightarrow> nat" where
  "rc_of Resolved c = rc_resolved c"
| "rc_of FailedLast c = rc_failed_last c"
| "rc_of CrashedLast c = rc_crashed_last c"
| "rc_of CancelledLast c = rc_cancelled_last c"
| "rc_of TooLarge c = rc_too_large c"
| "rc_of NeverAttempted c = rc_never_attempted c"

lemma rc_of_count: "rc_of s (count_state s' c) = rc_of s c + (if s = s' then 1 else 0)"
  by (cases s; cases s') (simp_all add: count_state_def)

lemma rc_of_zero [simp]: "rc_of s zero_counts = 0"
  by (cases s) (simp_all add: zero_counts_def)

lemma count_entries_state:
  "rc_of s (fst (fold count_entry m cb)) = rc_of s (fst cb) + length (filter (\<lambda>se. ps_state (snd se) = s) m)"
  by (induction m arbitrary: cb) (auto simp: count_entry_def rc_of_count)

lemma count_entries_code:
  "snd (fold count_entry m cb) = fold bt_bump (List.map_filter (\<lambda>se. failed_code (snd se)) m) (snd cb)"
  by (induction m arbitrary: cb) (auto simp: count_entry_def List.map_filter_simps split: option.splits)

definition code_count :: "(string, nat) bt \<Rightarrow> string \<Rightarrow> nat" where
  "code_count m k = (case bt_lookup m k of None \<Rightarrow> 0 | Some n \<Rightarrow> n)"

lemma filter_map_filter: "length (filter (\<lambda>x. x = k) (List.map_filter f xs)) = length (filter (\<lambda>x. f x = Some k) xs)"
  by (induction xs) (auto simp: List.map_filter_simps split: option.splits)

lemma bt_card: "bt_ok m \<Longrightarrow> length (filter (\<lambda>se. p (snd se)) m) = card (fst ` set (filter (\<lambda>se. p (snd se)) m))"
proof -
  assume "bt_ok m"
  then have "distinct (map fst (filter (\<lambda>se. p (snd se)) m))"
    by (simp add: bt_ok_distinct distinct_map_filter)
  then show ?thesis by (metis distinct_card length_map list.set_map)
qed

lemma in_rows: "bt_ok m \<Longrightarrow> k \<in> fst ` set (filter (\<lambda>se. p (snd se)) m) \<longleftrightarrow> (\<exists>e. bt_lookup m k = Some e \<and> p e)"
  by (force simp: bt_lookup_in_set)

text \<open>The counts agree with the rows. Each counter is the number of rows in that state, the six of them add
  up to the number of rows known, \<^verbatim>\<open>by_error_code\<close> counts the rows whose last outcome is a plain failure by
  the code of that failure, and the sets offered to a rerun have the sizes counted.\<close>

theorem resolution_counts_exact:
  assumes "compute_resolution js parse files st e = Inr r"
  shows "(\<forall>s. rc_of s (rr_counts r) = card {k. \<exists>p. bt_lookup (rr_per_seq r) k = Some p \<and> ps_state p = s}) \<and>
     rc_resolved (rr_counts r) + rc_failed_last (rr_counts r) + rc_crashed_last (rr_counts r)
       + rc_cancelled_last (rr_counts r) + rc_too_large (rr_counts r) + rc_never_attempted (rr_counts r)
       = card (dom (bt_lookup (rr_per_seq r))) \<and>
     (\<forall>c. code_count (rr_by_error_code r) c =
        card {k. \<exists>p. bt_lookup (rr_per_seq r) k = Some p \<and> failed_code p = Some c}) \<and>
     card (resolved_seqs r) = rc_resolved (rr_counts r)"
proof -
  obtain m where m: "m = rr_per_seq r" "(rr_counts r, rr_by_error_code r) = fold count_entry m (zero_counts, [])"
    by (rule compute_resolutionD[OF assms]) simp
  have ok: "bt_ok m" using resolution_ok[OF assms] m(1) by simp
  have c: "rr_counts r = fst (fold count_entry m (zero_counts, []))"
    and b: "rr_by_error_code r = snd (fold count_entry m (zero_counts, []))"
    using m(2) by (metis fst_conv snd_conv)+
  have cardp: "length (filter (\<lambda>se. p (snd se)) m) = card {k. \<exists>e. bt_lookup m k = Some e \<and> p e}" for p
  proof -
    have "fst ` set (filter (\<lambda>se. p (snd se)) m) = {k. \<exists>e. bt_lookup m k = Some e \<and> p e}"
      using in_rows[OF ok] by blast
    then show ?thesis using bt_card[OF ok, of p] by simp
  qed
  have st: "rc_of s (rr_counts r) = card {k. \<exists>p. bt_lookup m k = Some p \<and> ps_state p = s}" for s
    using cardp[of "\<lambda>e. ps_state e = s"] by (simp add: c count_entries_state)
  have len: "(\<Sum>s\<leftarrow>[Resolved, FailedLast, CrashedLast, CancelledLast, TooLarge, NeverAttempted].
      length (filter (\<lambda>se. ps_state (snd se) = s) m)) = length m"
  proof (induction m)
    case (Cons x m)
    then show ?case by (cases "ps_state (snd x)") simp_all
  qed simp
  have "length m = card (dom (bt_lookup m))"
    using cardp[of "\<lambda>_. True"] by (simp add: dom_def)
  moreover have "rc_of s (rr_counts r) = length (filter (\<lambda>se. ps_state (snd se) = s) m)" for s
    by (simp add: c count_entries_state)
  note this[of Resolved] this[of FailedLast] this[of CrashedLast] this[of CancelledLast] this[of TooLarge]
    this[of NeverAttempted]
  ultimately have sum: "rc_resolved (rr_counts r) + rc_failed_last (rr_counts r) + rc_crashed_last (rr_counts r)
       + rc_cancelled_last (rr_counts r) + rc_too_large (rr_counts r) + rc_never_attempted (rr_counts r)
       = card (dom (bt_lookup m))"
    using len by simp
  have code: "code_count (rr_by_error_code r) k = card {s. \<exists>p. bt_lookup m s = Some p \<and> failed_code p = Some k}" for k
    using bt_bumps[of "[]" "List.map_filter (\<lambda>se. failed_code (snd se)) m" k] cardp[of "\<lambda>e. failed_code e = Some k"]
    by (simp add: code_count_def b count_entries_code filter_map_filter)
  have "resolved_seqs r = {k. \<exists>p. bt_lookup m k = Some p \<and> ps_state p = Resolved}"
    using in_rows[OF ok, of _ "\<lambda>e. ps_state e = Resolved"] m(1)
    by (auto simp: resolved_seqs_def seqs_where_def split_def)
  moreover have "card {k. \<exists>p. bt_lookup m k = Some p \<and> ps_state p = Resolved} = rc_resolved (rr_counts r)"
    using st[of Resolved] by simp
  ultimately show ?thesis using st sum code m(1) by simp
qed

lemma resolution_counts_exact_witness:
  "\<exists>r. compute_resolution (\<lambda>_. []) demo_parse demo_files demo_store ''e_1'' = Inr r \<and>
     card (resolved_seqs r) = rc_resolved (rr_counts r)"
  using demo_resolution_ok resolution_counts_exact[of "\<lambda>_. []" demo_parse demo_files demo_store "''e_1''"] by blast

section \<open>Re-runs, running attempts, corruption\<close>

lemma in_seqs_where:
  "bt_ok (rr_per_seq r) \<Longrightarrow> s \<in> seqs_where p r \<longleftrightarrow> (\<exists>e. bt_lookup (rr_per_seq r) s = Some e \<and> p (ps_state e))"
  using in_rows[of "rr_per_seq r" s "\<lambda>e. p (ps_state e)"] by (simp add: seqs_where_def split_def)

lemma in_seqs_where_state:
  "bt_ok (rr_per_seq r) \<Longrightarrow> \<not> p NeverAttempted \<Longrightarrow> s \<in> seqs_where p r \<longleftrightarrow> p (row_state r s)"
  by (auto simp: in_seqs_where row_state_def split: option.splits)

text \<open>C16: the sets a rerun is built from. The attempted rows are the resolved and the failed ones, disjointly:
  \<^verbatim>\<open>--retry-failed\<close> never re-dispatches a resolved row or one that was never tried, and skipping the attempted
  rows leaves exactly the rows never tried.\<close>

theorem rerun_sets_partition:
  assumes "compute_resolution js parse files st e = Inr r"
  shows "attempted_seqs r = resolved_seqs r \<union> failed_seqs r \<and> resolved_seqs r \<inter> failed_seqs r = {} \<and>
     (\<forall>s. s \<notin> attempted_seqs r \<longleftrightarrow> row_state r s = NeverAttempted)"
proof -
  note ok = resolution_ok[OF assms]
  have "s \<in> attempted_seqs r \<longleftrightarrow> row_state r s \<noteq> NeverAttempted" "s \<in> resolved_seqs r \<longleftrightarrow> row_state r s = Resolved"
    "s \<in> failed_seqs r \<longleftrightarrow> row_state r s \<in> {FailedLast, CrashedLast, CancelledLast, TooLarge}" for s
    by (simp_all add: attempted_seqs_def resolved_seqs_def failed_seqs_def in_seqs_where_state[OF ok])
  then show ?thesis by (auto, metis resolution_state.exhaust)
qed

lemma rerun_sets_partition_witness:
  "\<exists>r. compute_resolution (\<lambda>_. []) demo_parse demo_files demo_store ''e_1'' = Inr r \<and>
     attempted_seqs r = resolved_seqs r \<union> failed_seqs r"
  using demo_resolution_ok rerun_sets_partition[of "\<lambda>_. []" demo_parse demo_files demo_store "''e_1''"] by blast

lemma canonical_spec_append:
  "list_ex (\<lambda>x. is_success (snd x)) xs \<Longrightarrow> canonical_spec js (xs @ ys) = canonical_spec js xs"
  by (cases "List.find (\<lambda>x. is_success (snd x)) xs") (simp_all add: canonical_spec_def find_append find_none_ex)

text \<open>C15: resolution is monotone. When a later registry lists the same attempts followed by more, every row
  resolved before is still resolved, with the same canonical success: no failing, crashing or cancelled
  re-run can lose a result.\<close>

theorem resolution_monotone:
  assumes "compute_resolution js parse files st e = Inr r" "compute_resolution js parse files st' e = Inr r'"
    and "list_attempts_for_execution st e = Inr ats" "list_attempts_for_execution st' e = Inr (ats @ extra)"
  shows "resolved_seqs r \<subseteq> resolved_seqs r' \<and>
     (\<forall>s\<in>resolved_seqs r. row_canonical r' s = row_canonical r s \<and> row_canonical r s \<noteq> None)"
proof -
  obtain x where x: "get_execution st e = Inr (Some x)" using assms(1) by (rule compute_resolutionD)
  obtain x' where x': "get_execution st' e = Inr (Some x')" using assms(2) by (rule compute_resolutionD)
  have ids: "ex_id x = e" "ex_id x' = e" using get_execution_id x x' by blast+
  have r: "row_state r s = row_state_spec (map snd (row_events parse files ats s))"
      "row_canonical r s = canonical_spec js (row_events parse files ats s)" for s
    using resolution_state_and_canonical[OF assms(1) x, unfolded ids, OF assms(3)] by auto
  have r': "row_state r' s = row_state_spec (map snd (row_events parse files (ats @ extra) s))"
      "row_canonical r' s = canonical_spec js (row_events parse files (ats @ extra) s)" for s
    using resolution_state_and_canonical[OF assms(2) x', unfolded ids, OF assms(4)] by auto
  have split: "row_events parse files (ats @ extra) s = row_events parse files ats s @ row_events parse files extra s" for s
    by (simp add: row_events_def)
  have in_res: "s \<in> resolved_seqs r \<longleftrightarrow> row_state r s = Resolved" "s \<in> resolved_seqs r' \<longleftrightarrow> row_state r' s = Resolved" for s
    by (simp_all add: resolved_seqs_def in_seqs_where_state[OF resolution_ok[OF assms(1)]]
        in_seqs_where_state[OF resolution_ok[OF assms(2)]])
  have keep: "row_state r' s = Resolved \<and> row_canonical r' s = row_canonical r s \<and> row_canonical r s \<noteq> None"
    if "row_state r s = Resolved" for s
  proof -
    have ex: "list_ex (\<lambda>x. is_success (snd x)) (row_events parse files ats s)"
      using that by (simp add: r(1) row_state_resolved list_ex_iff)
    then obtain y where y: "List.find (\<lambda>x. is_success (snd x)) (row_events parse files ats s) = Some y" "is_success (snd y)"
      using find_none_ex[of "\<lambda>x. is_success (snd x)"] by (metis find_in option.exhaust)
    have "canonical_spec js (row_events parse files ats s) \<noteq> None"
      using y by (cases y; cases "snd y") (auto simp: canonical_spec_def)
    moreover have "row_state r' s = Resolved"
      using ex by (auto simp: r' split row_state_resolved list_ex_iff)
    ultimately show ?thesis using canonical_spec_append[OF ex] by (simp add: r r' split)
  qed
  then show ?thesis using in_res by blast
qed

lemma resolution_monotone_witness:
  "\<exists>r. compute_resolution (\<lambda>_. []) demo_parse demo_files demo_store ''e_1'' = Inr r \<and> 0 \<in> resolved_seqs r \<and>
     row_canonical r 0 \<noteq> None"
proof -
  obtain r where r: "compute_resolution (\<lambda>_. []) demo_parse demo_files demo_store ''e_1'' = Inr r"
    using demo_resolution_ok by auto
  have "map (\<lambda>(s, e). (s, ps_state e)) (rr_per_seq r) = [(0, Resolved), (1, CancelledLast)]"
    using demo_resolution_value r by (simp add: demo_resolution_def)
  then have in0: "0 \<in> resolved_seqs r"
    by (auto simp: resolved_seqs_def seqs_where_def map_eq_Cons_conv image_iff)
  obtain x ats where x: "get_execution demo_store ''e_1'' = Inr (Some x)"
      "list_attempts_for_execution demo_store (ex_id x) = Inr ats"
    using r by (rule compute_resolutionD)
  have "ex_id x = ''e_1''" using get_execution_id[OF x(1)] by simp
  then show ?thesis
    using resolution_monotone[OF r r, of ats "[]"] x(2) in0 r by auto
qed

text \<open>Attempts still running are skipped: they are listed in \<^verbatim>\<open>skipped_running\<close>, the others in
  \<^verbatim>\<open>merged_from_attempts\<close>, and what a running attempt may have written to its file so far has no influence.\<close>

theorem running_attempts_skipped:
  assumes "compute_resolution js parse files st e = Inr r" "list_attempts_for_execution st e = Inr ats"
    and "\<forall>a\<in>set ats. at_state a \<noteq> Running \<longrightarrow>
           files' (path_join (at_dir a) ''outcomes.jsonl'') = files (path_join (at_dir a) ''outcomes.jsonl'')"
  shows "compute_resolution js parse files' st e = Inr r \<and>
     rr_skipped_running r = map at_id (filter (\<lambda>a. at_state a = Running) ats) \<and>
     rr_merged_from_attempts r = map at_id (filter (\<lambda>a. at_state a \<noteq> Running) ats)"
proof -
  obtain x ats' w where w: "get_execution st e = Inr (Some x)" "list_attempts_for_execution st (ex_id x) = Inr ats'"
    "fold_result (walk_attempt js parse files) ats'
       \<lparr> wk_per_seq = initial_rows (ex_input_row_count x), wk_merged = [], wk_skipped = [] \<rparr> = Inr w"
    "rr_skipped_running r = wk_skipped w" "rr_merged_from_attempts r = wk_merged w"
    by (rule compute_resolutionD[OF assms(1)])
  have ids: "ex_id x = e" using get_execution_id[OF w(1)] by simp
  then have ats: "ats' = ats" using w(2) assms(2) by simp
  have same: "walk_attempt js parse files' a v = walk_attempt js parse files a v" if "a \<in> set ats" for a v
    using assms(3) that by (cases "at_state a") (auto simp: walk_attempt_def ingest_jsonl_def)
  have "fold_result (walk_attempt js parse files') xs v = fold_result (walk_attempt js parse files) xs v"
    if "set xs \<subseteq> set ats" for xs v
    using that by (induction xs arbitrary: v) (auto simp: same split: sum.splits)
  then have "compute_resolution js parse files' st e = compute_resolution js parse files st e"
    using w(1) ids assms(2) by (simp add: compute_resolution_def)
  then show ?thesis using assms(1) walk_events[OF w(3)] w(4,5) ats by simp
qed

lemma running_attempts_skipped_witness:
  "\<exists>r. compute_resolution (\<lambda>_. []) demo_parse demo_files demo_running ''e_1'' = Inr r \<and>
     compute_resolution (\<lambda>_. []) demo_parse (\<lambda>_. Some [Inr ''garbage'']) demo_running ''e_1'' = Inr r"
proof -
  have v: "map_sum id (\<lambda>r. rr_skipped_running r)
      (compute_resolution (\<lambda>_. []) demo_parse demo_files demo_running ''e_1'') = Inr [''r_1'']"
    by code_simp
  then obtain r where r: "compute_resolution (\<lambda>_. []) demo_parse demo_files demo_running ''e_1'' = Inr r"
    by (cases "compute_resolution (\<lambda>_. []) demo_parse demo_files demo_running ''e_1''") auto
  have a: "map_sum id (map at_state) (list_attempts_for_execution demo_running ''e_1'') = Inr [Running]"
    by code_simp
  then obtain a where a: "list_attempts_for_execution demo_running ''e_1'' = Inr [a]" "at_state a = Running"
    by (cases "list_attempts_for_execution demo_running ''e_1''") (auto simp: map_eq_Cons_conv)
  show ?thesis
    using running_attempts_skipped[OF r a(1), of "\<lambda>_. Some [Inr ''garbage'']"] r a(2) by auto
qed



text \<open>A success resolves a row but leaves its \<^verbatim>\<open>latest_failure\<close> in place: a resolved row that failed before still
  carries that failure, against the comment of the field, which promises it only when the row is not resolved.\<close>

theorem success_keeps_latest_failure:
  "ps_state (apply_entry js aid (Success sq d dur) e) = Resolved \<and>
   ps_latest_failure (apply_entry js aid (Success sq d dur) e) = ps_latest_failure e"
  by (simp add: Let_def)

end
