(* ===== verification/Export.thy ===== *)
theory Export
  imports Row_Resolution
begin

text \<open>
  The export of an execution (\<^verbatim>\<open>export.rs\<close>): the completeness summary, the warnings, the tables of successes and
  failures as CSV and as JSON lines, and \<^verbatim>\<open>resolution.json\<close>. A CSV file is its list of records, the text of JSON values
  is a parameter; \<open>io\<close> is the error writing a path meets, \<open>now\<close> the formatted time.
\<close>

section \<open>Definitions\<close>

datatype export_format = Export_Csv | Export_Jsonl | Export_Both

record export_opts =
  eo_output_dir :: "path option"
  eo_format :: export_format
  eo_require_complete :: bool

record export_warning =
  ew_code :: string
  ew_message :: string

record export_report =
  er_output_dir :: path
  er_written_files :: "path list"
  er_success_count :: nat
  er_failed_count :: nat
  er_warnings :: "export_warning list"

text \<open>\<open>cm_done\<close> of \<open>cm_total\<close> rows is the completion percentage (100 for an empty input), which the code rounds to a double.\<close>

record completeness =
  cm_fully_processed :: bool
  cm_done :: nat
  cm_total :: nat
  cm_completed_attempts :: nat
  cm_aborted_attempts :: nat
  cm_aborted_ids :: "string list"
  cm_aborted_reasons :: "string list"

type_synonym aborted_list = "(string \<times> string option) list"

definition completeness_of :: "row_resolution \<Rightarrow> aborted_list \<Rightarrow> completeness" where
  "completeness_of res aborted =
     (let c = rr_counts res in
      \<lparr> cm_fully_processed = (rc_never_attempted c = 0 \<and> u64_as_u32 (length aborted) = 0),
        cm_done = rc_resolved c + rc_failed_last c + rc_crashed_last c + rc_cancelled_last c + rc_too_large c,
        cm_total = rr_input_row_count res,
        cm_completed_attempts = u64_as_u32 (length (rr_merged_from_attempts res)) - u64_as_u32 (length aborted),
        cm_aborted_attempts = u64_as_u32 (length aborted),
        cm_aborted_ids = map fst aborted,
        cm_aborted_reasons = map (\<lambda>x. case snd x of None \<Rightarrow> [] | Some r \<Rightarrow> r) aborted \<rparr>)"

definition collect_aborted_attempts :: "store \<Rightarrow> string \<Rightarrow> core_error + aborted_list" where
  "collect_aborted_attempts st e =
     (case list_attempts_for_execution st e of
        Inl err \<Rightarrow> Inl err
      | Inr ats \<Rightarrow> Inr (map (\<lambda>a. (at_id a, at_aborted_reason a)) (filter (\<lambda>a. at_state a = Aborted) ats)))"

definition emit_export_warnings :: "row_resolution \<Rightarrow> aborted_list \<Rightarrow> export_warning list" where
  "emit_export_warnings res aborted =
     (if rc_never_attempted (rr_counts res) > 0
      then [\<lparr> ew_code = ''NEVER_ATTEMPTED'',
              ew_message = nat_str (rc_never_attempted (rr_counts res)) @
                '' rows were never attempted; execution may be incomplete'' \<rparr>] else []) @
     (if aborted \<noteq> []
      then [\<lparr> ew_code = ''ABORTED_ATTEMPTS'',
              ew_message = ''export includes data from '' @ nat_str (length aborted) @ '' aborted attempt(s)'' \<rparr>] else [])"

section \<open>Tables\<close>

definition key_set :: "string list \<Rightarrow> string list" where
  "key_set ks = sort (remdups ks)"

definition discover_success_keys :: "row_resolution \<Rightarrow> string list" where
  "discover_success_keys res =
     key_set (concat (map (\<lambda>(s, e). case ps_canonical_success e of None \<Rightarrow> []
       | Some r \<Rightarrow> filter (\<lambda>h. h \<noteq> ''seqid'') (or_headers r)) (rr_per_seq res)))"

definition discover_failure_data_keys :: "row_resolution \<Rightarrow> string list" where
  "discover_failure_data_keys res =
     key_set (concat (map (\<lambda>(s, e). case ps_latest_failure e of None \<Rightarrow> []
       | Some r \<Rightarrow> filter (\<lambda>h. h \<noteq> ''seqid'' \<and> h \<noteq> ''errcode'' \<and> h \<noteq> ''errmessage'') (or_headers r)) (rr_per_seq res)))"

text \<open>The value of a record under a header.\<close>

definition field :: "outcome_record \<Rightarrow> string \<Rightarrow> string option" where
  "field r h =
     (case position h (or_headers r) of None \<Rightarrow> None
      | Some i \<Rightarrow> if i < length (or_raw r) then Some (or_raw r ! i) else None)"

definition cell :: "outcome_record \<Rightarrow> string \<Rightarrow> string" where
  "cell r h = (case field r h of None \<Rightarrow> [] | Some v \<Rightarrow> v)"

definition jcell :: "outcome_record \<Rightarrow> string \<Rightarrow> json" where
  "jcell r h = (case field r h of None \<Rightarrow> JNull | Some v \<Rightarrow> JString v)"

definition NEVER_MESSAGE :: string where
  "NEVER_MESSAGE = ''row never reached a worker (was not sampled or never dispatched)''"

definition success_csv :: "row_resolution \<Rightarrow> string list list" where
  "success_csv res =
     (let keys = discover_success_keys res in
      (''seqid'' # keys) #
      concat (map (\<lambda>(s, e). case ps_canonical_success e of None \<Rightarrow> []
        | Some r \<Rightarrow> [nat_str s # map (cell r) keys]) (rr_per_seq res)))"

definition failed_csv_row :: "string list \<Rightarrow> nat \<times> per_seq \<Rightarrow> string list list" where
  "failed_csv_row keys se =
     (case ps_state (snd se) of
        Resolved \<Rightarrow> []
      | NeverAttempted \<Rightarrow> [[nat_str (fst se), ''NEVER_ATTEMPTED'', NEVER_MESSAGE] @ map (\<lambda>_. []) keys]
      | _ \<Rightarrow> (case ps_latest_failure (snd se) of None \<Rightarrow> []
            | Some r \<Rightarrow> [[nat_str (fst se), cell r ''errcode'', cell r ''errmessage''] @ map (cell r) keys]))"

definition failed_csv :: "row_resolution \<Rightarrow> string list list" where
  "failed_csv res =
     (let keys = discover_failure_data_keys res in
      ([''seqid'', ''errcode'', ''errmessage''] @ keys) # concat (map (failed_csv_row keys) (rr_per_seq res)))"

definition success_jsonl :: "row_resolution \<Rightarrow> (string \<times> json) list list" where
  "success_jsonl res =
     (let keys = discover_success_keys res in
      concat (map (\<lambda>(s, e). case ps_canonical_success e of None \<Rightarrow> []
        | Some r \<Rightarrow> [(''seqid'', junum s) # map (\<lambda>k. (k, jcell r k)) keys]) (rr_per_seq res)))"

definition failed_jsonl_row :: "string list \<Rightarrow> nat \<times> per_seq \<Rightarrow> (string \<times> json) list list" where
  "failed_jsonl_row keys se =
     (case ps_state (snd se) of
        Resolved \<Rightarrow> []
      | NeverAttempted \<Rightarrow>
          [[(''seqid'', junum (fst se)), (''errcode'', JString ''NEVER_ATTEMPTED''), (''errmessage'', JString NEVER_MESSAGE)] @
            map (\<lambda>k. (k, JNull)) keys]
      | _ \<Rightarrow> (case ps_latest_failure (snd se) of None \<Rightarrow> []
            | Some r \<Rightarrow> [[(''seqid'', junum (fst se)), (''errcode'', jcell r ''errcode''), (''errmessage'', jcell r ''errmessage'')] @
                map (\<lambda>k. (k, jcell r k)) keys]))"

definition failed_jsonl :: "row_resolution \<Rightarrow> (string \<times> json) list list" where
  "failed_jsonl res = concat (map (failed_jsonl_row (discover_failure_data_keys res)) (rr_per_seq res))"

text \<open>One line of a JSONL file, the fields in the order given.\<close>

definition write_json_object :: "(json \<Rightarrow> string) \<Rightarrow> (string \<times> json) list \<Rightarrow> string" where
  "write_json_object ser fs = ''{'' @ join '','' (map (\<lambda>(k, v). ser (JString k) @ '':'' @ ser v) fs) @ ''}'' @ [newline]"

section \<open>The export\<close>

datatype export_file =
    Csv_File "string list list"
  | Text_File string
  | Summary_File string nat resolution_counts completeness "string list" "(string, nat) bt" "string list"

definition summary_file :: "row_resolution \<Rightarrow> completeness \<Rightarrow> export_file" where
  "summary_file res cm =
     Summary_File (rr_execution_id res) (rr_input_row_count res) (rr_counts res) cm (rr_merged_from_attempts res)
       (rr_by_error_code res) (rr_skipped_running res)"

definition files_of_export :: "(json \<Rightarrow> string) \<Rightarrow> export_format \<Rightarrow> row_resolution \<Rightarrow> completeness \<Rightarrow> (string \<times> export_file) list" where
  "files_of_export ser fmt res cm =
     (let csvs = [(''success.csv'', Csv_File (success_csv res)), (''failed.csv'', Csv_File (failed_csv res))];
          jsonls = [(''success.jsonl'', Text_File (concat (map (write_json_object ser) (success_jsonl res)))),
                    (''failed.jsonl'', Text_File (concat (map (write_json_object ser) (failed_jsonl res))))] in
      (case fmt of Export_Csv \<Rightarrow> csvs | Export_Jsonl \<Rightarrow> jsonls | Export_Both \<Rightarrow> csvs @ jsonls) @
      [(''resolution.json'', summary_file res cm)])"

text \<open>The files are written in order, up to the first that cannot be.\<close>

fun write_files ::
    "(path \<Rightarrow> string option) \<Rightarrow> (path \<times> export_file) list \<Rightarrow> (path \<times> export_file) list
      \<Rightarrow> (core_error + path list) \<times> (path \<times> export_file) list" where
  "write_files io [] out = (Inr (map fst out), out)"
| "write_files io ((p, f) # fs) out =
     (case io p of Some e \<Rightarrow> (Inl (Other e), out) | None \<Rightarrow> write_files io fs (out @ [(p, f)]))"

definition export_execution ::
    "(json \<Rightarrow> string) \<Rightarrow> (string \<Rightarrow> string + batch_outcome) \<Rightarrow> (path \<Rightarrow> text_file) \<Rightarrow> (path \<Rightarrow> string option) \<Rightarrow> string
      \<Rightarrow> store \<Rightarrow> string \<Rightarrow> export_opts \<Rightarrow> (core_error + export_report) \<times> (path \<times> export_file) list" where
  "export_execution ser parse files io now st e opts =
     (case get_execution st e of
        Inl err \<Rightarrow> (Inl err, [])
      | Inr None \<Rightarrow> (Inl (Store (''execution not found: '' @ e)), [])
      | Inr (Some x) \<Rightarrow>
     (case compute_resolution ser parse files st (ex_id x) of
        Inl err \<Rightarrow> (Inl err, [])
      | Inr res \<Rightarrow>
     (case collect_aborted_attempts st (ex_id x) of
        Inl err \<Rightarrow> (Inl err, [])
      | Inr aborted \<Rightarrow>
          (let cm = completeness_of res aborted; c = rr_counts res in
           if eo_require_complete opts \<and> \<not> cm_fully_processed cm then
             (Inl (Store (''export_incomplete:'' @ nat_str (rc_never_attempted c))), [])
           else
             (let dir = (case eo_output_dir opts of Some d \<Rightarrow> d | None \<Rightarrow> path_join (path_join (ex_dir x) ''exports'') now) in
              case io dir of
                Some err \<Rightarrow> (Inl (Io err), [])
              | None \<Rightarrow>
                  (case write_files io (map (\<lambda>(n, f). (path_join dir n, f)) (files_of_export ser (eo_format opts) res cm)) [] of
                     (Inl err, out) \<Rightarrow> (Inl err, out)
                   | (Inr written, out) \<Rightarrow>
                       (Inr \<lparr> er_output_dir = dir, er_written_files = written, er_success_count = rc_resolved c,
                              er_failed_count = rc_failed_last c + rc_crashed_last c + rc_cancelled_last c + rc_too_large c
                                + rc_never_attempted c,
                              er_warnings = emit_export_warnings res aborted \<rparr>, out)))))))"


section \<open>Which rows a table has\<close>

text \<open>What every entry of a resolution satisfies.\<close>

definition entry_ok :: "per_seq \<Rightarrow> bool" where
  "entry_ok e =
     ((ps_state e = Resolved \<longleftrightarrow> ps_canonical_success e \<noteq> None) \<and>
      (ps_state e \<notin> {Resolved, NeverAttempted} \<longrightarrow> ps_latest_failure e \<noteq> None))"

lemma apply_entry_ok: "entry_ok e \<Longrightarrow> entry_ok (apply_entry js aid r e)"
  by (cases r) (auto simp: entry_ok_def Let_def)

lemma fold_entry_ok: "entry_ok e \<Longrightarrow> entry_ok (fold (\<lambda>x. apply_entry js (fst x) (snd x)) xs e)"
  by (induction xs arbitrary: e) (auto simp: apply_entry_ok)

lemma resolution_entries_ok:
  assumes "compute_resolution js parse files st e = Inr r" "(s, p) \<in> set (rr_per_seq r)"
  shows "entry_ok p"
proof -
  obtain x ats where x: "get_execution st e = Inr (Some x)" "list_attempts_for_execution st (ex_id x) = Inr ats"
    using assms(1) by (rule compute_resolutionD)
  have "bt_lookup (rr_per_seq r) s = Some p" using assms(2) resolution_ok[OF assms(1)] by (simp add: bt_lookup_in_set)
  then have "p = fold (\<lambda>x. apply_entry js (fst x) (snd x)) (row_events parse files ats s) never_attempted"
    using resolution_entry[OF assms(1) x, of s] by (auto split: if_splits)
  then show ?thesis using fold_entry_ok[of never_attempted] by (simp add: entry_ok_def never_attempted_def)
qed

lemma success_rows:
  "\<forall>(s, p)\<in>set m. entry_ok p \<Longrightarrow>
   map hd (concat (map (\<lambda>(s, e). case ps_canonical_success e of None \<Rightarrow> [] | Some r \<Rightarrow> [nat_str s # map (cell r) keys]) m))
     = map (\<lambda>x. nat_str (fst x)) (filter (\<lambda>x. ps_state (snd x) = Resolved) m)"
  by (induction m) (auto simp: entry_ok_def split: option.splits)

lemma failed_row_hd:
  "entry_ok p \<Longrightarrow> map hd (failed_csv_row keys (s, p)) = (if ps_state p = Resolved then [] else [nat_str s])"
  by (cases "ps_state p") (auto simp: failed_csv_row_def entry_ok_def)

lemma failed_rows:
  "\<forall>(s, p)\<in>set m. entry_ok p \<Longrightarrow>
   map hd (concat (map (failed_csv_row keys) m)) = map (\<lambda>x. nat_str (fst x)) (filter (\<lambda>x. ps_state (snd x) \<noteq> Resolved) m)"
proof (induction m)
  case (Cons x m)
  obtain s p where x: "x = (s, p)" by force
  have "map hd (failed_csv_row keys (s, p)) = (if ps_state p = Resolved then [] else [nat_str s])"
    using Cons.prems x by (intro failed_row_hd) simp
  then show ?case using Cons unfolding x by (cases "ps_state p = Resolved") simp_all
qed simp

lemma filter_states:
  "bt_ok (rr_per_seq r) \<Longrightarrow> map (\<lambda>x. nat_str (fst x)) (filter (\<lambda>x. P (ps_state (snd x))) (rr_per_seq r)) =
     map nat_str (filter (\<lambda>s. P (row_state r s)) (map fst (rr_per_seq r)))"
proof -
  assume ok: "bt_ok (rr_per_seq r)"
  have "P (ps_state (snd x)) = P (row_state r (fst x))" if "x \<in> set (rr_per_seq r)" for x
  proof -
    have "bt_lookup (rr_per_seq r) (fst x) = Some (snd x)" using bt_lookup_in_set[OF ok] that by simp
    then show ?thesis by (simp add: row_state_def)
  qed
  then have "filter (\<lambda>x. P (ps_state (snd x))) (rr_per_seq r) = filter ((\<lambda>s. P (row_state r s)) \<circ> fst) (rr_per_seq r)"
    by (intro filter_cong) auto
  then show ?thesis by (simp add: filter_map comp_def)
qed

lemma resolution_knows_input:
  assumes "compute_resolution js parse files st e = Inr r"
  shows "{0..<rr_input_row_count r} \<subseteq> set (map fst (rr_per_seq r))"
proof -
  obtain x ats where x: "get_execution st e = Inr (Some x)" "list_attempts_for_execution st (ex_id x) = Inr ats"
      "rr_input_row_count r = ex_input_row_count x" using assms by (rule compute_resolutionD)
  have "s \<in> set (map fst (rr_per_seq r))" if "s < ex_input_row_count x" for s
  proof -
    have "bt_lookup (rr_per_seq r) s \<noteq> None" using resolution_entry[OF assms x(1,2), of s] that by simp
    then obtain p where "bt_lookup (rr_per_seq r) s = Some p" by blast
    then have "(s, p) \<in> set (rr_per_seq r)" using bt_lookup_in_set[OF resolution_ok[OF assms]] by blast
    then show ?thesis by force
  qed
  then show ?thesis using x(3) by auto
qed

text \<open>C14: every row is exported exactly once. The rows of the success table are the resolved rows and those of the failure table are all the
  others, each table in ascending order of the sequence numbers, and together they have every row of the input; rows
  never attempted are in the failure table.\<close>

theorem export_partitions_rows:
  assumes "compute_resolution js parse files st e = Inr r"
  shows "map hd (tl (success_csv r)) = map nat_str (filter (\<lambda>s. row_state r s = Resolved) (map fst (rr_per_seq r))) \<and>
     map hd (tl (failed_csv r)) = map nat_str (filter (\<lambda>s. row_state r s \<noteq> Resolved) (map fst (rr_per_seq r))) \<and>
     sorted_wrt (<) (map fst (rr_per_seq r)) \<and> {0..<rr_input_row_count r} \<subseteq> set (map fst (rr_per_seq r))"
proof -
  have eok: "\<forall>(s, p)\<in>set (rr_per_seq r). entry_ok p" using resolution_entries_ok[OF assms] by blast
  have ok: "bt_ok (rr_per_seq r)" by (rule resolution_ok[OF assms])
  show ?thesis
    using success_rows[OF eok, of "discover_success_keys r"] failed_rows[OF eok, of "discover_failure_data_keys r"]
      filter_states[OF ok, of "\<lambda>s. s = Resolved"] filter_states[OF ok, of "\<lambda>s. s \<noteq> Resolved"]
      resolution_knows_input[OF assms] ok
    by (simp add: success_csv_def failed_csv_def Let_def bt_ok_def)
qed

lemma export_partitions_rows_witness:
  "\<exists>r. compute_resolution (\<lambda>_. []) demo_parse demo_files demo_store ''e_1'' = Inr r \<and>
     map hd (tl (success_csv r)) = map nat_str (filter (\<lambda>s. row_state r s = Resolved) (map fst (rr_per_seq r)))"
  using demo_resolution_ok export_partitions_rows[of "\<lambda>_. []" demo_parse demo_files demo_store "''e_1''"] by blast

text \<open>C35: the tables are rectangular: every record of either CSV has as many fields as its header, so no export can fail for
  a record of the wrong length.\<close>

theorem export_tables_rectangular:
  "list_all (\<lambda>row. length row = length (hd (success_csv r))) (success_csv r) \<and>
   list_all (\<lambda>row. length row = length (hd (failed_csv r))) (failed_csv r)"
  by (auto simp: list_all_iff success_csv_def failed_csv_def failed_csv_row_def Let_def
      split: option.splits resolution_state.splits)


section \<open>Cells\<close>

lemma field_success:
  assumes "bt_ok d" "k \<noteq> ''seqid''"
  shows "field (build_success_record js aid sq d) k = map_option (json_value_to_csv js) (bt_lookup d k)"
proof (cases "position k (sort (bt_keys d))")
  case None
  then have "k \<notin> set (bt_keys d)" by (simp add: position_None)
  then have "bt_lookup d k = None" by (simp add: bt_lookup_def bt_keys_def map_of_eq_None_iff)
  then show ?thesis using None assms(2) by (simp add: field_def build_success_record_def)
next
  case (Some i)
  have i: "i < length (sort (bt_keys d))" "sort (bt_keys d) ! i = k" using position_nth[OF Some] by simp_all
  then have "k \<in> set (bt_keys d)" by (metis nth_mem set_sort)
  then obtain v where "bt_lookup d k = Some v" by (auto simp: bt_lookup_def bt_keys_def dest: weak_map_of_SomeI)
  then show ?thesis using Some i assms(2) by (simp add: field_def build_success_record_def sorted_values_def)
qed

lemma field_error:
  assumes "bt_ok d" "k \<notin> {''seqid'', ''errcode'', ''errmessage''}"
  shows "field (build_error_record js aid sq c m (Some d)) k = map_option (json_value_to_csv js) (bt_lookup d k)"
proof (cases "position k (sort (bt_keys d))")
  case None
  then have "k \<notin> set (bt_keys d)" by (simp add: position_None)
  then have "bt_lookup d k = None" by (simp add: bt_lookup_def bt_keys_def map_of_eq_None_iff)
  then show ?thesis using None assms(2) by (simp add: field_def build_error_record_def)
next
  case (Some i)
  have i: "i < length (sort (bt_keys d))" "sort (bt_keys d) ! i = k" using position_nth[OF Some] by simp_all
  then have "k \<in> set (bt_keys d)" by (metis nth_mem set_sort)
  then obtain v where "bt_lookup d k = Some v" by (auto simp: bt_lookup_def bt_keys_def dest: weak_map_of_SomeI)
  then show ?thesis using Some i assms(2) by (simp add: field_def build_error_record_def sorted_values_def)
qed

lemma key_set_props [simp]: "set (key_set ks) = set ks" "distinct (key_set ks)" "sorted (key_set ks)"
  by (simp_all add: key_set_def)

lemma success_key_not_seqid: "k \<in> set (discover_success_keys r) \<Longrightarrow> k \<noteq> ''seqid''"
  by (auto simp: discover_success_keys_def split: option.splits)

lemma failure_key_not_reserved: "k \<in> set (discover_failure_data_keys r) \<Longrightarrow> k \<notin> {''seqid'', ''errcode'', ''errmessage''}"
  by (auto simp: discover_failure_data_keys_def split: option.splits)

text \<open>Every key of a canonical success but \<^verbatim>\<open>seqid\<close> is a column.\<close>

lemma success_key_column:
  assumes "(s, p) \<in> set (rr_per_seq r)" "ps_canonical_success p = Some (build_success_record js aid sq d)"
    and "bt_lookup d k = Some v" "k \<noteq> ''seqid''"
  shows "k \<in> set (discover_success_keys r)"
proof -
  have "k \<in> set (bt_keys d)" using assms(3) by (auto simp: bt_lookup_def bt_keys_def dest: map_of_SomeD intro: rev_image_eqI)
  then have "k \<in> set (filter (\<lambda>h. h \<noteq> ''seqid'') (or_headers (build_success_record js aid sq d)))"
    using assms(4) by (simp add: build_success_record_def)
  then show ?thesis
    unfolding discover_success_keys_def by (auto simp: assms(2) intro!: bexI[OF _ assms(1)])
qed

text \<open>The export carries the handler's results. For a row whose first success over the ingested attempts has the data d, the success
  table has a record that starts with its number and has under every column the text of that field of d, empty
  where d has no such field; and every field of d other than \<^verbatim>\<open>seqid\<close> is a column.\<close>

theorem export_success_cells:
  assumes "compute_resolution js parse files st e = Inr r" "get_execution st e = Inr (Some x)"
    and "list_attempts_for_execution st (ex_id x) = Inr ats"
    and "List.find (\<lambda>y. is_success (snd y)) (row_events parse files ats s) = Some (aid, Success s d dur)" "bt_ok d"
  shows "nat_str s # map (\<lambda>k. case bt_lookup d k of None \<Rightarrow> [] | Some v \<Rightarrow> json_value_to_csv js v) (discover_success_keys r)
       \<in> set (tl (success_csv r)) \<and>
     (\<forall>k v. bt_lookup d k = Some v \<longrightarrow> k \<noteq> ''seqid'' \<longrightarrow> k \<in> set (discover_success_keys r))"
proof -
  let ?rec = "build_success_record js aid s d"
  have "row_canonical r s = Some ?rec"
    using resolution_state_and_canonical[OF assms(1-3), of s] assms(4) by (simp add: canonical_spec_def)
  then obtain p where p: "bt_lookup (rr_per_seq r) s = Some p" "ps_canonical_success p = Some ?rec"
    by (auto simp: row_canonical_def split: option.splits)
  have inr: "(s, p) \<in> set (rr_per_seq r)" using p(1) bt_lookup_in_set[OF resolution_ok[OF assms(1)]] by simp
  have cells: "map (cell ?rec) (discover_success_keys r) =
      map (\<lambda>k. case bt_lookup d k of None \<Rightarrow> [] | Some v \<Rightarrow> json_value_to_csv js v) (discover_success_keys r)"
    using field_success[OF assms(5) success_key_not_seqid] by (intro map_cong) (auto simp: cell_def split: option.splits)
  have "nat_str s # map (cell ?rec) (discover_success_keys r) \<in> set (tl (success_csv r))"
    using inr p(2) by (auto simp: success_csv_def Let_def intro!: bexI[OF _ inr])
  then show ?thesis using success_key_column[OF inr p(2)] cells by auto
qed

lemma export_success_cells_witness:
  "\<exists>r. compute_resolution (\<lambda>_. []) demo_parse demo_files demo_store ''e_1'' = Inr r \<and>
     nat_str 0 # map (\<lambda>k. []) (discover_success_keys r) \<in> set (tl (success_csv r))"
proof -
  obtain r where r: "compute_resolution (\<lambda>_. []) demo_parse demo_files demo_store ''e_1'' = Inr r"
    using demo_resolution_ok by auto
  then obtain x ats where x: "get_execution demo_store ''e_1'' = Inr (Some x)"
      "list_attempts_for_execution demo_store (ex_id x) = Inr ats" by (rule compute_resolutionD)
  have "ex_id x = ''e_1''" using get_execution_id[OF x(1)] by simp
  moreover have "map_sum id (\<lambda>ats. List.find (\<lambda>y. is_success (snd y)) (row_events demo_parse demo_files ats 0))
      (list_attempts_for_execution demo_store ''e_1'') = Inr (Some (''r_1'', Success 0 [] 1))" by code_simp
  ultimately have "List.find (\<lambda>y. is_success (snd y)) (row_events demo_parse demo_files ats 0) = Some (''r_1'', Success 0 [] 1)"
    using x(2) by simp
  from export_success_cells[OF r x this] show ?thesis using r by (auto simp: bt_lookup_def)
qed

text \<open>Some handler results cannot be exported. A result field named \<^verbatim>\<open>seqid\<close>, and an error field named
  \<^verbatim>\<open>seqid\<close>, \<^verbatim>\<open>errcode\<close> or \<^verbatim>\<open>errmessage\<close>, is never a column of its table, and what stands under those names in
  a record is the number of the row, the error code and the message, whatever the handler sent.\<close>

theorem reserved_fields_shadowed:
  "''seqid'' \<notin> set (discover_success_keys r) \<and>
   set (discover_failure_data_keys r) \<inter> {''seqid'', ''errcode'', ''errmessage''} = {} \<and>
   field (build_success_record js aid sq d) ''seqid'' = Some (nat_str sq) \<and>
   field (build_error_record js aid sq c m od) ''errcode'' = Some c \<and>
   field (build_error_record js aid sq c m od) ''errmessage'' = Some m"
  using success_key_not_seqid failure_key_not_reserved
  by (auto simp: field_def build_success_record_def build_error_record_def)

section \<open>The report\<close>

lemma write_files_ok:
  "write_files io fs out = (Inr ws, out') \<Longrightarrow> out' = out @ fs \<and> ws = map fst (out @ fs)"
  by (induction io fs out rule: write_files.induct) (auto split: option.splits)

lemma strict_export_fails:
  assumes "get_execution st e = Inr (Some x)" "compute_resolution ser parse files st (ex_id x) = Inr r"
    and "collect_aborted_attempts st (ex_id x) = Inr aborted" "length aborted < 2 ^ 32"
    and "eo_require_complete opts" "rc_never_attempted (rr_counts r) > 0 \<or> aborted \<noteq> []"
  shows "export_execution ser parse files io now st e opts =
     (Inl (Store (''export_incomplete:'' @ nat_str (rc_never_attempted (rr_counts r)))), [])"
proof -
  have "u64_as_u32 (length aborted) = length aborted"
    using assms(4) by (simp add: u64_as_u32_def unat_of_nat take_bit_nat_def)
  then have "\<not> cm_fully_processed (completeness_of r aborted)"
    using assms(6) by (auto simp: completeness_of_def Let_def)
  then show ?thesis using assms(1-3,5) by (simp add: export_execution_def Let_def)
qed

text \<open>The strict mode. With \<^verbatim>\<open>require_complete\<close>, when some row was never attempted or some attempt was
  aborted (fewer than 2 to the 32 of them), the export fails with the number of missing rows and nothing is written.\<close>

theorem strict_export_refuses:
  assumes "get_execution st e = Inr (Some x)" "compute_resolution ser parse files st (ex_id x) = Inr r"
    and "collect_aborted_attempts st (ex_id x) = Inr aborted" "length aborted < 2 ^ 32"
    and "eo_require_complete opts" "rc_never_attempted (rr_counts r) > 0 \<or> aborted \<noteq> []"
  shows "export_execution ser parse files io now st e opts =
     (Inl (Store (''export_incomplete:'' @ nat_str (rc_never_attempted (rr_counts r)))), [])"
  by (rule strict_export_fails[OF assms])

text \<open>The counts of the report are the sizes of the tables: an export that succeeds reports as many successes and failures as its
  tables have records, the files it lists are exactly the ones written, and the last of them is \<^verbatim>\<open>resolution.json\<close>.\<close>

theorem export_report_exact:
  assumes "export_execution ser parse files io now st e opts = (Inr rep, out)"
  shows "\<exists>r. compute_resolution ser parse files st e = Inr r \<and>
     er_success_count rep = length (tl (success_csv r)) \<and> er_failed_count rep = length (tl (failed_csv r)) \<and>
     er_written_files rep = map fst out \<and> fst (last out) = path_join (er_output_dir rep) ''resolution.json'' \<and>
     (eo_format opts = Export_Both \<longrightarrow>
        (path_join (er_output_dir rep) ''success.csv'', Csv_File (success_csv r)) \<in> set out)"
proof -
  obtain x where x: "get_execution st e = Inr (Some x)"
    using assms by (auto simp: export_execution_def split: sum.splits option.splits)
  have id: "ex_id x = e" using get_execution_id[OF x] by simp
  obtain r where r: "compute_resolution ser parse files st e = Inr r"
    using assms x id by (auto simp: export_execution_def split: sum.splits)
  obtain aborted where a: "collect_aborted_attempts st e = Inr aborted"
    using assms x id r by (auto simp: export_execution_def split: sum.splits)
  let ?cm = "completeness_of r aborted"
  let ?dir = "case eo_output_dir opts of Some d \<Rightarrow> d | None \<Rightarrow> path_join (path_join (ex_dir x) ''exports'') now"
  let ?fs = "map (\<lambda>(n, f). (path_join ?dir n, f)) (files_of_export ser (eo_format opts) r ?cm)"
  obtain ws where w: "write_files io ?fs [] = (Inr ws, out)" "er_output_dir rep = ?dir" "er_written_files rep = ws"
      "er_success_count rep = rc_resolved (rr_counts r)"
      "er_failed_count rep = rc_failed_last (rr_counts r) + rc_crashed_last (rr_counts r) + rc_cancelled_last (rr_counts r)
         + rc_too_large (rr_counts r) + rc_never_attempted (rr_counts r)"
    using assms x id r a
    by (auto simp: export_execution_def Let_def split: if_splits option.splits prod.splits sum.splits)
  have out: "out = ?fs" "ws = map fst ?fs" using write_files_ok[OF w(1)] by simp_all
  have eok: "\<forall>(s, p)\<in>set (rr_per_seq r). entry_ok p" using resolution_entries_ok[OF r] by blast
  obtain m where m: "m = rr_per_seq r" "(rr_counts r, rr_by_error_code r) = fold count_entry m (zero_counts, [])"
    by (rule compute_resolutionD[OF r]) simp
  have c: "rc_of s (rr_counts r) = length (filter (\<lambda>se. ps_state (snd se) = s) (rr_per_seq r))" for s
    using m count_entries_state[of s m "(zero_counts, [])"] by (metis fst_conv rc_of_zero add_0)
  have parts: "length (filter (\<lambda>x. ps_state (snd x) \<noteq> Resolved) ps) =
      (\<Sum>s\<leftarrow>[FailedLast, CrashedLast, CancelledLast, TooLarge, NeverAttempted]. length (filter (\<lambda>se. ps_state (snd se) = s) ps))"
    for ps :: "(nat \<times> per_seq) list"
  proof (induction ps)
    case (Cons y ps)
    then show ?case by (cases "ps_state (snd y)") simp_all
  qed simp
  have "length (tl (success_csv r)) = rc_resolved (rr_counts r)"
    using arg_cong[OF success_rows[OF eok, of "discover_success_keys r"], of length] c[of Resolved]
    by (simp add: success_csv_def Let_def)
  moreover have "length (tl (failed_csv r)) = er_failed_count rep"
    using arg_cong[OF failed_rows[OF eok, of "discover_failure_data_keys r"], of length] parts[of "rr_per_seq r"] w(5)
      c[of FailedLast] c[of CrashedLast] c[of CancelledLast] c[of TooLarge] c[of NeverAttempted]
    by (simp add: failed_csv_def Let_def)
  moreover have "fst (last out) = path_join ?dir ''resolution.json''"
    by (simp add: out(1) files_of_export_def Let_def)
  moreover have "eo_format opts = Export_Both \<longrightarrow> (path_join ?dir ''success.csv'', Csv_File (success_csv r)) \<in> set out"
    by (simp add: out(1) files_of_export_def Let_def)
  ultimately show ?thesis using r w(2-4) out by auto
qed


definition demo_opts :: export_opts where
  "demo_opts = \<lparr> eo_output_dir = Some ''/out'', eo_format = Export_Both, eo_require_complete = False \<rparr>"

lemma export_report_exact_witness:
  "\<exists>rep out r. export_execution (\<lambda>_. []) demo_parse demo_files (\<lambda>_. None) [] demo_store ''e_1'' demo_opts = (Inr rep, out) \<and>
     er_success_count rep = length (tl (success_csv r)) \<and> er_failed_count rep = length (tl (failed_csv r)) \<and>
     (er_success_count rep, er_failed_count rep) = (1, 1)"
proof -
  have v: "map_sum id (\<lambda>rep. (er_success_count rep, er_failed_count rep))
      (fst (export_execution (\<lambda>_. []) demo_parse demo_files (\<lambda>_. None) [] demo_store ''e_1'' demo_opts)) = Inr (1, 1)"
    by code_simp
  obtain q out where q: "export_execution (\<lambda>_. []) demo_parse demo_files (\<lambda>_. None) [] demo_store ''e_1'' demo_opts = (q, out)"
    by force
  then obtain rep where "q = Inr rep" "(er_success_count rep, er_failed_count rep) = (1, 1)"
    using v by (cases q) auto
  then show ?thesis using export_report_exact[of "\<lambda>_. []" demo_parse demo_files "\<lambda>_. None" "[]" demo_store "''e_1''" demo_opts rep out] q
    by blast
qed

lemma strict_export_refuses_witness:
  "export_execution (\<lambda>_. []) demo_parse (\<lambda>_. None) (\<lambda>_. None) [] demo_store ''e_1'' (demo_opts\<lparr> eo_require_complete := True \<rparr>)
     = (Inl (Store ''export_incomplete:1''), [])"
proof -
  have v: "map_sum id (\<lambda>r. rc_never_attempted (rr_counts r)) (compute_resolution (\<lambda>_. []) demo_parse (\<lambda>_. None) demo_store ''e_1'')
      = Inr 1" by code_simp
  have a: "collect_aborted_attempts demo_store ''e_1'' = Inr []" by code_simp
  obtain r where r: "compute_resolution (\<lambda>_. []) demo_parse (\<lambda>_. None) demo_store ''e_1'' = Inr r" "rc_never_attempted (rr_counts r) = 1"
    using v by (cases "compute_resolution (\<lambda>_. []) demo_parse (\<lambda>_. None) demo_store ''e_1''") auto
  obtain x where x: "get_execution demo_store ''e_1'' = Inr (Some x)" using r(1) by (rule compute_resolutionD)
  have "ex_id x = ''e_1''" using get_execution_id[OF x] by simp
  moreover have "nat_str 1 = ''1''" by code_simp
  ultimately show ?thesis
    using strict_export_refuses[OF x, of "\<lambda>_. []" demo_parse "\<lambda>_. None" r "[]" "demo_opts\<lparr> eo_require_complete := True \<rparr>" "\<lambda>_. None" "[]"] r a
    by simp
qed

end
