(* ===== verification/Handler_Log.thy ===== *)
theory Handler_Log
  imports Protocol
begin

text \<open>
  The lines of \<^verbatim>\<open>handler_log.log\<close> (\<^verbatim>\<open>handler_log.rs\<close>): their text and the parser that reads it back. Timestamps
  have a type of their own with a printer and a parser, which belong to the library.
\<close>

datatype handler_stream = Stdout | Stderr

fun stream_str :: "handler_stream \<Rightarrow> string" where
  "stream_str Stdout = ''stdout''"
| "stream_str Stderr = ''stderr''"

record 'ts handler_log_line =
  hl_timestamp :: 'ts
  hl_worker_id :: nat
  hl_stream :: handler_stream
  hl_line :: string

definition handler_log_path :: "path \<Rightarrow> path" where
  "handler_log_path dir = path_join dir ''handler_log.log''"

definition format_line :: "('ts \<Rightarrow> string) \<Rightarrow> 'ts handler_log_line \<Rightarrow> string" where
  "format_line show_ts l =
     show_ts (hl_timestamp l) @ '' [handler#'' @ nat_str (hl_worker_id l) @ '' '' @ stream_str (hl_stream l) @ ''] '' @
     hl_line l @ [newline]"

definition parse_line :: "(string \<Rightarrow> 'ts option) \<Rightarrow> string \<Rightarrow> 'ts handler_log_line option" where
  "parse_line parse_ts s =
     Option.bind (split_once '' [handler#'' s) (\<lambda>(ts, rest).
     Option.bind (parse_ts ts) (\<lambda>t.
     Option.bind (split_once '' '' rest) (\<lambda>(wid, rest).
     Option.bind (parse_u64 wid) (\<lambda>w.
     Option.bind (split_once ''] '' rest) (\<lambda>(st, content).
       if st = ''stdout'' then
         Some \<lparr> hl_timestamp = t, hl_worker_id = w, hl_stream = Stdout, hl_line = trim_end_newline content \<rparr>
       else if st = ''stderr'' then
         Some \<lparr> hl_timestamp = t, hl_worker_id = w, hl_stream = Stderr, hl_line = trim_end_newline content \<rparr>
       else None)))))"

lemma starts_with_hd: "starts_with s (c # p) \<Longrightarrow> s \<noteq> [] \<and> hd s = c"
  by (cases s) (auto simp: starts_with_def)

text \<open>A separator is found at its first position when its first character does not occur before.\<close>

lemma split_once_fresh: "c \<notin> set s \<Longrightarrow> split_once (c # p) (s @ (c # p) @ t) = Some (s, t)"
proof (induction s)
  case Nil
  then show ?case by (simp add: starts_with_def)
next
  case (Cons a s)
  then have "\<not> starts_with (a # s @ (c # p) @ t) (c # p)" by (auto dest: starts_with_hd)
  then show ?case using Cons by simp
qed

lemma not_digit_fresh: "\<not> is_digit c \<Longrightarrow> c \<notin> set (nat_str n)"
  using nat_str_digits[of n] by (auto simp: list_all_iff)

lemma parse_log_text:
  assumes "parse_ts (show_ts ts) = Some ts" "CHR '' '' \<notin> set (show_ts ts)" "w < 2 ^ 64"
  shows "parse_line parse_ts (show_ts ts @ '' [handler#'' @ nat_str w @ '' '' @ stream_str st @ ''] '' @ c) =
    Some \<lparr> hl_timestamp = ts, hl_worker_id = w, hl_stream = st, hl_line = trim_end_newline c \<rparr>"
proof -
  let ?tail = "stream_str st @ ''] '' @ c"
  let ?wid = "nat_str w @ '' '' @ ?tail"
  have s1: "split_once '' [handler#'' (show_ts ts @ '' [handler#'' @ ?wid) = Some (show_ts ts, ?wid)"
    using split_once_fresh[of "CHR '' ''" "show_ts ts" "''[handler#''" ?wid] assms(2) by simp
  have s2: "split_once '' '' ?wid = Some (nat_str w, ?tail)"
    using split_once_fresh[of "CHR '' ''" "nat_str w" "[]" ?tail] not_digit_fresh[of "CHR '' ''"] by (simp add: is_digit_def)
  have s3: "split_once ''] '' ?tail = Some (stream_str st, c)"
    using split_once_fresh[of "CHR '']''" "stream_str st" "'' ''" c] by (cases st) simp_all
  show ?thesis using s1 s2 s3 assms(1) parse_nat_str[OF assms(3)] by (cases st) (simp_all add: parse_line_def)
qed

text \<open>A log line formatted is parsed back to itself: timestamp, worker, stream and text, for a text without
  trailing line breaks, a worker number that fits 64 bits, and a timestamp whose printed form parses back and
  holds no space.\<close>

theorem log_line_roundtrip:
  assumes "parse_ts (show_ts (hl_timestamp l)) = Some (hl_timestamp l)" "CHR '' '' \<notin> set (show_ts (hl_timestamp l))"
    and "hl_worker_id l < 2 ^ 64" "hl_line l = [] \<or> last (hl_line l) \<noteq> newline"
  shows "parse_line parse_ts (format_line show_ts l) = Some l"
proof -
  have "parse_line parse_ts (format_line show_ts l) = Some \<lparr> hl_timestamp = hl_timestamp l, hl_worker_id = hl_worker_id l,
      hl_stream = hl_stream l, hl_line = trim_end_newline (hl_line l @ [newline]) \<rparr>"
    unfolding format_line_def by (rule parse_log_text) (use assms in auto)
  then show ?thesis using assms(4) by (simp add: text_simps)
qed

lemma log_line_roundtrip_witness:
  "parse_line parse_u64 (format_line nat_str \<lparr> hl_timestamp = 5, hl_worker_id = 3, hl_stream = Stderr, hl_line = ''hi ] x'' \<rparr>)
     = Some \<lparr> hl_timestamp = 5, hl_worker_id = 3, hl_stream = Stderr, hl_line = ''hi ] x'' \<rparr>"
  by (rule log_line_roundtrip) (simp_all add: text_simps not_digit_fresh is_digit_def newline_def)

end
