(* ===== verification/Worker.thy ===== *)
theory Worker
  imports Handler_Log Core_Error
begin

text \<open>
  One handler process as the pool sees it (\<^verbatim>\<open>worker.rs\<close>): the handshake, sending rows and batches, receiving
  replies, and how it is stopped. The process is its standard output, a list of events each with the time waited for it (the end
  of the list is the end of the stream), and its standard input, a fuse for the first write that fails. \<open>parse\<close> parses
  a line to a message of the protocol.
\<close>

datatype stdout_event = Line string | Read_Error string

type_synonym stdout = "(nat \<times> stdout_event) list"

record worker =
  wk_id :: nat
  wk_stdout :: stdout
  wk_stdin :: fuse
  wk_sent :: "outbound list"
  wk_handler_version :: string
  wk_log_sink :: bool
  wk_capture_raw :: bool
  wk_pre_ready :: "string list"
  wk_log :: "(handler_stream \<times> string) list"

definition trim_line_end :: "string \<Rightarrow> string" where
  "trim_line_end l = trim_end_cr (trim_end_newline l)"

section \<open>Handshake\<close>

text \<open>
  The loop of \<^verbatim>\<open>spawn\<close> waiting for \<^verbatim>\<open>ready\<close>: each line is waited for at most the startup timeout.
\<close>

fun handshake ::
    "(string \<Rightarrow> inbound option) \<Rightarrow> nat \<Rightarrow> string list \<Rightarrow> stdout \<Rightarrow> core_error + (string \<times> string list \<times> stdout)" where
  "handshake parse to logs [] = Inl (Protocol_Error ''handler closed stdout before ready'')"
| "handshake parse to logs ((delay, ev) # rest) =
     (if delay > to then Inl (Startup_Timeout to)
      else (case ev of
          Read_Error e \<Rightarrow> Inl (Io e)
        | Line l \<Rightarrow>
            let t = trim_line_end l in
            if t = [] then handshake parse to logs rest
            else (case parse t of
                Some (Ready v) \<Rightarrow> Inr (v, logs, rest)
              | Some other \<Rightarrow> Inl (Protocol_Error ''expected ready'')
              | None \<Rightarrow> handshake parse to (logs @ [t]) rest)))"

text \<open>
  \<^verbatim>\<open>Worker::spawn\<close>: \<open>launch\<close> is what starting the process gives, its output and input or an error.
\<close>

definition spawn ::
    "(string \<Rightarrow> inbound option) \<Rightarrow> (entry \<Rightarrow> core_error + (stdout \<times> fuse)) \<Rightarrow> nat \<Rightarrow> manifest \<Rightarrow> string \<Rightarrow> obj
      \<Rightarrow> string list \<Rightarrow> core_error + worker" where
  "spawn parse launch i m run_id config columns =
     (case en_cmd (mf_entry m) of
        [] \<Rightarrow> Inl (Protocol_Error ''entry.cmd empty'')
      | _ \<Rightarrow>
         (case launch (mf_entry m) of
            Inl e \<Rightarrow> Inl e
          | Inr (out, inp) \<Rightarrow>
             (let (bad, inp') = poll inp in
              if bad then Inl (Io ''write init'')
              else (case handshake parse (en_startup_timeout_ms (mf_entry m)) [] out of
                  Inl e \<Rightarrow> Inl e
                | Inr (v, logs, rest) \<Rightarrow>
                    Inr \<lparr> wk_id = i, wk_stdout = rest, wk_stdin = inp', wk_sent = [Init run_id config columns],
                          wk_handler_version = v, wk_log_sink = False, wk_capture_raw = False,
                          wk_pre_ready = logs, wk_log = [] \<rparr>))))"

text \<open>The pool attaches the log sink, then the lines printed before \<^verbatim>\<open>ready\<close> are flushed through it.\<close>

definition flush_pre_ready_lines :: "worker \<Rightarrow> worker" where
  "flush_pre_ready_lines w =
     (if wk_log_sink w then w\<lparr> wk_log := wk_log w @ map (Pair Stdout) (wk_pre_ready w), wk_pre_ready := [] \<rparr>
      else w\<lparr> wk_pre_ready := [] \<rparr>)"

section \<open>Messages\<close>

definition send_msg :: "outbound \<Rightarrow> worker \<Rightarrow> (core_error + unit) \<times> worker" where
  "send_msg msg w =
     (let (bad, inp) = poll (wk_stdin w) in
      if bad then (Inl (Io ''stdin''), w\<lparr> wk_stdin := inp \<rparr>)
      else (Inr (), w\<lparr> wk_stdin := inp, wk_sent := wk_sent w @ [msg] \<rparr>))"

definition send_row :: "outbound \<Rightarrow> worker \<Rightarrow> (core_error + unit) \<times> worker" where
  "send_row msg w = send_msg msg w"

definition send_batch_envelopes :: "row_envelope list \<Rightarrow> worker \<Rightarrow> (core_error + unit) \<times> worker" where
  "send_batch_envelopes rows w = send_msg (Out_Batch rows) w"

definition log_stdout :: "string \<Rightarrow> worker \<Rightarrow> worker" where
  "log_stdout l w = (if wk_log_sink w then w\<lparr> wk_log := wk_log w @ [(Stdout, l)] \<rparr> else w)"

fun recv_from :: "(string \<Rightarrow> inbound option) \<Rightarrow> stdout \<Rightarrow> worker \<Rightarrow> (core_error + inbound option) \<times> worker" where
  "recv_from parse [] w = (Inr None, w\<lparr> wk_stdout := [] \<rparr>)"
| "recv_from parse ((delay, Read_Error e) # rest) w = (Inl (Io e), w\<lparr> wk_stdout := rest \<rparr>)"
| "recv_from parse ((delay, Line l) # rest) w =
     (let t = trim_line_end l in
      if t = [] then recv_from parse rest w
      else (case parse t of
          Some msg \<Rightarrow> (Inr (Some msg), (if wk_capture_raw w then log_stdout t w else w)\<lparr> wk_stdout := rest \<rparr>)
        | None \<Rightarrow> recv_from parse rest (log_stdout t w)))"

definition recv :: "(string \<Rightarrow> inbound option) \<Rightarrow> worker \<Rightarrow> (core_error + inbound option) \<times> worker" where
  "recv parse w = recv_from parse (wk_stdout w) w"

definition synthesize_batch_protocol_error :: "nat list \<Rightarrow> string \<Rightarrow> row_outcome list" where
  "synthesize_batch_protocol_error sqs msg =
     map (\<lambda>s. Error_Row s ERR_BATCH_PROTOCOL_ERROR msg 0 None) sqs"

fun entry_outcome :: "nat \<Rightarrow> batch_entry \<Rightarrow> row_outcome" where
  "entry_outcome s (Entry_Result d) = Success s d 0"
| "entry_outcome s (Entry_Error c m d) = Error_Row s c m 0 d"

definition recv_batch_result ::
    "(string \<Rightarrow> inbound option) \<Rightarrow> (inbound \<Rightarrow> string) \<Rightarrow> nat list \<Rightarrow> worker \<Rightarrow> (core_error + row_outcome list) \<times> worker" where
  "recv_batch_result parse debug sqs w =
     (case recv parse w of
        (Inl e, w1) \<Rightarrow> (Inl e, w1)
      | (Inr None, w1) \<Rightarrow> (Inl (Handler_Exit None), w1)
      | (Inr (Some (Batch_Result es)), w1) \<Rightarrow>
          (if length es \<noteq> length sqs then
             (Inr (synthesize_batch_protocol_error sqs
               (''batch_result length mismatch: expected '' @ nat_str (length sqs) @ '', got '' @ nat_str (length es))), w1)
           else (Inr (map2 entry_outcome sqs es), w1))
      | (Inr (Some (Ready _)), w1) \<Rightarrow> (Inr (synthesize_batch_protocol_error sqs ''unexpected ready mid-run''), w1)
      | (Inr (Some other), w1) \<Rightarrow>
          (Inr (synthesize_batch_protocol_error sqs (''expected batch_result, got '' @ debug other)), w1))"

section \<open>Stopping\<close>

text \<open>
  How the process ends once asked to: it exits within the grace period, waiting for it fails, or it is still there.
\<close>

datatype child_end = Exits "int option" | Wait_Fails string | Lingers "core_error + int option"

text \<open>\<^verbatim>\<open>shutdown\<close>: the message and the closing of stdin ignore errors; the flag says whether the child was killed.\<close>

definition shutdown_worker :: "child_end \<Rightarrow> worker \<Rightarrow> (core_error + int option) \<times> bool \<times> worker" where
  "shutdown_worker c w =
     (let (_, w1) = send_row Shutdown w in
      case c of
        Exits code \<Rightarrow> (Inr code, False, w1)
      | Wait_Fails e \<Rightarrow> (Inl (Io e), False, w1)
      | Lingers after_kill \<Rightarrow> (after_kill, True, w1))"

section \<open>Lemmas\<close>

lemma recv_from_id [simp]: "wk_id (snd (recv_from parse out w)) = wk_id w"
  by (induction parse out w rule: recv_from.induct) (auto simp: Let_def log_stdout_def split: option.split)

lemma recv_id [simp]: "wk_id (snd (recv parse w)) = wk_id w"
  by (simp add: recv_def)

lemma send_msg_id [simp]: "wk_id (snd (send_msg m w)) = wk_id w"
  by (simp add: send_msg_def split_def Let_def)

lemma recv_batch_result_id [simp]: "wk_id (snd (recv_batch_result parse dbg sqs w)) = wk_id w"
  using recv_id[of parse w]
  by (cases "recv parse w") (auto simp: recv_batch_result_def simp del: recv_id split: sum.split option.split inbound.split)

lemma synthesize_seqs [simp]: "map outcome_seq (synthesize_batch_protocol_error sqs m) = sqs"
  by (simp add: synthesize_batch_protocol_error_def comp_def)

lemma entry_outcome_seq [simp]: "outcome_seq (entry_outcome s e) = s"
  by (cases e) simp_all

lemma map2_entry_seqs: "length sqs = length es \<Longrightarrow> map (outcome_seq \<circ> (\<lambda>(x, y). entry_outcome x y)) (zip sqs es) = sqs"
  by (induction sqs es rule: list_induct2) auto

lemma recv_batch_result_seqs:
  "recv_batch_result parse dbg sqs w = (Inr os, w') \<Longrightarrow> map outcome_seq os = sqs"
  by (auto simp: recv_batch_result_def map2_entry_seqs split: prod.splits sum.splits option.splits inbound.splits if_splits)

section \<open>Properties\<close>

text \<open>The message a reader of the protocol finds next: blank lines and lines that do not parse are passed over.\<close>

fun next_msg :: "(string \<Rightarrow> inbound option) \<Rightarrow> stdout \<Rightarrow> core_error + inbound option" where
  "next_msg parse [] = Inr None"
| "next_msg parse ((d, Read_Error e) # rest) = Inl (Io e)"
| "next_msg parse ((d, Line l) # rest) =
     (if trim_line_end l = [] then next_msg parse rest
      else (case parse (trim_line_end l) of Some m \<Rightarrow> Inr (Some m) | None \<Rightarrow> next_msg parse rest))"

lemma recv_from_next: "fst (recv_from parse out w) = next_msg parse out"
  by (induction parse out w rule: recv_from.induct) (auto simp: Let_def split: option.split)

text \<open>C19: receiving the reply to a batch. If the next message is a batch result of the right length its entries become
  the outcomes of the rows sent, position by position; a result of another length and any other message fail every row of
  the batch with \<^verbatim>\<open>BATCH_PROTOCOL_ERROR\<close>; the end of the output is a handler exit and a read error is passed on. Whatever is returned as outcomes covers exactly the sequence
  numbers sent, in order.\<close>

theorem batch_reply_aligned:
  "fst (recv_batch_result parse dbg sqs w) =
     (case next_msg parse (wk_stdout w) of
        Inl e \<Rightarrow> Inl e
      | Inr None \<Rightarrow> Inl (Handler_Exit None)
      | Inr (Some (Batch_Result es)) \<Rightarrow>
          if length es = length sqs then Inr (map2 entry_outcome sqs es)
          else Inr (map (\<lambda>s. Error_Row s ERR_BATCH_PROTOCOL_ERROR
             (''batch_result length mismatch: expected '' @ nat_str (length sqs) @ '', got '' @ nat_str (length es)) 0 None) sqs)
      | Inr (Some (Ready v)) \<Rightarrow>
          Inr (map (\<lambda>s. Error_Row s ERR_BATCH_PROTOCOL_ERROR ''unexpected ready mid-run'' 0 None) sqs)
      | Inr (Some m) \<Rightarrow>
          Inr (map (\<lambda>s. Error_Row s ERR_BATCH_PROTOCOL_ERROR (''expected batch_result, got '' @ dbg m) 0 None) sqs)) \<and>
   (case fst (recv_batch_result parse dbg sqs w) of Inl _ \<Rightarrow> True | Inr os \<Rightarrow> map outcome_seq os = sqs)"
proof -
  obtain r w1 where r: "recv parse w = (r, w1)" by force
  then have n: "r = next_msg parse (wk_stdout w)"
    using recv_from_next[of parse "wk_stdout w" w] by (simp add: recv_def)
  have "case fst (recv_batch_result parse dbg sqs w) of Inl _ \<Rightarrow> True | Inr os \<Rightarrow> map outcome_seq os = sqs"
    using recv_batch_result_seqs[of parse dbg sqs w] by (cases "recv_batch_result parse dbg sqs w") (auto split: sum.split)
  then show ?thesis
    using r n[symmetric]
    by (auto simp: recv_batch_result_def synthesize_batch_protocol_error_def
        split: sum.splits option.splits inbound.splits if_splits)
qed

definition total_delay :: "stdout \<Rightarrow> nat" where
  "total_delay out = sum_list (map fst out)"

text \<open>The startup timeout bounds each wait for a line, not the startup. A handler that keeps printing lines that are not
  protocol messages, each within the timeout, is accepted when its \<^verbatim>\<open>ready\<close> comes at last, however long that
  took in total, and the lines are kept for the log in order; the comment in the code promises a total bound.\<close>

theorem startup_timeout_per_line:
  assumes "\<forall>l\<in>set lines. trim_line_end l \<noteq> [] \<and> parse (trim_line_end l) = None"
    and "trim_line_end ready \<noteq> []" "parse (trim_line_end ready) = Some (Ready v)"
  shows "handshake parse to [] (map (\<lambda>l. (to, Line l)) lines @ (to, Line ready) # rest) =
       Inr (v, map trim_line_end lines, rest) \<and>
     total_delay (map (\<lambda>l. (to, Line l)) lines @ [(to, Line ready)]) = (length lines + 1) * to"
proof -
  have "handshake parse to logs (map (\<lambda>l. (to, Line l)) lines @ (to, Line ready) # rest) =
       Inr (v, logs @ map trim_line_end lines, rest)" for logs
    using assms by (induction lines arbitrary: logs) (auto simp: Let_def)
  moreover have "sum_list (map fst (map (\<lambda>l. (to, Line l)) lines)) = length lines * to"
    by (induction lines) auto
  ultimately show ?thesis by (simp add: total_delay_def)
qed

lemma startup_timeout_per_line_witness:
  "handshake (\<lambda>s. if s = ''ready'' then Some (Ready ''1'') else None) 30 []
     [(30, Line ''boot''), (30, Line ''still booting''), (30, Line ''ready'')] = Inr (''1'', [''boot'', ''still booting''], [])"
proof -
  have t: "trim_line_end ''boot'' = ''boot''" "trim_line_end ''still booting'' = ''still booting''"
    "trim_line_end ''ready'' = ''ready''" by code_simp+
  show ?thesis
    using startup_timeout_per_line[of "[''boot'', ''still booting'']"
        "\<lambda>s. if s = ''ready'' then Some (Ready ''1'') else None" "''ready''" "''1''" 30 "[]"] t
    by simp
qed

end
