(* ===== verification/Jsonl_Writer.thy ===== *)
theory Jsonl_Writer
  imports Protocol
begin

text \<open>
  The shared writer of \<^verbatim>\<open>outcomes.jsonl\<close> and the stall monitor (\<^verbatim>\<open>jsonl_writer.rs\<close>). Callers hold the mutex for a
  whole line, so appends are atomic steps on the state of the writer. The disk is a fuse: the write, the flush or
  the sync of a line may fail, a failing write leaving any part of the line behind. The locale
  \<open>outcome_sink\<close> is the contract the accumulator and the workers rely on.
\<close>

section \<open>Writer\<close>

definition STALL_POLL_INTERVAL_SECS :: nat where "STALL_POLL_INTERVAL_SECS = 30"
definition STALL_TIMEOUT_SECS :: nat where "STALL_TIMEOUT_SECS = 300"

record jsonl_writer =
  jw_content :: string
  jw_bytes_written :: nat
  jw_fsync :: bool
  jw_path :: path
  jw_disk :: fuse
  jw_torn :: nat

text \<open>
  \<^verbatim>\<open>SharedJsonlWriter::open\<close>: \<open>existing\<close> is the content of the file when there is one. \<open>jw_disk\<close> is the fuse of
  the disk, \<open>jw_torn\<close> how much of a line a failing write leaves.
\<close>

definition jsonl_open_writer :: "path \<Rightarrow> bool \<Rightarrow> string option \<Rightarrow> fuse \<Rightarrow> nat \<Rightarrow> core_error + jsonl_writer" where
  "jsonl_open_writer p fsync existing disk torn =
     (let initial = (case existing of Some c \<Rightarrow> length c | None \<Rightarrow> 0); (bad, disk') = poll disk in
      if bad then Inl (Io ''open'')
      else Inr \<lparr> jw_content = (case existing of Some c \<Rightarrow> c | None \<Rightarrow> []), jw_bytes_written = initial,
                 jw_fsync = fsync, jw_path = p, jw_disk = disk', jw_torn = torn \<rparr>)"

definition append_line ::
    "(json \<Rightarrow> string + string) \<Rightarrow> batch_outcome \<Rightarrow> jsonl_writer \<Rightarrow> (core_error + unit) \<times> jsonl_writer" where
  "append_line ser b w =
     (case ser (batch_outcome_json b) of
        Inl e \<Rightarrow> (Inl (Store (''json: '' @ e)), w)
      | Inr s \<Rightarrow>
         let line = s @ [newline]; n = length line; (bad, d1) = poll (jw_disk w) in
         if bad then (Inl (Io ''write_all''), w\<lparr> jw_content := jw_content w @ take (jw_torn w) line, jw_disk := d1 \<rparr>)
         else
           let w1 = w\<lparr> jw_content := jw_content w @ line, jw_disk := d1 \<rparr>; (bad2, d2) = poll d1 in
           if bad2 then (Inl (Io ''flush''), w1\<lparr> jw_disk := d2 \<rparr>)
           else if jw_fsync w then
             (let (bad3, d3) = poll d2 in
              if bad3 then (Inl (Io ''sync_data''), w1\<lparr> jw_disk := d3 \<rparr>)
              else (Inr (), w1\<lparr> jw_disk := d3, jw_bytes_written := jw_bytes_written w + n \<rparr>))
           else (Inr (), w1\<lparr> jw_disk := d2, jw_bytes_written := jw_bytes_written w + n \<rparr>))"

definition bytes_written :: "jsonl_writer \<Rightarrow> nat" where
  "bytes_written w = jw_bytes_written w"

section \<open>The contract of an outcome sink\<close>

text \<open>
  \<open>holds s bs\<close>: the sink has recorded exactly the batches \<open>bs\<close>, in order. A successful append adds one batch at the end; nothing
  is promised after a failing one.
\<close>

locale outcome_sink =
  fixes append :: "batch_outcome \<Rightarrow> 's \<Rightarrow> (core_error + unit) \<times> 's"
    and holds :: "'s \<Rightarrow> batch_outcome list \<Rightarrow> bool"
  assumes append_holds: "holds s bs \<Longrightarrow> append b s = (Inr (), s') \<Longrightarrow> holds s' (bs @ [b])"
begin

fun append_all :: "batch_outcome list \<Rightarrow> 's \<Rightarrow> (core_error + unit) \<times> 's" where
  "append_all [] s = (Inr (), s)"
| "append_all (b # bs) s = (case append b s of (Inl e, s') \<Rightarrow> (Inl e, s') | (Inr _, s') \<Rightarrow> append_all bs s')"

lemma append_all_holds:
  "holds s cs \<Longrightarrow> append_all bs s = (Inr (), s') \<Longrightarrow> holds s' (cs @ bs)"
proof (induction bs arbitrary: s cs)
  case (Cons b bs)
  then obtain s1 where "append b s = (Inr (), s1)" "append_all bs s1 = (Inr (), s')"
    by (auto split: prod.splits sum.splits)
  then show ?case using Cons.IH[of s1 "cs @ [b]"] Cons.prems(1) append_holds by fastforce
qed simp

end

text \<open>A sink with a state in which no append fails.\<close>

locale reliable_sink = outcome_sink append holds
  for append :: "batch_outcome \<Rightarrow> 's \<Rightarrow> (core_error + unit) \<times> 's" and holds :: "'s \<Rightarrow> batch_outcome list \<Rightarrow> bool" +
  fixes calm :: "'s \<Rightarrow> bool"
  assumes calm_append: "calm s \<Longrightarrow> fst (append b s) = Inr () \<and> calm (snd (append b s))"
begin

lemma calm_appendE:
  assumes "calm s" "append b s = (r, s')"
  shows "r = Inr () \<and> calm s'"
  using calm_append[OF assms(1), of b] assms(2) by simp

lemma append_all_calm: "calm s \<Longrightarrow> fst (append_all bs s) = Inr () \<and> calm (snd (append_all bs s))"
proof (induction bs arbitrary: s)
  case (Cons b bs)
  obtain r s1 where r: "append b s = (r, s1)" by force
  then show ?case using calm_appendE[OF Cons.prems r] Cons.IH[of s1] by simp
qed simp

end

definition jsonl_lines :: "(json \<Rightarrow> string + string) \<Rightarrow> batch_outcome list \<Rightarrow> string option" where
  "jsonl_lines ser bs =
     map_option concat (those_map (\<lambda>b. case ser (batch_outcome_json b) of Inl _ \<Rightarrow> None | Inr s \<Rightarrow> Some (s @ [newline])) bs)"

text \<open>\<open>old\<close> is what the file held when the writer was opened.\<close>

definition writer_holds :: "(json \<Rightarrow> string + string) \<Rightarrow> string \<Rightarrow> jsonl_writer \<Rightarrow> batch_outcome list \<Rightarrow> bool" where
  "writer_holds ser old w bs =
     (case jsonl_lines ser bs of None \<Rightarrow> False
      | Some t \<Rightarrow> jw_content w = old @ t \<and> jw_bytes_written w = length (old @ t))"

lemma those_map_append:
  "those_map f (xs @ ys) =
     (case those_map f xs of None \<Rightarrow> None | Some a \<Rightarrow> map_option ((@) a) (those_map f ys))"
  by (cases "those_map f ys"; induction xs) (auto split: option.splits)

lemma append_line_ok:
  "append_line ser b w = (Inr (), w') \<Longrightarrow>
     \<exists>s. ser (batch_outcome_json b) = Inr s \<and> jw_content w' = jw_content w @ s @ [newline] \<and>
       jw_bytes_written w' = jw_bytes_written w + length s + 1 \<and> jw_path w' = jw_path w \<and> jw_fsync w' = jw_fsync w"
  by (auto simp: append_line_def Let_def split_def split: sum.splits if_splits)

text \<open>A writer whose disk never fails and whose printer is total.\<close>

definition writer_calm :: "(json \<Rightarrow> string + string) \<Rightarrow> jsonl_writer \<Rightarrow> bool" where
  "writer_calm ser w = (jw_disk w = None \<and> (\<forall>v. \<not> isl (ser v)))"

lemma append_line_calm:
  "writer_calm ser w \<Longrightarrow> fst (append_line ser b w) = Inr () \<and> writer_calm ser (snd (append_line ser b w))"
  by (auto simp: writer_calm_def append_line_def Let_def isl_def split: sum.splits)

interpretation jsonl: reliable_sink "append_line ser" "writer_holds ser old" "writer_calm ser"
  for ser :: "json \<Rightarrow> string + string" and old :: string
  by unfold_locales
     (auto simp: writer_holds_def jsonl_lines_def those_map_append append_line_calm
       split: option.splits sum.splits dest!: append_line_ok)

text \<open>The writer is append only. A successful append adds exactly one line, the batch's JSON, to the end of what
  the file held and counts its bytes; a failing one never touches what was there before, so at worst it leaves
  the file with a torn or an uncounted last line.\<close>

theorem append_line_append_only:
  "(\<exists>t. jw_content (snd (append_line ser b w)) = jw_content w @ t) \<and>
   jw_bytes_written w \<le> jw_bytes_written (snd (append_line ser b w)) \<and>
   (fst (append_line ser b w) = Inr () \<longleftrightarrow>
      jw_bytes_written (snd (append_line ser b w)) \<noteq> jw_bytes_written w) \<and>
   (fst (append_line ser b w) = Inr () \<longrightarrow>
      (\<exists>s. ser (batch_outcome_json b) = Inr s \<and> jw_content (snd (append_line ser b w)) = jw_content w @ s @ [newline] \<and>
           jw_bytes_written (snd (append_line ser b w)) = jw_bytes_written w + length (s @ [newline])))"
  by (auto simp: append_line_def Let_def split_def split: sum.splits)

lemma append_line_append_only_witness:
  "jw_content (snd (append_line (\<lambda>_. Inr ''x'') \<lparr> bo_first_seq = 0, bo_seqs = [0], bo_outcomes = [] \<rparr>
     \<lparr> jw_content = ''ab'', jw_bytes_written = 2, jw_fsync = True, jw_path = [], jw_disk = Some 2, jw_torn = 1 \<rparr>)) =
     ''abx'' @ [newline]"
  using append_line_append_only[of "\<lambda>_. Inr ''x''" "\<lparr> bo_first_seq = 0, bo_seqs = [0], bo_outcomes = [] \<rparr>"
      "\<lparr> jw_content = ''ab'', jw_bytes_written = 2, jw_fsync = True, jw_path = [], jw_disk = Some 2, jw_torn = 1 \<rparr>"]
  by (simp add: append_line_def numeral_2_eq_2)

section \<open>Reading the file back\<close>

lemma split_lines_cons: "newline \<notin> set s \<Longrightarrow> split_lines (s @ newline # t) = s # split_lines t"
  by (induction s) auto

lemma split_lines_concat:
  "(\<And>s. s \<in> set ss \<Longrightarrow> newline \<notin> set s) \<Longrightarrow> split_lines (concat (map (\<lambda>s. s @ [newline]) ss)) = ss"
  by (induction ss) (auto simp: split_lines_cons)

definition parse_batch :: "(string \<Rightarrow> json option) \<Rightarrow> string \<Rightarrow> batch_outcome option" where
  "parse_batch parse l = Option.bind (parse l) batch_outcome_of_json"

text \<open>C17: outcomes written are outcomes read. Appending batches to an empty file and reading the file line by line
  gives back the same batches in the same order, provided the JSON texts written hold no line break and
  parse back, and worker ids fit their 32 bits.\<close>

theorem outcomes_file_roundtrip:
  assumes "\<forall>b\<in>set bs. newline \<notin> set (ser (batch_outcome_json b)) \<and>
        parse (ser (batch_outcome_json b)) = Some (batch_outcome_json b)"
    and "jsonl.append_all (\<lambda>v. Inr (ser v)) bs
           \<lparr> jw_content = [], jw_bytes_written = 0, jw_fsync = fs, jw_path = p, jw_disk = d, jw_torn = k \<rparr> = (Inr (), w)"
    and "list_all (\<lambda>b. list_all outcome_ok (bo_outcomes b)) bs"
  shows "map (parse_batch parse) (split_lines (jw_content w)) = map Some bs \<and>
     jw_bytes_written w = length (jw_content w)"
proof -
  let ?ser = "\<lambda>v. Inr (ser v) :: string + string"
  let ?line = "\<lambda>b. ser (batch_outcome_json b)"
  have "writer_holds ?ser [] \<lparr> jw_content = [], jw_bytes_written = 0, jw_fsync = fs, jw_path = p, jw_disk = d, jw_torn = k \<rparr> []"
    by (simp add: writer_holds_def jsonl_lines_def)
  from jsonl.append_all_holds[OF this assms(2)] have "writer_holds ?ser [] w bs" by simp
  moreover have "those_map (\<lambda>b. Some (?line b @ [newline])) xs = Some (map (\<lambda>b. ?line b @ [newline]) xs)" for xs
    by (induction xs) auto
  ultimately have c: "jw_content w = concat (map (\<lambda>b. ?line b @ [newline]) bs)" "jw_bytes_written w = length (jw_content w)"
    by (simp_all add: writer_holds_def jsonl_lines_def)
  have "jw_content w = concat (map (\<lambda>s. s @ [newline]) (map ?line bs))" by (simp add: c(1) comp_def)
  then have "split_lines (jw_content w) = map ?line bs"
    using split_lines_concat[of "map ?line bs"] assms(1) by auto
  moreover have "parse_batch parse (?line b) = Some b" if "b \<in> set bs" for b
    using assms(1,3) that by (simp add: parse_batch_def list_all_iff batch_outcome_json_roundtrip)
  ultimately show ?thesis using c(2) by simp
qed

lemma outcomes_file_roundtrip_witness:
  "map (parse_batch (\<lambda>s. if s = ''j'' then Some (batch_outcome_json \<lparr> bo_first_seq = 0, bo_seqs = [0], bo_outcomes = [Crash 0 1 0] \<rparr>) else None))
     (split_lines (''j'' @ [newline] @ ''j'' @ [newline])) =
   [Some \<lparr> bo_first_seq = 0, bo_seqs = [0], bo_outcomes = [Crash 0 1 0] \<rparr>,
    Some \<lparr> bo_first_seq = 0, bo_seqs = [0], bo_outcomes = [Crash 0 1 0] \<rparr>]"
proof -
  let ?b = "\<lparr> bo_first_seq = 0, bo_seqs = [0], bo_outcomes = [Crash 0 1 0] \<rparr>"
  let ?p = "\<lambda>s. if s = ''j'' then Some (batch_outcome_json ?b) else None"
  let ?w = "\<lparr> jw_content = ''j'' @ [newline] @ ''j'' @ [newline], jw_bytes_written = 4, jw_fsync = False,
      jw_path = [], jw_disk = None, jw_torn = 0 \<rparr>"
  have "jsonl.append_all (\<lambda>v. Inr ''j'') [?b, ?b]
       \<lparr> jw_content = [], jw_bytes_written = 0, jw_fsync = False, jw_path = [], jw_disk = None, jw_torn = 0 \<rparr> = (Inr (), ?w)"
    by (simp add: append_line_def)
  then show ?thesis
    using outcomes_file_roundtrip[of "[?b, ?b]" "\<lambda>_. ''j''" ?p False "[]" None 0 ?w]
    by (simp add: newline_def)
qed

section \<open>Stall monitor\<close>

text \<open>
  One tick of the monitor's loop: whether the token was already cancelled (the first arm of the biased select), and
  otherwise the byte counter and the clock after the sleep.
\<close>

record tick =
  tk_cancelled :: bool
  tk_bytes :: nat
  tk_time :: nat

datatype monitor_result = Mon_Waiting | Mon_Ok | Mon_Stalled nat core_error

definition stall_error :: "path \<Rightarrow> nat \<Rightarrow> core_error" where
  "stall_error p timeout =
     Store (''attempt stalled: outcomes.jsonl ('' @ p @ '') no growth for '' @ nat_str timeout @ ''s'')"

text \<open>
  \<open>n\<close> counts the ticks. \<open>Mon_Waiting\<close>: the ticks given ran out with the monitor still in its loop.
\<close>

fun stall_monitor :: "path \<Rightarrow> nat \<Rightarrow> nat \<Rightarrow> nat \<Rightarrow> nat option \<Rightarrow> tick list \<Rightarrow> monitor_result" where
  "stall_monitor p timeout n last_bytes stall_since [] = Mon_Waiting"
| "stall_monitor p timeout n last_bytes stall_since (t # ts) =
     (if tk_cancelled t then Mon_Ok
      else if tk_bytes t > last_bytes then stall_monitor p timeout (n + 1) (tk_bytes t) None ts
      else (case stall_since of
          None \<Rightarrow> stall_monitor p timeout (n + 1) last_bytes (Some (tk_time t)) ts
        | Some t0 \<Rightarrow>
            if tk_time t - t0 > timeout then Mon_Stalled n (stall_error p timeout)
            else stall_monitor p timeout (n + 1) last_bytes stall_since ts))"

definition stall_monitor_task :: "jsonl_writer \<Rightarrow> nat \<Rightarrow> tick list \<Rightarrow> monitor_result" where
  "stall_monitor_task w timeout ts = stall_monitor (jw_path w) timeout 0 (bytes_written w) None ts"

text \<open>What the state of the loop records about the ticks seen; \<open>lb0\<close> is the counter before the first.\<close>

definition mon_inv :: "nat \<Rightarrow> tick list \<Rightarrow> nat \<Rightarrow> nat option \<Rightarrow> bool" where
  "mon_inv lb0 pre lb ss =
     ((\<forall>j<length pre. \<not> tk_cancelled (pre ! j)) \<and>
      (case ss of
         None \<Rightarrow> lb = lb0 \<or> (\<exists>i<length pre. tk_bytes (pre ! i) = lb)
       | Some t0 \<Rightarrow> \<exists>m<length pre. tk_time (pre ! m) = t0 \<and> (lb = lb0 \<or> (\<exists>i<m. tk_bytes (pre ! i) = lb)) \<and>
           (\<forall>j. m \<le> j \<and> j < length pre \<longrightarrow> tk_bytes (pre ! j) \<le> lb)))"

lemma mon_inv_grow:
  "mon_inv lb0 pre lb ss \<Longrightarrow> \<not> tk_cancelled t \<Longrightarrow> mon_inv lb0 (pre @ [t]) (tk_bytes t) None"
  by (auto simp: mon_inv_def nth_append less_Suc_eq split: option.splits)

lemma mon_inv_start:
  "mon_inv lb0 pre lb None \<Longrightarrow> \<not> tk_cancelled t \<Longrightarrow> tk_bytes t \<le> lb \<Longrightarrow> mon_inv lb0 (pre @ [t]) lb (Some (tk_time t))"
  unfolding mon_inv_def option.case
  by (intro conjI exI[of _ "length pre"]) (auto simp: nth_append less_Suc_eq)

lemma mon_inv_wait:
  assumes "mon_inv lb0 pre lb (Some t0)" "\<not> tk_cancelled t" "tk_bytes t \<le> lb"
  shows "mon_inv lb0 (pre @ [t]) lb (Some t0)"
proof -
  obtain m where m: "m < length pre" "tk_time (pre ! m) = t0" "lb = lb0 \<or> (\<exists>i<m. tk_bytes (pre ! i) = lb)"
      "\<forall>j. m \<le> j \<and> j < length pre \<longrightarrow> tk_bytes (pre ! j) \<le> lb" "\<forall>j<length pre. \<not> tk_cancelled (pre ! j)"
    using assms(1) by (auto simp: mon_inv_def)
  have old: "(pre @ [t]) ! j = pre ! j" if "j < length pre" for j using that by (simp add: nth_append)
  have "lb = lb0 \<or> (\<exists>i<m. tk_bytes ((pre @ [t]) ! i) = lb)"
    using m(1,3) old by (metis less_trans)
  moreover have "tk_bytes ((pre @ [t]) ! j) \<le> lb" if "m \<le> j" "j < length (pre @ [t])" for j
    using m(4) that assms(3) by (cases "j = length pre") (auto simp: nth_append)
  moreover have "\<not> tk_cancelled ((pre @ [t]) ! j)" if "j < length (pre @ [t])" for j
    using m(5) that assms(2) by (cases "j = length pre") (auto simp: nth_append)
  moreover have "m < length (pre @ [t])" "tk_time ((pre @ [t]) ! m) = t0" using m(1,2) old by simp_all
  ultimately show ?thesis unfolding mon_inv_def option.case by blast
qed

lemma stall_monitor_sound:
  assumes "stall_monitor p timeout (length pre) lb ss ts = Mon_Stalled k e" "mon_inv lb0 pre lb ss"
  shows "\<exists>m<k. k < length (pre @ ts) \<and> timeout < tk_time ((pre @ ts) ! k) - tk_time ((pre @ ts) ! m) \<and>
     (\<forall>j\<le>k. \<not> tk_cancelled ((pre @ ts) ! j)) \<and>
     (\<forall>j. m \<le> j \<and> j \<le> k \<longrightarrow> tk_bytes ((pre @ ts) ! j) \<le> lb0 \<or> (\<exists>i<m. tk_bytes ((pre @ ts) ! j) \<le> tk_bytes ((pre @ ts) ! i)))"
  using assms
proof (induction ts arbitrary: pre lb ss)
  case (Cons t ts)
  have nc: "\<not> tk_cancelled t" using Cons.prems(1) by auto
  have IH: ?case
    if "stall_monitor p timeout (length (pre @ [t])) lb' ss' ts = Mon_Stalled k e" "mon_inv lb0 (pre @ [t]) lb' ss'" for lb' ss'
    using Cons.IH[OF that] by simp
  show ?case
  proof (cases "tk_bytes t > lb")
    case True
    then show ?thesis using Cons.prems nc mon_inv_grow by (intro IH) auto
  next
    case le: False
    show ?thesis
    proof (cases ss)
      case None
      then show ?thesis using Cons.prems nc le mon_inv_start by (intro IH[of lb "Some (tk_time t)"]) auto
    next
      case (Some t0)
      show ?thesis
      proof (cases "tk_time t - t0 > timeout")
        case False
        then show ?thesis using Cons.prems nc le Some mon_inv_wait by (intro IH[of lb ss]) auto
      next
        case True
        then have k: "k = length pre" using Cons.prems(1) nc le Some by simp
        obtain m where m: "m < length pre" "tk_time (pre ! m) = t0" "lb = lb0 \<or> (\<exists>i<m. tk_bytes (pre ! i) = lb)"
            "\<forall>j. m \<le> j \<and> j < length pre \<longrightarrow> tk_bytes (pre ! j) \<le> lb" "\<forall>j<length pre. \<not> tk_cancelled (pre ! j)"
          using Cons.prems(2) Some by (auto simp: mon_inv_def)
        have below: "tk_bytes ((pre @ t # ts) ! j) \<le> lb" if "m \<le> j" "j \<le> k" for j
          using m(4) that le k by (cases "j = k") (auto simp: nth_append)
        have "tk_bytes ((pre @ t # ts) ! j) \<le> lb0 \<or> (\<exists>i<m. tk_bytes ((pre @ t # ts) ! j) \<le> tk_bytes ((pre @ t # ts) ! i))"
          if "m \<le> j" "j \<le> k" for j
        proof (cases "lb = lb0")
          case True
          then show ?thesis using below[OF that] by simp
        next
          case False
          then obtain i where i: "i < m" "tk_bytes (pre ! i) = lb" using m(3) by auto
          then have "tk_bytes ((pre @ t # ts) ! i) = lb" using m(1) by (simp add: nth_append)
          then show ?thesis using below[OF that] i(1) by auto
        qed
        moreover have "\<not> tk_cancelled ((pre @ t # ts) ! j)" if "j \<le> k" for j
          using m(5) nc that k by (cases "j = k") (auto simp: nth_append)
        ultimately show ?thesis using m(1,2) True k by (intro exI[of _ m]) (auto simp: nth_append)
      qed
    qed
  qed
qed simp

text \<open>The stall monitor raises no false alarm. When it declares the attempt stalled, it has seen the byte counter
  on ticks more than the timeout apart, with no tick in between (the two included) showing more bytes than had
  been seen before, and no cancellation had been observed.\<close>

theorem stall_monitor_no_false_alarm:
  assumes "stall_monitor_task w timeout ts = Mon_Stalled k e"
  shows "\<exists>m<k. k < length ts \<and> timeout < tk_time (ts ! k) - tk_time (ts ! m) \<and>
     (\<forall>j\<le>k. \<not> tk_cancelled (ts ! j)) \<and>
     (\<forall>j. m \<le> j \<and> j \<le> k \<longrightarrow> tk_bytes (ts ! j) \<le> bytes_written w \<or> (\<exists>i<m. tk_bytes (ts ! j) \<le> tk_bytes (ts ! i)))"
  using stall_monitor_sound[of "jw_path w" timeout "[]" "bytes_written w" None ts k e "bytes_written w"] assms
  by (simp add: stall_monitor_task_def mon_inv_def)

definition demo_writer :: jsonl_writer where
  "demo_writer = \<lparr> jw_content = [], jw_bytes_written = 0, jw_fsync = False, jw_path = ''/o'', jw_disk = None, jw_torn = 0 \<rparr>"

definition demo_ticks :: "tick list" where
  "demo_ticks = map (\<lambda>(b, t). \<lparr> tk_cancelled = False, tk_bytes = b, tk_time = t \<rparr>)
     [(5, 30), (5, 60), (5, 90), (7, 120), (7, 150), (7, 180), (7, 300), (7, 460)]"

lemma demo_ticks_stall: "stall_monitor_task demo_writer 300 demo_ticks = Mon_Stalled 7 (stall_error ''/o'' 300)"
  by (simp add: stall_monitor_task_def demo_writer_def demo_ticks_def bytes_written_def)

lemma stall_monitor_no_false_alarm_witness:
  "\<exists>m<7. 300 < tk_time (demo_ticks ! 7) - tk_time (demo_ticks ! m)"
  using stall_monitor_no_false_alarm[OF demo_ticks_stall] by auto

text \<open>Waiting through ticks without growth.\<close>

lemma stall_monitor_waits:
  assumes "\<forall>t\<in>set xs. \<not> tk_cancelled t \<and> tk_bytes t \<le> lb"
    and "xs \<noteq> []" "timeout < tk_time (last xs) - t0"
  shows "\<exists>k e. stall_monitor p timeout n lb (Some t0) (xs @ ys) = Mon_Stalled k e \<and> k < n + length xs"
  using assms
proof (induction xs arbitrary: n)
  case (Cons x xs)
  show ?case
  proof (cases "tk_time x - t0 > timeout")
    case True
    then show ?thesis using Cons.prems(1) by auto
  next
    case False
    then have "xs \<noteq> []" using Cons.prems(3) by auto
    then obtain k e where "stall_monitor p timeout (n + 1) lb (Some t0) (xs @ ys) = Mon_Stalled k e" "k < n + 1 + length xs"
      using Cons.IH[of "n + 1"] Cons.prems by auto
    then show ?thesis using Cons.prems(1) False by auto
  qed
qed simp

lemma stall_monitor_reaches:
  assumes "\<forall>t\<in>set xs. \<not> tk_cancelled t"
  shows "(\<exists>k e. stall_monitor p timeout n lb ss (xs @ ys) = Mon_Stalled k e \<and> k < n + length xs) \<or>
     (\<exists>lb' ss'. stall_monitor p timeout n lb ss (xs @ ys) = stall_monitor p timeout (n + length xs) lb' ss' ys \<and>
        lb \<le> lb' \<and> (\<forall>t\<in>set xs. tk_bytes t \<le> lb') \<and>
        (ss' = ss \<or> ss' = None \<or> (\<exists>t\<in>set xs. ss' = Some (tk_time t))))"
  using assms
proof (induction xs arbitrary: n lb ss)
  case (Cons x xs)
  have IH: "(\<exists>k e. stall_monitor p timeout (n + 1) lb1 ss1 (xs @ ys) = Mon_Stalled k e \<and> k < n + 1 + length xs) \<or>
     (\<exists>lb' ss'. stall_monitor p timeout (n + 1) lb1 ss1 (xs @ ys) = stall_monitor p timeout (n + 1 + length xs) lb' ss' ys \<and>
        lb1 \<le> lb' \<and> (\<forall>t\<in>set xs. tk_bytes t \<le> lb') \<and>
        (ss' = ss1 \<or> ss' = None \<or> (\<exists>t\<in>set xs. ss' = Some (tk_time t))))" for lb1 ss1
    by (rule Cons.IH) (use Cons.prems in simp)
  have step: ?case
    if go: "stall_monitor p timeout n lb ss (x # xs @ ys) = stall_monitor p timeout (n + 1) lb1 ss1 (xs @ ys)"
      and lb: "lb \<le> lb1" "tk_bytes x \<le> lb1" and ss: "ss1 = ss \<or> ss1 = None \<or> ss1 = Some (tk_time x)" for lb1 ss1
    using IH[of lb1 ss1]
  proof (elim disjE exE conjE)
    fix k e
    assume "stall_monitor p timeout (n + 1) lb1 ss1 (xs @ ys) = Mon_Stalled k e" "k < n + 1 + length xs"
    then show ?thesis using go by simp
  next
    fix lb' ss'
    assume a: "stall_monitor p timeout (n + 1) lb1 ss1 (xs @ ys) = stall_monitor p timeout (n + 1 + length xs) lb' ss' ys"
      "lb1 \<le> lb'" "\<forall>t\<in>set xs. tk_bytes t \<le> lb'"
    assume "ss' = ss1"
    then show ?thesis
      using a go lb ss by (intro disjI2 exI[of _ lb'] exI[of _ ss']) (auto simp: order.trans)
  next
    fix lb' ss'
    assume a: "stall_monitor p timeout (n + 1) lb1 ss1 (xs @ ys) = stall_monitor p timeout (n + 1 + length xs) lb' ss' ys"
      "lb1 \<le> lb'" "\<forall>t\<in>set xs. tk_bytes t \<le> lb'"
    assume "ss' = None"
    then show ?thesis
      using a go lb by (intro disjI2 exI[of _ lb'] exI[of _ ss']) (auto simp: order.trans)
  next
    fix lb' ss'
    assume a: "stall_monitor p timeout (n + 1) lb1 ss1 (xs @ ys) = stall_monitor p timeout (n + 1 + length xs) lb' ss' ys"
      "lb1 \<le> lb'" "\<forall>t\<in>set xs. tk_bytes t \<le> lb'"
    assume "\<exists>t\<in>set xs. ss' = Some (tk_time t)"
    then show ?thesis
      using a go lb by (intro disjI2 exI[of _ lb'] exI[of _ ss']) (auto simp: order.trans)
  qed
  have nc: "\<not> tk_cancelled x" using Cons.prems by simp
  show ?case
  proof (cases "tk_bytes x > lb")
    case True
    then show ?thesis using nc by (intro step[of "tk_bytes x" None]) auto
  next
    case False
    show ?thesis
    proof (cases ss)
      case None
      then show ?thesis using nc False by (intro step[of lb "Some (tk_time x)"]) auto
    next
      case (Some t0)
      show ?thesis
      proof (cases "tk_time x - t0 > timeout")
        case True
        then show ?thesis using Some nc False by auto
      next
        case f: False
        then show ?thesis using Some nc False by (intro step[of lb ss]) auto
      qed
    qed
  qed
qed auto

text \<open>The stall monitor detects a stall. If nothing cancels, the clock does not run backwards, and from some tick
  on the counter shows no more than it did there, then the monitor has declared the attempt stalled by the
  first tick more than the timeout after the next one.\<close>

theorem stall_monitor_detects:
  assumes "ts = xs @ x # y # zs @ z # rest"
    and "\<forall>t\<in>set (xs @ x # y # zs @ [z]). \<not> tk_cancelled t"
    and "\<forall>t\<in>set (y # zs @ [z]). tk_bytes t \<le> tk_bytes x"
    and "\<forall>t\<in>set (xs @ [x]). tk_time t \<le> tk_time y" "timeout < tk_time z - tk_time y"
  shows "\<exists>k e. stall_monitor_task w timeout ts = Mon_Stalled k e \<and> k < length xs + length zs + 3"
proof -
  let ?run = "stall_monitor (jw_path w) timeout"
  have ts: "ts = (xs @ [x]) @ y # zs @ z # rest" using assms(1) by simp
  have nc: "\<forall>t\<in>set (xs @ [x]). \<not> tk_cancelled t" using assms(2) by auto
  note R = stall_monitor_reaches[OF nc, of "jw_path w" timeout 0 "bytes_written w" None "y # zs @ z # rest",
      folded ts, unfolded add_0]
  consider (early) k e where "?run 0 (bytes_written w) None ts = Mon_Stalled k e" "k < length (xs @ [x])"
    | (go) lb ss where "?run 0 (bytes_written w) None ts = ?run (length (xs @ [x])) lb ss (y # zs @ z # rest)"
        "\<forall>t\<in>set (xs @ [x]). tk_bytes t \<le> lb" "ss = None \<or> (\<exists>t\<in>set (xs @ [x]). ss = Some (tk_time t))"
    using R by blast
  then show ?thesis
  proof cases
    case early
    then show ?thesis by (auto simp: stall_monitor_task_def)
  next
    case go
    let ?n = "length (xs @ [x])"
    have le: "\<forall>t\<in>set (y # zs @ [z]). \<not> tk_cancelled t \<and> tk_bytes t \<le> lb"
      using assms(2,3) go(2) by fastforce
    have "\<exists>k e. ?run ?n lb ss (y # zs @ z # rest) = Mon_Stalled k e \<and> k < ?n + length zs + 2"
    proof (cases ss)
      case None
      have "\<exists>k e. ?run (?n + 1) lb (Some (tk_time y)) ((zs @ [z]) @ rest) = Mon_Stalled k e \<and> k < ?n + 1 + length (zs @ [z])"
        by (rule stall_monitor_waits) (use le assms(5) in auto)
      then show ?thesis using None le by auto
    next
      case (Some t0)
      then have "t0 \<le> tk_time y" using go(3) assms(4) by auto
      then have "\<exists>k e. ?run ?n lb (Some t0) ((y # zs @ [z]) @ rest) = Mon_Stalled k e \<and> k < ?n + length (y # zs @ [z])"
        by (intro stall_monitor_waits) (use le assms(5) in auto)
      then show ?thesis using Some by simp
    qed
    then show ?thesis using go(1) by (auto simp: stall_monitor_task_def)
  qed
qed

lemma stall_monitor_detects_witness:
  "\<exists>k e. stall_monitor_task demo_writer 300 demo_ticks = Mon_Stalled k e \<and> k < 8"
proof -
  let ?t = "\<lambda>(b, t). \<lparr> tk_cancelled = False, tk_bytes = b, tk_time = t \<rparr>"
  show ?thesis
    using stall_monitor_detects[of demo_ticks "map ?t [(5, 30), (5, 60), (5, 90)]" "?t (7, 120)" "?t (7, 150)"
        "map ?t [(7, 180), (7, 300)]" "?t (7, 460)" "[]" 300 demo_writer]
    by (simp add: demo_ticks_def)
qed

end
