(* ===== verification/Accumulator.thy ===== *)
theory Accumulator
  imports Jsonl_Writer Core_Error
begin

text \<open>
  The accumulator task (\<^verbatim>\<open>accumulator.rs\<close>): it groups the rows it receives into batches under three limits (the
  row count, the soft byte target, the hard byte maximum), writes a \<^verbatim>\<open>ROW_TOO_LARGE\<close> outcome for a row above the
  hard cap of a single row, and sends the batches to the workers. The rows received are a list (its end is the
  closed channel); the cancellation token and the workers' end of the job channel are fuses; the writer of
  outcomes is any sink \<open>app\<close> (instantiated with \<open>append_line\<close>). \<open>ser\<close> prints JSON.
\<close>

section \<open>Definitions\<close>

definition JOB_CHANNEL_CAP :: nat where "JOB_CHANNEL_CAP = 64"

datatype flush_reason = CountCap | SoftByteCap | HardByteCap | Eof

record batch =
  ba_seqs :: "nat list"
  ba_rows :: "row_envelope list"

definition envelope_of :: "row_job \<Rightarrow> row_envelope" where
  "envelope_of j =
     \<lparr> env_seq = rj_seq j, env_data = rj_data j,
       env_meta = \<lparr> rm_dry_run = rm_dry_run (rj_meta j), rm_row_index = rm_row_index (rj_meta j) \<rparr> \<rparr>"

definition row_size :: "(json \<Rightarrow> string + string) \<Rightarrow> row_envelope \<Rightarrow> nat" where
  "row_size ser e = (case ser (row_envelope_json e) of Inl _ \<Rightarrow> 0 | Inr s \<Rightarrow> length s)"

definition estimate_size :: "(json \<Rightarrow> string + string) \<Rightarrow> row_job \<Rightarrow> nat" where
  "estimate_size ser j = row_size ser (envelope_of j)"

definition synthesize_row_too_large :: "nat \<Rightarrow> nat \<Rightarrow> row_outcome" where
  "synthesize_row_too_large sq row_bytes =
     Error_Row sq ERR_ROW_TOO_LARGE
       (''serialized row size '' @ nat_str row_bytes @ '' bytes exceeds hard cap '' @ nat_str ROW_HARD_CAP_BYTES @ '' bytes'')
       0 None"

record 's acc_state =
  ac_seqs :: "nat list"
  ac_rows :: "row_envelope list"
  ac_bytes :: nat
  ac_downsized :: nat
  ac_warned :: bool
  ac_sent :: "batch list"
  ac_cancel :: fuse
  ac_dropped :: fuse
  ac_sink :: 's

definition flush :: "flush_reason \<Rightarrow> 's acc_state \<Rightarrow> (core_error + unit) \<times> 's acc_state" where
  "flush reason a =
     (let a1 = (if reason = SoftByteCap then a\<lparr> ac_downsized := ac_downsized a + 1, ac_warned := True \<rparr> else a);
          b = \<lparr> ba_seqs = ac_seqs a1, ba_rows = ac_rows a1 \<rparr>;
          a2 = a1\<lparr> ac_seqs := [], ac_rows := [], ac_bytes := 0 \<rparr>;
          (c, cancel') = poll (ac_cancel a2); a3 = a2\<lparr> ac_cancel := cancel' \<rparr> in
      if c then (Inl (Store ''flush cancelled''), a3)
      else
        let (d, dropped') = poll (ac_dropped a3); a4 = a3\<lparr> ac_dropped := dropped' \<rparr> in
        if d then (Inl (Store ''worker dropped''), a4)
        else (Inr (), a4\<lparr> ac_sent := ac_sent a4 @ [b] \<rparr>))"

definition max_count :: "runtime \<Rightarrow> nat" where
  "max_count rt =
     (case rt_mode rt of Row \<Rightarrow> 1 | Batch \<Rightarrow> (case rt_batch_size rt of None \<Rightarrow> 100 | Some n \<Rightarrow> n))"

text \<open>The byte caps, checked before the row is added.\<close>

definition flush_before :: "runtime \<Rightarrow> nat \<Rightarrow> 's acc_state \<Rightarrow> (core_error + unit) \<times> 's acc_state" where
  "flush_before rt row_bytes a =
     (if ac_rows a \<noteq> [] \<and> ac_bytes a + row_bytes > rt_max_batch_bytes rt then flush HardByteCap a
      else if ac_rows a \<noteq> [] \<and> ac_bytes a + row_bytes > rt_batch_bytes_target rt then flush SoftByteCap a
      else (Inr (), a))"

definition push_row :: "row_job \<Rightarrow> nat \<Rightarrow> 's acc_state \<Rightarrow> 's acc_state" where
  "push_row j row_bytes a =
     a\<lparr> ac_seqs := ac_seqs a @ [rj_seq j], ac_rows := ac_rows a @ [envelope_of j], ac_bytes := ac_bytes a + row_bytes \<rparr>"

text \<open>One received row.\<close>

definition acc_job ::
    "(json \<Rightarrow> string + string) \<Rightarrow> (batch_outcome \<Rightarrow> 's \<Rightarrow> (core_error + unit) \<times> 's) \<Rightarrow> runtime \<Rightarrow> row_job
      \<Rightarrow> 's acc_state \<Rightarrow> (core_error + unit) \<times> 's acc_state" where
  "acc_job ser app rt j a =
     (let row_bytes = estimate_size ser j in
      if row_bytes > ROW_HARD_CAP_BYTES then
        (case from_outcomes [synthesize_row_too_large (rj_seq j) row_bytes] of
           None \<Rightarrow> (Inr (), a)
         | Some bo \<Rightarrow> (let (r, s') = app bo (ac_sink a) in (r, a\<lparr> ac_sink := s' \<rparr>)))
      else
        (case flush_before rt row_bytes a of
           (Inl e, a1) \<Rightarrow> (Inl e, a1)
         | (Inr _, a1) \<Rightarrow>
             let a2 = push_row j row_bytes a1 in
             if length (ac_rows a2) \<ge> max_count rt then flush CountCap a2 else (Inr (), a2)))"

fun acc_loop ::
    "(json \<Rightarrow> string + string) \<Rightarrow> (batch_outcome \<Rightarrow> 's \<Rightarrow> (core_error + unit) \<times> 's) \<Rightarrow> runtime \<Rightarrow> row_job list
      \<Rightarrow> 's acc_state \<Rightarrow> (core_error + unit) \<times> 's acc_state" where
  "acc_loop ser app rt [] a =
     (let (c, cancel') = poll (ac_cancel a); a1 = a\<lparr> ac_cancel := cancel' \<rparr> in
      if c then (Inr (), a1)
      else if ac_rows a1 \<noteq> [] then flush Eof a1 else (Inr (), a1))"
| "acc_loop ser app rt (j # js) a =
     (let (c, cancel') = poll (ac_cancel a); a1 = a\<lparr> ac_cancel := cancel' \<rparr> in
      if c then (Inr (), a1)
      else (case acc_job ser app rt j a1 of
          (Inl e, a2) \<Rightarrow> (Inl e, a2)
        | (Inr _, a2) \<Rightarrow> acc_loop ser app rt js a2))"

definition acc_init :: "fuse \<Rightarrow> fuse \<Rightarrow> 's \<Rightarrow> 's acc_state" where
  "acc_init cancel dropped s =
     \<lparr> ac_seqs = [], ac_rows = [], ac_bytes = 0, ac_downsized = 0, ac_warned = False, ac_sent = [],
       ac_cancel = cancel, ac_dropped = dropped, ac_sink = s \<rparr>"

definition accumulator_task ::
    "(json \<Rightarrow> string + string) \<Rightarrow> (batch_outcome \<Rightarrow> 's \<Rightarrow> (core_error + unit) \<times> 's) \<Rightarrow> runtime \<Rightarrow> row_job list
      \<Rightarrow> fuse \<Rightarrow> fuse \<Rightarrow> 's \<Rightarrow> (core_error + unit) \<times> 's acc_state" where
  "accumulator_task ser app rt jobs cancel dropped s = acc_loop ser app rt jobs (acc_init cancel dropped s)"

section \<open>Batches\<close>

definition oversized :: "(json \<Rightarrow> string + string) \<Rightarrow> row_job \<Rightarrow> bool" where
  "oversized ser j = (estimate_size ser j > ROW_HARD_CAP_BYTES)"

definition rows_size :: "(json \<Rightarrow> string + string) \<Rightarrow> row_envelope list \<Rightarrow> nat" where
  "rows_size ser rows = sum_list (map (row_size ser) rows)"

text \<open>What every batch sent to a worker satisfies.\<close>

definition batch_ok :: "(json \<Rightarrow> string + string) \<Rightarrow> runtime \<Rightarrow> batch \<Rightarrow> bool" where
  "batch_ok ser rt b =
     (ba_rows b \<noteq> [] \<and> ba_seqs b = map env_seq (ba_rows b) \<and> length (ba_rows b) \<le> max 1 (max_count rt) \<and>
      list_all (\<lambda>e. row_size ser e \<le> ROW_HARD_CAP_BYTES) (ba_rows b) \<and>
      (length (ba_rows b) = 1 \<or>
         rows_size ser (ba_rows b) \<le> rt_max_batch_bytes rt \<and> rows_size ser (ba_rows b) \<le> rt_batch_bytes_target rt))"

text \<open>The pending rows, between two received rows.\<close>

definition pending_ok :: "(json \<Rightarrow> string + string) \<Rightarrow> runtime \<Rightarrow> 's acc_state \<Rightarrow> bool" where
  "pending_ok ser rt a =
     (ac_seqs a = map env_seq (ac_rows a) \<and> ac_bytes a = rows_size ser (ac_rows a) \<and>
      (ac_rows a = [] \<or> length (ac_rows a) < max_count rt) \<and>
      list_all (\<lambda>e. row_size ser e \<le> ROW_HARD_CAP_BYTES) (ac_rows a) \<and>
      (length (ac_rows a) \<le> 1 \<or>
         rows_size ser (ac_rows a) \<le> rt_max_batch_bytes rt \<and> rows_size ser (ac_rows a) \<le> rt_batch_bytes_target rt) \<and>
      list_all (batch_ok ser rt) (ac_sent a))"

definition sent_seqs :: "'s acc_state \<Rightarrow> nat list" where
  "sent_seqs a = concat (map ba_seqs (ac_sent a))"

definition kept_seqs :: "(json \<Rightarrow> string + string) \<Rightarrow> row_job list \<Rightarrow> nat list" where
  "kept_seqs ser js = map rj_seq (filter (\<lambda>j. \<not> oversized ser j) js)"

definition too_large :: "(json \<Rightarrow> string + string) \<Rightarrow> row_job list \<Rightarrow> row_outcome list" where
  "too_large ser js =
     map (\<lambda>j. synthesize_row_too_large (rj_seq j) (estimate_size ser j)) (filter (oversized ser) js)"

definition single_batches :: "row_outcome list \<Rightarrow> batch_outcome list" where
  "single_batches os = map (\<lambda>r. \<lparr> bo_first_seq = outcome_seq r, bo_seqs = [outcome_seq r], bo_outcomes = [r] \<rparr>) os"

lemma rows_size_append [simp]: "rows_size ser (xs @ ys) = rows_size ser xs + rows_size ser ys"
  by (simp add: rows_size_def)

lemma rows_size_single [simp]: "rows_size ser [e] = row_size ser e"
  by (simp add: rows_size_def)

lemma env_seq_of [simp]: "env_seq (envelope_of j) = rj_seq j"
  by (simp add: envelope_of_def)

text \<open>The only ways a flush ends.\<close>

lemma flush_cases:
  assumes "flush reason a = (r, a')"
  shows "ac_seqs a' = [] \<and> ac_rows a' = [] \<and> ac_bytes a' = 0 \<and> ac_sink a' = ac_sink a \<and>
     ((r = Inr () \<and> ac_sent a' = ac_sent a @ [\<lparr> ba_seqs = ac_seqs a, ba_rows = ac_rows a \<rparr>]) \<or>
      (r = Inl (Store ''flush cancelled'') \<and> ac_sent a' = ac_sent a \<and> ac_cancel a = Some 0) \<or>
      (r = Inl (Store ''worker dropped'') \<and> ac_sent a' = ac_sent a \<and> ac_dropped a = Some 0))"
  using assms
  by (auto simp: flush_def Let_def split_def poll_fst blown_def split: if_splits)

lemma flush_calm:
  "ac_cancel a = None \<Longrightarrow> ac_dropped a = None \<Longrightarrow> flush reason a = (r, a') \<Longrightarrow>
   r = Inr () \<and> ac_cancel a' = None \<and> ac_dropped a' = None"
  by (auto simp: flush_def Let_def split: if_splits)

lemma batch_of_pending:
  "pending_ok ser rt a \<Longrightarrow> ac_rows a \<noteq> [] \<Longrightarrow> batch_ok ser rt \<lparr> ba_seqs = ac_seqs a, ba_rows = ac_rows a \<rparr>"
  by (cases "ac_rows a") (auto simp: pending_ok_def batch_ok_def)

lemma flush_pending:
  assumes "pending_ok ser rt a" "ac_rows a \<noteq> []" "flush reason a = (r, a')"
  shows "pending_ok ser rt a' \<and> (\<exists>lost. sent_seqs a' @ lost = sent_seqs a @ ac_seqs a \<and> (r = Inr () \<longrightarrow> lost = []))"
  using flush_cases[OF assms(3)] batch_of_pending[OF assms(1,2)] assms(1)
  by (auto simp: pending_ok_def sent_seqs_def rows_size_def)

section \<open>Runs\<close>

lemma push_pending:
  assumes "pending_ok ser rt a" "row_size ser (envelope_of j) \<le> ROW_HARD_CAP_BYTES"
    and "ac_rows a = [] \<or> ac_bytes a + estimate_size ser j \<le> rt_max_batch_bytes rt \<and>
           ac_bytes a + estimate_size ser j \<le> rt_batch_bytes_target rt"
    and "length (ac_rows a) + 1 < max_count rt"
  shows "pending_ok ser rt (push_row j (estimate_size ser j) a)"
  using assms by (auto simp: pending_ok_def push_row_def estimate_size_def rows_size_def)

lemma push_full:
  assumes "pending_ok ser rt a" "row_size ser (envelope_of j) \<le> ROW_HARD_CAP_BYTES"
    and "ac_rows a = [] \<or> ac_bytes a + estimate_size ser j \<le> rt_max_batch_bytes rt \<and>
           ac_bytes a + estimate_size ser j \<le> rt_batch_bytes_target rt"
    and "flush CountCap (push_row j (estimate_size ser j) a) = (r, a')"
  shows "pending_ok ser rt a' \<and> ac_rows a' = [] \<and>
     (\<exists>lost. sent_seqs a' @ lost = sent_seqs a @ ac_seqs a @ [rj_seq j] \<and> (r = Inr () \<longrightarrow> lost = []))"
proof -
  let ?a = "push_row j (estimate_size ser j) a"
  have b: "batch_ok ser rt \<lparr> ba_seqs = ac_seqs ?a, ba_rows = ac_rows ?a \<rparr>"
    using assms(1-3) by (auto simp: pending_ok_def push_row_def batch_ok_def estimate_size_def rows_size_def)
  have "ac_sent ?a = ac_sent a" "ac_seqs ?a = ac_seqs a @ [rj_seq j]" by (simp_all add: push_row_def)
  then show ?thesis
    using flush_cases[OF assms(4)] b assms(1)
    by (auto simp: pending_ok_def sent_seqs_def rows_size_def)
qed

lemma flush_before_cases:
  assumes "pending_ok ser rt a" "flush_before rt n a = (r, a1)"
  shows "pending_ok ser rt a1 \<and> ac_sink a1 = ac_sink a \<and>
     (\<exists>lost. sent_seqs a1 @ ac_seqs a1 @ lost = sent_seqs a @ ac_seqs a \<and> (r = Inr () \<longrightarrow> lost = []) \<and> (lost \<noteq> [] \<longrightarrow> ac_seqs a1 = [])) \<and>
     (r = Inr () \<longrightarrow> ac_rows a1 = [] \<or> ac_bytes a1 + n \<le> rt_max_batch_bytes rt \<and> ac_bytes a1 + n \<le> rt_batch_bytes_target rt)"
proof (cases "ac_rows a \<noteq> [] \<and> (ac_bytes a + n > rt_max_batch_bytes rt \<or> ac_bytes a + n > rt_batch_bytes_target rt)")
  case False
  then show ?thesis using assms by (auto simp: flush_before_def split: if_splits)
next
  case True
  then obtain reason where f: "flush reason a = (r, a1)" using assms(2) by (auto simp: flush_before_def split: if_splits)
  have "ac_rows a \<noteq> []" using True by simp
  from flush_pending[OF assms(1) this f] flush_cases[OF f] show ?thesis by auto
qed

lemma kept_simps [simp]:
  "kept_seqs ser [] = []"
  "kept_seqs ser (j # js) = (if oversized ser j then kept_seqs ser js else rj_seq j # kept_seqs ser js)"
  by (simp_all add: kept_seqs_def)

lemma too_large_simps [simp]:
  "too_large ser [] = []"
  "too_large ser (j # js) = (if oversized ser j
     then synthesize_row_too_large (rj_seq j) (estimate_size ser j) # too_large ser js else too_large ser js)"
  by (simp_all add: too_large_def)

lemma single_batches_simps [simp]:
  "single_batches [] = []"
  "single_batches (r # rs) = \<lparr> bo_first_seq = outcome_seq r, bo_seqs = [outcome_seq r], bo_outcomes = [r] \<rparr> # single_batches rs"
  by (simp_all add: single_batches_def)

text \<open>A row that fits, as the tail of \<open>acc_job\<close>.\<close>

lemma acc_job_kept:
  assumes "pending_ok ser rt a" "\<not> oversized ser j" "acc_job ser app rt j a = (r, a')"
  shows "pending_ok ser rt a' \<and> ac_sink a' = ac_sink a \<and>
     (\<exists>lost. sent_seqs a' @ ac_seqs a' @ lost = sent_seqs a @ ac_seqs a @ [rj_seq j] \<and> (r = Inr () \<longrightarrow> lost = [])
        \<and> (lost \<noteq> [] \<longrightarrow> ac_seqs a' = []))"
proof -
  let ?n = "estimate_size ser j"
  have small: "row_size ser (envelope_of j) \<le> ROW_HARD_CAP_BYTES"
    using assms(2) by (simp add: oversized_def estimate_size_def)
  obtain r1 a1 where f: "flush_before rt ?n a = (r1, a1)" by force
  note fb = flush_before_cases[OF assms(1) f]
  have job: "(r, a') = (case r1 of Inl e \<Rightarrow> (Inl e, a1)
      | Inr _ \<Rightarrow> if length (ac_rows (push_row j ?n a1)) \<ge> max_count rt then flush CountCap (push_row j ?n a1)
                 else (Inr (), push_row j ?n a1))"
    using assms(2,3) f by (cases r1) (auto simp: acc_job_def oversized_def Let_def)
  show ?thesis
  proof (cases r1)
    case (Inl e)
    then have ra: "r = Inl e" "a' = a1" using job by simp_all
    obtain lost where l: "sent_seqs a1 @ ac_seqs a1 @ lost = sent_seqs a @ ac_seqs a" "lost \<noteq> [] \<longrightarrow> ac_seqs a1 = []"
      using fb by blast
    have "ac_seqs a1 = []"
      using f Inl by (auto simp: flush_before_def split: if_splits dest!: flush_cases)
    then show ?thesis
      using fb ra l by (intro conjI exI[of _ "lost @ [rj_seq j]"]) auto
  next
    case (Inr u)
    then have r1: "r1 = Inr ()" by simp
    have p1: "pending_ok ser rt a1" and s1: "ac_sink a1 = ac_sink a"
      and e1: "sent_seqs a1 @ ac_seqs a1 = sent_seqs a @ ac_seqs a"
      and c1: "ac_rows a1 = [] \<or> ac_bytes a1 + ?n \<le> rt_max_batch_bytes rt \<and> ac_bytes a1 + ?n \<le> rt_batch_bytes_target rt"
      using fb r1 by auto
    have len: "length (ac_rows (push_row j ?n a1)) = length (ac_rows a1) + 1" by (simp add: push_row_def)
    show ?thesis
    proof (cases "length (ac_rows a1) + 1 \<ge> max_count rt")
      case True
      then have fl: "flush CountCap (push_row j ?n a1) = (r, a')" using job r1 len by simp
      have "ac_sink (push_row j ?n a1) = ac_sink a1" by (simp add: push_row_def)
      moreover obtain lost where "sent_seqs a' @ lost = sent_seqs a1 @ ac_seqs a1 @ [rj_seq j]" "r = Inr () \<longrightarrow> lost = []"
        using push_full[OF p1 small c1 fl] by blast
      moreover have "sent_seqs a1 @ ac_seqs a1 @ [rj_seq j] = sent_seqs a @ ac_seqs a @ [rj_seq j]"
        using e1 by (metis append_assoc)
      moreover have "ac_seqs a' = []" "ac_sink a' = ac_sink (push_row j ?n a1)" "pending_ok ser rt a'"
        using push_full[OF p1 small c1 fl] flush_cases[OF fl] by simp_all
      ultimately show ?thesis using s1 by (intro conjI exI[of _ lost]) simp_all
    next
      case False
      then have ra: "r = Inr ()" "a' = push_row j ?n a1" using job r1 len by auto
      have "length (ac_rows a1) + 1 < max_count rt" using False by simp
      from push_pending[OF p1 small c1 this] show ?thesis
        using ra s1 e1 by (auto simp: push_row_def sent_seqs_def)
    qed
  qed
qed

context outcome_sink
begin

lemma acc_job_run:
  assumes "pending_ok ser rt a" "holds (ac_sink a) bs" "acc_job ser append rt j a = (r, a')"
  shows "pending_ok ser rt a' \<and>
     (\<exists>lost. sent_seqs a' @ ac_seqs a' @ lost = sent_seqs a @ ac_seqs a @ kept_seqs ser [j] \<and> (r = Inr () \<longrightarrow> lost = [])
        \<and> (lost \<noteq> [] \<longrightarrow> ac_seqs a' = [])) \<and>
     (r = Inr () \<longrightarrow> holds (ac_sink a') (bs @ single_batches (too_large ser [j])))"
proof (cases "oversized ser j")
  case False
  then show ?thesis using acc_job_kept[OF assms(1) False assms(3)] assms(2) by simp
next
  case True
  let ?o = "synthesize_row_too_large (rj_seq j) (estimate_size ser j)"
  obtain r1 s1 where ap: "append \<lparr> bo_first_seq = rj_seq j, bo_seqs = [rj_seq j], bo_outcomes = [?o] \<rparr> (ac_sink a) = (r1, s1)"
    by force
  have os: "outcome_seq ?o = rj_seq j" by (simp add: synthesize_row_too_large_def)
  have "r = r1 \<and> a' = a\<lparr> ac_sink := s1 \<rparr>"
    using assms(3) True ap os by (simp add: acc_job_def oversized_def from_outcomes_def)
  then show ?thesis
    using assms(1,2) True ap os append_holds[OF assms(2)]
    by (auto simp: pending_ok_def sent_seqs_def)
qed

lemma acc_loop_run:
  assumes "pending_ok ser rt a" "holds (ac_sink a) bs" "acc_loop ser append rt js a = (r, a')"
  shows "list_all (batch_ok ser rt) (ac_sent a') \<and>
     (\<exists>lost. sent_seqs a' @ lost = sent_seqs a @ ac_seqs a @ kept_seqs ser js)"
  using assms
proof (induction js arbitrary: a bs)
  case Nil
  obtain c cn where p: "poll (ac_cancel a) = (c, cn)" by force
  let ?a = "a\<lparr> ac_cancel := cn \<rparr>"
  have pk: "pending_ok ser rt ?a" "sent_seqs ?a = sent_seqs a"
    using Nil.prems(1) by (simp_all add: pending_ok_def sent_seqs_def)
  show ?case
  proof (cases "\<not> c \<and> ac_rows a \<noteq> []")
    case True
    then have "flush Eof ?a = (r, a')" using Nil.prems(3) p by simp
    from flush_pending[OF pk(1) _ this] True pk(2) show ?thesis by (auto simp: pending_ok_def)
  next
    case False
    then have "a' = ?a" using Nil.prems(3) p by (auto simp: Let_def split: if_splits)
    then show ?thesis
      using pk by (auto simp: pending_ok_def intro!: exI[of _ "ac_seqs a"])
  qed
next
  case (Cons j js)
  obtain c cn where p: "poll (ac_cancel a) = (c, cn)" by force
  let ?a = "a\<lparr> ac_cancel := cn \<rparr>"
  have pk: "pending_ok ser rt ?a" "sent_seqs ?a = sent_seqs a" "holds (ac_sink ?a) bs"
    using Cons.prems(1,2) by (simp_all add: pending_ok_def sent_seqs_def)
  show ?case
  proof (cases c)
    case True
    then have "a' = ?a" using Cons.prems(3) p by simp
    then show ?thesis
      using pk by (auto simp: pending_ok_def intro!: exI[of _ "ac_seqs a @ kept_seqs ser (j # js)"])
  next
    case False
    obtain r1 a1 where j: "acc_job ser append rt j ?a = (r1, a1)" by force
    have js: "kept_seqs ser (j # js) = kept_seqs ser [j] @ kept_seqs ser js" by simp
    note job = acc_job_run[OF pk(1,3) j]
    show ?thesis
    proof (cases r1)
      case (Inl e)
      then have "a' = a1" using Cons.prems(3) p False j by simp
      obtain lost where l: "sent_seqs a1 @ ac_seqs a1 @ lost = sent_seqs a @ ac_seqs a @ kept_seqs ser [j]"
        using job pk(2) by auto
      have "(sent_seqs a1 @ ac_seqs a1 @ lost) @ kept_seqs ser js = sent_seqs a @ ac_seqs a @ kept_seqs ser (j # js)"
        unfolding l js by simp
      moreover have "list_all (batch_ok ser rt) (ac_sent a1)" using job by (simp add: pending_ok_def)
      ultimately show ?thesis using \<open>a' = a1\<close> by (metis append_assoc)
    next
      case (Inr u)
      then have loop: "acc_loop ser append rt js a1 = (r, a')" using Cons.prems(3) p False j by simp
      have p1: "pending_ok ser rt a1" and h1: "holds (ac_sink a1) (bs @ single_batches (too_large ser [j]))"
        and e1: "sent_seqs a1 @ ac_seqs a1 = sent_seqs a @ ac_seqs a @ kept_seqs ser [j]"
        using job Inr pk(2) by auto
      from Cons.IH[OF p1 h1 loop] show ?thesis unfolding js using e1 by (metis append_assoc)
    qed
  qed
qed

end

text \<open>Without interruptions.\<close>

definition acc_calm :: "'s acc_state \<Rightarrow> bool" where
  "acc_calm a = (ac_cancel a = None \<and> ac_dropped a = None)"

lemma flush_acc_calm: "acc_calm a \<Longrightarrow> flush reason a = (r, a') \<Longrightarrow> r = Inr () \<and> acc_calm a'"
  using flush_calm[of a reason r a'] by (simp add: acc_calm_def)

context reliable_sink
begin

lemma acc_job_calm:
  assumes "acc_calm a" "calm (ac_sink a)" "acc_job ser append rt j a = (r, a')"
  shows "r = Inr () \<and> acc_calm a' \<and> calm (ac_sink a')"
proof (cases "oversized ser j")
  case True
  let ?o = "synthesize_row_too_large (rj_seq j) (estimate_size ser j)"
  obtain r1 s1 where ap: "append \<lparr> bo_first_seq = rj_seq j, bo_seqs = [rj_seq j], bo_outcomes = [?o] \<rparr> (ac_sink a) = (r1, s1)"
    by force
  have "outcome_seq ?o = rj_seq j" by (simp add: synthesize_row_too_large_def)
  then show ?thesis
    using assms True ap calm_appendE[OF assms(2) ap] by (auto simp: acc_job_def oversized_def from_outcomes_def acc_calm_def)
next
  case False
  let ?n = "estimate_size ser j"
  obtain r1 a1 where f: "flush_before rt ?n a = (r1, a1)" by force
  have fb: "r1 = Inr () \<and> acc_calm a1 \<and> ac_sink a1 = ac_sink a"
  proof (cases "\<exists>reason. flush reason a = (r1, a1)")
    case True
    then show ?thesis using flush_acc_calm[OF assms(1)] flush_cases by blast
  next
    case False
    then show ?thesis using f assms(1) by (auto simp: flush_before_def split: if_splits)
  qed
  have c: "acc_calm (push_row j ?n a1)" "ac_sink (push_row j ?n a1) = ac_sink a"
    using fb by (simp_all add: push_row_def acc_calm_def)
  have "(r, a') = (if length (ac_rows (push_row j ?n a1)) \<ge> max_count rt then flush CountCap (push_row j ?n a1)
      else (Inr (), push_row j ?n a1))"
    using assms(3) False f fb by (auto simp: acc_job_def oversized_def Let_def)
  then show ?thesis
    using c assms(2) flush_acc_calm[OF c(1), of CountCap r a'] flush_cases[of CountCap "push_row j ?n a1" r a']
    by (auto split: if_splits)
qed

lemma acc_loop_calm:
  assumes "pending_ok ser rt a" "holds (ac_sink a) bs" "acc_calm a" "calm (ac_sink a)"
    and "acc_loop ser append rt js a = (r, a')"
  shows "r = Inr () \<and> sent_seqs a' = sent_seqs a @ ac_seqs a @ kept_seqs ser js \<and>
     holds (ac_sink a') (bs @ single_batches (too_large ser js)) \<and> calm (ac_sink a')"
  using assms
proof (induction js arbitrary: a bs)
  case Nil
  have a: "a\<lparr> ac_cancel := None \<rparr> = a" using Nil.prems(3) by (simp add: acc_calm_def)
  show ?case
  proof (cases "ac_rows a = []")
    case True
    then show ?thesis using Nil.prems a by (auto simp: acc_calm_def pending_ok_def)
  next
    case False
    then have f: "flush Eof a = (r, a')" using Nil.prems(3,5) a by (simp add: acc_calm_def)
    then show ?thesis
      using flush_acc_calm[OF Nil.prems(3) f] flush_cases[OF f] flush_pending[OF Nil.prems(1) False f] Nil.prems(2,4) by auto
  qed
next
  case (Cons j js)
  have a: "a\<lparr> ac_cancel := None \<rparr> = a" "ac_cancel a = None" using Cons.prems(3) by (simp_all add: acc_calm_def)
  obtain r1 a1 where j: "acc_job ser append rt j a = (r1, a1)" by force
  note c = acc_job_calm[OF Cons.prems(3,4) j] and run = acc_job_run[OF Cons.prems(1,2) j]
  have p1: "pending_ok ser rt a1" and h1: "holds (ac_sink a1) (bs @ single_batches (too_large ser [j]))"
    and e1: "sent_seqs a1 @ ac_seqs a1 = sent_seqs a @ ac_seqs a @ kept_seqs ser [j]"
    using c run by auto
  have loop: "acc_loop ser append rt js a1 = (r, a')"
    using Cons.prems(5) a j c by simp
  have js: "kept_seqs ser (j # js) = kept_seqs ser [j] @ kept_seqs ser js"
    "single_batches (too_large ser (j # js)) = single_batches (too_large ser [j]) @ single_batches (too_large ser js)"
    by simp_all
  have "sent_seqs a1 @ ac_seqs a1 @ kept_seqs ser js = sent_seqs a @ ac_seqs a @ kept_seqs ser (j # js)"
    using e1 js(1) by (metis append_assoc)
  then show ?case
    using Cons.IH[OF p1 h1 _ _ loop] c js(2) by simp
qed

end

lemma acc_init_ok: "pending_ok ser rt (acc_init c d s)"
  by (simp add: pending_ok_def acc_init_def rows_size_def)

text \<open>C9: every batch the accumulator sends is well formed, whatever is cancelled, dropped or failing meanwhile: it is
  not empty, its \<^verbatim>\<open>seqs\<close> are those of its rows in order, it has at most the configured number of rows, none of
  them above the hard cap, and unless it is a single row it respects both byte limits. The sequence numbers sent are an
  initial segment, in order and without repetition of any position, of those received that fit the hard cap.\<close>

theorem accumulator_batches_ok:
  assumes "accumulator_task ser (append_line ser) rt jobs cancel dropped w = (r, a)" "writer_holds ser old w bs"
  shows "list_all (batch_ok ser rt) (ac_sent a) \<and> (\<exists>lost. sent_seqs a @ lost = kept_seqs ser jobs)"
proof -
  have "writer_holds ser old (ac_sink (acc_init cancel dropped w)) bs" using assms(2) by (simp add: acc_init_def)
  from jsonl.acc_loop_run[OF acc_init_ok this, of ser rt jobs r a] assms(1) show ?thesis
    by (simp add: accumulator_task_def acc_init_def sent_seqs_def)
qed

definition demo_rt :: runtime where
  "demo_rt = runtime_default\<lparr> rt_mode := Batch, rt_batch_size := Some 2, rt_idempotent := Some True \<rparr>"

definition demo_jobs :: "row_job list" where
  "demo_jobs = map (\<lambda>s. \<lparr> rj_seq = s, rj_data = [], rj_meta = \<lparr> rm_dry_run = False, rm_row_index = s \<rparr> \<rparr>) [0, 1, 2]"

lemma demo_writer_holds: "writer_holds ser [] demo_writer []"
  by (simp add: writer_holds_def jsonl_lines_def demo_writer_def)

lemma accumulator_batches_ok_witness:
  "list_all (batch_ok (\<lambda>_. Inr ''x'') demo_rt) (ac_sent (snd (accumulator_task (\<lambda>_. Inr ''x'')
     (append_line (\<lambda>_. Inr ''x'')) demo_rt demo_jobs (Some 4) None demo_writer)))"
  using accumulator_batches_ok[OF prod.collapse[symmetric] demo_writer_holds] by blast

text \<open>C8: nothing is lost on an undisturbed run: with no cancellation, the workers alive and a disk that works, the task
  returns normally, every row below the hard cap is in exactly one batch, in order, and the outcomes file has grown by
  exactly one \<^verbatim>\<open>ROW_TOO_LARGE\<close> line per row above it.\<close>

theorem accumulator_conserves_rows:
  assumes "writer_calm ser w" "writer_holds ser old w bs"
  shows "\<exists>a. accumulator_task ser (append_line ser) rt jobs None None w = (Inr (), a) \<and>
     sent_seqs a = kept_seqs ser jobs \<and> writer_holds ser old (ac_sink a) (bs @ single_batches (too_large ser jobs))"
proof -
  obtain r a where t: "acc_loop ser (append_line ser) rt jobs (acc_init None None w) = (r, a)" by force
  have "writer_holds ser old (ac_sink (acc_init None None w)) bs" "writer_calm ser (ac_sink (acc_init None None w))"
    using assms by (simp_all add: acc_init_def)
  from jsonl.acc_loop_calm[OF acc_init_ok this(1) _ this(2) t] t show ?thesis
    by (auto simp: accumulator_task_def acc_calm_def acc_init_def sent_seqs_def)
qed

lemma accumulator_conserves_rows_witness:
  "\<exists>a. accumulator_task (\<lambda>_. Inr ''x'') (append_line (\<lambda>_. Inr ''x'')) demo_rt demo_jobs None None demo_writer = (Inr (), a) \<and>
     sent_seqs a = [0, 1, 2]"
proof -
  have "writer_calm (\<lambda>_. Inr ''x'') demo_writer" by (simp add: writer_calm_def demo_writer_def)
  moreover have "kept_seqs (\<lambda>_. Inr ''x'') demo_jobs = [0, 1, 2]"
    by (simp add: kept_seqs_def demo_jobs_def oversized_def estimate_size_def row_size_def ROW_HARD_CAP_BYTES_def)
  ultimately show ?thesis
    using accumulator_conserves_rows[OF _ demo_writer_holds, of "\<lambda>_. Inr ''x''" demo_rt demo_jobs] by metis
qed

end
