(* ===== verification/Worker_Loop.thy ===== *)
theory Worker_Loop
  imports Worker Accumulator
begin

text \<open>
  The loop of one worker (\<^verbatim>\<open>worker_loop.rs\<close>): it pulls batches from the job channel, exchanges each with the
  handler, and appends one line of outcomes per batch before it reports the rows as done. A list of batches is what this
  worker pulls (the channel closes after them); the cancellation token is a fuse polled at every pull and, before
  the reply, at every receive, as the biased selects do; a hanging handler is one whose reply only the cancellation ends.
\<close>

section \<open>Definitions\<close>

definition synthesize_crash :: "nat \<Rightarrow> nat \<Rightarrow> bool \<Rightarrow> row_outcome" where
  "synthesize_crash sq worker_id idempotent =
     Error_Row sq (if idempotent then ERR_WORKER_CRASH else ERR_WORKER_CRASH_UNSAFE)
       (''worker '' @ nat_str worker_id @ '' crashed at seq '' @ nat_str sq) 0 None"

definition synthesize_protocol_error :: "nat \<Rightarrow> row_outcome" where
  "synthesize_protocol_error sq =
     Error_Row sq ERR_PROTOCOL_ERROR
       (''worker returned unexpected message variant for row seq '' @ nat_str sq) 0 None"

text \<open>What a reply to a row means; the number in the reply is not looked at.\<close>

definition row_reply :: "nat \<Rightarrow> nat \<Rightarrow> bool \<Rightarrow> core_error + inbound option \<Rightarrow> row_outcome" where
  "row_reply sq wid idempotent r =
     (case r of
        Inr (Some (Inb_Result _ d)) \<Rightarrow> Success sq d 0
      | Inr (Some (Inb_Error _ c m d)) \<Rightarrow> Error_Row sq c m 0 d
      | Inr None \<Rightarrow> synthesize_crash sq wid idempotent
      | Inr (Some _) \<Rightarrow> synthesize_protocol_error sq
      | Inl _ \<Rightarrow> synthesize_crash sq wid idempotent)"

text \<open>
  The exchange of one batch: the outcomes, whether the loop breaks after writing them, the worker and the token.
  \<open>None\<close> is the index panic of row mode on an empty batch.
\<close>

definition exchange_row ::
    "(string \<Rightarrow> inbound option) \<Rightarrow> bool \<Rightarrow> batch \<Rightarrow> worker \<Rightarrow> fuse \<Rightarrow> (row_outcome list \<times> bool \<times> worker \<times> fuse) option" where
  "exchange_row parse idempotent b w cancel =
     (case (ba_seqs b, ba_rows b) of
        (sq # _, row # _) \<Rightarrow>
          (case send_row (Out_Row sq (env_data row) (env_meta row)) w of
             (Inl _, w1) \<Rightarrow> Some ([synthesize_crash sq (wk_id w) idempotent], True, w1, cancel)
           | (Inr _, w1) \<Rightarrow>
               (let (c, cancel1) = poll cancel in
                if c then Some ([synthesize_crash sq (wk_id w) idempotent], True, w1, cancel1)
                else (let (r, w2) = recv parse w1 in
                      Some ([row_reply sq (wk_id w) idempotent r], False, w2, cancel1))))
      | _ \<Rightarrow> None)"

definition exchange_batch ::
    "(string \<Rightarrow> inbound option) \<Rightarrow> (inbound \<Rightarrow> string) \<Rightarrow> bool \<Rightarrow> batch \<Rightarrow> worker \<Rightarrow> fuse
      \<Rightarrow> (row_outcome list \<times> bool \<times> worker \<times> fuse) option" where
  "exchange_batch parse debug idempotent b w cancel =
     (let crashed = map (\<lambda>s. synthesize_crash s (wk_id w) idempotent) (ba_seqs b) in
      case send_batch_envelopes (ba_rows b) w of
        (Inl _, w1) \<Rightarrow> Some (crashed, True, w1, cancel)
      | (Inr _, w1) \<Rightarrow>
          (let (c, cancel1) = poll cancel in
           if c then Some (crashed, True, w1, cancel1)
           else (case recv_batch_result parse debug (ba_seqs b) w1 of
               (Inr os, w2) \<Rightarrow> Some (os, False, w2, cancel1)
             | (Inl _, w2) \<Rightarrow> Some (crashed, False, w2, cancel1))))"

definition exchange ::
    "(string \<Rightarrow> inbound option) \<Rightarrow> (inbound \<Rightarrow> string) \<Rightarrow> mode \<Rightarrow> bool \<Rightarrow> batch \<Rightarrow> worker \<Rightarrow> fuse
      \<Rightarrow> (row_outcome list \<times> bool \<times> worker \<times> fuse) option" where
  "exchange parse debug m idempotent b w cancel =
     (case m of Row \<Rightarrow> exchange_row parse idempotent b w cancel
      | Batch \<Rightarrow> exchange_batch parse debug idempotent b w cancel)"

definition report_outcomes :: "batch_outcome \<Rightarrow> (nat \<times> bool) list" where
  "report_outcomes bo = map (\<lambda>r. (outcome_seq r, is_success r)) (bo_outcomes bo)"

record 's loop_state =
  lp_worker :: worker
  lp_cancel :: fuse
  lp_sink :: 's
  lp_reported :: "(nat \<times> bool) list"
  lp_left :: "batch list"

definition panic :: core_error where "panic = Other ''index out of bounds''"

text \<open>\<open>lp_left\<close>: the batches this worker has not pulled when it stops.\<close>

fun pull_loop ::
    "(string \<Rightarrow> inbound option) \<Rightarrow> (inbound \<Rightarrow> string) \<Rightarrow> (batch_outcome \<Rightarrow> 's \<Rightarrow> (core_error + unit) \<times> 's) \<Rightarrow> mode \<Rightarrow> bool
      \<Rightarrow> batch list \<Rightarrow> 's loop_state \<Rightarrow> (core_error + unit) \<times> 's loop_state" where
  "pull_loop parse debug app m idempotent [] l =
     (let (c, cancel1) = poll (lp_cancel l) in (Inr (), l\<lparr> lp_cancel := cancel1, lp_left := [] \<rparr>))"
| "pull_loop parse debug app m idempotent (b # bs) l =
     (let (c, cancel1) = poll (lp_cancel l) in
      if c then (Inr (), l\<lparr> lp_cancel := cancel1, lp_left := b # bs \<rparr>)
      else (case exchange parse debug m idempotent b (lp_worker l) cancel1 of
          None \<Rightarrow> (Inl panic, l\<lparr> lp_left := bs \<rparr>)
        | Some (os, break, w, cancel2) \<Rightarrow>
            (case from_outcomes os of
               None \<Rightarrow> (Inl panic, l\<lparr> lp_worker := w, lp_left := bs \<rparr>)
             | Some bo \<Rightarrow>
                 (case app bo (lp_sink l) of
                    (Inl e, s1) \<Rightarrow> (Inl e, l\<lparr> lp_worker := w, lp_cancel := cancel2, lp_sink := s1, lp_left := bs \<rparr>)
                  | (Inr _, s1) \<Rightarrow>
                      let l1 = l\<lparr> lp_worker := w, lp_cancel := cancel2, lp_sink := s1,
                                  lp_reported := lp_reported l @ report_outcomes bo, lp_left := bs \<rparr> in
                      if break then (Inr (), l1) else pull_loop parse debug app m idempotent bs l1))))"

text \<open>
  Stopping the worker after the loop. The hard-cancel flag is read once; otherwise \<^verbatim>\<open>shutdown\<close> runs and the flag is
  polled every 50 ms until it is done: \<open>ticks\<close> is how many polls that takes, \<open>hard\<close> the flag as a fuse.
\<close>

datatype teardown = Hard_Killed | Shut_Down | Escalated

fun shutdown_wait :: "nat \<Rightarrow> fuse \<Rightarrow> bool" where
  "shutdown_wait 0 hard = False"
| "shutdown_wait (Suc ticks) hard = (let (h, hard1) = poll hard in if h then True else shutdown_wait ticks hard1)"

definition teardown_worker :: "nat \<Rightarrow> fuse \<Rightarrow> teardown" where
  "teardown_worker ticks hard =
     (let (h, hard1) = poll hard in
      if h then Hard_Killed else if shutdown_wait ticks hard1 then Escalated else Shut_Down)"

definition run_worker_loop ::
    "(string \<Rightarrow> inbound option) \<Rightarrow> (inbound \<Rightarrow> string) \<Rightarrow> (batch_outcome \<Rightarrow> 's \<Rightarrow> (core_error + unit) \<times> 's) \<Rightarrow> mode \<Rightarrow> bool
      \<Rightarrow> batch list \<Rightarrow> worker \<Rightarrow> fuse \<Rightarrow> 's \<Rightarrow> nat \<Rightarrow> fuse \<Rightarrow> (core_error + teardown) \<times> 's loop_state" where
  "run_worker_loop parse debug app m idempotent bs w cancel s ticks hard =
     (case pull_loop parse debug app m idempotent bs
        \<lparr> lp_worker = w, lp_cancel = cancel, lp_sink = s, lp_reported = [], lp_left = bs \<rparr> of
        (Inl e, l) \<Rightarrow> (Inl e, l)
      | (Inr _, l) \<Rightarrow> (Inr (teardown_worker ticks hard), l))"

section \<open>Exchanges\<close>

text \<open>The batches a worker can be given: those the accumulator sends, single rows in row mode.\<close>

definition job_ok :: "mode \<Rightarrow> batch \<Rightarrow> bool" where
  "job_ok m b = (ba_rows b \<noteq> [] \<and> ba_seqs b = map env_seq (ba_rows b) \<and> (m = Row \<longrightarrow> length (ba_rows b) = 1))"

lemma synthesize_crash_seq [simp]: "outcome_seq (synthesize_crash s w i) = s"
  by (simp add: synthesize_crash_def)

lemma synthesize_protocol_error_seq [simp]: "outcome_seq (synthesize_protocol_error s) = s"
  by (simp add: synthesize_protocol_error_def)

lemma row_reply_seq [simp]: "outcome_seq (row_reply s w i r) = s"
  by (auto simp: row_reply_def split: sum.split option.split inbound.split)

lemma exchange_seqs:
  assumes "job_ok m b"
  shows "\<exists>os brk w' c'. exchange parse dbg m idem b w c = Some (os, brk, w', c') \<and> map outcome_seq os = ba_seqs b"
proof (cases m)
  case Row
  then obtain row where b: "ba_rows b = [row]" "ba_seqs b = [env_seq row]"
    using assms by (auto simp: job_ok_def length_Suc_conv)
  then show ?thesis
    using Row by (auto simp: exchange_def exchange_row_def split_def Let_def split: sum.split)
next
  case Batch
  have crashed: "map outcome_seq (map (\<lambda>s. synthesize_crash s v idem) sqs) = sqs" for v sqs
    by (simp add: comp_def)
  show ?thesis
    using Batch crashed
    by (auto simp: exchange_def exchange_batch_def Let_def comp_def dest: recv_batch_result_seqs
        split: prod.split sum.split)
qed

context outcome_sink
begin

text \<open>One line per batch pulled.\<close>

lemma pull_loop_run:
  assumes "list_all (job_ok m) bs" "holds (lp_sink l) done" "pull_loop parse dbg append m idem bs l = (Inr (), l')"
  shows "\<exists>pulled lines. bs = pulled @ lp_left l' \<and> holds (lp_sink l') (done @ lines) \<and>
     map bo_seqs lines = map ba_seqs pulled \<and> list_all bo_ok lines \<and>
     lp_reported l' = lp_reported l @ concat (map report_outcomes lines)"
  using assms
proof (induction bs arbitrary: l "done")
  case Nil
  then show ?case by (auto simp: split_def Let_def)
next
  case (Cons b bs)
  obtain c c1 where p: "poll (lp_cancel l) = (c, c1)" by force
  show ?case
  proof (cases c)
    case True
    then show ?thesis using Cons.prems p by (intro exI[of _ "[]"]) auto
  next
    case False
    obtain os brk w c2 where x: "exchange parse dbg m idem b (lp_worker l) c1 = Some (os, brk, w, c2)"
        "map outcome_seq os = ba_seqs b"
      using exchange_seqs Cons.prems(1) by fastforce
    have ne: "os \<noteq> []" using x(2) Cons.prems(1) by (auto simp: job_ok_def)
    then obtain bo where bo: "from_outcomes os = Some bo" by (cases "from_outcomes os") auto
    have bok: "bo_ok bo" "bo_seqs bo = ba_seqs b"
      using from_outcomes_ok[OF bo] x(2) by (auto simp: bo_ok_def)
    obtain r s1 where ap: "append bo (lp_sink l) = (r, s1)" by force
    have r: "r = Inr ()" using Cons.prems(3) p False x bo ap by (cases r) auto
    have h1: "holds s1 (done @ [bo])" using append_holds Cons.prems(2) ap r by blast
    let ?l1 = "l\<lparr> lp_worker := w, lp_cancel := c2, lp_sink := s1, lp_reported := lp_reported l @ report_outcomes bo, lp_left := bs \<rparr>"
    show ?thesis
    proof (cases brk)
      case True
      then have "l' = ?l1" using Cons.prems(3) p False x bo ap r by (auto simp: Let_def)
      then show ?thesis using h1 bok by (intro exI[of _ "[b]"] exI[of _ "[bo]"]) simp
    next
      case nb: False
      have "pull_loop parse dbg append m idem bs ?l1 = (Inr (), l')"
        using Cons.prems(3) p False x bo ap r nb by (auto simp: Let_def)
      from Cons.IH[OF _ _ this, of "done @ [bo]"] Cons.prems(1) h1
      obtain pulled lines where "bs = pulled @ lp_left l'" "holds (lp_sink l') ((done @ [bo]) @ lines)"
        "map bo_seqs lines = map ba_seqs pulled" "list_all bo_ok lines"
        "lp_reported l' = lp_reported ?l1 @ concat (map report_outcomes lines)" by auto
      then show ?thesis using bok by (intro exI[of _ "b # pulled"] exI[of _ "bo # lines"]) auto
    qed
  qed
qed

end

context reliable_sink
begin

text \<open>The loop ends without an error, and with every batch pulled when nothing interrupts it.\<close>

lemma pull_loop_calm:
  assumes "list_all (job_ok m) bs" "calm (lp_sink l)"
  shows "fst (pull_loop parse dbg append m idem bs l) = Inr () \<and> calm (lp_sink (snd (pull_loop parse dbg append m idem bs l)))"
  using assms
proof (induction bs arbitrary: l)
  case Nil
  then show ?case by (simp add: split_def Let_def)
next
  case (Cons b bs)
  obtain c c1 where p: "poll (lp_cancel l) = (c, c1)" by force
  obtain os brk w c2 where x: "exchange parse dbg m idem b (lp_worker l) c1 = Some (os, brk, w, c2)"
      "map outcome_seq os = ba_seqs b"
    using exchange_seqs Cons.prems(1) by fastforce
  have "os \<noteq> []" using x(2) Cons.prems(1) by (auto simp: job_ok_def)
  then obtain bo where bo: "from_outcomes os = Some bo" by (cases "from_outcomes os") auto
  obtain r s1 where ap: "append bo (lp_sink l) = (r, s1)" by force
  then have rs: "r = Inr ()" "calm s1" using calm_appendE Cons.prems(2) by blast+
  then show ?case
    using Cons.prems Cons.IH[of "l\<lparr> lp_worker := w, lp_cancel := c2, lp_sink := s1, lp_reported := lp_reported l @ report_outcomes bo, lp_left := bs \<rparr>"]
      p x(1) bo ap by (auto simp: Let_def)
qed

end

lemma run_worker_loopD:
  "run_worker_loop parse dbg app m idem bs w cancel s ticks hard = (Inr t, l) \<Longrightarrow>
   pull_loop parse dbg app m idem bs \<lparr> lp_worker = w, lp_cancel = cancel, lp_sink = s, lp_reported = [], lp_left = bs \<rparr> = (Inr (), l)"
  by (auto simp: run_worker_loop_def split: prod.splits sum.splits)

text \<open>C5: no batch a worker takes is ever lost. Whatever the handler answers (results, errors, garbage, nothing, the end of
  its output), wherever a write to it fails and whenever the run is cancelled, when the loop returns
  normally the outcomes file has gained exactly one line per batch pulled, in the order pulled, each with the
  sequence numbers of its batch; the batches not recorded are exactly those never pulled; and the rows
  reported as done are the rows of those lines, in order, with their success.\<close>

theorem worker_records_every_batch:
  assumes "list_all (job_ok m) bs" "writer_holds ser old out before"
    and "run_worker_loop parse dbg (append_line ser) m idem bs w cancel out ticks hard = (Inr t, l)"
  shows "\<exists>pulled lines. bs = pulled @ lp_left l \<and> writer_holds ser old (lp_sink l) (before @ lines) \<and>
     map bo_seqs lines = map ba_seqs pulled \<and> list_all bo_ok lines \<and>
     lp_reported l = concat (map report_outcomes lines)"
  using jsonl.pull_loop_run[OF assms(1) _ run_worker_loopD[OF assms(3)], of old before] assms(2) by simp

definition demo_batches :: "batch list" where
  "demo_batches = map (\<lambda>s. \<lparr> ba_seqs = [s], ba_rows = [\<lparr> env_seq = s, env_data = [],
     env_meta = \<lparr> rm_dry_run = False, rm_row_index = s \<rparr> \<rparr>] \<rparr>) [4, 5, 6]"

definition demo_worker :: worker where
  "demo_worker = \<lparr> wk_id = 1, wk_stdout = [(0, Line ''ok''), (0, Line ''noise'')], wk_stdin = Some 2, wk_sent = [],
     wk_handler_version = [], wk_log_sink = True, wk_capture_raw = False, wk_pre_ready = [], wk_log = [] \<rparr>"

definition demo_reply :: "string \<Rightarrow> inbound option" where
  "demo_reply s = (if s = ''ok'' then Some (Inb_Result 9 []) else None)"

definition demo_loop :: "(core_error + teardown) \<times> jsonl_writer loop_state" where
  "demo_loop = run_worker_loop demo_reply (\<lambda>_. []) (append_line (\<lambda>_. Inr ''x'')) Row True demo_batches demo_worker None demo_writer 3 None"

lemma demo_loop_value: "fst demo_loop = Inr Shut_Down" "lp_left (snd demo_loop) = []"
    "lp_reported (snd demo_loop) = [(4, True), (5, False), (6, False)]"
  by code_simp+

lemma worker_records_every_batch_witness:
  "\<exists>lines. writer_holds (\<lambda>_. Inr ''x'') [] (lp_sink (snd demo_loop)) lines \<and> map bo_seqs lines = [[4], [5], [6]]"
proof -
  have r: "run_worker_loop demo_reply (\<lambda>_. []) (append_line (\<lambda>_. Inr ''x'')) Row True demo_batches demo_worker None demo_writer 3 None
      = (Inr Shut_Down, snd demo_loop)"
    using demo_loop_value(1) unfolding demo_loop_def by (metis prod.collapse)
  have j: "list_all (job_ok Row) demo_batches" by (simp add: demo_batches_def job_ok_def)
  have s: "map ba_seqs demo_batches = [[4], [5], [6]]" by (simp add: demo_batches_def)
  obtain pulled lines where "demo_batches = pulled @ lp_left (snd demo_loop)"
      "writer_holds (\<lambda>_. Inr ''x'') [] (lp_sink (snd demo_loop)) ([] @ lines)" "map bo_seqs lines = map ba_seqs pulled"
    using worker_records_every_batch[OF j demo_writer_holds r] by blast
  then show ?thesis using s demo_loop_value(2) by (intro exI[of _ lines]) simp
qed

text \<open>A worker loop cannot fail on what the handler does. With a disk that works, the loop of a worker given well-formed batches
  always returns normally: no panic, no error, whatever the handler, the cancellation and the hard-cancel flag
  do; then the worker is torn down.\<close>

theorem worker_loop_returns:
  assumes "list_all (job_ok m) bs" "writer_calm ser out"
  shows "\<exists>l. run_worker_loop parse dbg (append_line ser) m idem bs w cancel out ticks hard = (Inr (teardown_worker ticks hard), l)"
proof -
  let ?l = "\<lparr> lp_worker = w, lp_cancel = cancel, lp_sink = out, lp_reported = [], lp_left = bs \<rparr>"
  have "fst (pull_loop parse dbg (append_line ser) m idem bs ?l) = Inr ()"
    using jsonl.pull_loop_calm[OF assms(1), of ser ?l parse dbg idem] assms(2) by simp
  then show ?thesis
    by (cases "pull_loop parse dbg (append_line ser) m idem bs ?l") (simp add: run_worker_loop_def)
qed

lemma worker_loop_returns_witness:
  "\<exists>l. run_worker_loop demo_reply (\<lambda>_. []) (append_line (\<lambda>_. Inr ''x'')) Row True demo_batches demo_worker (Some 2) demo_writer 3 (Some 1)
     = (Inr Escalated, l)"
proof -
  have "teardown_worker 3 (Some 1) = Escalated" by code_simp
  moreover have "list_all (job_ok Row) demo_batches" by (simp add: demo_batches_def job_ok_def)
  moreover have "writer_calm (\<lambda>_. Inr ''x'') demo_writer" by (simp add: writer_calm_def demo_writer_def)
  ultimately show ?thesis
    using worker_loop_returns[of Row demo_batches "\<lambda>_. Inr ''x''" demo_writer demo_reply "\<lambda>_. []" True demo_worker "Some 2" 3 "Some 1"]
    by simp
qed

section \<open>Teardown and crash codes\<close>

lemma shutdown_wait_fuse: "shutdown_wait n (Some k) = (k < n)"
proof (induction n arbitrary: k)
  case (Suc n)
  then show ?case by (cases k) auto
qed simp

lemma shutdown_wait_None: "shutdown_wait n None = False"
  by (induction n) auto

text \<open>How a worker is stopped. The process group is killed at once when the hard-cancel flag is already set, the graceful
  shutdown is cut short when the flag is set at one of the polls made before it ends, and otherwise it runs to its end.\<close>

theorem teardown_rule:
  "teardown_worker ticks hard =
     (case hard of None \<Rightarrow> Shut_Down
      | Some 0 \<Rightarrow> Hard_Killed
      | Some (Suc k) \<Rightarrow> if k < ticks then Escalated else Shut_Down)"
  by (auto simp: teardown_worker_def shutdown_wait_fuse shutdown_wait_None split: option.split nat.split)

text \<open>A crash in row mode of a handler that is declared not idempotent is recorded as \<^verbatim>\<open>WORKER_CRASH_UNSAFE\<close>, which a rerun never takes up
  again; the documentation of the loop says the flag is ignored in row mode.\<close>

theorem row_mode_crash_unsafe:
  assumes "job_ok Row b" "wk_stdin w = Some 0"
  shows "\<exists>w'. exchange parse dbg Row False b w cancel =
     Some ([Error_Row (hd (ba_seqs b)) ERR_WORKER_CRASH_UNSAFE
        (''worker '' @ nat_str (wk_id w) @ '' crashed at seq '' @ nat_str (hd (ba_seqs b))) 0 None], True, w', cancel)"
proof -
  obtain row where "ba_rows b = [row]" "ba_seqs b = [env_seq row]"
    using assms(1) by (auto simp: job_ok_def length_Suc_conv)
  then show ?thesis
    using assms(2) by (simp add: exchange_def exchange_row_def send_row_def send_msg_def synthesize_crash_def)
qed

lemma row_mode_crash_unsafe_witness:
  "\<exists>w'. exchange demo_reply (\<lambda>_. []) Row False (hd demo_batches) (demo_worker\<lparr> wk_stdin := Some 0 \<rparr>) None =
     Some ([Error_Row 4 ERR_WORKER_CRASH_UNSAFE (''worker '' @ nat_str 1 @ '' crashed at seq '' @ nat_str 4) 0 None], True, w', None)"
  using row_mode_crash_unsafe[of "hd demo_batches" "demo_worker\<lparr> wk_stdin := Some 0 \<rparr>" demo_reply "\<lambda>_. []" None]
  by (simp add: demo_batches_def job_ok_def demo_worker_def)

end
