(* ===== verification/Input_Stream.thy ===== *)
theory Input_Stream
  imports Protocol
begin

text \<open>
  Reading the input of a run (\<^verbatim>\<open>input_stream.rs\<close>): the format from the extension, the check of the required
  columns when the file is opened, and the rows with their sequence numbers. A stream is the list of what its
  iterator yields. The CSV reader and the JSON parser are parameters; a text file is the list of its lines, each
  possibly unreadable.
\<close>

section \<open>Formats and streams\<close>

datatype input_format = Csv | Jsonl

definition detect :: "path \<Rightarrow> input_format option \<Rightarrow> core_error + input_format" where
  "detect p explicit =
     (case explicit of
        Some f \<Rightarrow> Inr f
      | None \<Rightarrow>
         (case path_extension p of
            Some e \<Rightarrow>
              if e = ''csv'' then Inr Csv
              else if e = ''jsonl'' \<or> e = ''ndjson'' then Inr Jsonl
              else Inl (Store (''cannot detect input format from extension '' @ [CHR 0x27] @ p @ [CHR 0x27] @
                               ''; specify --format csv|jsonl''))
          | None \<Rightarrow> Inl (Store (''cannot detect input format from extension '' @ [CHR 0x27] @ p @ [CHR 0x27] @
                               ''; specify --format csv|jsonl''))))"

record row_source =
  rs_seq :: nat
  rs_data :: obj

type_synonym line = "string + string"

datatype input_stream =
    Csv_Stream "string list" "(string + string list) list"
  | Jsonl_Stream "obj option" "line list"

definition missing_columns :: "string list \<Rightarrow> (string \<Rightarrow> bool) \<Rightarrow> string list" where
  "missing_columns required has = filter (\<lambda>c. \<not> has c) required"

text \<open>
  \<^verbatim>\<open>CsvInputStream::open\<close>: \<open>file\<close> is an error opening the file, or an error or the fields of the header row
  together with the records that follow.
\<close>

definition csv_open ::
    "string + ((string + string list) \<times> (string + string list) list) \<Rightarrow> string list \<Rightarrow> core_error + input_stream" where
  "csv_open file required =
     (case file of
        Inl e \<Rightarrow> Inl (Store (''csv open error: '' @ e))
      | Inr (Inl e, recs) \<Rightarrow> Inl (Store (''csv header read error: '' @ e))
      | Inr (Inr headers, recs) \<Rightarrow>
          let missing = missing_columns required (\<lambda>c. c \<in> set headers) in
          if missing \<noteq> [] then
            Inl (Store (''MISSING_REQUIRED_INPUT_COLUMN: required columns ['' @ join '', '' missing @
                        ''] not found; present headers: '' @ join '', '' headers))
          else Inr (Csv_Stream headers recs))"

fun csv_data :: "string list \<Rightarrow> string list \<Rightarrow> obj \<Rightarrow> obj" where
  "csv_data [] rec d = d"
| "csv_data (h # hs) [] d = csv_data hs [] (bt_insert h (JString []) d)"
| "csv_data (h # hs) (v # vs) d = csv_data hs vs (bt_insert h (JString v) d)"

fun csv_iter :: "string list \<Rightarrow> nat \<Rightarrow> (string + string list) list \<Rightarrow> (core_error + row_source) list" where
  "csv_iter hs sq [] = []"
| "csv_iter hs sq (r # rs) =
     (case r of
        Inl e \<Rightarrow> Inl (Store (''csv read error at row '' @ nat_str sq @ '': '' @ e))
      | Inr rec \<Rightarrow> Inr \<lparr> rs_seq = sq, rs_data = csv_data hs rec [] \<rparr>) # csv_iter hs (sq + 1) rs"

section \<open>JSONL\<close>

text \<open>\<^verbatim>\<open>JsonlInputStream::open\<close>: the first non-blank line is parsed at once.\<close>

fun jsonl_open :: "(string \<Rightarrow> string + obj) \<Rightarrow> string list \<Rightarrow> line list \<Rightarrow> core_error + input_stream" where
  "jsonl_open parse required [] = Inr (Jsonl_Stream None [])"
| "jsonl_open parse required (Inl e # ls) = Inl (Store (''jsonl read error: '' @ e))"
| "jsonl_open parse required (Inr l # ls) =
     (let t = trim (trim_end_cr (trim_end_newline l)) in
      if t = [] then jsonl_open parse required ls
      else (case parse t of
          Inl e \<Rightarrow> Inl (Store (''JSONL parse error at line 1: '' @ e))
        | Inr m \<Rightarrow>
            let missing = missing_columns required (bt_has m) in
            if missing \<noteq> [] then
              Inl (Store (''MISSING_REQUIRED_INPUT_COLUMN: required keys ['' @ join '', '' missing @
                          ''] not found in first JSONL row''))
            else Inr (Jsonl_Stream (Some m) ls)))"

fun jsonl_iter :: "(string \<Rightarrow> string + obj) \<Rightarrow> nat \<Rightarrow> line list \<Rightarrow> (core_error + row_source) list" where
  "jsonl_iter parse sq [] = []"
| "jsonl_iter parse sq (Inl e # ls) =
     Inl (Store (''jsonl io error at line '' @ nat_str (sq + 1) @ '': '' @ e)) # jsonl_iter parse (sq + 1) ls"
| "jsonl_iter parse sq (Inr l # ls) =
     (if trim l = [] then jsonl_iter parse (sq + 1) ls
      else (case parse (trim l) of
          Inl e \<Rightarrow> Inl (Store (''JSONL parse error at line '' @ nat_str (sq + 1) @ '': '' @ e))
        | Inr m \<Rightarrow> Inr \<lparr> rs_seq = sq, rs_data = m \<rparr>) # jsonl_iter parse (sq + 1) ls)"

definition yield_rows :: "(string \<Rightarrow> string + obj) \<Rightarrow> input_stream \<Rightarrow> (core_error + row_source) list" where
  "yield_rows parse s =
     (case s of
        Csv_Stream hs recs \<Rightarrow> csv_iter hs 0 recs
      | Jsonl_Stream None ls \<Rightarrow> jsonl_iter parse 0 ls
      | Jsonl_Stream (Some m) ls \<Rightarrow> Inr \<lparr> rs_seq = 0, rs_data = m \<rparr> # jsonl_iter parse 1 ls)"

text \<open>
  \<^verbatim>\<open>open_input\<close>; the file system gives the CSV reading of a path and its lines (\<open>Inl\<close> when it cannot be opened).
\<close>

definition open_input ::
    "(string \<Rightarrow> string + obj) \<Rightarrow> (path \<Rightarrow> string + ((string + string list) \<times> (string + string list) list))
      \<Rightarrow> (path \<Rightarrow> string + line list) \<Rightarrow> path \<Rightarrow> input_format \<Rightarrow> string list \<Rightarrow> core_error + input_stream" where
  "open_input parse csv text p f required =
     (case f of
        Csv \<Rightarrow> csv_open (csv p) required
      | Jsonl \<Rightarrow> (case text p of
            Inl e \<Rightarrow> Inl (Store (''jsonl open error: '' @ e))
          | Inr ls \<Rightarrow> jsonl_open parse required ls))"

section \<open>Sequence numbers\<close>

fun ok_rows :: "(core_error + row_source) list \<Rightarrow> row_source list" where
  "ok_rows [] = []"
| "ok_rows (Inl e # xs) = ok_rows xs"
| "ok_rows (Inr r # xs) = r # ok_rows xs"

lemma csv_iter_length [simp]: "length (csv_iter hs sq rs) = length rs"
  by (induction rs arbitrary: sq) auto

lemma csv_iter_nth: "i < length rs \<Longrightarrow> rs ! i = Inr rec \<Longrightarrow>
    csv_iter hs sq rs ! i = Inr \<lparr> rs_seq = sq + i, rs_data = csv_data hs rec [] \<rparr>"
proof (induction rs arbitrary: sq i)
  case (Cons r rs)
  then show ?case by (cases i) auto
qed simp

lemma csv_rows_bounds: "r \<in> set (ok_rows (csv_iter hs sq rs)) \<Longrightarrow> sq \<le> rs_seq r \<and> rs_seq r < sq + length rs"
proof (induction rs arbitrary: sq)
  case (Cons x rs)
  then show ?case by (cases x) (auto dest!: Cons.IH)
qed simp

lemma csv_rows_sorted: "sorted_wrt (<) (map rs_seq (ok_rows (csv_iter hs sq rs)))"
proof (induction rs arbitrary: sq)
  case (Cons x rs)
  then show ?case by (cases x) (auto dest: csv_rows_bounds simp: Suc_le_eq)
qed simp

lemma jsonl_rows_bounds: "r \<in> set (ok_rows (jsonl_iter p sq ls)) \<Longrightarrow> sq \<le> rs_seq r \<and> rs_seq r < sq + length ls"
  by (induction p sq ls rule: jsonl_iter.induct) (auto split: if_splits sum.splits)

lemma jsonl_rows_sorted: "sorted_wrt (<) (map rs_seq (ok_rows (jsonl_iter p sq ls)))"
  by (induction p sq ls rule: jsonl_iter.induct)
     (auto dest: jsonl_rows_bounds simp: Suc_le_eq split: sum.splits)

lemma yield_sorted: "sorted_wrt (<) (map rs_seq (ok_rows (yield_rows p s)))"
proof (cases s)
  case (Csv_Stream hs recs)
  then show ?thesis by (simp add: yield_rows_def csv_rows_sorted)
next
  case (Jsonl_Stream first ls)
  then show ?thesis
    using jsonl_rows_sorted[of p 0 ls] jsonl_rows_sorted[of p 1 ls] jsonl_rows_bounds[of _ p 1 ls]
    by (cases first) (auto simp: yield_rows_def Suc_le_eq)
qed

definition line_holds :: "(string \<Rightarrow> string + obj) \<Rightarrow> line \<Rightarrow> obj \<Rightarrow> bool" where
  "line_holds p l d = (case l of Inl _ \<Rightarrow> False | Inr t \<Rightarrow> trim t \<noteq> [] \<and> p (trim t) = Inr d)"

lemma jsonl_rows_lines:
  "r \<in> set (ok_rows (jsonl_iter p sq ls)) \<longleftrightarrow>
     (\<exists>i<length ls. rs_seq r = sq + i \<and> line_holds p (ls ! i) (rs_data r))"
proof (induction p sq ls rule: jsonl_iter.induct)
  case (2 p sq e ls)
  then show ?case by (simp add: Ex_less_Suc2 line_holds_def)
next
  case (3 p sq l ls)
  show ?case
  proof (cases "trim l = []")
    case True
    then show ?thesis using 3(1)[OF True] by (simp add: Ex_less_Suc2 line_holds_def)
  next
    case False
    then show ?thesis
      using 3(2)[OF False] by (cases "p (trim l)"; cases r) (auto simp: Ex_less_Suc2 line_holds_def)
  qed
qed simp

text \<open>The lines that \<^verbatim>\<open>open\<close> skips to find its first row.\<close>

definition blank_line :: "line \<Rightarrow> bool" where
  "blank_line l = (case l of Inl _ \<Rightarrow> False | Inr t \<Rightarrow> trim t = [])"

lemma trim_line: "trim (trim_end_cr (trim_end_newline l)) = trim l"
proof -
  have ws: "dropWhile is_ws (dropWhile p xs) = dropWhile is_ws xs" if "\<And>c. p c \<Longrightarrow> is_ws c" for p and xs :: string
    using that by (induction xs) auto
  have "trim (trim_end_while p s) = trim s" if "\<And>c. p c \<Longrightarrow> is_ws c" for p s
    using ws[OF that] by (simp add: trim_def trim_end_while_def)
  then show ?thesis by (simp add: trim_end_cr_def trim_end_newline_def is_ws_def newline_def)
qed

lemma jsonl_open_skip:
  "list_all blank_line bs \<Longrightarrow> jsonl_open p req (bs @ ls) = jsonl_open p req ls"
  by (induction bs) (auto simp: blank_line_def trim_line split: sum.splits)

text \<open>The rows of a JSONL input. When opening succeeds, every row that comes out holds the parse of the line as
  many lines below the first non-blank line as its sequence number says, every later line that parses comes out,
  and the sequence numbers ascend strictly: a line that fails to parse, and every blank line below the
  first row, uses up a number, while the blank lines above it do not. So with leading blank lines a sequence number is not the line number, and
  with blank lines in between the numbers have gaps.\<close>

theorem jsonl_rows_follow_lines:
  assumes "list_all blank_line bs" "\<not> blank_line l" "jsonl_open p req (bs @ l # ls) = Inr s"
  shows "(r \<in> set (ok_rows (yield_rows p s)) \<longleftrightarrow>
            (\<exists>i<length (l # ls). rs_seq r = i \<and> line_holds p ((l # ls) ! i) (rs_data r))) \<and>
     sorted_wrt (<) (map rs_seq (ok_rows (yield_rows p s)))"
proof -
  have o: "jsonl_open p req (l # ls) = Inr s" using assms(3) jsonl_open_skip[OF assms(1)] by metis
  then obtain t m where t: "l = Inr t" "trim t \<noteq> []" "p (trim t) = Inr m" "s = Jsonl_Stream (Some m) ls"
    using assms(2) by (cases l) (auto simp: trim_line blank_line_def Let_def split: sum.splits if_splits)
  have "r \<in> set (ok_rows (yield_rows p s)) \<longleftrightarrow> r = \<lparr> rs_seq = 0, rs_data = m \<rparr> \<or> r \<in> set (ok_rows (jsonl_iter p 1 ls))"
    by (simp add: t(4) yield_rows_def)
  also have "\<dots> \<longleftrightarrow> (\<exists>i<length (l # ls). rs_seq r = i \<and> line_holds p ((l # ls) ! i) (rs_data r))"
    using t by (cases r) (auto simp: jsonl_rows_lines Ex_less_Suc2 line_holds_def)
  finally show ?thesis using yield_sorted by blast
qed

definition demo_json :: "string \<Rightarrow> string + obj" where
  "demo_json s = (if s = ''a'' then Inr [(''k'', JString ''a'')] else if s = ''b'' then Inr [] else Inl ''bad'')"

lemma jsonl_rows_follow_lines_witness:
  "\<exists>s. jsonl_open demo_json [] [Inr '' '', Inr ''a'', Inr [], Inr ''?'', Inr ''b''] = Inr s \<and>
     \<lparr> rs_seq = 3, rs_data = [] \<rparr> \<in> set (ok_rows (yield_rows demo_json s)) \<and>
     (\<forall>d. \<lparr> rs_seq = 1, rs_data = d \<rparr> \<notin> set (ok_rows (yield_rows demo_json s)))"
proof -
  let ?s = "Jsonl_Stream (Some [(''k'', JString ''a'')]) [Inr [], Inr ''?'', Inr ''b'']"
  have o: "jsonl_open demo_json [] [Inr '' '', Inr ''a'', Inr [], Inr ''?'', Inr ''b''] = Inr ?s"
    by code_simp
  have b: "list_all blank_line [Inr '' '']" "\<not> blank_line (Inr ''a'')" by code_simp+
  have h: "line_holds demo_json (Inr ''b'') []" "\<And>d. \<not> line_holds demo_json (Inr []) d"
    by (simp_all add: line_holds_def demo_json_def trim_def trim_start_def trim_end_while_def is_ws_def)
  note th = conjunct1[OF jsonl_rows_follow_lines[of "[Inr '' '']" "Inr ''a''" demo_json "[]" "[Inr [], Inr ''?'', Inr ''b'']" ?s]]
  show ?thesis
    using o h th[OF b, of "\<lparr> rs_seq = 3, rs_data = [] \<rparr>"] th[OF b, of "\<lparr> rs_seq = 1, rs_data = d \<rparr>" for d]
    by (auto simp: Ex_less_Suc2 numeral_3_eq_3)
qed

section \<open>Required columns\<close>

text \<open>The check of the required columns when an input is opened. A CSV opens exactly when its header reads and has
  every required column; a JSONL whose first row parses opens exactly when that row has every required key; and
  the error names all that are missing.\<close>

theorem required_columns_checked:
  assumes "trim t \<noteq> []" "p (trim t) = Inr m"
  shows "csv_open (Inr (Inr hs, recs)) required =
       (if set required \<subseteq> set hs then Inr (Csv_Stream hs recs)
        else Inl (Store (''MISSING_REQUIRED_INPUT_COLUMN: required columns ['' @
               join '', '' (filter (\<lambda>c. c \<notin> set hs) required) @ ''] not found; present headers: '' @ join '', '' hs))) \<and>
     jsonl_open p required (Inr t # ls) =
       (if \<forall>c\<in>set required. bt_has m c then Inr (Jsonl_Stream (Some m) ls)
        else Inl (Store (''MISSING_REQUIRED_INPUT_COLUMN: required keys ['' @
               join '', '' (filter (\<lambda>c. \<not> bt_has m c) required) @ ''] not found in first JSONL row'')))"
  using assms by (auto simp: csv_open_def missing_columns_def Let_def filter_empty_conv trim_line)

lemma required_columns_checked_witness:
  "csv_open (Inr (Inr [''a'', ''c''], [])) [''a'', ''b''] =
     Inl (Store ''MISSING_REQUIRED_INPUT_COLUMN: required columns [b] not found; present headers: a, c'') \<and>
   jsonl_open demo_json [''k''] [Inr ''a''] = Inr (Jsonl_Stream (Some [(''k'', JString ''a'')]) [])"
proof -
  have t: "trim ''a'' = ''a''" by code_simp
  show ?thesis
    using required_columns_checked[of "''a''" demo_json "[(''k'', JString ''a'')]" "[''a'', ''c'']" "[]" "[''a'', ''b'']" "[]"]
      required_columns_checked[of "''a''" demo_json "[(''k'', JString ''a'')]" "[]" "[]" "[''k'']" "[]"] t
    by (simp add: demo_json_def bt_has_def bt_lookup_def)
qed

lemma csv_data_other: "bt_ok d \<Longrightarrow> h \<notin> set hs \<Longrightarrow> bt_ok (csv_data hs rec d) \<and> bt_lookup (csv_data hs rec d) h = bt_lookup d h"
  by (induction hs rec d rule: csv_data.induct) auto

lemma csv_data_lookup:
  "bt_ok d \<Longrightarrow> distinct hs \<Longrightarrow> i < length hs \<Longrightarrow>
   bt_lookup (csv_data hs rec d) (hs ! i) = Some (JString (if i < length rec then rec ! i else []))"
proof (induction hs rec d arbitrary: i rule: csv_data.induct)
  case (2 h hs d)
  then show ?case
    using csv_data_other[of "bt_insert h (JString []) d" h hs "[]"] by (cases i) auto
next
  case (3 h hs v vs d)
  then show ?case
    using csv_data_other[of "bt_insert h (JString v) d" h hs vs] by (cases i) auto
qed simp

lemma csv_data_dom: "bt_ok d \<Longrightarrow> bt_ok (csv_data hs rec d) \<and> dom (bt_lookup (csv_data hs rec d)) = dom (bt_lookup d) \<union> set hs"
  by (induction hs rec d rule: csv_data.induct) auto

text \<open>The rows of a CSV input. The i-th record, counted from 0 and with unreadable records counted, comes out with the
  sequence number i as an object that has exactly the header's columns, each the text of its field, empty
  where the record is too short; extra fields are dropped.\<close>

theorem csv_rows_exact:
  assumes "distinct hs" "i < length recs" "recs ! i = Inr rec"
  shows "\<exists>d. yield_rows p (Csv_Stream hs recs) ! i = Inr \<lparr> rs_seq = i, rs_data = d \<rparr> \<and> bt_ok d \<and>
     dom (bt_lookup d) = set hs \<and>
     (\<forall>j<length hs. bt_lookup d (hs ! j) = Some (JString (if j < length rec then rec ! j else [])))"
  using csv_iter_nth[OF assms(2,3), of hs 0] csv_data_lookup[of "[]" hs _ rec] csv_data_dom[of "[]" hs rec] assms(1)
  by (auto simp: yield_rows_def dom_def)

lemma csv_rows_exact_witness:
  "\<exists>d. yield_rows (\<lambda>_. Inl []) (Csv_Stream [''x'', ''y''] [Inl ''e'', Inr [''1'']]) ! 1 = Inr \<lparr> rs_seq = 1, rs_data = d \<rparr> \<and>
     bt_lookup d ''x'' = Some (JString ''1'') \<and> bt_lookup d ''y'' = Some (JString [])"
  using csv_rows_exact[of "[''x'', ''y'']" 1 "[Inl ''e'', Inr [''1'']]" "[''1'']" "\<lambda>_. Inl []"]
  by (auto simp: All_less_Suc2)

end
