(* ===== verification/Reader.thy ===== *)
theory Reader
  imports Input_Stream
begin

text \<open>
  The reader task (\<^verbatim>\<open>reader.rs\<close>): it takes the rows of the input in order, drops those a run does not want, renames
  columns, and sends each remaining row to the accumulator until the limit, the cancellation or the loss of the
  receiver stops it. The cancellation token is a fuse observed before each row and, first of the two arms of the
  biased select, at each send; the other fuse is the receiver going away.
\<close>

type_synonym field_map = "(string, string) bt"

definition ROW_CHANNEL_CAP :: nat where "ROW_CHANNEL_CAP = 64"

datatype send_stop = Cancelled | ReceiverDropped

record reader_config =
  rd_skip_seqs :: "nat set"
  rd_only_row_ids :: "nat set option"
  rd_row_limit :: "nat option"
  rd_field_map :: field_map
  rd_dry_run :: bool

definition rename_step :: "string \<times> string \<Rightarrow> obj \<Rightarrow> obj" where
  "rename_step kv d =
     (case bt_lookup d (fst kv) of None \<Rightarrow> d | Some v \<Rightarrow> bt_insert (snd kv) v (bt_remove (fst kv) d))"

definition rename_top_level :: "field_map \<Rightarrow> obj \<Rightarrow> obj" where
  "rename_top_level fm d = fold rename_step fm d"

definition wanted :: "reader_config \<Rightarrow> nat \<Rightarrow> bool" where
  "wanted cfg sq =
     (case rd_only_row_ids cfg of Some only \<Rightarrow> sq \<in> only | None \<Rightarrow> sq \<notin> rd_skip_seqs cfg)"

definition job_of :: "reader_config \<Rightarrow> row_source \<Rightarrow> row_job" where
  "job_of cfg r =
     \<lparr> rj_seq = rs_seq r, rj_data = rename_top_level (rd_field_map cfg) (rs_data r),
       rj_meta = \<lparr> rm_dry_run = rd_dry_run cfg, rm_row_index = rs_seq r \<rparr> \<rparr>"

text \<open>The send: cancellation is polled first, then the state of the receiver.\<close>

definition try_send :: "fuse \<Rightarrow> fuse \<Rightarrow> send_stop option \<times> fuse \<times> fuse" where
  "try_send cancel rx =
     (let (c, cancel') = poll cancel in
      if c then (Some Cancelled, cancel', rx)
      else let (d, rx') = poll rx in
        if d then (Some ReceiverDropped, cancel', rx') else (None, cancel', rx'))"

record reader_result =
  rres_sent :: "row_job list"
  rres_parse_errors :: nat
  rres_stopped :: "send_stop option"

text \<open>The loop; \<open>emitted\<close> counts the rows sent, \<open>errs\<close> the rows skipped for a parse error.\<close>

fun reader_loop ::
    "reader_config \<Rightarrow> (core_error + row_source) list \<Rightarrow> nat \<Rightarrow> nat \<Rightarrow> fuse \<Rightarrow> fuse \<Rightarrow> reader_result" where
  "reader_loop cfg [] emitted errs cancel rx = \<lparr> rres_sent = [], rres_parse_errors = errs, rres_stopped = None \<rparr>"
| "reader_loop cfg (item # rest) emitted errs cancel rx =
     (let (c, cancel1) = poll cancel in
      if c then \<lparr> rres_sent = [], rres_parse_errors = errs, rres_stopped = Some Cancelled \<rparr>
      else (case item of
          Inl e \<Rightarrow> reader_loop cfg rest emitted (errs + 1) cancel1 rx
        | Inr r \<Rightarrow>
            if \<not> wanted cfg (rs_seq r) then reader_loop cfg rest emitted errs cancel1 rx
            else if (case rd_row_limit cfg of Some m \<Rightarrow> emitted \<ge> m | None \<Rightarrow> False) then
              \<lparr> rres_sent = [], rres_parse_errors = errs, rres_stopped = None \<rparr>
            else
              (case try_send cancel1 rx of
                 (Some stop, _, _) \<Rightarrow> \<lparr> rres_sent = [], rres_parse_errors = errs, rres_stopped = Some stop \<rparr>
               | (None, cancel2, rx2) \<Rightarrow>
                   let res = reader_loop cfg rest (emitted + 1) errs cancel2 rx2
                   in res\<lparr> rres_sent := job_of cfg r # rres_sent res \<rparr>)))"

definition reader_task :: "reader_config \<Rightarrow> (core_error + row_source) list \<Rightarrow> fuse \<Rightarrow> fuse \<Rightarrow> reader_result" where
  "reader_task cfg items cancel rx = reader_loop cfg items 0 0 cancel rx"

section \<open>What is sent\<close>

definition take_limit :: "nat option \<Rightarrow> 'a list \<Rightarrow> 'a list" where
  "take_limit l xs = (case l of None \<Rightarrow> xs | Some m \<Rightarrow> take m xs)"

definition selected :: "reader_config \<Rightarrow> (core_error + row_source) list \<Rightarrow> row_source list" where
  "selected cfg items = filter (\<lambda>r. wanted cfg (rs_seq r)) (ok_rows items)"

lemma try_send_None [simp]: "try_send None None = (None, None, None)"
  by (simp add: try_send_def)

lemma reader_loop_prefix:
  "\<exists>ys. map (job_of cfg) (take_limit (map_option (\<lambda>m. m - emitted) (rd_row_limit cfg)) (selected cfg items))
     = rres_sent (reader_loop cfg items emitted errs cancel rx) @ ys"
proof (induction items arbitrary: emitted errs cancel rx)
  case (Cons item rest)
  obtain c cancel1 where p: "poll cancel = (c, cancel1)" by force
  show ?case
  proof (cases "\<not> c \<and> (\<exists>r. item = Inr r \<and> wanted cfg (rs_seq r))")
    case False
    then show ?thesis
      using p Cons.IH[of emitted "errs + 1" cancel1 rx] Cons.IH[of emitted errs cancel1 rx]
      by (cases item) (auto simp: selected_def)
  next
    case True
    then obtain r where r: "item = Inr r" "wanted cfg (rs_seq r)" by auto
    obtain s cancel2 rx2 where t: "try_send cancel1 rx = (s, cancel2, rx2)" by (metis prod_cases3)
    obtain ys where ih: "map (job_of cfg) (take_limit (map_option (\<lambda>m. m - (emitted + 1)) (rd_row_limit cfg)) (selected cfg rest))
                = rres_sent (reader_loop cfg rest (emitted + 1) errs cancel2 rx2) @ ys"
      using Cons.IH by blast
    show ?thesis
      using p True r t ih
      by (cases s; cases "rd_row_limit cfg")
         (auto simp: selected_def take_limit_def Let_def Suc_diff_Suc take_Cons')
  qed
qed simp

lemma reader_loop_all:
  "rres_sent (reader_loop cfg items emitted errs None None) =
     map (job_of cfg) (take_limit (map_option (\<lambda>m. m - emitted) (rd_row_limit cfg)) (selected cfg items))"
proof (induction items arbitrary: emitted errs)
  case (Cons item rest)
  then show ?case
    by (cases item) (auto simp: selected_def take_limit_def Let_def take_Cons' Suc_diff_Suc split: option.splits)
qed (simp add: selected_def take_limit_def split: option.splits)

text \<open>The reader sends exactly the rows asked for. Undisturbed, it sends, in input order and renamed, the readable
  rows that are in \<^verbatim>\<open>only_row_ids\<close> when it is given and otherwise not in \<^verbatim>\<open>skip_seqs\<close>, cut at the row limit (which
  counts rows sent, not rows read); stopped by a cancellation or a lost receiver at any point, it has sent
  an initial segment of that.\<close>

theorem reader_sends_selected:
  "rres_sent (reader_task cfg items None None) =
     map (job_of cfg) (take_limit (rd_row_limit cfg) (selected cfg items)) \<and>
   (\<exists>ys. map (job_of cfg) (take_limit (rd_row_limit cfg) (selected cfg items)) =
     rres_sent (reader_task cfg items cancel rx) @ ys)"
  using reader_loop_all[of cfg items 0 0] reader_loop_prefix[of cfg 0 items 0 cancel rx]
  by (simp add: reader_task_def option.map_ident[unfolded id_def] map_option_idI)

lemma take_limit_set: "set (take_limit l xs) \<subseteq> set xs"
  by (auto simp: take_limit_def dest: in_set_takeD split: option.splits)

lemma sorted_take_limit: "sorted_wrt P (map f xs) \<Longrightarrow> sorted_wrt P (map f (take_limit l xs))"
  by (auto simp: take_limit_def take_map[symmetric] intro: sorted_wrt_take split: option.splits)

lemma rj_job_of [simp]: "rj_seq (job_of cfg r) = rs_seq r" "rm_row_index (rj_meta (job_of cfg r)) = rs_seq r"
  "rm_dry_run (rj_meta (job_of cfg r)) = rd_dry_run cfg"
  by (simp_all add: job_of_def)

lemma reader_prefix_of:
  obtains ys where "map (job_of cfg) (take_limit (rd_row_limit cfg) (selected cfg items)) =
     rres_sent (reader_task cfg items cancel rx) @ ys"
  using reader_loop_prefix[of cfg 0 items 0 cancel rx]
  by (auto simp: reader_task_def option.map_ident map_option_idI)

lemma reader_sorted:
  "sorted_wrt (<) (map rj_seq (rres_sent (reader_task cfg (yield_rows p s) cancel rx)))"
proof -
  obtain ys where ys: "map (job_of cfg) (take_limit (rd_row_limit cfg) (selected cfg (yield_rows p s))) =
     rres_sent (reader_task cfg (yield_rows p s) cancel rx) @ ys" by (rule reader_prefix_of)
  have "sorted_wrt (<) (map rs_seq (selected cfg (yield_rows p s)))"
    using yield_sorted[of p s] unfolding selected_def by (simp add: sorted_wrt_map sorted_wrt_filter)
  then have "sorted_wrt (<) (map rj_seq (map (job_of cfg) (take_limit (rd_row_limit cfg) (selected cfg (yield_rows p s)))))"
    using sorted_take_limit by (simp add: comp_def)
  then show ?thesis unfolding ys by (simp add: sorted_wrt_append)
qed

text \<open>C18: no row is dispatched twice: whatever the interruptions, the sequence numbers the reader sends ascend strictly,
  every one of them was asked for, each job carries its own number as \<^verbatim>\<open>row_index\<close> and the dry-run flag of the
  run, and there are at most as many as the limit.\<close>

theorem reader_dispatch_invariant:
  "sorted_wrt (<) (map rj_seq (rres_sent (reader_task cfg (yield_rows p s) cancel rx))) \<and>
   list_all (\<lambda>j. wanted cfg (rj_seq j) \<and> rm_row_index (rj_meta j) = rj_seq j \<and> rm_dry_run (rj_meta j) = rd_dry_run cfg)
     (rres_sent (reader_task cfg (yield_rows p s) cancel rx)) \<and>
   (case rd_row_limit cfg of None \<Rightarrow> True
    | Some m \<Rightarrow> length (rres_sent (reader_task cfg (yield_rows p s) cancel rx)) \<le> m)"
proof -
  let ?sent = "rres_sent (reader_task cfg (yield_rows p s) cancel rx)"
  obtain ys where ys: "map (job_of cfg) (take_limit (rd_row_limit cfg) (selected cfg (yield_rows p s))) = ?sent @ ys"
    by (rule reader_prefix_of)
  have "set ?sent \<subseteq> set (map (job_of cfg) (take_limit (rd_row_limit cfg) (selected cfg (yield_rows p s))))"
    unfolding ys by simp
  then have "set ?sent \<subseteq> job_of cfg ` set (selected cfg (yield_rows p s))"
    using take_limit_set by fastforce
  then have "list_all (\<lambda>j. wanted cfg (rj_seq j) \<and> rm_row_index (rj_meta j) = rj_seq j \<and>
      rm_dry_run (rj_meta j) = rd_dry_run cfg) ?sent"
    by (auto simp: list_all_iff selected_def dest!: subsetD)
  moreover have "length ?sent \<le> length (take_limit (rd_row_limit cfg) (selected cfg (yield_rows p s)))"
    using arg_cong[OF ys, of length] by simp
  ultimately show ?thesis
    using reader_sorted by (auto simp: take_limit_def split: option.splits)
qed

section \<open>Renaming\<close>

lemma rename_step_ok: "bt_ok d \<Longrightarrow> bt_ok (rename_step kv d)"
  by (auto simp: rename_step_def split: option.splits)

lemma rename_step_lookup:
  "bt_ok d \<Longrightarrow> a \<noteq> b \<Longrightarrow> bt_lookup (rename_step (a, b) d) k =
     (case bt_lookup d a of None \<Rightarrow> bt_lookup d k
      | Some v \<Rightarrow> if k = b then Some v else if k = a then None else bt_lookup d k)"
  by (auto simp: rename_step_def split: option.splits)

lemma rename_lookup:
  assumes "bt_ok d" "distinct (map fst fm)" "distinct (map snd fm)" "fst ` set fm \<inter> snd ` set fm = {}"
  shows "bt_lookup (rename_top_level fm d) k =
     (case List.find (\<lambda>(a, b). b = k \<and> bt_has d a) fm of
        Some (a, b) \<Rightarrow> bt_lookup d a
      | None \<Rightarrow> if k \<in> fst ` set fm then None else bt_lookup d k)"
  using assms
proof (induction fm arbitrary: d)
  case Nil
  then show ?case by (simp add: rename_top_level_def)
next
  case (Cons ab fm)
  obtain a b where ab: "ab = (a, b)" by force
  let ?d = "rename_step (a, b) d"
  have ok: "bt_ok ?d" using Cons.prems(1) by (rule rename_step_ok)
  have ne: "a \<noteq> b" using Cons.prems(4) ab by auto
  have ih: "bt_lookup (rename_top_level fm ?d) k =
     (case List.find (\<lambda>(a, b). b = k \<and> bt_has ?d a) fm of
        Some (a, b) \<Rightarrow> bt_lookup ?d a
      | None \<Rightarrow> if k \<in> fst ` set fm then None else bt_lookup ?d k)"
    using Cons.prems by (intro Cons.IH[OF ok]) auto
  have same: "bt_lookup ?d x = bt_lookup d x" if "x \<noteq> a" "x \<noteq> b" for x
    using rename_step_lookup[OF Cons.prems(1) ne] that by (auto split: option.splits)
  have fresh: "a' \<noteq> a \<and> a' \<noteq> b" if "(a', b') \<in> set fm" for a' b'
    using Cons.prems(2,4) ab that by (force simp: image_iff)
  have find: "List.find (\<lambda>(a, b). b = k \<and> bt_has ?d a) fm = List.find (\<lambda>(a, b). b = k \<and> bt_has d a) fm"
    using fresh same by (intro find_cong) (auto simp: bt_has_def)
  have r: "rename_top_level (ab # fm) d = rename_top_level fm ?d"
    by (simp add: rename_top_level_def ab)
  have bnot: "List.find (\<lambda>(a, b). b = k \<and> bt_has d a) fm = None" if "k = b"
    using that Cons.prems(3) ab by (force simp: find_None_iff image_iff)
  show ?case
  proof (cases "List.find (\<lambda>(a, b). b = k \<and> bt_has d a) fm")
    case (Some p)
    obtain a' b' where p: "p = (a', b')" by force
    have "(a', b') \<in> set fm" using Some p by (auto simp: find_Some_iff in_set_conv_nth)
    moreover have "k \<noteq> b" using bnot Some by auto
    ultimately show ?thesis using ih r find Some p fresh same by (simp add: ab)
  next
    case None
    then show ?thesis
      using ih r find rename_step_lookup[OF Cons.prems(1) ne, of k] Cons.prems(4)
      by (auto simp: ab bt_has_def split: option.splits)
  qed
qed

text \<open>What a field map does to a row, for a map without chains (no new name is also an old one, no two old names
  share a new one): the value of each old name that is present moves to its new name, replacing a column
  already there, the old names are gone, and every other column is untouched.\<close>

theorem rename_moves_columns:
  assumes "bt_ok d" "bt_ok fm" "distinct (map snd fm)" "fst ` set fm \<inter> snd ` set fm = {}"
  shows "bt_lookup (rename_top_level fm d) k =
     (case List.find (\<lambda>(a, b). b = k \<and> bt_has d a) fm of
        Some (a, b) \<Rightarrow> bt_lookup d a
      | None \<Rightarrow> if k \<in> fst ` set fm then None else bt_lookup d k)"
  by (rule rename_lookup[OF assms(1) bt_ok_distinct[OF assms(2)] assms(3,4)])

lemma rename_moves_columns_witness:
  "bt_lookup (rename_top_level [(''a'', ''b'')] [(''a'', JBool True), (''b'', JNull)]) ''b'' = Some (JBool True)"
  using rename_moves_columns[of "[(''a'', JBool True), (''b'', JNull)]" "[(''a'', ''b'')]" "''b''"]
  by (simp add: bt_ok_def bt_has_def bt_lookup_def)

text \<open>The direction of the renaming. With the entry \<open>(schema, csv)\<close>, which the documentation of the map reads as
  ``the CSV column csv is the handler's field schema'', a row that has the column csv and not schema is left
  as it is, and a row that has schema has it renamed to csv: the code renames keys to values, the opposite of
  what is documented.\<close>

theorem field_map_renames_key_to_value:
  assumes "bt_ok d" "schema \<noteq> csv"
  shows "(bt_lookup d schema = None \<longrightarrow> rename_top_level [(schema, csv)] d = d) \<and>
     (\<forall>v. bt_lookup d schema = Some v \<longrightarrow>
        bt_lookup (rename_top_level [(schema, csv)] d) csv = Some v \<and>
        bt_lookup (rename_top_level [(schema, csv)] d) schema = None)"
  using assms by (auto simp: rename_top_level_def rename_step_def)

lemma field_map_renames_key_to_value_witness:
  "rename_top_level [(''email'', ''user_email'')] [(''user_email'', JNull)] = [(''user_email'', JNull)]"
  using field_map_renames_key_to_value[of "[(''user_email'', JNull)]" "''email''" "''user_email''"]
  by (simp add: bt_ok_def bt_lookup_def)


lemma sent_wanted:
  assumes "j \<in> set (rres_sent (reader_task cfg items cancel rx))"
  shows "wanted cfg (rj_seq j)"
proof -
  obtain ys where ys: "map (job_of cfg) (take_limit (rd_row_limit cfg) (selected cfg items)) =
     rres_sent (reader_task cfg items cancel rx) @ ys" by (rule reader_prefix_of)
  have "j \<in> job_of cfg ` set (take_limit (rd_row_limit cfg) (selected cfg items))"
    using assms arg_cong[OF ys, of set] by auto
  then show ?thesis using take_limit_set[of "rd_row_limit cfg" "selected cfg items"] by (auto simp: selected_def)
qed

end
