(* ===== verification/Pool_Streaming.thy ===== *)
theory Pool_Streaming
  imports Worker_Loop Reader
begin

text \<open>
  The pool (\<^verbatim>\<open>pool_streaming.rs\<close>): how many workers run, their start, the classification of the run from what its
  tasks returned, and the statistics of a finished \<^verbatim>\<open>outcomes.jsonl\<close>. What the four kinds of tasks do while they run
  together is the step relation of \<open>Pipeline\<close>; here their results are an argument.
\<close>

section \<open>Definitions\<close>

text \<open>
  \<open>pc_cancel\<close> is the caller's token (\<open>None\<close>: none given; \<open>Some c\<close>: whether it is fired), \<open>pc_hard\<close> the value of the
  hard-cancel flag when it is read at the end.
\<close>

record streaming_config =
  pc_manifest :: manifest
  pc_workers :: nat
  pc_run_id :: string
  pc_config :: obj
  pc_cancel :: "bool option"
  pc_runtime :: runtime
  pc_jsonl_path :: path
  pc_fsync :: bool
  pc_stall_timeout :: "nat option"
  pc_stall_poll :: "nat option"
  pc_capture_raw :: bool
  pc_hard :: "bool option"

record pool_report =
  pr_aborted :: bool
  pr_abort_reason :: "string option"
  pr_stalled_at_bytes :: "nat option"

definition effective_workers :: "streaming_config \<Rightarrow> nat" where
  "effective_workers cfg = (if rt_stateful (pc_runtime cfg) then 1 else pc_workers cfg)"

text \<open>The log sink is attached when the log file could be opened, then the lines printed before \<^verbatim>\<open>ready\<close> are flushed.\<close>

definition attach_sink :: "streaming_config \<Rightarrow> bool \<Rightarrow> worker \<Rightarrow> worker" where
  "attach_sink cfg log_ok w =
     flush_pre_ready_lines (w\<lparr> wk_log_sink := log_ok, wk_capture_raw := (log_ok \<and> pc_capture_raw cfg) \<rparr>)"

text \<open>The first worker that fails to start ends the loop; the message is the reason of the report.\<close>

fun start_workers ::
    "streaming_config \<Rightarrow> bool \<Rightarrow> (nat \<Rightarrow> core_error + worker) \<Rightarrow> nat list \<Rightarrow> worker list \<Rightarrow> string \<times> worker list + worker list" where
  "start_workers cfg log_ok start [] ws = Inr ws"
| "start_workers cfg log_ok start (i # is) ws =
     (case start i of
        Inl e \<Rightarrow> Inl (''worker '' @ nat_str i @ '' failed to start: '' @ core_error_text e, ws)
      | Inr w \<Rightarrow> start_workers cfg log_ok start is (ws @ [attach_sink cfg log_ok w]))"

text \<open>What awaiting a task gives: its result, or the error of a panic.\<close>

datatype 'a joined = Joined 'a | Join_Error string

record pool_ends =
  pe_reader :: "(core_error + unit) joined"
  pe_accum :: "(core_error + unit) joined"
  pe_workers :: "(core_error + unit) joined list"
  pe_monitor :: "(core_error + unit) joined"
  pe_bytes :: nat

fun worker_error :: "nat \<Rightarrow> (core_error + unit) joined \<Rightarrow> string list" where
  "worker_error i (Joined (Inr _)) = []"
| "worker_error i (Joined (Inl e)) = [''worker['' @ nat_str i @ '']: '' @ core_error_text e]"
| "worker_error i (Join_Error e) = [''worker['' @ nat_str i @ ''] panic: '' @ e]"

definition worker_errors :: "(core_error + unit) joined list \<Rightarrow> string list" where
  "worker_errors hs = concat (map (\<lambda>(i, h). worker_error i h) (enumerate 0 hs))"

definition aborted_because :: "string \<Rightarrow> pool_report" where
  "aborted_because m = \<lparr> pr_aborted = True, pr_abort_reason = Some m, pr_stalled_at_bytes = None \<rparr>"

definition is_cancel_artefact :: "core_error \<Rightarrow> bool" where
  "is_cancel_artefact e =
     (contains (core_error_text e) ''flush cancelled'' \<or> contains (core_error_text e) ''worker dropped'')"

text \<open>The order of the checks is the order of the source. \<open>token\<close> is the caller's token when they are made.\<close>

definition classify_ends ::
    "bool option \<Rightarrow> bool option \<Rightarrow> core_error + unit \<Rightarrow> nat \<Rightarrow> string list \<Rightarrow> core_error + unit \<Rightarrow> core_error + unit \<Rightarrow> pool_report" where
  "classify_ends token hard monitor bytes werrs rd acc =
     (case monitor of
        Inl e \<Rightarrow> \<lparr> pr_aborted = True,
                   pr_abort_reason = Some (''stalled at '' @ nat_str bytes @ '' bytes: '' @ core_error_text e),
                   pr_stalled_at_bytes = Some bytes \<rparr>
      | Inr _ \<Rightarrow>
          if werrs \<noteq> [] then aborted_because (join ''; '' werrs)
          else (case rd of
              Inl e \<Rightarrow> aborted_because (''reader error: '' @ core_error_text e)
            | Inr _ \<Rightarrow>
                (case acc of
                   Inl e \<Rightarrow>
                     if \<not> is_cancel_artefact e then aborted_because (''accumulator error: '' @ core_error_text e)
                     else if token = Some True \<and> hard = Some True then aborted_because ''hard cancel: process group killed''
                     else if token = Some True then aborted_because ''cancelled by operator''
                     else \<lparr> pr_aborted = False, pr_abort_reason = None, pr_stalled_at_bytes = None \<rparr>
                 | Inr _ \<Rightarrow>
                     if token = Some True \<and> hard = Some True then aborted_because ''hard cancel: process group killed''
                     else \<lparr> pr_aborted = False, pr_abort_reason = None, pr_stalled_at_bytes = None \<rparr>)))"

text \<open>
  The body from the awaits on. The reader, the accumulator and the workers are awaited, a panic of the first two is an
  error of the whole run, then the token, which is the caller's when one was given, is fired to stop the monitor.
\<close>

definition pool_report_of :: "streaming_config \<Rightarrow> pool_ends \<Rightarrow> core_error + pool_report" where
  "pool_report_of cfg en =
     (case pe_reader en of
        Join_Error e \<Rightarrow> Inl (Other (''reader task join: '' @ e))
      | Joined rd \<Rightarrow>
          (case pe_accum en of
             Join_Error e \<Rightarrow> Inl (Other (''accumulator task join: '' @ e))
           | Joined acc \<Rightarrow>
               (let token = map_option (\<lambda>_. True) (pc_cancel cfg) in
                case pe_monitor en of
                  Join_Error e \<Rightarrow> Inl (Other (''monitor task join: '' @ e))
                | Joined mon \<Rightarrow>
                    Inr (classify_ends token (pc_hard cfg) mon (pe_bytes en) (worker_errors (pe_workers en)) rd acc))))"

text \<open>
  The whole function: \<open>file_size\<close> and \<open>disk\<close> are what opening the writer meets, \<open>log_ok\<close> whether the handler log opens,
  \<open>start\<close> the start of a worker, \<open>run\<close> what the tasks of the started workers end with.
\<close>

definition run_pool_streaming ::
    "streaming_config \<Rightarrow> core_error + jsonl_writer \<Rightarrow> bool \<Rightarrow> (nat \<Rightarrow> core_error + worker) \<Rightarrow> (worker list \<Rightarrow> jsonl_writer \<Rightarrow> pool_ends)
      \<Rightarrow> core_error + pool_report" where
  "run_pool_streaming cfg writer log_ok start run =
     (case writer of
        Inl e \<Rightarrow> Inl e
      | Inr out \<Rightarrow>
          (case start_workers cfg log_ok start [0..<effective_workers cfg] [] of
             Inl (msg, _) \<Rightarrow> Inr (aborted_because msg)
           | Inr ws \<Rightarrow> pool_report_of cfg (run ws out)))"

text \<open>
  The caller's token after the call. It is the token the tasks use, so the pool fires it itself: when a worker does not start, and when all
  tasks have been awaited, to stop the monitor.
\<close>

definition token_after ::
    "streaming_config \<Rightarrow> core_error + jsonl_writer \<Rightarrow> bool \<Rightarrow> (nat \<Rightarrow> core_error + worker) \<Rightarrow> (worker list \<Rightarrow> jsonl_writer \<Rightarrow> pool_ends)
      \<Rightarrow> bool option" where
  "token_after cfg writer log_ok start run =
     (let fired = map_option (\<lambda>_. True) (pc_cancel cfg) in
      case writer of
        Inl e \<Rightarrow> pc_cancel cfg
      | Inr out \<Rightarrow>
          (case start_workers cfg log_ok start [0..<effective_workers cfg] [] of
             Inl _ \<Rightarrow> fired
           | Inr ws \<Rightarrow>
               (case (pe_reader (run ws out), pe_accum (run ws out)) of
                  (Joined _, Joined _) \<Rightarrow> fired
                | _ \<Rightarrow> pc_cancel cfg)))"

lemma report_fires_token:
  "run_pool_streaming cfg writer log_ok start run = Inr r \<Longrightarrow>
   token_after cfg writer log_ok start run = map_option (\<lambda>_. True) (pc_cancel cfg)"
  by (auto simp: run_pool_streaming_def token_after_def pool_report_of_def Let_def split: sum.splits joined.splits prod.splits)

section \<open>Statistics\<close>

record run_stats =
  st_success :: nat
  st_failed :: nat
  st_by_error_code :: "(string, nat) bt"

datatype read_result = Not_Found | Read_Failed string | Content string

definition no_stats :: run_stats where
  "no_stats = \<lparr> st_success = 0, st_failed = 0, st_by_error_code = [] \<rparr>"

fun count_outcome :: "row_outcome \<Rightarrow> run_stats \<Rightarrow> run_stats" where
  "count_outcome (Success _ _ _) st = st\<lparr> st_success := st_success st + 1 \<rparr>"
| "count_outcome (Error_Row _ code _ _ _) st =
     st\<lparr> st_failed := st_failed st + 1, st_by_error_code := bt_bump code (st_by_error_code st) \<rparr>"
| "count_outcome (Crash _ _ _) st =
     st\<lparr> st_failed := st_failed st + 1, st_by_error_code := bt_bump ERR_WORKER_CRASH (st_by_error_code st) \<rparr>"

definition count_line :: "(string \<Rightarrow> string + batch_outcome) \<Rightarrow> string \<Rightarrow> run_stats \<Rightarrow> core_error + run_stats" where
  "count_line parse line st =
     (let trimmed = trim line in
      if trimmed = [] then Inr st
      else (case parse trimmed of
          Inl e \<Rightarrow> Inl (Store (''compute_run_stats: malformed jsonl line: '' @ e @ newline # ''line: '' @ trimmed))
        | Inr bo \<Rightarrow> Inr (fold count_outcome (bo_outcomes bo) st)))"

definition compute_run_stats :: "(string \<Rightarrow> string + batch_outcome) \<Rightarrow> read_result \<Rightarrow> core_error + run_stats" where
  "compute_run_stats parse content =
     (case content of
        Not_Found \<Rightarrow> Inr no_stats
      | Read_Failed e \<Rightarrow> Inl (Io e)
      | Content s \<Rightarrow> fold_result (count_line parse) (split_lines s) no_stats)"


section \<open>The classification\<close>

lemma classify_aborted:
  "pr_aborted (classify_ends token hard mon bytes werrs rd acc) \<longleftrightarrow>
     isl mon \<or> werrs \<noteq> [] \<or> isl rd \<or> (isl acc \<and> \<not> is_cancel_artefact (projl acc)) \<or>
     (token = Some True \<and> (hard = Some True \<or> isl acc))"
  by (cases mon; cases rd; cases acc) (simp_all add: classify_ends_def aborted_because_def)

lemma pool_aborted_when:
  assumes "pool_report_of cfg en = Inr r"
    and "pe_reader en = Joined rd" "pe_accum en = Joined acc" "pe_monitor en = Joined mon"
  shows "pr_aborted r \<longleftrightarrow>
     isl mon \<or> (\<exists>h\<in>set (pe_workers en). h \<noteq> Joined (Inr ())) \<or> isl rd \<or>
     (isl acc \<and> \<not> is_cancel_artefact (projl acc)) \<or>
     (pc_cancel cfg \<noteq> None \<and> (pc_hard cfg = Some True \<or> isl acc))"
proof -
  have we: "worker_error i h = [] \<longleftrightarrow> h = Joined (Inr ())" for i h by (cases "(i, h)" rule: worker_error.cases) auto
  have "(\<forall>x\<in>set (enumerate n hs). case x of (i, h) \<Rightarrow> worker_error i h = []) \<longleftrightarrow> (\<forall>h\<in>set hs. h = Joined (Inr ()))" for n hs
    by (induction hs arbitrary: n) (auto simp: we)
  then have "worker_errors hs = [] \<longleftrightarrow> (\<forall>h\<in>set hs. h = Joined (Inr ()))" for hs
    by (simp add: worker_errors_def split_def)
  then show ?thesis
    using assms classify_aborted[of "map_option (\<lambda>_. True) (pc_cancel cfg)" "pc_hard cfg" mon "pe_bytes en" "worker_errors (pe_workers en)" rd acc]
    by (cases "pc_cancel cfg") (auto simp: pool_report_of_def Let_def)
qed

text \<open>C20: when a run counts as aborted. The report says aborted exactly when the stall monitor fired, a worker failed or
  panicked, the reader failed, the accumulator failed for another reason than an interrupted send, or, for a run given a
  cancellation token, when the hard-cancel flag is set or the accumulator was interrupted. In particular the state of the
  caller's token is not part of the condition: only what the accumulator returned is.\<close>

theorem pool_aborted_iff:
  assumes "pool_report_of cfg en = Inr r"
    and "pe_reader en = Joined rd" "pe_accum en = Joined acc" "pe_monitor en = Joined mon"
  shows "pr_aborted r \<longleftrightarrow>
     isl mon \<or> (\<exists>h\<in>set (pe_workers en). h \<noteq> Joined (Inr ())) \<or> isl rd \<or>
     (isl acc \<and> \<not> is_cancel_artefact (projl acc)) \<or>
     (pc_cancel cfg \<noteq> None \<and> (pc_hard cfg = Some True \<or> isl acc))"
  by (rule pool_aborted_when[OF assms])

definition demo_manifest :: manifest where
  "demo_manifest = \<lparr> mf_name = ''h'', mf_version = ''1'', mf_description = [], mf_language = ''sh'',
     mf_entry = entry_of_fields [''run''] None None None None, mf_required_input = [], mf_config = [], mf_runtime = None,
     mf_output = None \<rparr>"

definition demo_config :: streaming_config where
  "demo_config = \<lparr> pc_manifest = demo_manifest, pc_workers = 2, pc_run_id = ''r'', pc_config = [], pc_cancel = Some True,
     pc_runtime = runtime_default, pc_jsonl_path = ''a/outcomes.jsonl'', pc_fsync = False, pc_stall_timeout = None,
     pc_stall_poll = None, pc_capture_raw = False, pc_hard = None \<rparr>"

definition demo_ends :: pool_ends where
  "demo_ends = \<lparr> pe_reader = Joined (Inr ()), pe_accum = Joined (Inl (Store ''flush cancelled'')),
     pe_workers = [Joined (Inr ())], pe_monitor = Joined (Inr ()), pe_bytes = 0 \<rparr>"

lemma pool_aborted_iff_witness:
  "\<exists>r. pool_report_of demo_config demo_ends = Inr r \<and> pr_aborted r"
proof -
  obtain r where r: "pool_report_of demo_config demo_ends = Inr r"
    by (simp add: pool_report_of_def demo_ends_def Let_def)
  have "pe_reader demo_ends = Joined (Inr ())" "pe_accum demo_ends = Joined (Inl (Store ''flush cancelled''))"
    "pe_monitor demo_ends = Joined (Inr ())" "pc_cancel demo_config \<noteq> None"
    by (simp_all add: demo_ends_def demo_config_def)
  then show ?thesis using pool_aborted_iff[OF r] r by simp
qed

section \<open>What the statistics count\<close>

fun outcome_code :: "row_outcome \<Rightarrow> string option" where
  "outcome_code (Success _ _ _) = None"
| "outcome_code (Error_Row _ code _ _ _) = Some code"
| "outcome_code (Crash _ _ _) = Some ERR_WORKER_CRASH"

definition stats_lines :: "(string \<Rightarrow> string + batch_outcome) \<Rightarrow> string \<Rightarrow> row_outcome list" where
  "stats_lines parse s =
     concat (map (\<lambda>l. if trim l = [] then [] else (case parse (trim l) of Inl e \<Rightarrow> [] | Inr bo \<Rightarrow> bo_outcomes bo)) (split_lines s))"

definition some_codes :: "row_outcome list \<Rightarrow> string list" where
  "some_codes os = concat (map (\<lambda>r. case outcome_code r of None \<Rightarrow> [] | Some c \<Rightarrow> [c]) os)"

lemma is_success_code: "is_success r \<longleftrightarrow> outcome_code r = None"
  by (cases r) auto

lemma count_outcomes_fold:
  "fold count_outcome os st =
     \<lparr> st_success = st_success st + length (filter is_success os),
       st_failed = st_failed st + length (filter (\<lambda>r. \<not> is_success r) os),
       st_by_error_code = fold bt_bump (some_codes os) (st_by_error_code st) \<rparr>"
proof (induction os arbitrary: st)
  case (Cons r os)
  then show ?case by (cases r) (simp_all add: some_codes_def)
qed (simp add: some_codes_def)

lemma count_lines_fold:
  "fold_result (count_line parse) ls st = Inr st' \<Longrightarrow>
   st' = fold count_outcome (concat (map (\<lambda>l. if trim l = [] then [] else
      (case parse (trim l) of Inl e \<Rightarrow> [] | Inr bo \<Rightarrow> bo_outcomes bo)) ls)) st"
proof (induction ls arbitrary: st)
  case (Cons l ls)
  then show ?case by (cases "trim l = []"; cases "parse (trim l)") (auto simp: count_line_def)
qed simp

lemma length_some_codes: "length (some_codes os) = length (filter (\<lambda>r. \<not> is_success r) os)"
  by (induction os) (auto simp: some_codes_def is_success_code split: option.split)

lemma count_some_codes: "length (filter (\<lambda>x. x = c) (some_codes os)) = length (filter (\<lambda>r. outcome_code r = Some c) os)"
  by (induction os) (auto simp: some_codes_def split: option.split)

text \<open>The statistics of a run are exact. When they are computed, the successes and failures are the outcomes of the file
  with and without a success, every outcome is counted in exactly one of the two, and each error code has the number of
  failures with that code (a crash without a code counts as \<^verbatim>\<open>WORKER_CRASH\<close>).\<close>

theorem run_stats_exact:
  assumes "compute_run_stats parse (Content s) = Inr st"
  shows "st_success st = length (filter is_success (stats_lines parse s)) \<and>
     st_success st + st_failed st = length (stats_lines parse s) \<and>
     (case bt_lookup (st_by_error_code st) c of None \<Rightarrow> 0 | Some n \<Rightarrow> n) =
       length (filter (\<lambda>r. outcome_code r = Some c) (stats_lines parse s))"
proof -
  let ?os = "stats_lines parse s"
  have st: "st = \<lparr> st_success = length (filter is_success ?os), st_failed = length (filter (\<lambda>r. \<not> is_success r) ?os),
      st_by_error_code = fold bt_bump (some_codes ?os) [] \<rparr>"
    using count_lines_fold[of parse "split_lines s" no_stats st] assms
    by (simp add: compute_run_stats_def stats_lines_def count_outcomes_fold no_stats_def)
  have "bt_ok ([] :: (string, nat) bt)" by simp
  from bt_bumps[OF this, of "some_codes ?os" c] show ?thesis
    by (simp add: st count_some_codes bt_lookup_def sum_length_filter_compl)
qed

lemma run_stats_exact_witness:
  "\<exists>st. compute_run_stats (\<lambda>_. Inr \<lparr> bo_first_seq = 0, bo_seqs = [0], bo_outcomes = [Crash 0 1 0] \<rparr>) (Content ''a'') = Inr st \<and>
     st_success st = 0 \<and> st_failed st = 1"
proof -
  let ?parse = "\<lambda>_. Inr \<lparr> bo_first_seq = 0, bo_seqs = [0], bo_outcomes = [Crash 0 1 0] \<rparr> :: string + batch_outcome"
  have "\<not> isl (compute_run_stats ?parse (Content ''a''))" by code_simp
  then obtain st where "compute_run_stats ?parse (Content ''a'') = Inr st"
    by (cases "compute_run_stats ?parse (Content ''a'')") auto
  moreover have "stats_lines ?parse ''a'' = [Crash 0 1 0]" by code_simp
  ultimately show ?thesis using run_stats_exact[of ?parse "''a''" st "[]"] by auto
qed

text \<open>A malformed line fails the whole count.\<close>

lemma malformed_line_fails:
  assumes "l \<in> set (split_lines s)" "trim l \<noteq> []" "parse (trim l) = Inl e"
  shows "isl (compute_run_stats parse (Content s))"
proof -
  have "isl (fold_result (count_line parse) ls st)" if "l \<in> set ls" for ls st
    using that
  proof (induction ls arbitrary: st)
    case (Cons k ls)
    then show ?case using assms(2,3) by (cases "count_line parse k st") (auto simp: count_line_def)
  qed simp
  then show ?thesis using assms(1) by (simp add: compute_run_stats_def)
qed

end
