(* ===== verification/Pipeline.thy ===== *)
theory Pipeline
  imports Pool_Streaming "HOL-Library.Multiset"
begin

text \<open>
  The running pipeline (\<^verbatim>\<open>run_pool_streaming\<close>, sections 4 to 7): the reader, the accumulator, the workers and the stall
  monitor as concurrent tasks over two bounded channels, a shared outcomes file and a shared cancellation token. A
  state holds what is in the channels and in each task; a step is one atomic action of one task. The
  actions themselves are the operations of \<open>Reader\<close>, \<open>Accumulator\<close> and \<open>Worker_Loop\<close>. The job channel is
  \<open>ac_sent\<close> of the accumulator's state (workers take from its front) and the outcomes file is its \<open>ac_sink\<close>. The
  receiver of the jobs lives as long as the run, so a send never finds it dropped.
\<close>

section \<open>States and steps\<close>

datatype wstate = Idle worker | Busy worker batch | Gone "core_error + unit"

datatype action = Read | Accumulate | Work nat | Stall | Operator_Cancel

record 's pipe =
  pi_input :: "row_job list"
  pi_reader :: "(core_error + unit) option"
  pi_rows :: "row_job list"
  pi_acc :: "'s acc_state"
  pi_accum :: "(core_error + unit) option"
  pi_workers :: "wstate list"
  pi_monitor :: "core_error + unit"
  pi_cancelled :: bool

definition idempotent_of :: "runtime \<Rightarrow> bool" where
  "idempotent_of rt = (case rt_idempotent rt of None \<Rightarrow> True | Some b \<Rightarrow> b)"

definition pipe_init :: "row_job list \<Rightarrow> worker list \<Rightarrow> 's \<Rightarrow> 's pipe" where
  "pipe_init js ws s =
     \<lparr> pi_input = js, pi_reader = None, pi_rows = [], pi_acc = acc_init None None s, pi_accum = None,
       pi_workers = map Idle ws, pi_monitor = Inr (), pi_cancelled = False \<rparr>"

text \<open>
  A receive or a send of the accumulator and of a worker is a select with the token first, so an uncancelled token is
  a guard of it; a send that waits for room when the token fires is given up (\<open>take_cancelled\<close>,
  \<open>eof_cancelled\<close>), and a reply may or may not win against a token that has fired (\<open>answer\<close>).
\<close>

inductive pipe_step ::
    "(string \<Rightarrow> inbound option) \<Rightarrow> (inbound \<Rightarrow> string) \<Rightarrow> (json \<Rightarrow> string + string)
      \<Rightarrow> (batch_outcome \<Rightarrow> 's \<Rightarrow> (core_error + unit) \<times> 's) \<Rightarrow> runtime \<Rightarrow> action \<Rightarrow> 's pipe \<Rightarrow> 's pipe \<Rightarrow> bool"
  for parse debug ser app rt where
  send: "pi_reader p = None \<Longrightarrow> pi_input p = j # js \<Longrightarrow> \<not> pi_cancelled p \<Longrightarrow> pi_accum p = None \<Longrightarrow>
     length (pi_rows p) < ROW_CHANNEL_CAP \<Longrightarrow>
     pipe_step parse debug ser app rt Read p (p\<lparr> pi_input := js, pi_rows := pi_rows p @ [j] \<rparr>)"
| read_end: "pi_reader p = None \<Longrightarrow> pi_input p = [] \<or> pi_cancelled p \<or> pi_accum p \<noteq> None \<Longrightarrow>
     pipe_step parse debug ser app rt Read p (p\<lparr> pi_reader := Some (Inr ()) \<rparr>)"
| take: "pi_accum p = None \<Longrightarrow> pi_rows p = j # js \<Longrightarrow> \<not> pi_cancelled p \<Longrightarrow>
     acc_job ser app rt j (pi_acc p) = (r, a) \<Longrightarrow> length (ac_sent a) \<le> JOB_CHANNEL_CAP \<Longrightarrow>
     pipe_step parse debug ser app rt Accumulate p
       (p\<lparr> pi_rows := js, pi_acc := a, pi_accum := (case r of Inl e \<Rightarrow> Some (Inl e) | Inr _ \<Rightarrow> None) \<rparr>)"
| take_cancelled: "pi_accum p = None \<Longrightarrow> pi_rows p = j # js \<Longrightarrow> pi_cancelled p \<Longrightarrow>
     acc_job ser app rt j ((pi_acc p)\<lparr> ac_cancel := Some 0 \<rparr>) = (Inl e, a) \<Longrightarrow>
     pipe_step parse debug ser app rt Accumulate p
       (p\<lparr> pi_rows := js, pi_acc := a\<lparr> ac_cancel := None \<rparr>, pi_accum := Some (Inl e) \<rparr>)"
| acc_cancel: "pi_accum p = None \<Longrightarrow> pi_cancelled p \<Longrightarrow>
     pipe_step parse debug ser app rt Accumulate p (p\<lparr> pi_accum := Some (Inr ()) \<rparr>)"
| acc_eof: "pi_accum p = None \<Longrightarrow> pi_rows p = [] \<Longrightarrow> pi_reader p \<noteq> None \<Longrightarrow> \<not> pi_cancelled p \<Longrightarrow>
     (if ac_rows (pi_acc p) = [] then (Inr (), pi_acc p) else flush Eof (pi_acc p)) = (r, a) \<Longrightarrow>
     length (ac_sent a) \<le> JOB_CHANNEL_CAP \<Longrightarrow>
     pipe_step parse debug ser app rt Accumulate p (p\<lparr> pi_acc := a, pi_accum := Some r \<rparr>)"
| eof_cancelled: "pi_accum p = None \<Longrightarrow> pi_rows p = [] \<Longrightarrow> pi_reader p \<noteq> None \<Longrightarrow> pi_cancelled p \<Longrightarrow>
     ac_rows (pi_acc p) \<noteq> [] \<Longrightarrow> flush Eof ((pi_acc p)\<lparr> ac_cancel := Some 0 \<rparr>) = (r, a) \<Longrightarrow>
     pipe_step parse debug ser app rt Accumulate p (p\<lparr> pi_acc := a\<lparr> ac_cancel := None \<rparr>, pi_accum := Some r \<rparr>)"
| pull: "i < length (pi_workers p) \<Longrightarrow> pi_workers p ! i = Idle w \<Longrightarrow> \<not> pi_cancelled p \<Longrightarrow> ac_sent (pi_acc p) = b # bs \<Longrightarrow>
     pipe_step parse debug ser app rt (Work i) p
       (p\<lparr> pi_workers := (pi_workers p)[i := Busy w b], pi_acc := (pi_acc p)\<lparr> ac_sent := bs \<rparr> \<rparr>)"
| answer: "i < length (pi_workers p) \<Longrightarrow> pi_workers p ! i = Busy w b \<Longrightarrow> c = None \<or> (c = Some 0 \<and> pi_cancelled p) \<Longrightarrow>
     exchange parse debug (rt_mode rt) (idempotent_of rt) b w c = Some (os, brk, w', c') \<Longrightarrow> from_outcomes os = Some bo \<Longrightarrow>
     app bo (ac_sink (pi_acc p)) = (r, s) \<Longrightarrow>
     pipe_step parse debug ser app rt (Work i) p
       (p\<lparr> pi_workers := (pi_workers p)[i := (case r of Inl e \<Rightarrow> Gone (Inl e) | Inr _ \<Rightarrow> if brk then Gone (Inr ()) else Idle w')],
          pi_acc := (pi_acc p)\<lparr> ac_sink := s \<rparr> \<rparr>)"
| quit: "i < length (pi_workers p) \<Longrightarrow> pi_workers p ! i = Idle w \<Longrightarrow>
     pi_cancelled p \<or> (ac_sent (pi_acc p) = [] \<and> pi_accum p \<noteq> None) \<Longrightarrow>
     pipe_step parse debug ser app rt (Work i) p (p\<lparr> pi_workers := (pi_workers p)[i := Gone (Inr ())] \<rparr>)"
| stall: "\<not> pi_cancelled p \<Longrightarrow> pipe_step parse debug ser app rt Stall p (p\<lparr> pi_cancelled := True, pi_monitor := Inl e \<rparr>)"
| cancel: "\<not> pi_cancelled p \<Longrightarrow> pipe_step parse debug ser app rt Operator_Cancel p (p\<lparr> pi_cancelled := True \<rparr>)"

text \<open>Runs, with the actions taken.\<close>

inductive pipe_run ::
    "(string \<Rightarrow> inbound option) \<Rightarrow> (inbound \<Rightarrow> string) \<Rightarrow> (json \<Rightarrow> string + string)
      \<Rightarrow> (batch_outcome \<Rightarrow> 's \<Rightarrow> (core_error + unit) \<times> 's) \<Rightarrow> runtime \<Rightarrow> 's pipe \<Rightarrow> action list \<Rightarrow> 's pipe \<Rightarrow> bool"
  for parse debug ser app rt where
  stop: "pipe_run parse debug ser app rt p [] p"
| step: "pipe_run parse debug ser app rt p ls q \<Longrightarrow> pipe_step parse debug ser app rt l q q' \<Longrightarrow>
     pipe_run parse debug ser app rt p (ls @ [l]) q'"

text \<open>All tasks but the monitor have ended; what the pool then reports.\<close>

definition all_ended :: "'s pipe \<Rightarrow> bool" where
  "all_ended p = (pi_reader p \<noteq> None \<and> pi_accum p \<noteq> None \<and> (\<forall>w\<in>set (pi_workers p). \<exists>r. w = Gone r))"

definition ends_of :: "nat \<Rightarrow> 's pipe \<Rightarrow> pool_ends" where
  "ends_of bytes p =
     \<lparr> pe_reader = Joined (case pi_reader p of None \<Rightarrow> Inr () | Some r \<Rightarrow> r),
       pe_accum = Joined (case pi_accum p of None \<Rightarrow> Inr () | Some r \<Rightarrow> r),
       pe_workers = map (\<lambda>w. Joined (case w of Gone r \<Rightarrow> r | _ \<Rightarrow> Inr ())) (pi_workers p),
       pe_monitor = Joined (pi_monitor p), pe_bytes = bytes \<rparr>"

inductive_cases pipe_stepE: "pipe_step parse debug ser app rt l p q"

inductive_simps pipe_read_iff: "pipe_step parse debug ser app rt Read p q"
inductive_simps pipe_stall_iff: "pipe_step parse debug ser app rt Stall p q"
inductive_simps pipe_cancel_iff: "pipe_step parse debug ser app rt Operator_Cancel p q"

section \<open>Conservation\<close>

fun busy_seqs :: "wstate \<Rightarrow> nat multiset" where
  "busy_seqs (Busy w b) = mset (ba_seqs b)"
| "busy_seqs _ = {#}"

definition in_flight :: "'s pipe \<Rightarrow> nat multiset" where
  "in_flight p =
     sum_list (map busy_seqs (pi_workers p)) + mset (sent_seqs (pi_acc p)) + mset (ac_seqs (pi_acc p)) +
     mset (map rj_seq (pi_rows p)) + mset (map rj_seq (pi_input p))"

definition recorded_seqs :: "batch_outcome list \<Rightarrow> nat multiset" where
  "recorded_seqs bs = mset (concat (map bo_seqs bs))"

fun wstate_ok :: "mode \<Rightarrow> wstate \<Rightarrow> bool" where
  "wstate_ok m (Busy w b) = job_ok m b"
| "wstate_ok m (Idle w) = True"
| "wstate_ok m (Gone r) = (r = Inr ())"

lemma sum_list_update_swap:
  fixes f :: "'a \<Rightarrow> 'b::comm_monoid_add"
  shows "i < length ws \<Longrightarrow> sum_list (map f (ws[i := x])) + f (ws ! i) = sum_list (map f ws) + f x"
proof (induction ws arbitrary: i)
  case (Cons y ws)
  then show ?case by (cases i) (simp_all add: ac_simps)
qed simp

lemma batch_ok_job: "batch_ok ser rt b \<Longrightarrow> job_ok (rt_mode rt) b"
  by (cases "ba_rows b") (auto simp: batch_ok_def job_ok_def max_count_def)

lemma pending_ok_reset [simp]:
  "pending_ok ser rt (a\<lparr> ac_cancel := c \<rparr>) = pending_ok ser rt a"
  "pending_ok ser rt (a\<lparr> ac_sink := s \<rparr>) = pending_ok ser rt a"
  by (simp_all add: pending_ok_def)

lemma sent_seqs_reset [simp]:
  "sent_seqs (a\<lparr> ac_cancel := c \<rparr>) = sent_seqs a"
  "sent_seqs (a\<lparr> ac_sink := s \<rparr>) = sent_seqs a"
  "sent_seqs (a\<lparr> ac_sent := bs \<rparr>) = concat (map ba_seqs bs)"
  by (simp_all add: sent_seqs_def)

lemma recorded_single: "recorded_seqs (single_batches (too_large ser [j])) + mset (kept_seqs ser [j]) = {#rj_seq j#}"
  by (simp add: recorded_seqs_def synthesize_row_too_large_def)

lemma bo_ok_single: "list_all bo_ok (single_batches os)"
  by (induction os) (simp_all add: bo_ok_def)

lemma recorded_append [simp]: "recorded_seqs (xs @ ys) = recorded_seqs xs + recorded_seqs ys"
  by (simp add: recorded_seqs_def)


text \<open>Without a cancellation nothing fails and the tasks end in order: the reader, then the accumulator.\<close>

definition pipe_ok :: "(json \<Rightarrow> string + string) \<Rightarrow> runtime \<Rightarrow> 's pipe \<Rightarrow> bool" where
  "pipe_ok ser rt p =
     (pending_ok ser rt (pi_acc p) \<and> acc_calm (pi_acc p) \<and> length (pi_rows p) \<le> ROW_CHANNEL_CAP \<and>
      length (ac_sent (pi_acc p)) \<le> JOB_CHANNEL_CAP \<and> list_all (wstate_ok (rt_mode rt)) (pi_workers p) \<and>
      pi_reader p \<in> {None, Some (Inr ())} \<and> pi_accum p \<in> {None, Some (Inr ()), Some (Inl (Store ''flush cancelled''))} \<and>
      (\<not> pi_cancelled p \<longrightarrow>
         pi_monitor p = Inr () \<and> pi_accum p \<noteq> Some (Inl (Store ''flush cancelled'')) \<and>
         (pi_accum p \<noteq> None \<longrightarrow> pi_reader p \<noteq> None \<and> pi_rows p = [] \<and> ac_seqs (pi_acc p) = []) \<and>
         (pi_reader p \<noteq> None \<longrightarrow> pi_input p = [])))"

lemma flush_blown:
  assumes "ac_cancel a = Some 0" "flush reason a = (r, a')"
  shows "r = Inl (Store ''flush cancelled'') \<and> ac_sent a' = ac_sent a \<and> ac_sink a' = ac_sink a \<and>
     ac_dropped a' = ac_dropped a \<and> ac_seqs a' = [] \<and> ac_rows a' = [] \<and> ac_bytes a' = 0"
  using assms by (cases "reason = SoftByteCap") (auto simp: flush_def Let_def)

lemma flush_before_blown:
  assumes "ac_cancel a = Some 0" "flush_before rt n a = (r, a')"
  shows "a' = a \<and> r = Inr () \<or>
    r = Inl (Store ''flush cancelled'') \<and> ac_sent a' = ac_sent a \<and> ac_sink a' = ac_sink a \<and> ac_dropped a' = ac_dropped a"
  using assms flush_blown[OF assms(1)] by (auto simp: flush_before_def split: if_splits)

lemma flush_length: "flush reason a = (r, a') \<Longrightarrow> length (ac_sent a') \<le> Suc (length (ac_sent a))"
  using flush_cases[of reason a r a'] by auto

lemma flush_before_length:
  "flush_before rt n a = (r, a') \<Longrightarrow>
     length (ac_sent a') \<le> Suc (length (ac_sent a)) \<and> (ac_rows a = [] \<longrightarrow> a' = a) \<and> (ac_rows a' = [] \<or> a' = a)"
  using flush_cases[of _ a r a'] by (auto simp: flush_before_def split: if_splits dest: flush_length)

text \<open>A row puts at most one batch into the channel.\<close>

lemma acc_job_length:
  assumes "acc_job ser app rt j a = (r, a')" "pending_ok ser rt a"
  shows "length (ac_sent a') \<le> Suc (length (ac_sent a))"
proof (cases "estimate_size ser j > ROW_HARD_CAP_BYTES")
  case True
  then show ?thesis using assms(1) by (auto simp: acc_job_def split_def Let_def split: option.splits)
next
  case False
  let ?n = "estimate_size ser j"
  obtain r1 a1 where f: "flush_before rt ?n a = (r1, a1)" by force
  note fb = flush_before_length[OF f]
  have sent: "ac_sent (push_row j ?n a1) = ac_sent a1" "ac_rows (push_row j ?n a1) = ac_rows a1 @ [envelope_of j]"
    by (simp_all add: push_row_def)
  show ?thesis
  proof (cases "isl r1 \<or> length (ac_rows a1) + 1 < max_count rt")
    case True
    then show ?thesis using assms(1) False f fb sent by (cases r1) (auto simp: acc_job_def Let_def)
  next
    case full: False
    then have fl: "flush CountCap (push_row j ?n a1) = (r, a')"
      using assms(1) False f sent by (cases r1) (auto simp: acc_job_def Let_def)
    have "a1 = a"
    proof (cases "ac_rows a = []")
      case False
      then have "1 < max_count rt" using assms(2) by (cases "ac_rows a") (auto simp: pending_ok_def)
      then have "ac_rows a1 \<noteq> []" using full by auto
      then show ?thesis using fb by blast
    qed (use fb in blast)
    then show ?thesis using flush_length[OF fl] sent by simp
  qed
qed

lemma acc_job_blown:
  assumes "acc_job ser app rt j a = (Inl e, a')" "ac_cancel a = Some 0" "\<not> oversized ser j"
  shows "e = Store ''flush cancelled'' \<and> ac_sent a' = ac_sent a \<and> ac_sink a' = ac_sink a \<and> ac_dropped a' = ac_dropped a"
proof -
  let ?n = "estimate_size ser j"
  obtain r1 a1 where f: "flush_before rt ?n a = (r1, a1)" by force
  note fb = flush_before_blown[OF assms(2) f]
  show ?thesis
  proof (cases r1)
    case (Inl x)
    then show ?thesis using assms(1,3) f fb by (auto simp: acc_job_def oversized_def Let_def)
  next
    case (Inr u)
    then have "flush CountCap (push_row j ?n a) = (Inl e, a')"
      using assms(1,3) f fb by (auto simp: acc_job_def oversized_def Let_def split: if_splits)
    from flush_blown[OF _ this] show ?thesis using assms(2) by (simp add: push_row_def)
  qed
qed


text \<open>What one step may do: record batches, and, once the token is fired, give rows up.\<close>

definition step_effect ::
    "('s \<Rightarrow> batch_outcome list \<Rightarrow> bool) \<Rightarrow> batch_outcome list \<Rightarrow> 's pipe \<Rightarrow> 's pipe \<Rightarrow> bool" where
  "step_effect holds bs p q \<longleftrightarrow>
     (\<exists>new lost. holds (ac_sink (pi_acc q)) (bs @ new) \<and> list_all bo_ok new \<and>
        in_flight p = recorded_seqs new + in_flight q + lost \<and> (lost \<noteq> {#} \<longrightarrow> pi_cancelled p))"

lemma step_effectI:
  "holds (ac_sink (pi_acc q)) (bs @ new) \<Longrightarrow> list_all bo_ok new \<Longrightarrow>
   in_flight p = recorded_seqs new + in_flight q + lost \<Longrightarrow> (lost \<noteq> {#} \<Longrightarrow> pi_cancelled p) \<Longrightarrow>
   step_effect holds bs p q"
  unfolding step_effect_def by blast

lemma step_effect_quiet:
  "holds (ac_sink (pi_acc q)) bs \<Longrightarrow> in_flight p = in_flight q \<Longrightarrow> step_effect holds bs p q"
  by (rule step_effectI[of holds q bs "[]" p "{#}"]) (simp_all add: recorded_seqs_def)

lemma list_all_update: "list_all P xs \<Longrightarrow> P x \<Longrightarrow> list_all P (xs[i := x])"
  using set_update_subset_insert[of xs i x] by (auto simp: list_all_iff)

lemma take_balance:
  fixes S :: "nat multiset"
  assumes "S' + A' = S + A + K" "R + K = J"
  shows "W + S + A + (J + Q) + I = R + (W + S' + A' + Q + I)"
proof -
  have "R + (W + S' + A' + Q + I) = R + W + (S' + A') + Q + I" by (simp only: ac_simps)
  also have "\<dots> = R + W + (S + A + K) + Q + I" by (simp only: assms(1))
  also have "\<dots> = W + S + A + ((R + K) + Q) + I" by (simp only: ac_simps)
  finally show ?thesis by (simp only: assms(2))
qed

lemma in_flight_take:
  "pi_rows p = j # js \<Longrightarrow> in_flight p =
     sum_list (map busy_seqs (pi_workers p)) + mset (sent_seqs (pi_acc p)) + mset (ac_seqs (pi_acc p)) +
     ({#rj_seq j#} + mset (map rj_seq js)) + mset (map rj_seq (pi_input p))"
  by (simp add: in_flight_def)

lemma busy_update:
  "i < length ws \<Longrightarrow> ws ! i = x \<Longrightarrow>
   sum_list (map busy_seqs (ws[i := y])) + busy_seqs x = sum_list (map busy_seqs ws) + busy_seqs y"
  using sum_list_update_swap[of i ws busy_seqs y] by simp

context reliable_sink
begin

lemma take_effect:
  assumes "pipe_ok ser rt p" "calm (ac_sink (pi_acc p))" "holds (ac_sink (pi_acc p)) bs"
    and "pi_rows p = j # js" "acc_job ser append rt j (pi_acc p) = (r, a)" "length (ac_sent a) \<le> JOB_CHANNEL_CAP"
    and "pi_accum p = None"
  shows "pipe_ok ser rt (p\<lparr> pi_rows := js, pi_acc := a, pi_accum := None \<rparr>) \<and> calm (ac_sink a) \<and> r = Inr () \<and>
     step_effect holds bs p (p\<lparr> pi_rows := js, pi_acc := a, pi_accum := None \<rparr>)"
proof -
  let ?q = "p\<lparr> pi_rows := js, pi_acc := a, pi_accum := None \<rparr>"
  have pk: "pending_ok ser rt (pi_acc p)" "acc_calm (pi_acc p)" using assms(1) by (simp_all add: pipe_ok_def)
  have c: "r = Inr ()" "acc_calm a" "calm (ac_sink a)" using acc_job_calm[OF pk(2) assms(2,5)] by simp_all
  have job: "pending_ok ser rt a" "sent_seqs a @ ac_seqs a = sent_seqs (pi_acc p) @ ac_seqs (pi_acc p) @ kept_seqs ser [j]"
      "holds (ac_sink a) (bs @ single_batches (too_large ser [j]))"
    using acc_job_run[OF pk(1) assms(3,5)] c(1) by auto
  have "mset (sent_seqs a) + mset (ac_seqs a) =
      mset (sent_seqs (pi_acc p)) + mset (ac_seqs (pi_acc p)) + mset (kept_seqs ser [j])"
    using arg_cong[OF job(2), of mset] by simp
  then have "in_flight p = recorded_seqs (single_batches (too_large ser [j])) + in_flight ?q"
    unfolding in_flight_take[OF assms(4)]
    by (subst take_balance[OF _ recorded_single]) (simp_all add: in_flight_def del: kept_simps too_large_simps)
  then have "step_effect holds bs p ?q"
    using job(3) bo_ok_single by (intro step_effectI[of holds ?q bs "single_batches (too_large ser [j])" p "{#}"])
      (simp_all del: kept_simps too_large_simps single_batches_simps)
  moreover have "pipe_ok ser rt ?q"
    using assms(1,4,6,7) job(1) c(2) by (auto simp: pipe_ok_def)
  ultimately show ?thesis using c by blast
qed

lemma take_cancelled_effect:
  assumes "pipe_ok ser rt p" "calm (ac_sink (pi_acc p))" "holds (ac_sink (pi_acc p)) bs" "pi_cancelled p"
    and "pi_rows p = j # js" "acc_job ser append rt j ((pi_acc p)\<lparr> ac_cancel := Some 0 \<rparr>) = (Inl e, a)"
  shows "pipe_ok ser rt (p\<lparr> pi_rows := js, pi_acc := a\<lparr> ac_cancel := None \<rparr>, pi_accum := Some (Inl e) \<rparr>) \<and>
     calm (ac_sink a) \<and>
     step_effect holds bs p (p\<lparr> pi_rows := js, pi_acc := a\<lparr> ac_cancel := None \<rparr>, pi_accum := Some (Inl e) \<rparr>)"
proof -
  let ?a = "(pi_acc p)\<lparr> ac_cancel := Some 0 \<rparr>"
  let ?q = "p\<lparr> pi_rows := js, pi_acc := a\<lparr> ac_cancel := None \<rparr>, pi_accum := Some (Inl e) \<rparr>"
  have pk: "pending_ok ser rt ?a" "acc_calm (pi_acc p)" "holds (ac_sink ?a) bs" "calm (ac_sink ?a)"
    using assms(1-3) by (simp_all add: pipe_ok_def)
  have small: "\<not> oversized ser j"
  proof
    assume o: "oversized ser j"
    let ?o = "synthesize_row_too_large (rj_seq j) (estimate_size ser j)"
    have "fst (append \<lparr> bo_first_seq = rj_seq j, bo_seqs = [rj_seq j], bo_outcomes = [?o] \<rparr> (ac_sink ?a)) = Inr ()"
      using calm_append[OF pk(4)] by simp
    moreover have "outcome_seq ?o = rj_seq j" by (simp add: synthesize_row_too_large_def)
    ultimately show False
      using assms(6) o by (simp add: acc_job_def oversized_def from_outcomes_def split_def)
  qed
  note bl = acc_job_blown[OF assms(6) _ small, simplified]
  have pa: "pending_ok ser rt a" using acc_job_kept[OF pk(1) small assms(6)] by simp
  obtain lost where l: "sent_seqs a @ ac_seqs a @ lost = sent_seqs ?a @ ac_seqs ?a @ [rj_seq j]"
    using acc_job_kept[OF pk(1) small assms(6)] by blast
  have "mset (sent_seqs a) + mset (ac_seqs a) + mset lost = mset (sent_seqs (pi_acc p)) + mset (ac_seqs (pi_acc p)) + {#rj_seq j#}"
    using arg_cong[OF l, of mset] by (simp add: ac_simps)
  then have "in_flight p = recorded_seqs [] + in_flight ?q + mset lost"
    using assms(5) by (simp add: in_flight_def recorded_seqs_def ac_simps)
  then have "step_effect holds bs p ?q"
    using assms(4) pk(3) bl by (intro step_effectI[of holds ?q bs "[]" p "mset lost"]) simp_all
  moreover have "pipe_ok ser rt ?q"
    using assms(1,4,5) pa bl by (auto simp: pipe_ok_def acc_calm_def)
  ultimately show ?thesis using pk(4) bl by simp
qed

end


lemma pending_rows_seqs: "pending_ok ser rt a \<Longrightarrow> ac_rows a = [] \<longleftrightarrow> ac_seqs a = []"
  by (simp add: pending_ok_def)

context reliable_sink
begin

lemma eof_effect:
  assumes "pipe_ok ser rt p" "calm (ac_sink (pi_acc p))" "holds (ac_sink (pi_acc p)) bs"
    and "(if ac_rows (pi_acc p) = [] then (Inr (), pi_acc p) else flush Eof (pi_acc p)) = (r, a)"
    and "pi_rows p = []" "pi_reader p \<noteq> None" "length (ac_sent a) \<le> JOB_CHANNEL_CAP"
  shows "pipe_ok ser rt (p\<lparr> pi_acc := a, pi_accum := Some r \<rparr>) \<and> calm (ac_sink a) \<and>
     step_effect holds bs p (p\<lparr> pi_acc := a, pi_accum := Some r \<rparr>)"
proof -
  let ?q = "p\<lparr> pi_acc := a, pi_accum := Some r \<rparr>"
  have pk: "pending_ok ser rt (pi_acc p)" "acc_calm (pi_acc p)" using assms(1) by (simp_all add: pipe_ok_def)
  have a: "r = Inr ()" "acc_calm a" "pending_ok ser rt a" "ac_seqs a = []" "ac_sink a = ac_sink (pi_acc p)"
      "sent_seqs a @ ac_seqs a = sent_seqs (pi_acc p) @ ac_seqs (pi_acc p)"
  proof -
    show "r = Inr ()" "acc_calm a" using assms(4) pk(2) flush_acc_calm by (auto split: if_splits)
    then show "pending_ok ser rt a" "ac_seqs a = []" "ac_sink a = ac_sink (pi_acc p)"
        "sent_seqs a @ ac_seqs a = sent_seqs (pi_acc p) @ ac_seqs (pi_acc p)"
      using assms(4) pk(1) flush_pending[OF pk(1)] flush_cases[of Eof "pi_acc p" r a] pending_rows_seqs[OF pk(1)]
      by (auto simp: sent_seqs_def split: if_splits)
  qed
  have "in_flight p = in_flight ?q"
    using arg_cong[OF a(6), of mset] by (simp add: in_flight_def ac_simps)
  then have "step_effect holds bs p ?q" using assms(3) a(5) by (intro step_effect_quiet) simp_all
  moreover have "pipe_ok ser rt ?q" using assms(1,5,6,7) a by (auto simp: pipe_ok_def)
  ultimately show ?thesis using assms(2) a(5) by simp
qed

lemma eof_cancelled_effect:
  assumes "pipe_ok ser rt p" "calm (ac_sink (pi_acc p))" "holds (ac_sink (pi_acc p)) bs" "pi_cancelled p"
    and "flush Eof ((pi_acc p)\<lparr> ac_cancel := Some 0 \<rparr>) = (r, a)" "pi_rows p = []"
  shows "pipe_ok ser rt (p\<lparr> pi_acc := a\<lparr> ac_cancel := None \<rparr>, pi_accum := Some r \<rparr>) \<and> calm (ac_sink a) \<and>
     step_effect holds bs p (p\<lparr> pi_acc := a\<lparr> ac_cancel := None \<rparr>, pi_accum := Some r \<rparr>)"
proof -
  let ?q = "p\<lparr> pi_acc := a\<lparr> ac_cancel := None \<rparr>, pi_accum := Some r \<rparr>"
  note b = flush_blown[OF _ assms(5), simplified]
  have "in_flight p = recorded_seqs [] + in_flight ?q + mset (ac_seqs (pi_acc p))"
    using b by (simp add: in_flight_def recorded_seqs_def sent_seqs_def ac_simps)
  then have "step_effect holds bs p ?q"
    using assms(3,4) b by (intro step_effectI[of holds ?q bs "[]" p "mset (ac_seqs (pi_acc p))"]) simp_all
  moreover have "pipe_ok ser rt ?q"
    using assms(1,4) b by (auto simp: pipe_ok_def acc_calm_def pending_ok_def rows_size_def)
  ultimately show ?thesis using assms(2) b by simp
qed

lemma answer_effect:
  assumes "pipe_ok ser rt p" "calm (ac_sink (pi_acc p))" "holds (ac_sink (pi_acc p)) bs"
    and "i < length (pi_workers p)" "pi_workers p ! i = Busy w b"
    and "exchange parse dbg (rt_mode rt) idem b w c = Some (os, brk, w', c')" "from_outcomes os = Some bo"
    and "append bo (ac_sink (pi_acc p)) = (r, s)"
  shows "r = Inr () \<and> calm s \<and>
     (let q = p\<lparr> pi_workers := (pi_workers p)[i := (case r of Inl e \<Rightarrow> Gone (Inl e) | Inr _ \<Rightarrow> if brk then Gone (Inr ()) else Idle w')],
                 pi_acc := (pi_acc p)\<lparr> ac_sink := s \<rparr> \<rparr>
      in pipe_ok ser rt q \<and> step_effect holds bs p q)"
proof -
  let ?x = "if brk then Gone (Inr ()) else Idle w'"
  let ?q = "p\<lparr> pi_workers := (pi_workers p)[i := ?x], pi_acc := (pi_acc p)\<lparr> ac_sink := s \<rparr> \<rparr>"
  have wk: "list_all (wstate_ok (rt_mode rt)) (pi_workers p)" using assms(1) by (simp add: pipe_ok_def)
  then have job: "job_ok (rt_mode rt) b" using assms(4,5) by (metis list_all_length wstate_ok.simps(1))
  have r: "r = Inr ()" "calm s" using calm_appendE[OF assms(2,8)] by simp_all
  have h: "holds s (bs @ [bo])" using append_holds[OF assms(3)] assms(8) r(1) by simp
  have bo: "bo_ok bo" "bo_seqs bo = ba_seqs b"
    using from_outcomes_ok[OF assms(7)] exchange_seqs[OF job, of parse dbg idem w c] assms(6) by (auto simp: bo_ok_def)
  have "in_flight p = recorded_seqs [bo] + in_flight ?q"
    using busy_update[OF assms(4,5), of ?x] bo(2)
    by (simp add: in_flight_def recorded_seqs_def ac_simps split: if_splits)
  then have "step_effect holds bs p ?q"
    using h bo(1) by (intro step_effectI[of holds ?q bs "[bo]" p "{#}"]) simp_all
  moreover have "pipe_ok ser rt ?q"
    using assms(1) by (auto simp: pipe_ok_def acc_calm_def intro: list_all_update)
  ultimately show ?thesis using r by simp
qed

end

lemma pull_ok:
  assumes "pipe_ok ser rt p" "i < length (pi_workers p)" "pi_workers p ! i = Idle w" "ac_sent (pi_acc p) = b # bs'"
  shows "pipe_ok ser rt (p\<lparr> pi_workers := (pi_workers p)[i := Busy w b], pi_acc := (pi_acc p)\<lparr> ac_sent := bs' \<rparr> \<rparr>) \<and>
     in_flight p = in_flight (p\<lparr> pi_workers := (pi_workers p)[i := Busy w b], pi_acc := (pi_acc p)\<lparr> ac_sent := bs' \<rparr> \<rparr>)"
proof -
  have "batch_ok ser rt b" using assms(1,4) by (simp add: pipe_ok_def pending_ok_def)
  then have "wstate_ok (rt_mode rt) (Busy w b)" by (simp add: batch_ok_job)
  moreover have "sent_seqs (pi_acc p) = ba_seqs b @ concat (map ba_seqs bs')" using assms(4) by (simp add: sent_seqs_def)
  ultimately show ?thesis
    using assms(1,4) busy_update[OF assms(2,3), of "Busy w b"]
    by (auto simp: pipe_ok_def pending_ok_def acc_calm_def in_flight_def ac_simps intro: list_all_update)
qed

lemma quit_ok:
  assumes "pipe_ok ser rt p" "i < length (pi_workers p)" "pi_workers p ! i = Idle w"
  shows "pipe_ok ser rt (p\<lparr> pi_workers := (pi_workers p)[i := Gone (Inr ())] \<rparr>) \<and>
     in_flight p = in_flight (p\<lparr> pi_workers := (pi_workers p)[i := Gone (Inr ())] \<rparr>)"
  using assms(1) busy_update[OF assms(2,3), of "Gone (Inr ())"]
  by (auto simp: pipe_ok_def in_flight_def intro: list_all_update)


context reliable_sink
begin

lemma step_keeps:
  assumes "pipe_step parse dbg ser append rt l p q" "pipe_ok ser rt p" "calm (ac_sink (pi_acc p))" "holds (ac_sink (pi_acc p)) bs"
  shows "pipe_ok ser rt q \<and> calm (ac_sink (pi_acc q)) \<and> step_effect holds bs p q"
  using assms(1)
proof (cases rule: pipe_step.cases)
  case (send j js)
  then have "in_flight p = in_flight q" by (simp add: in_flight_def ac_simps)
  moreover have "pipe_ok ser rt q" using send assms(2) by (auto simp: pipe_ok_def)
  ultimately show ?thesis using send assms(3,4) by (auto intro: step_effect_quiet)
next
  case read_end
  then have "in_flight p = in_flight q" by (simp add: in_flight_def)
  moreover have "pipe_ok ser rt q" using read_end assms(2) by (auto simp: pipe_ok_def)
  ultimately show ?thesis using read_end assms(3,4) by (auto intro: step_effect_quiet)
next
  case (take j js r a)
  from take_effect[OF assms(2-4) take(4,6,7,3)] take show ?thesis by auto
next
  case (take_cancelled j js e a)
  from take_cancelled_effect[OF assms(2-4) take_cancelled(5,4,6)] take_cancelled show ?thesis by auto
next
  case acc_cancel
  then have "in_flight p = in_flight q" by (simp add: in_flight_def)
  moreover have "pipe_ok ser rt q" using acc_cancel assms(2) by (auto simp: pipe_ok_def)
  ultimately show ?thesis using acc_cancel assms(3,4) by (auto intro: step_effect_quiet)
next
  case (acc_eof r a)
  from eof_effect[OF assms(2-4) acc_eof(7,4,5,8)] acc_eof show ?thesis by auto
next
  case (eof_cancelled r a)
  from eof_cancelled_effect[OF assms(2-4) eof_cancelled(6,8,4)] eof_cancelled show ?thesis by auto
next
  case (pull i w b bs')
  from pull_ok[OF assms(2) pull(3,4,6)] pull assms(3,4) show ?thesis by (auto intro: step_effect_quiet)
next
  case (answer i w b c os brk w' c' bo r s)
  have "ac_sink (pi_acc q) = s" using answer(2) by simp
  then show ?thesis
    using answer_effect[OF assms(2-4) answer(3,4,6,7,8)] unfolding Let_def answer(2)[symmetric] by simp
next
  case (quit i w)
  from quit_ok[OF assms(2) quit(3,4)] quit assms(3,4) show ?thesis by (auto intro: step_effect_quiet)
next
  case (stall e)
  then have "in_flight p = in_flight q" by (simp add: in_flight_def)
  moreover have "pipe_ok ser rt q" using stall assms(2) by (auto simp: pipe_ok_def)
  ultimately show ?thesis using stall assms(3,4) by (auto intro: step_effect_quiet)
next
  case cancel
  then have "in_flight p = in_flight q" by (simp add: in_flight_def)
  moreover have "pipe_ok ser rt q" using cancel assms(2) by (auto simp: pipe_ok_def)
  ultimately show ?thesis using cancel assms(3,4) by (auto intro: step_effect_quiet)
qed

lemma step_cancelled_mono: "pipe_step parse dbg ser append rt l p q \<Longrightarrow> pi_cancelled p \<Longrightarrow> pi_cancelled q"
  by (auto elim: pipe_step.cases)

lemma run_keeps:
  assumes "pipe_run parse dbg ser append rt p ls q" "pipe_ok ser rt p" "calm (ac_sink (pi_acc p))" "holds (ac_sink (pi_acc p)) bs"
  shows "pipe_ok ser rt q \<and> calm (ac_sink (pi_acc q)) \<and>
     (\<exists>new lost. holds (ac_sink (pi_acc q)) (bs @ new) \<and> list_all bo_ok new \<and>
        in_flight p = recorded_seqs new + in_flight q + lost \<and> (lost \<noteq> {#} \<longrightarrow> pi_cancelled q))"
  using assms
proof (induction rule: pipe_run.induct)
  case (stop p)
  then show ?case by (auto simp: recorded_seqs_def intro!: exI[of _ "[]"])
next
  case (step p ls q l q')
  then obtain new lost where q: "pipe_ok ser rt q" "calm (ac_sink (pi_acc q))" "holds (ac_sink (pi_acc q)) (bs @ new)"
      "list_all bo_ok new" "in_flight p = recorded_seqs new + in_flight q + lost" "lost \<noteq> {#} \<longrightarrow> pi_cancelled q" by blast
  note k = step_keeps[OF step.hyps(2) q(1-3)]
  then obtain new' lost' where e: "holds (ac_sink (pi_acc q')) ((bs @ new) @ new')" "list_all bo_ok new'"
      "in_flight q = recorded_seqs new' + in_flight q' + lost'" "lost' \<noteq> {#} \<longrightarrow> pi_cancelled q"
    unfolding step_effect_def by blast
  have "in_flight p = recorded_seqs (new @ new') + in_flight q' + (lost + lost')"
    using q(5) e(3) by (simp add: ac_simps)
  moreover have "lost + lost' \<noteq> {#} \<longrightarrow> pi_cancelled q'"
    using q(6) e(4) step_cancelled_mono[OF step.hyps(2)] by auto
  ultimately show ?case using k e(1,2) q(4) by (intro conjI exI[of _ "new @ new'"] exI[of _ "lost + lost'"]) auto
qed

end

lemma pipe_init_ok: "pipe_ok ser rt (pipe_init js ws s)"
  by (auto simp: pipe_ok_def pipe_init_def acc_init_def pending_ok_def acc_calm_def rows_size_def list_all_iff)

lemma pipe_init_flight: "in_flight (pipe_init js ws s) = mset (map rj_seq js)"
  by (induction ws) (simp_all add: in_flight_def pipe_init_def acc_init_def sent_seqs_def)

lemma pipe_init_simps [simp]:
  "ac_sink (pi_acc (pipe_init js ws s)) = s" "pi_cancelled (pipe_init js ws s) = False"
  by (simp_all add: pipe_init_def acc_init_def)

text \<open>C1: the running pipeline neither loses nor duplicates a row, in any interleaving of its tasks. From the start, whatever the
  handlers answer and whenever the run is cancelled or declared stalled, with a disk that works: the file has gained
  complete, well-formed lines only; the rows given to the reader are, as a multiset, the rows recorded in those
  lines, the rows still in a channel, a batch or the input, and rows given up, and none is given up before the token has
  fired. The channels never hold more than 64 rows and 64 batches.\<close>

theorem pipeline_conserves_rows:
  assumes "pipe_run parse dbg ser (append_line ser) rt (pipe_init js ws out) ls p"
    and "writer_calm ser out" "writer_holds ser old out before"
  shows "\<exists>lines lost. writer_holds ser old (ac_sink (pi_acc p)) (before @ lines) \<and> list_all bo_ok lines \<and>
     mset (map rj_seq js) = recorded_seqs lines + in_flight p + lost \<and> (lost \<noteq> {#} \<longrightarrow> pi_cancelled p) \<and>
     length (pi_rows p) \<le> ROW_CHANNEL_CAP \<and> length (ac_sent (pi_acc p)) \<le> JOB_CHANNEL_CAP"
  using jsonl.run_keeps[OF assms(1) pipe_init_ok, of old before] assms(2,3)
  by (auto simp: pipe_init_flight pipe_ok_def)


section \<open>Completeness\<close>

text \<open>A worker whose input pipe does not break keeps working.\<close>

lemma recv_from_stdin [simp]: "wk_stdin (snd (recv_from parse out w)) = wk_stdin w"
  by (induction parse out w rule: recv_from.induct) (auto simp: Let_def log_stdout_def split: option.split)

lemma recv_batch_result_stdin [simp]: "wk_stdin (snd (recv_batch_result parse dbg sqs w)) = wk_stdin w"
  using recv_from_stdin[of parse "wk_stdout w" w]
  by (cases "recv parse w")
     (auto simp: recv_batch_result_def recv_def simp del: recv_from_stdin split: sum.split option.split inbound.split)

lemma send_msg_alive: "wk_stdin w = None \<Longrightarrow> send_msg msg w = (Inr (), w\<lparr> wk_stdin := None, wk_sent := wk_sent w @ [msg] \<rparr>)"
  by (simp add: send_msg_def)

lemma exchange_alive:
  assumes "exchange parse dbg m idem b w None = Some (os, brk, w', c')" "wk_stdin w = None"
  shows "\<not> brk \<and> wk_stdin w' = None"
proof (cases m)
  case Row
  have "wk_stdin (snd (recv parse (w\<lparr> wk_stdin := None, wk_sent := x \<rparr>))) = None" for x
    by (simp add: recv_def)
  then show ?thesis
    using assms Row by (auto simp: exchange_def exchange_row_def send_row_def send_msg_alive split_def Let_def split: list.splits)
next
  case Batch
  obtain r w2 where r: "recv_batch_result parse dbg (ba_seqs b)
      (w\<lparr> wk_stdin := None, wk_sent := wk_sent w @ [Out_Batch (ba_rows b)] \<rparr>) = (r, w2)" by force
  then have "wk_stdin w2 = None"
    using recv_batch_result_stdin[of parse dbg "ba_seqs b" "w\<lparr> wk_stdin := None, wk_sent := wk_sent w @ [Out_Batch (ba_rows b)] \<rparr>"]
    by simp
  then show ?thesis
    using assms Batch r
    by (cases r) (auto simp: exchange_def exchange_batch_def send_batch_envelopes_def send_msg_alive Let_def)
qed

fun alive :: "bool \<Rightarrow> wstate \<Rightarrow> bool" where
  "alive closed (Idle w) = (wk_stdin w = None)"
| "alive closed (Busy w b) = (wk_stdin w = None)"
| "alive closed (Gone r) = closed"

text \<open>Before a cancellation, a worker leaves only a channel that is closed and empty.\<close>

definition pipe_live :: "'s pipe \<Rightarrow> bool" where
  "pipe_live p = (pi_cancelled p \<or> list_all (alive (pi_accum p \<noteq> None \<and> ac_sent (pi_acc p) = [])) (pi_workers p))"

lemma alive_mono: "alive c w \<Longrightarrow> c \<longrightarrow> d \<Longrightarrow> alive d w"
  by (cases w) auto

lemma list_all_alive_mono: "list_all (alive c) ws \<Longrightarrow> c \<longrightarrow> d \<Longrightarrow> list_all (alive d) ws"
  using alive_mono by (fastforce simp: list_all_iff)

lemma step_live:
  assumes "pipe_step parse dbg ser app rt l p q" "pipe_live p" "pipe_ok ser rt q"
  shows "pipe_live q"
  using assms(1)
proof (cases rule: pipe_step.cases)
  case (pull i w b bs)
  then have a: "list_all (alive False) (pi_workers p)" using assms(2) by (simp add: pipe_live_def)
  then have "alive False (Idle w)" using pull(3,4) by (metis list_all_length)
  then have "wk_stdin w = None" by simp
  with a have "list_all (alive (pi_accum p \<noteq> None \<and> bs = [])) ((pi_workers p)[i := Busy w b])"
    by (intro list_all_update) (auto intro: list_all_alive_mono[of False])
  then show ?thesis using pull by (simp add: pipe_live_def)
next
  case (answer i w b c os brk w' c' bo r s)
  show ?thesis
  proof (cases "pi_cancelled p")
    case False
    then have c: "c = None" using answer(5) by simp
    have l: "list_all (alive (pi_accum p \<noteq> None \<and> ac_sent (pi_acc p) = [])) (pi_workers p)" "wk_stdin w = None"
      using assms(2) answer(3,4) False by (auto simp: pipe_live_def list_all_length)
    have a: "\<not> brk" "wk_stdin w' = None" using exchange_alive[OF answer(6)[unfolded c] l(2)] by simp_all
    have "r = Inr ()"
    proof (cases r)
      case (Inl e)
      then have "(pi_workers q) ! i = Gone (Inl e)" "i < length (pi_workers q)" using answer(2,3) by simp_all
      then show ?thesis using assms(3) by (auto simp: pipe_ok_def list_all_length)
    qed simp
    then show ?thesis using answer(2) l a by (auto simp: pipe_live_def intro!: list_all_update)
  qed (use answer in \<open>simp add: pipe_live_def\<close>)
next
  case (quit i w)
  then show ?thesis using assms(2) by (auto simp: pipe_live_def intro!: list_all_update)
qed (use assms(2) in \<open>auto simp: pipe_live_def elim: list_all_alive_mono\<close>)

context reliable_sink
begin

lemma run_live:
  assumes "pipe_run parse dbg ser append rt p ls q" "pipe_ok ser rt p" "calm (ac_sink (pi_acc p))" "holds (ac_sink (pi_acc p)) bs"
    and "pipe_live p"
  shows "pipe_live q"
  using assms
proof (induction rule: pipe_run.induct)
  case (step p ls q l q')
  then obtain new where "pipe_ok ser rt q" "calm (ac_sink (pi_acc q))" "holds (ac_sink (pi_acc q)) (bs @ new)"
    using run_keeps[OF step.hyps(1) step.prems(1-3)] by blast
  then show ?case using step step_keeps[OF step.hyps(2)] step_live[OF step.hyps(2)] by blast
qed

end

lemma pipe_init_live: "\<forall>w\<in>set ws. wk_stdin w = None \<Longrightarrow> pipe_live (pipe_init js ws s)"
  by (auto simp: pipe_live_def pipe_init_def list_all_iff)

lemma ended_flight:
  assumes "pipe_ok ser rt p" "pipe_live p" "all_ended p" "\<not> pi_cancelled p" "pi_workers p \<noteq> []"
  shows "in_flight p = {#}"
proof -
  have g: "\<forall>w\<in>set (pi_workers p). \<exists>r. w = Gone r" using assms(3) by (simp add: all_ended_def)
  have "ac_sent (pi_acc p) = []"
    using assms(2,4,5) g by (cases "pi_workers p") (auto simp: pipe_live_def)
  moreover have "sum_list (map busy_seqs ws) = {#}" if "\<forall>w\<in>set ws. \<exists>r. w = Gone r" for ws
    using that by (induction ws) auto
  from this[OF g] have "sum_list (map busy_seqs (pi_workers p)) = {#}" .
  moreover have "pi_rows p = []" "pi_input p = []" "ac_seqs (pi_acc p) = []"
    using assms(1,3,4) by (auto simp: pipe_ok_def all_ended_def)
  ultimately show ?thesis by (simp add: in_flight_def sent_seqs_def)
qed

text \<open>C2: a run that is let finish is complete. With at least one worker, workers whose input pipes hold, and a disk that works, in every
  interleaving and whatever the handlers answer: when all tasks have ended and nobody has cancelled, every row the
  reader was given has exactly one outcome in the lines written, and unless the hard-cancel flag is up the report
  says the run completed.\<close>

theorem pipeline_complete:
  assumes "pipe_run parse dbg ser (append_line ser) rt (pipe_init js ws out) ls p"
    and "writer_calm ser out" "writer_holds ser old out before"
    and "ws \<noteq> []" "\<forall>w\<in>set ws. wk_stdin w = None"
    and "all_ended p" "\<not> pi_cancelled p" "pc_hard cfg \<noteq> Some True"
  shows "\<exists>lines r. writer_holds ser old (ac_sink (pi_acc p)) (before @ lines) \<and> list_all bo_ok lines \<and>
     recorded_seqs lines = mset (map rj_seq js) \<and> pool_report_of cfg (ends_of bytes p) = Inr r \<and> \<not> pr_aborted r"
proof -
  have w0: "writer_calm ser (ac_sink (pi_acc (pipe_init js ws out)))"
    "writer_holds ser old (ac_sink (pi_acc (pipe_init js ws out))) before" using assms(2,3) by simp_all
  obtain lines lost where k: "pipe_ok ser rt p" "writer_holds ser old (ac_sink (pi_acc p)) (before @ lines)"
      "list_all bo_ok lines" "mset (map rj_seq js) = recorded_seqs lines + in_flight p + lost" "lost \<noteq> {#} \<longrightarrow> pi_cancelled p"
    using jsonl.run_keeps[OF assms(1) pipe_init_ok w0] pipe_init_flight by metis
  have live: "pipe_live p"
    using jsonl.run_live[OF assms(1) pipe_init_ok w0 pipe_init_live[OF assms(5)]] .
  have "length (pi_workers p) = length ws"
    using assms(1) by (induction "pipe_init js ws out" ls p rule: pipe_run.induct) (auto simp: pipe_init_def elim!: pipe_step.cases)
  then have "pi_workers p \<noteq> []" using assms(4) by (metis length_0_conv)
  then have "in_flight p = {#}" by (rule ended_flight[OF k(1) live assms(6,7)])
  then have rec: "recorded_seqs lines = mset (map rj_seq js)" using k(4,5) assms(7) by simp
  have ends: "pe_reader (ends_of bytes p) = Joined (Inr ())" "pe_accum (ends_of bytes p) = Joined (Inr ())"
    "pe_monitor (ends_of bytes p) = Joined (Inr ())" "\<forall>h\<in>set (pe_workers (ends_of bytes p)). h = Joined (Inr ())"
    using k(1) assms(6,7) by (auto simp: ends_of_def pipe_ok_def all_ended_def list_all_iff split: wstate.splits)
  obtain r where r: "pool_report_of cfg (ends_of bytes p) = Inr r"
    using ends by (simp add: pool_report_of_def Let_def)
  have "\<not> pr_aborted r"
    using pool_aborted_when[OF r ends(1-3)] ends(4) assms(8) by auto
  then show ?thesis using k(2,3) rec r by blast
qed


section \<open>Progress and termination\<close>

definition worker_gone :: "wstate \<Rightarrow> bool" where
  "worker_gone w = (\<exists>r. w = Gone r)"

lemma worker_gone_simps [simp]: "worker_gone (Gone r)" "\<not> worker_gone (Idle w)" "\<not> worker_gone (Busy w b)"
  by (simp_all add: worker_gone_def)

lemma busy_can_answer:
  assumes "pipe_ok ser rt p" "i < length (pi_workers p)" "pi_workers p ! i = Busy w b"
  shows "\<exists>q. pipe_step parse dbg ser app rt (Work i) p q"
proof -
  have "wstate_ok (rt_mode rt) (Busy w b)" using assms by (metis list_all_length pipe_ok_def)
  then have job: "job_ok (rt_mode rt) b" by simp
  obtain os brk w' c' where x: "exchange parse dbg (rt_mode rt) (idempotent_of rt) b w None = Some (os, brk, w', c')"
      "map outcome_seq os = ba_seqs b" using exchange_seqs[OF job] by blast
  have "os \<noteq> []" using x(2) job by (auto simp: job_ok_def)
  then obtain bo where bo: "from_outcomes os = Some bo" by (cases "from_outcomes os") auto
  obtain r s where "app bo (ac_sink (pi_acc p)) = (r, s)" by force
  then show ?thesis using pipe_step.answer[OF assms(2,3) _ x(1) bo] by blast
qed

lemma cancelled_progress:
  assumes "pipe_ok ser rt p" "pi_cancelled p" "\<not> all_ended p"
  shows "\<exists>l q. l \<notin> {Stall, Operator_Cancel} \<and> pipe_step parse dbg ser app rt l p q"
proof (cases "pi_reader p = None \<or> pi_accum p = None")
  case True
  then show ?thesis using assms(2) pipe_step.read_end[of p] pipe_step.acc_cancel[of p] by blast
next
  case False
  then obtain w where "w \<in> set (pi_workers p)" "\<not> worker_gone w"
    using assms(3) by (auto simp: all_ended_def worker_gone_def)
  then obtain i where i: "i < length (pi_workers p)" "\<not> worker_gone (pi_workers p ! i)" by (metis in_set_conv_nth)
  show ?thesis
  proof (cases "pi_workers p ! i")
    case (Idle w)
    then show ?thesis using pipe_step.quit[OF i(1) Idle] assms(2) by blast
  next
    case (Busy w b)
    then show ?thesis using busy_can_answer[OF assms(1) i(1) Busy] by blast
  qed (use i in simp)
qed

lemma task_step:
  "pipe_step parse dbg ser app rt l p q \<Longrightarrow> l \<notin> {Stall, Operator_Cancel} \<Longrightarrow>
   \<exists>l q. l \<notin> {Stall, Operator_Cancel} \<and> pipe_step parse dbg ser app rt l p q"
  by blast

lemma acc_progress:
  assumes "pipe_ok ser rt p" "\<not> pi_cancelled p" "pi_accum p = None" "ac_sent (pi_acc p) = []"
  shows "\<exists>l q. l \<notin> {Stall, Operator_Cancel} \<and> pipe_step parse dbg ser app rt l p q"
proof (cases "pi_rows p")
  case (Cons j js)
  obtain r a where j: "acc_job ser app rt j (pi_acc p) = (r, a)" by force
  have "length (ac_sent a) \<le> JOB_CHANNEL_CAP"
    using acc_job_length[OF j] assms(1,4) by (simp add: pipe_ok_def JOB_CHANNEL_CAP_def)
  then show ?thesis using pipe_step.take[OF assms(3) Cons assms(2) j] by blast
next
  case Nil
  show ?thesis
  proof (cases "pi_reader p")
    case None
    show ?thesis
    proof (cases "pi_input p")
      case [simp]: Nil
      show ?thesis by (rule task_step[OF pipe_step.read_end[OF None]]) simp_all
    next
      case (Cons j js)
      show ?thesis by (rule task_step[OF pipe_step.send[OF None Cons assms(2,3)]]) (simp_all add: Nil ROW_CHANNEL_CAP_def)
    qed
  next
    case (Some x)
    obtain r a where e: "(if ac_rows (pi_acc p) = [] then (Inr (), pi_acc p) else flush Eof (pi_acc p)) = (r, a)" by force
    then have "length (ac_sent a) \<le> JOB_CHANNEL_CAP"
      using flush_length[of Eof "pi_acc p" r a] assms(4) by (auto simp: JOB_CHANNEL_CAP_def split: if_splits)
    then show ?thesis using pipe_step.acc_eof[OF assms(3) Nil _ assms(2) e] Some by blast
  qed
qed

lemma live_progress:
  assumes "pipe_ok ser rt p" "\<not> pi_cancelled p" "w \<in> set (pi_workers p)" "\<not> worker_gone w"
  shows "\<exists>l q. l \<notin> {Stall, Operator_Cancel} \<and> pipe_step parse dbg ser app rt l p q"
proof -
  obtain i where i: "i < length (pi_workers p)" "\<not> worker_gone (pi_workers p ! i)" using assms(3,4) by (metis in_set_conv_nth)
  show ?thesis
  proof (cases "pi_workers p ! i")
    case (Busy w b)
    then show ?thesis using busy_can_answer[OF assms(1) i(1) Busy] by blast
  next
    case (Idle w)
    show ?thesis
    proof (cases "ac_sent (pi_acc p)")
      case (Cons b bs)
      then show ?thesis using pipe_step.pull[OF i(1) Idle assms(2) Cons] by blast
    next
      case Nil
      show ?thesis
      proof (cases "pi_accum p")
        case None
        then show ?thesis by (rule acc_progress[OF assms(1,2) _ Nil])
      next
        case (Some r)
        show ?thesis by (rule task_step[OF pipe_step.quit[OF i(1) Idle]]) (simp_all add: Nil Some)
      qed
    qed
  qed (use i in simp)
qed

text \<open>C6: the pipeline does not deadlock. In every reachable state in which some task has not ended, and either the token has fired or some
  worker is left, a task other than the stall monitor and the operator can act: full channels, slow handlers and
  cancellation never leave the tasks waiting for each other.\<close>

theorem pipeline_no_deadlock:
  assumes "pipe_run parse dbg ser (append_line ser) rt (pipe_init js ws out) ls p"
    and "writer_calm ser out" "writer_holds ser old out before"
    and "\<not> all_ended p" "pi_cancelled p \<or> (\<exists>w\<in>set (pi_workers p). \<not> worker_gone w)"
  shows "\<exists>l q. l \<notin> {Stall, Operator_Cancel} \<and> pipe_step parse dbg ser (append_line ser) rt l p q"
proof -
  have "pipe_ok ser rt p" using jsonl.run_keeps[OF assms(1) pipe_init_ok, of old before] assms(2,3) by simp
  then show ?thesis using cancelled_progress live_progress assms(4,5) by meson
qed

fun wstate_weight :: "wstate \<Rightarrow> nat" where
  "wstate_weight (Idle w) = 1"
| "wstate_weight (Busy w b) = 1 + length (ba_seqs b)"
| "wstate_weight (Gone r) = 0"

text \<open>What is left to do; every step lowers it.\<close>

definition pipe_weight :: "'s pipe \<Rightarrow> nat" where
  "pipe_weight p =
     (if pi_cancelled p then 0 else 1) + (if pi_reader p = None then 1 else 0) + (if pi_accum p = None then 1 else 0) +
     5 * length (pi_input p) + 4 * length (pi_rows p) + 3 * length (ac_seqs (pi_acc p)) + 3 * length (sent_seqs (pi_acc p)) +
     sum_list (map wstate_weight (pi_workers p))"

lemma weight_update:
  "i < length ws \<Longrightarrow> ws ! i = x \<Longrightarrow>
   sum_list (map wstate_weight (ws[i := y])) + wstate_weight x = sum_list (map wstate_weight ws) + wstate_weight y"
  using sum_list_update_swap[of i ws wstate_weight y] by simp

context reliable_sink
begin

lemma step_weight:
  assumes "pipe_step parse dbg ser append rt l p q" "pipe_ok ser rt p" "calm (ac_sink (pi_acc p))" "holds (ac_sink (pi_acc p)) bs"
  shows "pipe_weight q < pipe_weight p"
  using assms(1)
proof (cases rule: pipe_step.cases)
  case (take j js r a)
  have pk: "pending_ok ser rt (pi_acc p)" "acc_calm (pi_acc p)" using assms(2) by (simp_all add: pipe_ok_def)
  have "r = Inr ()" using acc_job_calm[OF pk(2) assms(3) take(6)] by simp
  moreover have "sent_seqs a @ ac_seqs a = sent_seqs (pi_acc p) @ ac_seqs (pi_acc p) @ kept_seqs ser [j]"
    using acc_job_run[OF pk(1) assms(4) take(6)] \<open>r = Inr ()\<close> by auto
  from arg_cong[OF this, of length]
  have "length (sent_seqs a) + length (ac_seqs a) \<le> length (sent_seqs (pi_acc p)) + length (ac_seqs (pi_acc p)) + 1"
    by (simp split: if_splits)
  ultimately show ?thesis using take by (simp add: pipe_weight_def)
next
  case (take_cancelled j js e a)
  have pk: "pending_ok ser rt ((pi_acc p)\<lparr> ac_cancel := Some 0 \<rparr>)" "holds (ac_sink ((pi_acc p)\<lparr> ac_cancel := Some 0 \<rparr>)) bs"
    using assms(2,4) by (simp_all add: pipe_ok_def)
  obtain lost where "sent_seqs a @ ac_seqs a @ lost = sent_seqs (pi_acc p) @ ac_seqs (pi_acc p) @ kept_seqs ser [j]"
    using acc_job_run[OF pk take_cancelled(6)] by auto
  from arg_cong[OF this, of length]
  have "length (sent_seqs a) + length (ac_seqs a) \<le> length (sent_seqs (pi_acc p)) + length (ac_seqs (pi_acc p)) + 1"
    by (simp split: if_splits)
  then show ?thesis using take_cancelled by (simp add: pipe_weight_def)
next
  case (acc_eof r a)
  have pk: "pending_ok ser rt (pi_acc p)" using assms(2) by (simp add: pipe_ok_def)
  have "length (sent_seqs a) + length (ac_seqs a) \<le> length (sent_seqs (pi_acc p)) + length (ac_seqs (pi_acc p))"
  proof (cases "ac_rows (pi_acc p) = []")
    case False
    then have f: "flush Eof (pi_acc p) = (r, a)" using acc_eof by simp
    obtain lost where "sent_seqs a @ lost = sent_seqs (pi_acc p) @ ac_seqs (pi_acc p)" using flush_pending[OF pk False f] by blast
    from arg_cong[OF this, of length] show ?thesis using flush_cases[OF f] by simp
  qed (use acc_eof in simp)
  then show ?thesis using acc_eof by (simp add: pipe_weight_def)
next
  case (eof_cancelled r a)
  note b = flush_blown[OF _ eof_cancelled(8), simplified]
  then have "sent_seqs a = sent_seqs (pi_acc p)" by (simp add: sent_seqs_def)
  then show ?thesis using eof_cancelled b by (simp add: pipe_weight_def)
next
  case (pull i w b bs')
  have "batch_ok ser rt b" using assms(2) pull by (simp add: pipe_ok_def pending_ok_def)
  then have "ba_seqs b \<noteq> []" by (auto simp: batch_ok_def)
  moreover have "sent_seqs (pi_acc p) = ba_seqs b @ concat (map ba_seqs bs')" using pull by (simp add: sent_seqs_def)
  ultimately show ?thesis
    using pull weight_update[OF pull(3,4), of "Busy w b"] by (cases "ba_seqs b") (simp_all add: pipe_weight_def)
next
  case (answer i w b c os brk w' c' bo r s)
  have "wstate_ok (rt_mode rt) (Busy w b)" using assms(2) answer(3,4) by (metis list_all_length pipe_ok_def)
  then have "ba_seqs b \<noteq> []" by (auto simp: job_ok_def)
  then show ?thesis
    using answer(2) weight_update[OF answer(3,4), of "case r of Inl e \<Rightarrow> Gone (Inl e) | Inr _ \<Rightarrow> if brk then Gone (Inr ()) else Idle w'"]
    by (auto simp: pipe_weight_def neq_Nil_conv split: sum.splits if_splits)
next
  case (quit i w)
  then show ?thesis using weight_update[OF quit(3,4), of "Gone (Inr ())"] by (simp add: pipe_weight_def)
qed (simp_all add: pipe_weight_def)

lemma run_weight:
  assumes "pipe_run parse dbg ser append rt p ls q" "pipe_ok ser rt p" "calm (ac_sink (pi_acc p))" "holds (ac_sink (pi_acc p)) bs"
  shows "length ls + pipe_weight q \<le> pipe_weight p"
  using assms
proof (induction rule: pipe_run.induct)
  case (step p ls q l q')
  obtain new where "pipe_ok ser rt q" "calm (ac_sink (pi_acc q))" "holds (ac_sink (pi_acc q)) (bs @ new)"
    using run_keeps[OF step.hyps(1) step.prems] by blast
  then show ?case using step.IH[OF step.prems] step_weight[OF step.hyps(2)] by fastforce
qed simp

end

lemma pipe_init_weight: "pipe_weight (pipe_init js ws s) = 5 * length js + length ws + 3"
  by (induction ws) (simp_all add: pipe_weight_def pipe_init_def acc_init_def sent_seqs_def)

text \<open>C7: the pipeline ends. Every run takes at most five steps per row, one per worker, and three: no schedule of the tasks, no
  handler and no cancellation keeps it going for ever.\<close>

theorem pipeline_terminates:
  assumes "pipe_run parse dbg ser (append_line ser) rt (pipe_init js ws out) ls p"
    and "writer_calm ser out" "writer_holds ser old out before"
  shows "length ls \<le> 5 * length js + length ws + 3"
  using jsonl.run_weight[OF assms(1) pipe_init_ok, of old before] assms(2,3) by (simp add: pipe_init_weight)


section \<open>Runs that leave rows behind\<close>

text \<open>In row mode every row that fits becomes a batch of its own at once.\<close>

lemma acc_job_row:
  assumes "rt_mode rt = Row" "ac_seqs a = []" "ac_rows a = []" "ac_bytes a = 0" "acc_calm a" "\<not> oversized ser j"
  shows "acc_job ser app rt j a = (Inr (), a\<lparr> ac_sent := ac_sent a @ [\<lparr> ba_seqs = [rj_seq j], ba_rows = [envelope_of j] \<rparr>] \<rparr>)"
  using assms
  by (cases a) (auto simp: acc_job_def oversized_def flush_before_def push_row_def max_count_def flush_def acc_calm_def Let_def)

lemma run_step: "pipe_run parse dbg ser app rt p ls q \<Longrightarrow> pipe_step parse dbg ser app rt l q q' \<Longrightarrow> ls' = ls @ [l] \<Longrightarrow>
   pipe_run parse dbg ser app rt p ls' q'"
  by (simp add: pipe_run.step)

text \<open>C38: an operator's cancellation can be reported as a completed run. The token fires before the first row is sent; the reader, the
  accumulator (waiting for a row, so without an error) and the worker stop; every row is still in the input and no
  line has been written, yet the report, for any configuration without the hard-cancel flag, says the run was not
  aborted.\<close>

theorem cancelled_run_reported_complete:
  "\<exists>p r. pipe_run parse dbg ser app rt (pipe_init js [w] out) [Operator_Cancel, Read, Accumulate, Work 0] p \<and>
     all_ended p \<and> pi_cancelled p \<and> in_flight p = mset (map rj_seq js) \<and> ac_sink (pi_acc p) = out \<and>
     pool_report_of (cfg\<lparr> pc_hard := None \<rparr>) (ends_of bytes p) = Inr r \<and> \<not> pr_aborted r"
proof -
  let ?p0 = "pipe_init js [w] out"
  let ?p1 = "?p0\<lparr> pi_cancelled := True \<rparr>"
  let ?p2 = "?p1\<lparr> pi_reader := Some (Inr ()) \<rparr>"
  let ?p3 = "?p2\<lparr> pi_accum := Some (Inr ()) \<rparr>"
  let ?p4 = "?p3\<lparr> pi_workers := (pi_workers ?p3)[0 := Gone (Inr ())] \<rparr>"
  let ?step = "pipe_step parse dbg ser app rt"
  have s1: "?step Operator_Cancel ?p0 ?p1" by (rule pipe_step.cancel) simp
  have s2: "?step Read ?p1 ?p2" by (rule pipe_step.read_end) (simp_all add: pipe_init_def)
  have s3: "?step Accumulate ?p2 ?p3" by (rule pipe_step.acc_cancel) (simp_all add: pipe_init_def)
  have s4: "?step (Work 0) ?p3 ?p4" by (rule pipe_step.quit[of 0 ?p3 w]) (simp_all add: pipe_init_def)
  have run: "pipe_run parse dbg ser app rt ?p0 [Operator_Cancel, Read, Accumulate, Work 0] ?p4"
    by (rule run_step[OF run_step[OF run_step[OF run_step[OF pipe_run.stop s1 refl] s2 refl] s3 refl] s4]) simp
  have fin: "all_ended ?p4" "in_flight ?p4 = mset (map rj_seq js)"
    by (simp_all add: all_ended_def in_flight_def pipe_init_def acc_init_def sent_seqs_def)
  have ends: "pe_reader (ends_of bytes ?p4) = Joined (Inr ())" "pe_accum (ends_of bytes ?p4) = Joined (Inr ())"
    "pe_monitor (ends_of bytes ?p4) = Joined (Inr ())" "pe_workers (ends_of bytes ?p4) = [Joined (Inr ())]"
    by (simp_all add: ends_of_def pipe_init_def)
  obtain r where r: "pool_report_of (cfg\<lparr> pc_hard := None \<rparr>) (ends_of bytes ?p4) = Inr r"
    using ends by (simp add: pool_report_of_def Let_def)
  have "\<not> pr_aborted r" using pool_aborted_when[OF r ends(1-3)] ends(4) by simp
  then show ?thesis using run fin r by (intro exI[of _ ?p4] exI[of _ r]) (simp add: pipe_init_def acc_init_def)
qed

definition dead_worker :: worker where
  "dead_worker = demo_worker\<lparr> wk_stdin := Some 0 \<rparr>"

definition two_jobs :: "row_job list" where
  "two_jobs = map (\<lambda>s. \<lparr> rj_seq = s, rj_data = [], rj_meta = \<lparr> rm_dry_run = False, rm_row_index = s \<rparr> \<rparr>) [0, 1]"

lemma two_jobs_fit: "\<not> oversized (\<lambda>_. Inr ''x'') j"
  by (simp add: oversized_def estimate_size_def row_size_def ROW_HARD_CAP_BYTES_def)

definition job_batch :: "row_job \<Rightarrow> batch" where
  "job_batch j = \<lparr> ba_seqs = [rj_seq j], ba_rows = [envelope_of j] \<rparr>"

lemma dead_exchange:
  "\<exists>w'. exchange parse dbg Row True (job_batch j) dead_worker None =
     Some ([synthesize_crash (rj_seq j) 1 True], True, w', None)"
  by (simp add: exchange_def exchange_row_def job_batch_def dead_worker_def demo_worker_def send_row_def send_msg_def)


text \<open>Queued rows can be lost on a run reported as completed. One worker, whose input pipe is broken, and two rows in row mode: the worker
  takes the first batch, records the crash and leaves; the second batch is sent into the job channel, whose
  receiver the pool itself keeps alive, so the accumulator sees no error. All tasks end, nobody has cancelled,
  the second row has no outcome, and the report says the run completed.\<close>

theorem lost_rows_reported_complete:
  "\<exists>p r ls lines. pipe_run demo_reply (\<lambda>_. []) (\<lambda>_. Inr ''x'') (append_line (\<lambda>_. Inr ''x'')) runtime_default
       (pipe_init two_jobs [dead_worker] demo_writer) ls p \<and>
     all_ended p \<and> \<not> pi_cancelled p \<and> writer_holds (\<lambda>_. Inr ''x'') [] (ac_sink (pi_acc p)) lines \<and>
     recorded_seqs lines = {#0#} \<and> in_flight p = {#1#} \<and>
     pool_report_of (cfg\<lparr> pc_hard := None \<rparr>) (ends_of bytes p) = Inr r \<and> \<not> pr_aborted r"
proof -
  let ?ser = "\<lambda>_ :: json. Inr ''x'' :: string + string"
  let ?step = "pipe_step demo_reply (\<lambda>_. []) ?ser (append_line ?ser) runtime_default"
  obtain j0 j1 where seqs: "rj_seq j0 = 0" "rj_seq j1 = 1" "two_jobs = [j0, j1]"
    by (rule that[of "hd two_jobs" "two_jobs ! 1"]) (simp_all add: two_jobs_def)
  let ?crash = "synthesize_crash (rj_seq j0) 1 True"
  let ?bo = "\<lparr> bo_first_seq = rj_seq j0, bo_seqs = [rj_seq j0], bo_outcomes = [?crash] \<rparr>"
  obtain w' where x: "exchange demo_reply (\<lambda>_. []) Row True (job_batch j0) dead_worker None = Some ([?crash], True, w', None)"
    using dead_exchange by blast
  obtain s where ap: "append_line ?ser ?bo demo_writer = (Inr (), s)"
    using append_line_calm[of ?ser demo_writer ?bo]
    by (cases "append_line ?ser ?bo demo_writer") (auto simp: writer_calm_def demo_writer_def)
  let ?p0 = "pipe_init two_jobs [dead_worker] demo_writer"
  let ?p1 = "?p0\<lparr> pi_input := [j1], pi_rows := [j0] \<rparr>"
  let ?p2 = "?p1\<lparr> pi_rows := [], pi_acc := (pi_acc ?p1)\<lparr> ac_sent := [job_batch j0] \<rparr>, pi_accum := None \<rparr>"
  let ?p3 = "?p2\<lparr> pi_workers := [Busy dead_worker (job_batch j0)], pi_acc := (pi_acc ?p2)\<lparr> ac_sent := [] \<rparr> \<rparr>"
  let ?p4 = "?p3\<lparr> pi_workers := [Gone (Inr ())], pi_acc := (pi_acc ?p3)\<lparr> ac_sink := s \<rparr> \<rparr>"
  let ?p5 = "?p4\<lparr> pi_input := [], pi_rows := [j1] \<rparr>"
  let ?p6 = "?p5\<lparr> pi_rows := [], pi_acc := (pi_acc ?p5)\<lparr> ac_sent := [job_batch j1] \<rparr>, pi_accum := None \<rparr>"
  let ?p7 = "?p6\<lparr> pi_reader := Some (Inr ()) \<rparr>"
  let ?p8 = "?p7\<lparr> pi_acc := pi_acc ?p7, pi_accum := Some (Inr ()) \<rparr>"
  have job: "acc_job ?ser app runtime_default j a = (Inr (), a\<lparr> ac_sent := ac_sent a @ [job_batch j] \<rparr>)"
    if "ac_seqs a = []" "ac_rows a = []" "ac_bytes a = 0" "acc_calm a" for app :: "batch_outcome \<Rightarrow> jsonl_writer \<Rightarrow> _" and j a
    using acc_job_row[OF _ that two_jobs_fit] by (simp add: runtime_default_def job_batch_def)
  note init = pipe_init_def acc_init_def seqs(3)
  have s1: "?step Read ?p0 ?p1" using pipe_step.send[of ?p0 j0 "[j1]"] by (simp add: init ROW_CHANNEL_CAP_def)
  have s2: "?step Accumulate ?p1 ?p2"
    using pipe_step.take[of ?p1 j0 "[]", OF _ _ _ job] by (simp add: init JOB_CHANNEL_CAP_def acc_calm_def)
  have s3: "?step (Work 0) ?p2 ?p3"
    using pipe_step.pull[of 0 ?p2 dead_worker "job_batch j0" "[]"] by (simp add: init)
  have rt: "rt_mode runtime_default = Row" "idempotent_of runtime_default" by (simp_all add: runtime_default_def idempotent_of_def)
  have s4: "?step (Work 0) ?p3 ?p4"
    using pipe_step.answer[of 0 ?p3 dead_worker "job_batch j0" None demo_reply "\<lambda>_. []" runtime_default "[?crash]" True w' None ?bo
        "append_line ?ser" "Inr ()" s] x ap
    by (simp add: init rt from_outcomes_def)
  have s5: "?step Read ?p4 ?p5" using pipe_step.send[of ?p4 j1 "[]"] by (simp add: init ROW_CHANNEL_CAP_def)
  have s6: "?step Accumulate ?p5 ?p6"
    using pipe_step.take[of ?p5 j1 "[]", OF _ _ _ job] by (simp add: init JOB_CHANNEL_CAP_def acc_calm_def)
  have s7: "?step Read ?p6 ?p7" by (rule pipe_step.read_end) (simp_all add: init)
  have s8: "?step Accumulate ?p7 ?p8" by (rule pipe_step.acc_eof) (simp_all add: init JOB_CHANNEL_CAP_def)
  have run: "pipe_run demo_reply (\<lambda>_. []) ?ser (append_line ?ser) runtime_default ?p0
      [Read, Accumulate, Work 0, Work 0, Read, Accumulate, Read, Accumulate] ?p8"
    by (rule run_step[OF run_step[OF run_step[OF run_step[OF run_step[OF run_step[OF run_step[OF run_step[OF pipe_run.stop
        s1 refl] s2 refl] s3 refl] s4 refl] s5 refl] s6 refl] s7 refl] s8]) simp
  have sent: "ac_sent (pi_acc ?p8) = [job_batch j1]" "ac_seqs (pi_acc ?p8) = []" by (simp_all add: init)
  have fin: "all_ended ?p8" "\<not> pi_cancelled ?p8" "in_flight ?p8 = {#1#}"
    using seqs(2) by (simp_all add: all_ended_def in_flight_def sent_seqs_def init job_batch_def)
  have h: "writer_holds ?ser [] s [?bo]" using jsonl.append_holds[OF demo_writer_holds ap] by simp
  have ends: "pe_reader (ends_of bytes ?p8) = Joined (Inr ())" "pe_accum (ends_of bytes ?p8) = Joined (Inr ())"
    "pe_monitor (ends_of bytes ?p8) = Joined (Inr ())" "pe_workers (ends_of bytes ?p8) = [Joined (Inr ())]"
    by (simp_all add: ends_of_def init)
  obtain r where r: "pool_report_of (cfg\<lparr> pc_hard := None \<rparr>) (ends_of bytes ?p8) = Inr r"
    using ends by (simp add: pool_report_of_def Let_def)
  have "\<not> pr_aborted r" using pool_aborted_when[OF r ends(1-3)] ends(4) by simp
  moreover have "recorded_seqs [?bo] = {#0#}" using seqs(1) by (simp add: recorded_seqs_def)
  moreover have "writer_holds ?ser [] (ac_sink (pi_acc ?p8)) [?bo]" using h by simp
  ultimately show ?thesis using run fin r by blast
qed


section \<open>A run from start to end\<close>

definition live_worker :: worker where
  "live_worker = demo_worker\<lparr> wk_stdin := None \<rparr>"

definition one_job :: row_job where
  "one_job = \<lparr> rj_seq = 7, rj_data = [], rj_meta = \<lparr> rm_dry_run = False, rm_row_index = 7 \<rparr> \<rparr>"

definition demo_pipe :: "jsonl_writer pipe" where
  "demo_pipe = pipe_init [one_job] [live_worker] demo_writer"

lemma demo_pipe_run:
  "\<exists>p. pipe_run demo_reply (\<lambda>_. []) (\<lambda>_. Inr ''x'') (append_line (\<lambda>_. Inr ''x'')) runtime_default demo_pipe
     [Read, Accumulate, Work 0, Work 0, Read, Accumulate, Work 0] p \<and> all_ended p \<and> \<not> pi_cancelled p"
proof -
  let ?ser = "\<lambda>_ :: json. Inr ''x'' :: string + string"
  let ?step = "pipe_step demo_reply (\<lambda>_. []) ?ser (append_line ?ser) runtime_default"
  let ?b = "job_batch one_job"
  have rt: "rt_mode runtime_default = Row" "idempotent_of runtime_default" by (simp_all add: runtime_default_def idempotent_of_def)
  have "job_ok Row ?b" by (simp add: job_ok_def job_batch_def)
  then obtain os brk w' c' where x: "exchange demo_reply (\<lambda>_. []) Row True ?b live_worker None = Some (os, brk, w', c')"
      "map outcome_seq os = ba_seqs ?b" using exchange_seqs by blast
  have brk: "\<not> brk" using exchange_alive[OF x(1)] by (simp add: live_worker_def)
  have "os \<noteq> []" using x(2) by (auto simp: job_batch_def)
  then obtain bo where bo: "from_outcomes os = Some bo" by (cases "from_outcomes os") auto
  obtain s where ap: "append_line ?ser bo demo_writer = (Inr (), s)"
    using append_line_calm[of ?ser demo_writer bo]
    by (cases "append_line ?ser bo demo_writer") (auto simp: writer_calm_def demo_writer_def)
  let ?p1 = "demo_pipe\<lparr> pi_input := [], pi_rows := [one_job] \<rparr>"
  let ?p2 = "?p1\<lparr> pi_rows := [], pi_acc := (pi_acc ?p1)\<lparr> ac_sent := [?b] \<rparr>, pi_accum := None \<rparr>"
  let ?p3 = "?p2\<lparr> pi_workers := [Busy live_worker ?b], pi_acc := (pi_acc ?p2)\<lparr> ac_sent := [] \<rparr> \<rparr>"
  let ?p4 = "?p3\<lparr> pi_workers := [Idle w'], pi_acc := (pi_acc ?p3)\<lparr> ac_sink := s \<rparr> \<rparr>"
  let ?p5 = "?p4\<lparr> pi_reader := Some (Inr ()) \<rparr>"
  let ?p6 = "?p5\<lparr> pi_acc := pi_acc ?p5, pi_accum := Some (Inr ()) \<rparr>"
  let ?p7 = "?p6\<lparr> pi_workers := [Gone (Inr ())] \<rparr>"
  note init = demo_pipe_def pipe_init_def acc_init_def
  have job: "acc_job ?ser app runtime_default j a = (Inr (), a\<lparr> ac_sent := ac_sent a @ [job_batch j] \<rparr>)"
    if "ac_seqs a = []" "ac_rows a = []" "ac_bytes a = 0" "acc_calm a" for app :: "batch_outcome \<Rightarrow> jsonl_writer \<Rightarrow> _" and j a
    using acc_job_row[OF rt(1) that two_jobs_fit] by (simp add: job_batch_def)
  have s1: "?step Read demo_pipe ?p1" using pipe_step.send[of demo_pipe one_job "[]"] by (simp add: init ROW_CHANNEL_CAP_def)
  have s2: "?step Accumulate ?p1 ?p2"
    using pipe_step.take[of ?p1 one_job "[]", OF _ _ _ job] by (simp add: init JOB_CHANNEL_CAP_def acc_calm_def)
  have s3: "?step (Work 0) ?p2 ?p3" using pipe_step.pull[of 0 ?p2 live_worker ?b "[]"] by (simp add: init)
  have s4: "?step (Work 0) ?p3 ?p4"
    using pipe_step.answer[of 0 ?p3 live_worker ?b None demo_reply "\<lambda>_. []" runtime_default os brk w' c' bo "append_line ?ser" "Inr ()" s]
      x(1) ap bo brk by (simp add: init rt)
  have s5: "?step Read ?p4 ?p5" by (rule pipe_step.read_end) (simp_all add: init)
  have s6: "?step Accumulate ?p5 ?p6" by (rule pipe_step.acc_eof) (simp_all add: init JOB_CHANNEL_CAP_def)
  have s7: "?step (Work 0) ?p6 ?p7" using pipe_step.quit[of 0 ?p6 w'] by (simp add: init)
  have "pipe_run demo_reply (\<lambda>_. []) ?ser (append_line ?ser) runtime_default demo_pipe
      [Read, Accumulate, Work 0, Work 0, Read, Accumulate, Work 0] ?p7"
    by (rule run_step[OF run_step[OF run_step[OF run_step[OF run_step[OF run_step[OF run_step[OF pipe_run.stop
        s1 refl] s2 refl] s3 refl] s4 refl] s5 refl] s6 refl] s7]) simp
  moreover have "all_ended ?p7" "\<not> pi_cancelled ?p7" by (simp_all add: all_ended_def init)
  ultimately show ?thesis by blast
qed

lemma demo_calm: "writer_calm (\<lambda>_. Inr ''x'') demo_writer"
  by (simp add: writer_calm_def demo_writer_def)

lemma pipeline_conserves_rows_witness:
  "\<exists>p lines lost. all_ended p \<and> writer_holds (\<lambda>_. Inr ''x'') [] (ac_sink (pi_acc p)) lines \<and>
     {#7#} = recorded_seqs lines + in_flight p + lost \<and> lost = {#}"
proof -
  obtain p where p: "pipe_run demo_reply (\<lambda>_. []) (\<lambda>_. Inr ''x'') (append_line (\<lambda>_. Inr ''x'')) runtime_default
      (pipe_init [one_job] [live_worker] demo_writer) [Read, Accumulate, Work 0, Work 0, Read, Accumulate, Work 0] p"
      "all_ended p" "\<not> pi_cancelled p" using demo_pipe_run unfolding demo_pipe_def by blast
  show ?thesis
    using pipeline_conserves_rows[OF p(1) demo_calm demo_writer_holds] p(2,3) by (auto simp: one_job_def)
qed

lemma pipeline_complete_witness:
  "\<exists>p lines r. writer_holds (\<lambda>_. Inr ''x'') [] (ac_sink (pi_acc p)) lines \<and> recorded_seqs lines = {#7#} \<and>
     pool_report_of demo_config (ends_of 0 p) = Inr r \<and> \<not> pr_aborted r"
proof -
  obtain p where p: "pipe_run demo_reply (\<lambda>_. []) (\<lambda>_. Inr ''x'') (append_line (\<lambda>_. Inr ''x'')) runtime_default
      (pipe_init [one_job] [live_worker] demo_writer) [Read, Accumulate, Work 0, Work 0, Read, Accumulate, Work 0] p"
      "all_ended p" "\<not> pi_cancelled p" using demo_pipe_run unfolding demo_pipe_def by blast
  have "pc_hard demo_config \<noteq> Some True" "\<forall>w\<in>set [live_worker]. wk_stdin w = None"
    by (simp_all add: demo_config_def live_worker_def)
  from pipeline_complete[OF p(1) demo_calm demo_writer_holds _ this(2) p(2,3) this(1), of 0]
  show ?thesis by (auto simp: one_job_def)
qed

lemma pipeline_no_deadlock_witness:
  "\<exists>l q. l \<notin> {Stall, Operator_Cancel} \<and>
     pipe_step demo_reply (\<lambda>_. []) (\<lambda>_. Inr ''x'') (append_line (\<lambda>_. Inr ''x'')) runtime_default l demo_pipe q"
  unfolding demo_pipe_def
  by (rule pipeline_no_deadlock[OF pipe_run.stop demo_calm demo_writer_holds]) (simp_all add: all_ended_def pipe_init_def)

lemma pipeline_terminates_witness:
  "\<exists>p. all_ended p \<and> length [Read, Accumulate, Work 0, Work 0, Read, Accumulate, Work 0] \<le> 5 * length [one_job] + length [live_worker] + 3 \<and>
     \<not> pi_cancelled (p :: jsonl_writer pipe)"
proof -
  obtain p where p: "pipe_run demo_reply (\<lambda>_. []) (\<lambda>_. Inr ''x'') (append_line (\<lambda>_. Inr ''x'')) runtime_default
      (pipe_init [one_job] [live_worker] demo_writer) [Read, Accumulate, Work 0, Work 0, Read, Accumulate, Work 0] p"
      "all_ended p" "\<not> pi_cancelled p" using demo_pipe_run unfolding demo_pipe_def by blast
  show ?thesis using pipeline_terminates[OF p(1) demo_calm demo_writer_holds] p(2,3) by blast
qed

end
