(* ===== verification/Pipeline_Ledger.thy ===== *)
theory Pipeline_Ledger
  imports Pipeline
begin

text \<open>
  What the pipeline promises, as an abstract machine: a ledger of the rows still to be answered and of the lines written. Its steps
  write one well-formed line for rows that are pending, give pending rows up (once cancelled), and cancel. The running
  pipeline with its channels, batches and workers refines it.
\<close>

section \<open>The ledger\<close>

record ledger =
  lg_pending :: "nat multiset"
  lg_lines :: "batch_outcome list"
  lg_given_up :: "nat multiset"
  lg_cancelled :: bool

definition ledger_init :: "row_job list \<Rightarrow> ledger" where
  "ledger_init js = \<lparr> lg_pending = mset (map rj_seq js), lg_lines = [], lg_given_up = {#}, lg_cancelled = False \<rparr>"

inductive ledger_step :: "ledger \<Rightarrow> ledger \<Rightarrow> bool" where
  write_line: "bo_ok bo \<Longrightarrow> mset (bo_seqs bo) \<subseteq># lg_pending l \<Longrightarrow>
     ledger_step l (l\<lparr> lg_pending := lg_pending l - mset (bo_seqs bo), lg_lines := lg_lines l @ [bo] \<rparr>)"
| give_up: "lg_cancelled l \<Longrightarrow> rows \<subseteq># lg_pending l \<Longrightarrow>
     ledger_step l (l\<lparr> lg_pending := lg_pending l - rows, lg_given_up := lg_given_up l + rows \<rparr>)"
| cancel: "ledger_step l (l\<lparr> lg_cancelled := True \<rparr>)"

inductive_cases ledger_stepE: "ledger_step l m"

abbreviation ledger_steps :: "ledger \<Rightarrow> ledger \<Rightarrow> bool" where
  "ledger_steps \<equiv> ledger_step\<^sup>*\<^sup>*"

text \<open>What every ledger keeps: each row is pending, on exactly one line, or given up, and nothing is given up before a cancellation.\<close>

definition ledger_ok :: "nat multiset \<Rightarrow> ledger \<Rightarrow> bool" where
  "ledger_ok rows l =
     (rows = lg_pending l + recorded_seqs (lg_lines l) + lg_given_up l \<and> list_all bo_ok (lg_lines l) \<and>
      (lg_given_up l \<noteq> {#} \<longrightarrow> lg_cancelled l))"

lemma recorded_one [simp]: "recorded_seqs [bo] = mset (bo_seqs bo)"
  by (simp add: recorded_seqs_def)

lemma ledger_step_ok:
  assumes "ledger_step l m" "ledger_ok rows l"
  shows "ledger_ok rows m"
  using assms(1)
proof (cases rule: ledger_step.cases)
  case (write_line bo)
  obtain rest where "lg_pending l = mset (bo_seqs bo) + rest" using write_line(3) by (metis mset_subset_eq_exists_conv)
  then show ?thesis using assms(2) write_line(1,2) by (simp add: ledger_ok_def)
next
  case (give_up gone)
  obtain rest where "lg_pending l = gone + rest" using give_up(3) by (metis mset_subset_eq_exists_conv)
  then show ?thesis using assms(2) give_up(1,2) by (simp add: ledger_ok_def)
qed (use assms(2) in \<open>simp add: ledger_ok_def\<close>)

lemma ledger_steps_ok: "ledger_steps l m \<Longrightarrow> ledger_ok rows l \<Longrightarrow> ledger_ok rows m"
  by (induction rule: rtranclp_induct) (auto intro: ledger_step_ok)

lemma ledger_init_ok: "ledger_ok (mset (map rj_seq js)) (ledger_init js)"
  by (simp add: ledger_ok_def ledger_init_def recorded_seqs_def)

section \<open>Several lines at once\<close>

lemma ledger_write_lines:
  "list_all bo_ok bs \<Longrightarrow> recorded_seqs bs \<subseteq># lg_pending l \<Longrightarrow>
   ledger_steps l (l\<lparr> lg_pending := lg_pending l - recorded_seqs bs, lg_lines := lg_lines l @ bs \<rparr>)"
proof (induction bs arbitrary: l)
  case (Cons b bs)
  let ?l = "l\<lparr> lg_pending := lg_pending l - mset (bo_seqs b), lg_lines := lg_lines l @ [b] \<rparr>"
  have r: "recorded_seqs (b # bs) = mset (bo_seqs b) + recorded_seqs bs" by (simp add: recorded_seqs_def)
  obtain rest where rest: "lg_pending l = mset (bo_seqs b) + recorded_seqs bs + rest"
    using Cons.prems(2) unfolding r by (metis mset_subset_eq_exists_conv)
  then have "mset (bo_seqs b) \<subseteq># lg_pending l" "recorded_seqs bs \<subseteq># lg_pending ?l" by (simp_all add: add.assoc)
  then have "ledger_step l ?l" "ledger_steps ?l (?l\<lparr> lg_pending := lg_pending ?l - recorded_seqs bs, lg_lines := lg_lines ?l @ bs \<rparr>)"
    using Cons.prems(1) Cons.IH[of ?l] ledger_step.write_line[of b l] by auto
  then show ?case using r by (simp add: converse_rtranclp_into_rtranclp)
qed (simp add: recorded_seqs_def)

section \<open>The simulation\<close>

text \<open>A ledger stands for a state of the pipeline: the rows in its channels, batches and input are pending, its lines are in the file.\<close>

definition stands_for :: "('s \<Rightarrow> batch_outcome list \<Rightarrow> bool) \<Rightarrow> batch_outcome list \<Rightarrow> ledger \<Rightarrow> 's pipe \<Rightarrow> bool" where
  "stands_for holds before l p =
     (lg_pending l = in_flight p \<and> holds (ac_sink (pi_acc p)) (before @ lg_lines l) \<and> lg_cancelled l = pi_cancelled p)"

lemma ledger_follows:
  assumes "stands_for holds before l p" "step_effect holds (before @ lg_lines l) p q" "pi_cancelled p \<longrightarrow> pi_cancelled q"
  shows "\<exists>m. ledger_steps l m \<and> stands_for holds before m q"
proof -
  obtain new lost where e: "holds (ac_sink (pi_acc q)) ((before @ lg_lines l) @ new)" "list_all bo_ok new"
      "in_flight p = recorded_seqs new + in_flight q + lost" "lost \<noteq> {#} \<longrightarrow> pi_cancelled p"
    using assms(2) unfolding step_effect_def by blast
  have pend: "lg_pending l = recorded_seqs new + in_flight q + lost" using assms(1) e(3) by (simp add: stands_for_def)
  let ?m1 = "l\<lparr> lg_pending := lg_pending l - recorded_seqs new, lg_lines := lg_lines l @ new \<rparr>"
  have "recorded_seqs new \<subseteq># lg_pending l" by (simp add: pend add.assoc)
  then have s1: "ledger_steps l ?m1" by (rule ledger_write_lines[OF e(2)])
  have p1: "lg_pending ?m1 = in_flight q + lost" by (simp add: pend add.assoc)
  let ?m2 = "?m1\<lparr> lg_pending := in_flight q, lg_given_up := lg_given_up l + lost \<rparr>"
  have s2: "ledger_steps ?m1 ?m2"
  proof (cases "lost = {#}")
    case False
    then have "lg_cancelled ?m1" using e(4) assms(1) by (simp add: stands_for_def)
    from ledger_step.give_up[OF this, of lost] show ?thesis using p1 by auto
  next
    case True
    then have "?m2 = ?m1" using p1 by (cases l) simp
    then show ?thesis by simp
  qed
  let ?m = "if pi_cancelled q then ?m2\<lparr> lg_cancelled := True \<rparr> else ?m2"
  have "ledger_steps ?m2 ?m" using ledger_step.cancel[of ?m2] by auto
  then have "ledger_steps l ?m" using s1 s2 by (meson rtranclp_trans)
  moreover have "stands_for holds before ?m q" using assms(1,3) e(1) by (auto simp: stands_for_def)
  ultimately show ?thesis by blast
qed

context reliable_sink
begin

text \<open>The square for one step, and along a run.\<close>

lemma step_simulates:
  assumes "pipe_step parse dbg ser append rt a p q" "pipe_ok ser rt p" "calm (ac_sink (pi_acc p))" "stands_for holds before l p"
  shows "\<exists>m. ledger_steps l m \<and> stands_for holds before m q"
proof (rule ledger_follows[OF assms(4)])
  have "holds (ac_sink (pi_acc p)) (before @ lg_lines l)" using assms(4) by (simp add: stands_for_def)
  from step_keeps[OF assms(1-3) this] show "step_effect holds (before @ lg_lines l) p q" by blast
qed (use step_cancelled_mono[OF assms(1)] in blast)

lemma run_simulates:
  assumes "pipe_run parse dbg ser append rt p as q" "pipe_ok ser rt p" "calm (ac_sink (pi_acc p))" "stands_for holds before l p"
  shows "\<exists>m. ledger_steps l m \<and> stands_for holds before m q"
  using assms
proof (induction rule: pipe_run.induct)
  case (step p as q a q')
  then obtain m where m: "ledger_steps l m" "stands_for holds before m q" by blast
  have "holds (ac_sink (pi_acc p)) (before @ lg_lines l)" using step.prems(3) by (simp add: stands_for_def)
  then have "pipe_ok ser rt q" "calm (ac_sink (pi_acc q))"
    using run_keeps[OF step.hyps(1) step.prems(1,2)] by blast+
  from step_simulates[OF step.hyps(2) this m(2)] show ?case using m(1) by (meson rtranclp_trans)
qed auto

end

text \<open>C3: The running pipeline refines the ledger. Every run of it, in any interleaving of its tasks and whatever the handlers answer,
  from the start with a disk that works, is matched by steps of the ledger: at the end the file has gained exactly the ledger's lines, the rows
  still in the input, the channels, a batch or a worker are exactly those pending, and the token has fired exactly when the
  ledger is cancelled. So each line is written whole, once, for rows not yet answered, and rows are only given up after a cancellation.\<close>

theorem pipeline_refines_ledger:
  assumes "pipe_run parse dbg ser (append_line ser) rt (pipe_init js ws out) as p"
    and "writer_calm ser out" "writer_holds ser old out before"
  shows "\<exists>l. ledger_steps (ledger_init js) l \<and> stands_for (writer_holds ser old) before l p \<and> ledger_ok (mset (map rj_seq js)) l"
proof -
  have "stands_for (writer_holds ser old) before (ledger_init js) (pipe_init js ws out)"
    using assms(3) by (simp add: stands_for_def ledger_init_def pipe_init_flight)
  note init = this
  obtain l where l: "ledger_steps (ledger_init js) l" "stands_for (writer_holds ser old) before l p"
    using jsonl.run_simulates[OF assms(1) pipe_init_ok _ init] assms(2) by auto
  then show ?thesis using ledger_steps_ok[OF l(1) ledger_init_ok] by blast
qed

lemma pipeline_refines_ledger_witness:
  "\<exists>p l. all_ended p \<and> ledger_steps (ledger_init [one_job]) l \<and> lg_pending l = in_flight p \<and>
     writer_holds (\<lambda>_. Inr ''x'') [] (ac_sink (pi_acc p)) (lg_lines l)"
proof -
  obtain p where p: "pipe_run demo_reply (\<lambda>_. []) (\<lambda>_. Inr ''x'') (append_line (\<lambda>_. Inr ''x'')) runtime_default
      (pipe_init [one_job] [live_worker] demo_writer) [Read, Accumulate, Work 0, Work 0, Read, Accumulate, Work 0] p"
      "all_ended p" "\<not> pi_cancelled p" using demo_pipe_run unfolding demo_pipe_def by blast
  show ?thesis
    using pipeline_refines_ledger[OF p(1) demo_calm demo_writer_holds] p(2) by (auto simp: stands_for_def)
qed

end
