(* ===== verification/Meta_Stats.thy ===== *)
theory Meta_Stats
  imports Pool_Streaming
begin

text \<open>
  The meta data of a run (\<^verbatim>\<open>meta.rs\<close>): the record written to \<^verbatim>\<open>meta.json\<close> and the statistics of a list of outcomes. The hash of
  the manifest is a parameter \<open>sha\<close> (the hexadecimal SHA-256 of its bytes).
\<close>

record stats =
  sa_success :: nat
  sa_failed :: nat
  sa_by_error_code :: "(string, nat) bt"
  sa_avg_dur_ms :: nat

record run_meta =
  rn_run_id :: string
  rn_parent_run_id :: "string option"
  rn_input_path :: path
  rn_input_row_count :: nat
  rn_handler :: "string \<times> string \<times> string"
  rn_config :: "(string, json) bt"
  rn_stats :: stats
  rn_dry_run :: bool

definition manifest_hash :: "(string \<Rightarrow> string) \<Rightarrow> string \<Rightarrow> string" where
  "manifest_hash sha bytes = ''sha256:'' @ sha bytes"

text \<open>The loop carries the counts, the sum of the durations and how many outcomes have one.\<close>

record tally =
  ta_succ :: nat
  ta_fail :: nat
  ta_by_code :: "(string, nat) bt"
  ta_total_dur :: nat
  ta_dur_count :: nat

fun tally_outcome :: "row_outcome \<Rightarrow> tally \<Rightarrow> tally" where
  "tally_outcome (Success _ _ d) t =
     t\<lparr> ta_succ := ta_succ t + 1, ta_total_dur := ta_total_dur t + d, ta_dur_count := ta_dur_count t + 1 \<rparr>"
| "tally_outcome (Error_Row _ c _ d _) t =
     t\<lparr> ta_fail := ta_fail t + 1, ta_by_code := bt_bump c (ta_by_code t), ta_total_dur := ta_total_dur t + d,
        ta_dur_count := ta_dur_count t + 1 \<rparr>"
| "tally_outcome (Crash _ _ _) t =
     t\<lparr> ta_fail := ta_fail t + 1, ta_by_code := bt_bump ERR_WORKER_CRASH (ta_by_code t) \<rparr>"

definition build_stats :: "row_outcome list \<Rightarrow> stats" where
  "build_stats os =
     (let t = fold tally_outcome os \<lparr> ta_succ = 0, ta_fail = 0, ta_by_code = [], ta_total_dur = 0, ta_dur_count = 0 \<rparr> in
      \<lparr> sa_success = ta_succ t, sa_failed = ta_fail t, sa_by_error_code = ta_by_code t,
        sa_avg_dur_ms = (if ta_dur_count t = 0 then 0 else ta_total_dur t div ta_dur_count t) \<rparr>)"

fun outcome_dur :: "row_outcome \<Rightarrow> nat list" where
  "outcome_dur (Success _ _ d) = [d]"
| "outcome_dur (Error_Row _ _ _ d _) = [d]"
| "outcome_dur (Crash _ _ _) = []"

lemma tally_fold:
  "fold tally_outcome os t =
     \<lparr> ta_succ = ta_succ t + length (filter is_success os),
       ta_fail = ta_fail t + length (filter (\<lambda>r. \<not> is_success r) os),
       ta_by_code = fold bt_bump (some_codes os) (ta_by_code t),
       ta_total_dur = ta_total_dur t + sum_list (concat (map outcome_dur os)),
       ta_dur_count = ta_dur_count t + length (concat (map outcome_dur os)) \<rparr>"
proof (induction os arbitrary: t)
  case (Cons r os)
  then show ?case by (cases r) (simp_all add: some_codes_def)
qed (simp add: some_codes_def)

lemma avg_bounded:
  assumes "\<forall>x\<in>set xs. x \<le> (b :: nat)"
  shows "sum_list xs div length xs \<le> b"
proof -
  have "sum_list xs \<le> length xs * b" using assms by (induction xs) auto
  then show ?thesis by (cases "xs = []") (simp_all add: div_le_mono nat_mult_div_cancel_disj order_trans[OF div_le_mono])
qed

text \<open>C21: The two statistics of the code agree: what \<^verbatim>\<open>build_stats\<close> counts of a list of outcomes is what \<^verbatim>\<open>compute_run_stats\<close> counts of a file with those
  outcomes, and the average it adds is never above the longest duration, so it fits the 64 bits it is cast to.\<close>

theorem stats_agree:
  assumes "compute_run_stats parse (Content s) = Inr st" "\<forall>r\<in>set (stats_lines parse s). \<forall>d\<in>set (outcome_dur r). d < 2 ^ 64"
  shows "sa_success (build_stats (stats_lines parse s)) = st_success st \<and>
     sa_failed (build_stats (stats_lines parse s)) = st_failed st \<and>
     sa_by_error_code (build_stats (stats_lines parse s)) = st_by_error_code st \<and>
     sa_avg_dur_ms (build_stats (stats_lines parse s)) < 2 ^ 64"
proof -
  let ?os = "stats_lines parse s"
  have st: "st = \<lparr> st_success = length (filter is_success ?os), st_failed = length (filter (\<lambda>r. \<not> is_success r) ?os),
      st_by_error_code = fold bt_bump (some_codes ?os) [] \<rparr>"
    using count_lines_fold[of parse "split_lines s" no_stats st] assms(1)
    by (simp add: compute_run_stats_def stats_lines_def count_outcomes_fold no_stats_def)
  have "\<forall>x\<in>set (concat (map outcome_dur ?os)). x \<le> 2 ^ 64 - 1" using assms(2) by fastforce
  from avg_bounded[OF this] have "sum_list (concat (map outcome_dur ?os)) div length (concat (map outcome_dur ?os)) < 2 ^ 64"
    by (simp add: less_Suc_eq_le[symmetric])
  then show ?thesis by (simp add: build_stats_def tally_fold Let_def st)
qed


lemma stats_agree_witness:
  "\<exists>st. compute_run_stats (\<lambda>_. Inr \<lparr> bo_first_seq = 0, bo_seqs = [0], bo_outcomes = [Success 0 [] 7] \<rparr>) (Content ''a'') = Inr st \<and>
     sa_success (build_stats [Success 0 [] 7]) = st_success st"
proof -
  let ?parse = "\<lambda>_. Inr \<lparr> bo_first_seq = 0, bo_seqs = [0], bo_outcomes = [Success 0 [] 7] \<rparr> :: string + batch_outcome"
  have "\<not> isl (compute_run_stats ?parse (Content ''a''))" by code_simp
  then obtain st where "compute_run_stats ?parse (Content ''a'') = Inr st"
    by (cases "compute_run_stats ?parse (Content ''a'')") auto
  moreover have "stats_lines ?parse ''a'' = [Success 0 [] 7]" by code_simp
  ultimately show ?thesis using stats_agree[of ?parse "''a''" st] by auto
qed

end
