(* ===== verification/Run_Execute.thy ===== *)
theory Run_Execute
  imports Meta_Stats
begin

text \<open>
  One run from request to report (\<^verbatim>\<open>run.rs\<close>): the snapshot of the handler directory, the count of the input's rows, the
  configuration and the limit in force, the pool, the statistics and \<^verbatim>\<open>meta.json\<close>. A directory is a tree; what it copies is a list of
  file system calls, each of which can fail. Everything outside of the process is a field of \<open>run_env\<close>.
\<close>

section \<open>Snapshot of the handler\<close>

type_synonym rel = "string list"

datatype tree = File string | Dir "(string \<times> tree) list" | Link

datatype copy_op = Make_Dir rel | Copy_File rel string

datatype snap_entry = Snap_Dir | Snap_File string

definition SNAPSHOT_IGNORE :: "string list" where
  "SNAPSHOT_IGNORE = [''target'', ''node_modules'', ''__pycache__'', ''dist'', ''.venv'', ''.git'']"

text \<open>The calls of \<^verbatim>\<open>copy_dir_recursive\<close>, in the order of the directory listings; paths are relative to the two roots.\<close>

fun copy_ops :: "string list \<Rightarrow> rel \<Rightarrow> (string \<times> tree) list \<Rightarrow> copy_op list" where
  "copy_ops ignore p [] = []"
| "copy_ops ignore p ((n, Dir ds) # es) =
     (if n \<in> set ignore then copy_ops ignore p es
      else Make_Dir (p @ [n]) # copy_ops ignore (p @ [n]) ds @ copy_ops ignore p es)"
| "copy_ops ignore p ((n, File c) # es) =
     (if n \<in> set ignore then copy_ops ignore p es else Copy_File (p @ [n]) c # copy_ops ignore p es)"
| "copy_ops ignore p ((n, Link) # es) = copy_ops ignore p es"

fun op_path :: "copy_op \<Rightarrow> rel" where
  "op_path (Make_Dir p) = p"
| "op_path (Copy_File p _) = p"

fun op_entry :: "copy_op \<Rightarrow> snap_entry" where
  "op_entry (Make_Dir _) = Snap_Dir"
| "op_entry (Copy_File _ c) = Snap_File c"

type_synonym snap = "rel \<Rightarrow> snap_entry option"

fun run_ops :: "copy_op list \<Rightarrow> fuse \<Rightarrow> snap \<Rightarrow> (string + unit) \<times> snap" where
  "run_ops [] f m = (Inr (), m)"
| "run_ops (x # xs) f m =
     (let (bad, f') = poll f in if bad then (Inl ''copy'', m) else run_ops xs f' (m(op_path x \<mapsto> op_entry x)))"

definition snapshot_handler :: "(string \<times> tree) list \<Rightarrow> fuse \<Rightarrow> snap \<Rightarrow> (string + unit) \<times> snap" where
  "snapshot_handler root f m = run_ops (Make_Dir [] # copy_ops SNAPSHOT_IGNORE [] root) f m"

text \<open>What the snapshot should hold: the tree without the ignored names, at any depth, and without the symbolic links.\<close>

fun names_ok :: "(string \<times> tree) list \<Rightarrow> bool" where
  "names_ok [] = True"
| "names_ok ((n, Dir ds) # es) = (n \<notin> set (map fst es) \<and> names_ok ds \<and> names_ok es)"
| "names_ok ((n, _) # es) = (n \<notin> set (map fst es) \<and> names_ok es)"

fun snapshot_at :: "string list \<Rightarrow> (string \<times> tree) list \<Rightarrow> snap" where
  "snapshot_at ignore es [] = Some Snap_Dir"
| "snapshot_at ignore es (n # p) =
     (if n \<in> set ignore then None
      else (case map_of es n of
          Some (Dir ds) \<Rightarrow> snapshot_at ignore ds p
        | Some (File c) \<Rightarrow> (if p = [] then Some (Snap_File c) else None)
        | _ \<Rightarrow> None))"

lemma snapshot_skip: "n' \<noteq> n \<Longrightarrow> snapshot_at ign ((n, t) # es) (n' # r) = snapshot_at ign es (n' # r)"
  by simp

lemma snapshot_name: "snapshot_at ign es (n # r) = Some e \<Longrightarrow> n \<notin> set ign \<and> n \<in> fst ` set es"
  by (auto split: if_splits option.splits dest: map_of_SomeD simp: rev_image_eqI)

lemma snapshot_ignored: "n \<in> set ign \<Longrightarrow> snapshot_at ign es (n # r) = None"
  by simp

lemma snapshot_dir: "n \<notin> set ign \<Longrightarrow> snapshot_at ign ((n, Dir ds) # es) (n # r) = snapshot_at ign ds r"
  by simp

lemma snapshot_file: "n \<notin> set ign \<Longrightarrow> snapshot_at ign ((n, File c) # es) (n # r) = (if r = [] then Some (Snap_File c) else None)"
  by simp

lemma snapshot_link: "snapshot_at ign ((n, Link) # es) (n # r) = None"
  by simp

lemma snapshot_step:
  assumes "n \<notin> fst ` set es"
  shows "(\<exists>n' r. w = q @ n' # r \<and> snapshot_at ign ((n, t) # es) (n' # r) = Some e) \<longleftrightarrow>
     (\<exists>r. w = q @ n # r \<and> snapshot_at ign ((n, t) # es) (n # r) = Some e) \<or>
     (\<exists>n' r. w = q @ n' # r \<and> snapshot_at ign es (n' # r) = Some e)"
  using snapshot_skip[of _ n ign t es] snapshot_name[of ign es n _ e] assms by metis

lemma copy_ops_calls:
  "names_ok es \<Longrightarrow> (\<exists>x\<in>set (copy_ops ign q es). op_path x = w \<and> op_entry x = e) \<longleftrightarrow>
     (\<exists>n r. w = q @ n # r \<and> snapshot_at ign es (n # r) = Some e)"
proof (induction ign q es arbitrary: w e rule: copy_ops.induct)
  case (2 ign q n ds es)
  have m: "n \<notin> fst ` set es" "names_ok ds" "names_ok es" using 2(4) by simp_all
  show ?case
  proof (cases "n \<in> set ign")
    case True
    then show ?thesis unfolding snapshot_step[OF m(1)] using 2(1)[OF True m(3)]
      by (simp add: snapshot_ignored del: snapshot_at.simps)
  next
    case False
    have "(\<exists>x\<in>set (copy_ops ign q ((n, Dir ds) # es)). op_path x = w \<and> op_entry x = e) \<longleftrightarrow>
       (w = q @ [n] \<and> Snap_Dir = e) \<or> (\<exists>n' r. w = (q @ [n]) @ n' # r \<and> snapshot_at ign ds (n' # r) = Some e) \<or>
       (\<exists>n' r. w = q @ n' # r \<and> snapshot_at ign es (n' # r) = Some e)"
      using 2(2)[OF False m(2), of w e] 2(3)[OF False m(3), of w e] False
      by (auto simp del: snapshot_at.simps)
    moreover have "(\<exists>r. w = q @ n # r \<and> snapshot_at ign ds r = Some e) \<longleftrightarrow>
         (w = q @ [n] \<and> Snap_Dir = e) \<or> (\<exists>n' r. w = (q @ [n]) @ n' # r \<and> snapshot_at ign ds (n' # r) = Some e)"
      by (metis append.assoc append_Cons append_Nil neq_Nil_conv option.inject snapshot_at.simps(1))
    ultimately show ?thesis unfolding snapshot_step[OF m(1)] snapshot_dir[OF False] by blast
  qed
next
  case (3 ign q n c es)
  have m: "n \<notin> fst ` set es" "names_ok es" using 3(3) by simp_all
  show ?case
  proof (cases "n \<in> set ign")
    case True
    then show ?thesis unfolding snapshot_step[OF m(1)] using 3(1)[OF True m(2)]
      by (simp add: snapshot_ignored del: snapshot_at.simps)
  next
    case False
    then show ?thesis unfolding snapshot_step[OF m(1)] snapshot_file[OF False] using 3(2)[OF False m(2)]
      by (auto simp del: snapshot_at.simps split: if_splits)
  qed
next
  case (4 ign q n es)
  have m: "n \<notin> fst ` set es" "names_ok es" using 4(2) by simp_all
  show ?case unfolding snapshot_step[OF m(1)] snapshot_link using 4(1)[OF m(2)]
    by (simp del: snapshot_at.simps)
qed simp

lemma run_ops_sound:
  "(\<And>x. x \<in> set ops \<Longrightarrow> S (op_path x) = Some (op_entry x)) \<Longrightarrow> m \<subseteq>\<^sub>m S \<Longrightarrow> snd (run_ops ops f m) \<subseteq>\<^sub>m S"
proof (induction ops arbitrary: f m)
  case (Cons x xs)
  obtain bad f' where p: "poll f = (bad, f')" by force
  have "m(op_path x \<mapsto> op_entry x) \<subseteq>\<^sub>m S" using Cons.prems by (auto simp: map_le_def)
  moreover have "\<And>y. y \<in> set xs \<Longrightarrow> S (op_path y) = Some (op_entry y)" using Cons.prems(1) by simp
  ultimately have "snd (run_ops xs f' (m(op_path x \<mapsto> op_entry x))) \<subseteq>\<^sub>m S" by (rule Cons.IH[rotated])
  then show ?case using Cons.prems(2) p by simp
qed simp

lemma run_ops_complete:
  "fst (run_ops ops f m) = Inr () \<Longrightarrow> dom (snd (run_ops ops f m)) = dom m \<union> op_path ` set ops"
proof (induction ops arbitrary: f m)
  case (Cons x xs)
  obtain bad f' where p: "poll f = (bad, f')" by force
  moreover have "\<not> bad" using Cons.prems p by auto
  moreover from this have "fst (run_ops xs f' (m(op_path x \<mapsto> op_entry x))) = Inr ()" using Cons.prems p by simp
  then have "dom (snd (run_ops xs f' (m(op_path x \<mapsto> op_entry x)))) = dom (m(op_path x \<mapsto> op_entry x)) \<union> op_path ` set xs"
    by (rule Cons.IH)
  ultimately show ?case by simp
qed simp

lemma run_ops_calm: "fst (run_ops ops None m) = Inr ()"
  by (induction ops arbitrary: m) auto

lemma snapshot_handler_sound:
  assumes "names_ok root"
  shows "snd (snapshot_handler root f Map.empty) \<subseteq>\<^sub>m snapshot_at SNAPSHOT_IGNORE root"
proof -
  have "snapshot_at SNAPSHOT_IGNORE root (op_path x) = Some (op_entry x)"
    if "x \<in> set (Make_Dir [] # copy_ops SNAPSHOT_IGNORE [] root)" for x
    using that copy_ops_calls[OF assms, of SNAPSHOT_IGNORE "[]" "op_path x" "op_entry x"] by auto
  then show ?thesis unfolding snapshot_handler_def by (rule run_ops_sound) auto
qed

lemma snapshot_handler_complete:
  assumes "names_ok root" "fst (snapshot_handler root f Map.empty) = Inr ()"
  shows "snd (snapshot_handler root f Map.empty) = snapshot_at SNAPSHOT_IGNORE root"
proof
  fix p
  let ?m = "snd (snapshot_handler root f Map.empty)" and ?S = "snapshot_at SNAPSHOT_IGNORE root"
  have d: "dom ?m = op_path ` set (Make_Dir [] # copy_ops SNAPSHOT_IGNORE [] root)"
    using run_ops_complete[of "Make_Dir [] # copy_ops SNAPSHOT_IGNORE [] root" f Map.empty] assms(2)
    by (simp add: snapshot_handler_def)
  show "?m p = ?S p"
  proof (cases "?S p")
    case None
    then show ?thesis
      using snapshot_handler_sound[OF assms(1), of f] unfolding map_le_def by (cases "?m p") (force simp del: snapshot_at.simps)+
  next
    case (Some e)
    have "p \<in> dom ?m"
    proof (cases p)
      case Nil
      then show ?thesis unfolding d by simp
    next
      case (Cons n r)
      then have "\<exists>n' r'. p = [] @ n' # r' \<and> ?S (n' # r') = Some e" using Some by simp
      then obtain x where "x \<in> set (copy_ops SNAPSHOT_IGNORE [] root)" "op_path x = p"
        using copy_ops_calls[OF assms(1), of SNAPSHOT_IGNORE "[]" p e] by blast
      then show ?thesis unfolding d by force
    qed
    then show ?thesis using snapshot_handler_sound[OF assms(1), of f] by (simp add: map_le_def del: snapshot_at.simps)
  qed
qed

text \<open>The snapshot of a handler is the handler. When copying succeeds it holds exactly the directories and files of the tree
  that are not symbolic links and have no ignored name on their path; and wherever a call fails, what has been written so far is part
  of that, never an ignored directory.\<close>

theorem snapshot_exact:
  assumes "names_ok root"
  shows "snd (snapshot_handler root f Map.empty) \<subseteq>\<^sub>m snapshot_at SNAPSHOT_IGNORE root \<and>
     (fst (snapshot_handler root f Map.empty) = Inr () \<longrightarrow>
        snd (snapshot_handler root f Map.empty) = snapshot_at SNAPSHOT_IGNORE root) \<and>
     fst (snapshot_handler root None Map.empty) = Inr ()"
  using snapshot_handler_sound[OF assms] snapshot_handler_complete[OF assms] run_ops_calm
  by (auto simp: snapshot_handler_def simp del: run_ops.simps)

definition demo_tree :: "(string \<times> tree) list" where
  "demo_tree = [(''a.py'', File ''x''), (''.git'', Dir [(''HEAD'', File ''r'')]), (''lib'', Dir [(''l'', Link), (''b'', File ''y'')])]"

lemma snapshot_exact_witness:
  "snd (snapshot_handler demo_tree None Map.empty) [''lib'', ''b''] = Some (Snap_File ''y'') \<and>
   snd (snapshot_handler demo_tree None Map.empty) [''.git'', ''HEAD''] = None"
proof -
  have "names_ok demo_tree" by code_simp
  moreover have "snapshot_at SNAPSHOT_IGNORE demo_tree [''lib'', ''b''] = Some (Snap_File ''y'')"
    "snapshot_at SNAPSHOT_IGNORE demo_tree [''.git'', ''HEAD''] = None" by code_simp+
  ultimately show ?thesis using snapshot_exact[of demo_tree None] by simp
qed


section \<open>Counting the input\<close>

text \<open>\<^verbatim>\<open>u8::is_ascii_whitespace\<close> leaves out the vertical tab, which \<^verbatim>\<open>str::trim\<close> takes.\<close>

definition ascii_ws :: "char \<Rightarrow> bool" where
  "ascii_ws c = (c \<in> {CHR '' '', CHR 0x09, CHR 0x0A, CHR 0x0C, CHR 0x0D})"

definition trim_ascii :: "string \<Rightarrow> string" where
  "trim_ascii s = rev (dropWhile ascii_ws (rev (dropWhile ascii_ws s)))"

text \<open>\<^verbatim>\<open>split\<close> on the newline: a last piece, possibly empty, after the last one.\<close>

fun split_newline :: "string \<Rightarrow> string list" where
  "split_newline [] = [[]]"
| "split_newline (c # s) =
     (if c = newline then [] # split_newline s
      else (case split_newline s of [] \<Rightarrow> [[c]] | l # ls \<Rightarrow> (c # l) # ls))"

definition count_input_rows :: "string \<Rightarrow> input_format \<Rightarrow> nat" where
  "count_input_rows content f =
     (let total = length (filter (\<lambda>l. trim_ascii l \<noteq> []) (split_newline content)) in
      case f of Csv \<Rightarrow> total - 1 | Jsonl \<Rightarrow> total)"

lemma split_newline_lines:
  "split_newline s = (if s = [] \<or> last s = newline then split_lines s @ [[]] else split_lines s)"
proof (induction s)
  case (Cons c s)
  then show ?case by (auto split: list.splits)
qed simp

lemma split_lines_chars: "l \<in> set (split_lines s) \<Longrightarrow> set l \<subseteq> set s"
proof (induction s arbitrary: l)
  case (Cons c s)
  show ?case
  proof (cases "c = newline")
    case True
    then show ?thesis using Cons by auto
  next
    case False
    show ?thesis
    proof (cases "split_lines s")
      case Nil
      then show ?thesis using False Cons.prems by simp
    next
      case (Cons k ks)
      then show ?thesis using False Cons.IH[of k] Cons.IH[of l] \<open>l \<in> set (split_lines (c # s))\<close> by auto
    qed
  qed
qed simp

lemma all_dropWhile: "list_all p (dropWhile p xs) \<longleftrightarrow> list_all p xs"
  by (induction xs) auto

lemma dropWhile_both_Nil: "rev (dropWhile p (rev (dropWhile p xs))) = [] \<longleftrightarrow> list_all p xs"
  using all_dropWhile[of p xs] by (simp add: dropWhile_eq_Nil_conv list_all_iff)

lemma trim_ascii_Nil: "trim_ascii l = [] \<longleftrightarrow> list_all ascii_ws l"
  unfolding trim_ascii_def by (rule dropWhile_both_Nil)

lemma trim_Nil: "trim l = [] \<longleftrightarrow> list_all is_ws l"
  using dropWhile_both_Nil[of is_ws "rev l"] by (simp add: trim_def trim_start_def trim_end_while_def list_all_iff)

lemma ascii_ws_agrees: "CHR 0x0B \<notin> set l \<Longrightarrow> list_all ascii_ws l \<longleftrightarrow> list_all is_ws l"
  by (auto simp: list_all_iff ascii_ws_def is_ws_def)

lemma jsonl_iter_length: "length (jsonl_iter p sq (map Inr ls)) = length (filter (\<lambda>l. trim l \<noteq> []) ls)"
  by (induction ls arbitrary: sq) auto

lemma jsonl_stream_length:
  "jsonl_open p req (map Inr ls) = Inr s \<Longrightarrow> length (yield_rows p s) = length (filter (\<lambda>l. trim l \<noteq> []) ls)"
proof (induction ls)
  case (Cons l ls)
  then show ?case
    by (cases "trim l = []"; cases "p (trim l)")
       (auto simp: trim_line Let_def yield_rows_def jsonl_iter_length split: if_splits)
qed (auto simp: yield_rows_def)

text \<open>Three counts of a JSONL input. The row count of \<^verbatim>\<open>meta.json\<close> is the number of items the stream yields, whether they parse or not,
  as long as the text has no vertical tab; it is at most the number of its lines, which is what the execution records.\<close>

theorem jsonl_count_matches_stream:
  assumes "jsonl_open p req (map Inr (split_lines content)) = Inr s" "CHR 0x0B \<notin> set content"
  shows "count_input_rows content Jsonl = length (yield_rows p s) \<and>
     count_input_rows content Jsonl \<le> length (split_lines content)"
proof -
  have "trim_ascii l = [] \<longleftrightarrow> trim l = []" if "l \<in> set (split_lines content)" for l
    using ascii_ws_agrees[of l] split_lines_chars[OF that] assms(2) unfolding trim_ascii_Nil trim_Nil by blast
  then have "filter (\<lambda>l. trim_ascii l \<noteq> []) (split_lines content) = filter (\<lambda>l. trim l \<noteq> []) (split_lines content)"
    by (simp cong: filter_cong)
  moreover have "trim_ascii [] = []" by (simp add: trim_ascii_def)
  ultimately have "count_input_rows content Jsonl = length (filter (\<lambda>l. trim l \<noteq> []) (split_lines content))"
    by (simp add: count_input_rows_def split_newline_lines)
  then show ?thesis using jsonl_stream_length[OF assms(1)] by simp
qed

lemma jsonl_count_matches_stream_witness:
  "\<exists>s. jsonl_open demo_json [] (map Inr (split_lines (''a'' @ newline # newline # ''?''))) = Inr s \<and>
     length (yield_rows demo_json s) = 2 \<and> length (split_lines (''a'' @ newline # newline # ''?'')) = 3"
proof -
  let ?t = "''a'' @ newline # newline # ''?''"
  have "\<not> isl (jsonl_open demo_json [] (map Inr (split_lines ?t)))" by code_simp
  then obtain s where s: "jsonl_open demo_json [] (map Inr (split_lines ?t)) = Inr s"
    by (cases "jsonl_open demo_json [] (map Inr (split_lines ?t))") auto
  have "count_input_rows ?t Jsonl = 2" "length (split_lines ?t) = 3" by code_simp+
  moreover have "CHR 0x0B \<notin> set ?t" by code_simp
  ultimately show ?thesis using jsonl_count_matches_stream[OF s] s by auto
qed


section \<open>The run\<close>

text \<open>
  A request as the callers build it. \<open>rq_progress\<close> is whether a progress callback is given, \<open>rq_cancel\<close> and \<open>rq_hard_cancel\<close> are the
  state of the two flags, if given. The grace period of a shutdown is the workers' affair.
\<close>

record run_request =
  rq_run_id :: string
  rq_parent_run_id :: "string option"
  rq_handler_dir :: path
  rq_input :: path
  rq_output_dir :: path
  rq_workers :: nat
  rq_dry_run :: bool
  rq_dry_run_sample :: nat
  rq_row_limit :: "nat option"
  rq_skip_seqs :: "nat set"
  rq_field_map :: field_map
  rq_config_overrides :: obj
  rq_progress :: bool
  rq_cancel :: "bool option"
  rq_input_format :: "input_format option"
  rq_fsync_outcomes :: bool
  rq_capture_raw_stdout :: bool
  rq_only_row_ids :: "nat list option"
  rq_hard_cancel :: "bool option"

record run_report =
  rp_success_count :: nat
  rp_failed_count :: nat
  rp_by_error_code :: "(string, nat) bt"
  rp_run_dir :: path
  rp_aborted :: bool
  rp_abort_reason :: "string option"

datatype progress_event = Ev_Started nat | Ev_Row_Done nat bool | Ev_Completed nat nat

text \<open>
  What the run meets: the files, the canonical paths as their components, the handler's tree and the call of the copy that fails,
  the parsers, the start of the workers, what the pool's tasks end with and report, what the outcomes file then holds.
\<close>

record run_env =
  ev_read :: "path \<Rightarrow> string + string"
  ev_yaml :: "string \<Rightarrow> string + manifest"
  ev_sha :: "string \<Rightarrow> string"
  ev_create_dir :: "string + unit"
  ev_canon :: "path \<Rightarrow> string + rel"
  ev_copy_input :: "string + unit"
  ev_tree :: "(string \<times> tree) list"
  ev_copy_fails :: fuse
  ev_json :: "string \<Rightarrow> string + obj"
  ev_csv :: "path \<Rightarrow> string + ((string + string list) \<times> (string + string list) list)"
  ev_text :: "path \<Rightarrow> string + line list"
  ev_writer :: "path \<Rightarrow> bool \<Rightarrow> core_error + jsonl_writer"
  ev_log_ok :: bool
  ev_start :: "nat \<Rightarrow> core_error + worker"
  ev_tasks :: "reader_config \<Rightarrow> (core_error + row_source) list \<Rightarrow> worker list \<Rightarrow> jsonl_writer \<Rightarrow> pool_ends"
  ev_done :: "(nat \<times> bool) list"
  ev_outcomes :: read_result
  ev_batch :: "string \<Rightarrow> string + batch_outcome"
  ev_write_meta :: "string + unit"

definition effective_config :: "manifest \<Rightarrow> run_request \<Rightarrow> obj" where
  "effective_config m rq = fold (\<lambda>(k, v) c. bt_insert k v c) (rq_config_overrides rq) (mf_config m)"

definition effective_limit :: "run_request \<Rightarrow> nat option" where
  "effective_limit rq =
     (case rq_row_limit rq of
        Some n \<Rightarrow> Some n
      | None \<Rightarrow> if rq_dry_run rq then Some (rq_dry_run_sample rq) else None)"

definition reader_config_of :: "run_request \<Rightarrow> reader_config" where
  "reader_config_of rq =
     \<lparr> rd_skip_seqs = rq_skip_seqs rq, rd_only_row_ids = map_option set (rq_only_row_ids rq),
       rd_row_limit = effective_limit rq, rd_field_map = rq_field_map rq, rd_dry_run = rq_dry_run rq \<rparr>"

definition runtime_of :: "manifest \<Rightarrow> runtime" where
  "runtime_of m = (case mf_runtime m of None \<Rightarrow> runtime_default | Some rt \<Rightarrow> rt)"

definition pool_config_of :: "manifest \<Rightarrow> run_request \<Rightarrow> streaming_config" where
  "pool_config_of m rq =
     \<lparr> pc_manifest = m, pc_workers = rq_workers rq, pc_run_id = rq_run_id rq, pc_config = effective_config m rq,
       pc_cancel = rq_cancel rq, pc_runtime = runtime_of m,
       pc_jsonl_path = path_join (rq_output_dir rq) ''outcomes.jsonl'', pc_fsync = rq_fsync_outcomes rq,
       pc_stall_timeout = None, pc_stall_poll = None, pc_capture_raw = rq_capture_raw_stdout rq,
       pc_hard = rq_hard_cancel rq \<rparr>"

definition total_rows :: "run_request \<Rightarrow> nat \<Rightarrow> nat" where
  "total_rows rq n = (case rq_only_row_ids rq of Some ids \<Rightarrow> length ids | None \<Rightarrow> n)"

definition inside :: "rel \<Rightarrow> rel \<Rightarrow> bool" where
  "inside p dir = (take (length dir) p = dir)"

record run_effects =
  re_events :: "progress_event list"
  re_snapshot :: snap
  re_meta :: "run_meta option"

definition no_effects :: run_effects where
  "no_effects = \<lparr> re_events = [], re_snapshot = Map.empty, re_meta = None \<rparr>"

definition emit :: "run_request \<Rightarrow> progress_event list \<Rightarrow> run_effects \<Rightarrow> run_effects" where
  "emit rq evs fx = (if rq_progress rq then fx\<lparr> re_events := re_events fx @ evs \<rparr> else fx)"

definition em_dash :: string where "em_dash = [CHR 0xE2, CHR 0x80, CHR 0x94]"

definition show_rel :: "rel \<Rightarrow> string" where "show_rel p = concat (map (\<lambda>n. ''/'' @ n) p)"

text \<open>Steps 1 and 2: the manifest, the output directory, the guard against copying the output into itself.\<close>

definition prepare_dirs :: "run_env \<Rightarrow> run_request \<Rightarrow> string + (manifest \<times> string)" where
  "prepare_dirs env rq =
     (case load_from_dir (ev_read env) (ev_yaml env) (rq_handler_dir rq) of
        Inl e \<Rightarrow> Inl e
      | Inr (m, mpath) \<Rightarrow>
     (case ev_read env mpath of
        Inl e \<Rightarrow> Inl e
      | Inr bytes \<Rightarrow>
     (case ev_create_dir env of
        Inl e \<Rightarrow> Inl e
      | Inr _ \<Rightarrow>
     (case ev_canon env (rq_handler_dir rq) of
        Inl e \<Rightarrow> Inl (''canonicalize handler dir: '' @ e)
      | Inr h \<Rightarrow>
     (case ev_canon env (rq_output_dir rq) of
        Inl e \<Rightarrow> Inl (''canonicalize output dir: '' @ e)
      | Inr out \<Rightarrow>
          if out = h \<or> inside out h then
            Inl (''output_dir ('' @ show_rel out @ '') must not be inside handler dir ('' @ show_rel h @ '') '' @ em_dash @
                 '' handler-snapshot would recursively copy itself. Pick an output_dir outside the handler folder.'')
          else Inr (m, manifest_hash (ev_sha env) bytes))))))"

text \<open>Step 3: the format, the two snapshots, the row count, the open stream.\<close>

definition open_run_input :: "run_env \<Rightarrow> run_request \<Rightarrow> manifest \<Rightarrow> (string + (nat \<times> input_stream)) \<times> snap" where
  "open_run_input env rq m =
     (case detect (rq_input rq) (rq_input_format rq) of
        Inl e \<Rightarrow> (Inl (core_error_text e), Map.empty)
      | Inr fmt \<Rightarrow>
     (case ev_copy_input env of
        Inl e \<Rightarrow> (Inl e, Map.empty)
      | Inr _ \<Rightarrow>
     (case snapshot_handler (ev_tree env) (ev_copy_fails env) Map.empty of
        (Inl e, snap) \<Rightarrow> (Inl e, snap)
      | (Inr _, snap) \<Rightarrow>
     (case ev_read env (rq_input rq) of
        Inl e \<Rightarrow> (Inl (''count input rows: '' @ core_error_text (Io e)), snap)
      | Inr content \<Rightarrow>
     (case open_input (ev_json env) (ev_csv env) (ev_text env) (rq_input rq) fmt (mf_required_input m) of
        Inl e \<Rightarrow> (Inl (core_error_text e), snap)
      | Inr s \<Rightarrow> (Inr (count_input_rows content fmt, s), snap))))))"

text \<open>Steps 5 to 7: the pool, the statistics of the file, the report and \<^verbatim>\<open>meta.json\<close>.\<close>

definition stats_of :: "run_stats \<Rightarrow> stats" where
  "stats_of st =
     \<lparr> sa_success = st_success st, sa_failed = st_failed st, sa_by_error_code = st_by_error_code st, sa_avg_dur_ms = 0 \<rparr>"

definition report_of :: "run_request \<Rightarrow> stats \<Rightarrow> pool_report \<Rightarrow> run_report" where
  "report_of rq sa pr =
     \<lparr> rp_success_count = sa_success sa, rp_failed_count = sa_failed sa, rp_by_error_code = sa_by_error_code sa,
       rp_run_dir = rq_output_dir rq, rp_aborted = pr_aborted pr, rp_abort_reason = pr_abort_reason pr \<rparr>"

definition meta_of :: "run_request \<Rightarrow> manifest \<Rightarrow> string \<Rightarrow> nat \<Rightarrow> stats \<Rightarrow> run_meta" where
  "meta_of rq m hsh n sa =
     \<lparr> rn_run_id = rq_run_id rq, rn_parent_run_id = rq_parent_run_id rq, rn_input_path = rq_input rq,
       rn_input_row_count = n, rn_handler = (mf_name m, mf_version m, hsh), rn_config = effective_config m rq,
       rn_stats = sa, rn_dry_run = rq_dry_run rq \<rparr>"

definition run_pool :: "run_env \<Rightarrow> run_request \<Rightarrow> manifest \<Rightarrow> input_stream \<Rightarrow> core_error + pool_report" where
  "run_pool env rq m s =
     run_pool_streaming (pool_config_of m rq)
       (ev_writer env (path_join (rq_output_dir rq) ''outcomes.jsonl'') (rq_fsync_outcomes rq)) (ev_log_ok env) (ev_start env)
       (ev_tasks env (reader_config_of rq) (yield_rows (ev_json env) s))"

definition execute :: "run_env \<Rightarrow> run_request \<Rightarrow> (string + run_report) \<times> run_effects" where
  "execute env rq =
     (case prepare_dirs env rq of
        Inl e \<Rightarrow> (Inl e, no_effects)
      | Inr (m, hsh) \<Rightarrow>
     (case open_run_input env rq m of
        (Inl e, snap) \<Rightarrow> (Inl e, no_effects\<lparr> re_snapshot := snap \<rparr>)
      | (Inr (n, s), snap) \<Rightarrow>
          let fx = emit rq (map (\<lambda>(i, ok). Ev_Row_Done i ok) (ev_done env))
                     (emit rq [Ev_Started (total_rows rq n)] (no_effects\<lparr> re_snapshot := snap \<rparr>)) in
     (case run_pool env rq m s of
        Inl e \<Rightarrow> (Inl (core_error_text e), fx)
      | Inr pr \<Rightarrow>
     (case compute_run_stats (ev_batch env) (ev_outcomes env) of
        Inl e \<Rightarrow> (Inl (''compute_run_stats: '' @ core_error_text e), fx)
      | Inr st \<Rightarrow>
          let fx2 = emit rq [Ev_Completed (st_success st) (st_failed st)] fx; sa = stats_of st in
          (case ev_write_meta env of
             Inl e \<Rightarrow> (Inl e, fx2)
           | Inr _ \<Rightarrow> (Inr (report_of rq sa pr), fx2\<lparr> re_meta := Some (meta_of rq m hsh n sa) \<rparr>))))))"


text \<open>The caller's token after the run.\<close>

definition run_token :: "run_env \<Rightarrow> run_request \<Rightarrow> bool option" where
  "run_token env rq =
     (case prepare_dirs env rq of
        Inl e \<Rightarrow> rq_cancel rq
      | Inr (m, hsh) \<Rightarrow>
     (case fst (open_run_input env rq m) of
        Inl e \<Rightarrow> rq_cancel rq
      | Inr (n, s) \<Rightarrow>
          token_after (pool_config_of m rq)
            (ev_writer env (path_join (rq_output_dir rq) ''outcomes.jsonl'') (rq_fsync_outcomes rq)) (ev_log_ok env) (ev_start env)
            (ev_tasks env (reader_config_of rq) (yield_rows (ev_json env) s))))"


section \<open>What a run guarantees\<close>

lemma execute_fires_token:
  "execute env rq = (Inr rp, fx) \<Longrightarrow> run_token env rq = map_option (\<lambda>_. True) (rq_cancel rq)"
  by (auto simp: execute_def run_token_def run_pool_def Let_def pool_config_of_def dest: report_fires_token
      split: sum.splits prod.splits)

lemma prepare_dirsD:
  assumes "prepare_dirs env rq = Inr (m, hsh)"
  obtains mp bytes h out where "load_from_dir (ev_read env) (ev_yaml env) (rq_handler_dir rq) = Inr (m, mp)"
    "ev_read env mp = Inr bytes" "hsh = manifest_hash (ev_sha env) bytes"
    "ev_canon env (rq_handler_dir rq) = Inr h" "ev_canon env (rq_output_dir rq) = Inr out" "\<not> inside out h"
  using assms by (auto simp: prepare_dirs_def split: sum.splits if_splits)

lemma open_run_input_snap:
  "snd (open_run_input env rq m) = Map.empty \<or>
   snd (open_run_input env rq m) = snd (snapshot_handler (ev_tree env) (ev_copy_fails env) Map.empty)"
  by (auto simp: open_run_input_def split: sum.splits prod.splits)

lemma open_run_inputD:
  assumes "open_run_input env rq m = (Inr (n, s), snap)"
  obtains fmt content where "detect (rq_input rq) (rq_input_format rq) = Inr fmt" "ev_read env (rq_input rq) = Inr content"
    "n = count_input_rows content fmt"
    "open_input (ev_json env) (ev_csv env) (ev_text env) (rq_input rq) fmt (mf_required_input m) = Inr s"
    "snapshot_handler (ev_tree env) (ev_copy_fails env) Map.empty = (Inr (), snap)"
  using assms by (auto simp: open_run_input_def split: sum.splits prod.splits)

lemma emit_snapshot [simp]: "re_snapshot (emit rq evs fx) = re_snapshot fx" "re_meta (emit rq evs fx) = re_meta fx"
  by (simp_all add: emit_def)

lemma emit_events: "re_events (emit rq evs fx) = (if rq_progress rq then re_events fx @ evs else re_events fx)"
  by (simp add: emit_def)

lemma execute_snapshot:
  assumes "re_snapshot (snd (execute env rq)) p = Some e"
  shows "(\<exists>m hsh. prepare_dirs env rq = Inr (m, hsh)) \<and>
     snd (snapshot_handler (ev_tree env) (ev_copy_fails env) Map.empty) p = Some e"
proof (cases "prepare_dirs env rq")
  case (Inl e')
  then show ?thesis using assms by (simp add: execute_def no_effects_def)
next
  case (Inr mh)
  obtain m hsh where mh: "mh = (m, hsh)" by force
  obtain r snap where o: "open_run_input env rq m = (r, snap)" by force
  have "re_snapshot (snd (execute env rq)) = snap"
    using Inr mh o by (auto simp: execute_def no_effects_def Let_def split: sum.splits prod.splits)
  then show ?thesis using open_run_input_snap[of env rq m] assms Inr mh o by auto
qed

text \<open>A run never copies its output into itself. Whatever goes wrong later, anything written to the snapshot means the output
  directory was not inside the handler directory, and it is an entry of the handler's tree outside of the ignored names.\<close>

theorem execute_snapshot_safe:
  assumes "names_ok (ev_tree env)" "re_snapshot (snd (execute env rq)) p = Some e"
  shows "snapshot_at SNAPSHOT_IGNORE (ev_tree env) p = Some e \<and>
     (\<exists>h out. ev_canon env (rq_handler_dir rq) = Inr h \<and> ev_canon env (rq_output_dir rq) = Inr out \<and> \<not> inside out h)"
proof -
  have s: "snd (snapshot_handler (ev_tree env) (ev_copy_fails env) Map.empty) p = Some e"
    using execute_snapshot[OF assms(2)] by blast
  have "snapshot_at SNAPSHOT_IGNORE (ev_tree env) p = Some e"
    using snapshot_handler_sound[OF assms(1), of "ev_copy_fails env"] s unfolding map_le_def by (metis domI)
  then show ?thesis using execute_snapshot[OF assms(2)] prepare_dirsD by metis
qed


text \<open>The configuration a handler gets is the manifest's defaults with the caller's overrides on top, and nothing else.\<close>

theorem effective_config_overlay:
  assumes "bt_ok (mf_config m)" "bt_ok (rq_config_overrides rq)"
  shows "bt_ok (effective_config m rq) \<and>
     bt_lookup (effective_config m rq) k =
       (case bt_lookup (rq_config_overrides rq) k of Some v \<Rightarrow> Some v | None \<Rightarrow> bt_lookup (mf_config m) k)"
proof -
  have "map_of (rev (rq_config_overrides rq)) = map_of (rq_config_overrides rq)"
    using bt_ok_distinct[OF assms(2)] by (subst map_of_inject_set) (simp_all add: rev_map[symmetric])
  then show ?thesis
    using btm.good_fold_ins[OF assms(1), of "rq_config_overrides rq"] btm.look_fold_ins[OF assms(1), of "rq_config_overrides rq" k]
    by (simp add: effective_config_def bt_lookup_def split: option.splits)
qed


definition demo_env :: run_env where
  "demo_env = \<lparr> ev_read = (\<lambda>p. Inr ''a''), ev_yaml = (\<lambda>_. Inr (demo_manifest\<lparr> mf_config := [(''k'', JNull), (''l'', JBool False)] \<rparr>)),
     ev_sha = (\<lambda>_. ''ff''), ev_create_dir = Inr (), ev_canon = (\<lambda>p. Inr [p]), ev_copy_input = Inr (), ev_tree = demo_tree,
     ev_copy_fails = None, ev_json = demo_json, ev_csv = (\<lambda>_. Inl ''no csv''), ev_text = (\<lambda>_. Inr [Inr ''a'']),
     ev_writer = (\<lambda>p fs. jsonl_open_writer p fs None None 0), ev_log_ok = True, ev_start = (\<lambda>_. Inl (Other ''spawn'')),
     ev_tasks = (\<lambda>_ _ _ _. demo_ends), ev_done = [(0, True)],
     ev_outcomes = Content ''x'', ev_batch = (\<lambda>_. Inr \<lparr> bo_first_seq = 0, bo_seqs = [0], bo_outcomes = [Success 0 [] 7] \<rparr>),
     ev_write_meta = Inr () \<rparr>"

definition demo_request :: run_request where
  "demo_request = \<lparr> rq_run_id = ''r'', rq_parent_run_id = None, rq_handler_dir = ''h'', rq_input = ''in.jsonl'', rq_output_dir = ''o'',
     rq_workers = 1, rq_dry_run = False, rq_dry_run_sample = 0, rq_row_limit = None, rq_skip_seqs = {}, rq_field_map = [],
     rq_config_overrides = [(''l'', JBool True)], rq_progress = True, rq_cancel = None, rq_input_format = None, rq_fsync_outcomes = False,
     rq_capture_raw_stdout = False, rq_only_row_ids = None, rq_hard_cancel = None \<rparr>"

lemma demo_names_ok: "names_ok demo_tree"
  by code_simp

lemma demo_prepare:
  "rq_output_dir rq \<noteq> rq_handler_dir rq \<Longrightarrow> prepare_dirs demo_env rq =
    Inr (demo_manifest\<lparr> mf_config := [(''k'', JNull), (''l'', JBool False)] \<rparr>, ''sha256:ff'')"
  by (simp add: prepare_dirs_def demo_env_def load_from_dir_def demo_manifest_def inside_def manifest_hash_def)

lemma demo_snapshot: "fst (snapshot_handler demo_tree None Map.empty) = Inr ()"
    "snd (snapshot_handler demo_tree None Map.empty) = snapshot_at SNAPSHOT_IGNORE demo_tree"
  using run_ops_calm snapshot_handler_complete[OF demo_names_ok, of None] by (simp_all add: snapshot_handler_def del: run_ops.simps)

lemma demo_detect: "detect (rq_input demo_request) (rq_input_format demo_request) = Inr Jsonl"
  by code_simp

lemma demo_count: "count_input_rows ''a'' Jsonl = 1"
  by code_simp

lemma demo_open: "jsonl_open demo_json [] [Inr ''a''] = Inr (Jsonl_Stream (Some [(''k'', JString ''a'')]) [])"
  by code_simp

lemma demo_stats: "compute_run_stats (ev_batch demo_env) (ev_outcomes demo_env) =
    Inr \<lparr> st_success = 1, st_failed = 0, st_by_error_code = [] \<rparr>"
  by code_simp

lemma demo_input:
  "detect (rq_input rq) (rq_input_format rq) = Inr Jsonl \<Longrightarrow> open_run_input demo_env rq (demo_manifest\<lparr> mf_config := cfg \<rparr>) =
    (Inr (1, Jsonl_Stream (Some [(''k'', JString ''a'')]) []), snapshot_at SNAPSHOT_IGNORE demo_tree)"
  using demo_snapshot
  by (cases "snapshot_handler demo_tree None Map.empty")
     (simp add: open_run_input_def,
      simp add: demo_env_def open_input_def demo_manifest_def demo_open demo_count del: jsonl_open.simps)

lemma demo_pool: "\<not> isl (run_pool demo_env rq m s)"
  by (auto simp: run_pool_def run_pool_streaming_def demo_env_def jsonl_open_writer_def pool_report_of_def demo_ends_def Let_def
      split: sum.split)

lemma demo_run:
  assumes "detect (rq_input rq) (rq_input_format rq) = Inr Jsonl" "rq_output_dir rq \<noteq> rq_handler_dir rq"
  shows "\<exists>rp fx. execute demo_env rq = (Inr rp, fx) \<and> re_snapshot fx = snapshot_at SNAPSHOT_IGNORE demo_tree"
proof -
  let ?m = "demo_manifest\<lparr> mf_config := [(''k'', JNull), (''l'', JBool False)] \<rparr>"
  obtain pr where pr: "run_pool demo_env rq ?m (Jsonl_Stream (Some [(''k'', JString ''a'')]) []) = Inr pr"
    using demo_pool[of rq ?m "Jsonl_Stream (Some [(''k'', JString ''a'')]) []"]
    by (cases "run_pool demo_env rq ?m (Jsonl_Stream (Some [(''k'', JString ''a'')]) [])") auto
  have "ev_write_meta demo_env = Inr ()" by (simp add: demo_env_def)
  then show ?thesis
    by (simp add: execute_def demo_prepare[OF assms(2)] demo_input[OF assms(1)] pr demo_stats Let_def no_effects_def)
qed

lemma demo_request_runs:
  "\<exists>rp fx. execute demo_env demo_request = (Inr rp, fx) \<and> re_snapshot fx = snapshot_at SNAPSHOT_IGNORE demo_tree"
proof -
  have "rq_output_dir demo_request \<noteq> rq_handler_dir demo_request" by (simp add: demo_request_def)
  then show ?thesis using demo_run[OF demo_detect] by blast
qed

lemma execute_snapshot_safe_witness:
  "snapshot_at SNAPSHOT_IGNORE demo_tree [''a.py''] = Some (Snap_File ''x'')"
proof -
  have "re_snapshot (snd (execute demo_env demo_request)) [''a.py''] = Some (Snap_File ''x'')"
    using demo_request_runs by (auto simp: demo_tree_def SNAPSHOT_IGNORE_def)
  moreover have "ev_tree demo_env = demo_tree" by (simp add: demo_env_def)
  ultimately show ?thesis using execute_snapshot_safe[of demo_env demo_request] demo_names_ok by metis
qed


lemma effective_config_overlay_witness:
  "bt_lookup (effective_config (demo_manifest\<lparr> mf_config := [(''k'', JNull), (''l'', JBool False)] \<rparr>) demo_request) ''l'' = Some (JBool True)"
proof -
  have "bt_ok (mf_config (demo_manifest\<lparr> mf_config := [(''k'', JNull), (''l'', JBool False)] \<rparr>))" by code_simp
  moreover have "bt_ok (rq_config_overrides demo_request)" by code_simp
  ultimately show ?thesis
    using effective_config_overlay[of "demo_manifest\<lparr> mf_config := [(''k'', JNull), (''l'', JBool False)] \<rparr>" demo_request "''l''"]
    by (simp add: demo_request_def bt_lookup_def)
qed

end
