(* ===== verification/Build_Gate.thy ===== *)
theory Build_Gate
  imports Runtime_Manifest Core_Error
begin

text \<open>
  The build gate of a handler (\<^verbatim>\<open>build.rs\<close>): when a handler must be built and what running its build command gives. The file system
  is an argument: the directory's entries, the modification time of the binary, whether a name is found on the path.
  Text is its UTF-8 bytes, so a slice of it can fall inside a character, where the code panics (\<open>None\<close>).
\<close>

section \<open>Definitions\<close>

record dir_entry =
  de_name :: string
  de_is_file :: "bool option"
  de_mtime :: "nat option"

definition SOURCE_EXTS :: "string list" where
  "SOURCE_EXTS = [''go'', ''rs'', ''py'', ''js'', ''ts'', ''mjs'', ''java'', ''kt'', ''kts'', ''scala'', ''c'', ''cpp'', ''h'', ''hpp'', ''cs'', ''zig'']"

definition source_mtime :: "dir_entry \<Rightarrow> nat option" where
  "source_mtime e =
     (if de_is_file e \<noteq> Some True then None
      else if (case path_extension (de_name e) of None \<Rightarrow> [] | Some x \<Rightarrow> x) \<notin> set SOURCE_EXTS then None
      else de_mtime e)"

definition max_step :: "dir_entry \<Rightarrow> nat option \<Rightarrow> nat option" where
  "max_step e cur =
     (case source_mtime e of None \<Rightarrow> cur
      | Some m \<Rightarrow> Some (case cur of None \<Rightarrow> m | Some c \<Rightarrow> max c m))"

definition max_source_mtime :: "dir_entry list option \<Rightarrow> nat option" where
  "max_source_mtime entries = (case entries of None \<Rightarrow> None | Some es \<Rightarrow> fold max_step es None)"

fun trim_dot_slash :: "string \<Rightarrow> string" where
  "trim_dot_slash (a # b # s) = (if a = CHR ''.'' \<and> b = CHR ''/'' then trim_dot_slash s else a # b # s)"
| "trim_dot_slash s = s"

definition needs_build ::
    "(string \<Rightarrow> bool) \<Rightarrow> (path \<Rightarrow> nat option) \<Rightarrow> dir_entry list option \<Rightarrow> path \<Rightarrow> manifest \<Rightarrow> bool" where
  "needs_build on_path mtime entries dir m =
     (if en_build (mf_entry m) = None then False
      else (case en_cmd (mf_entry m) of
          [] \<Rightarrow> False
        | cmd # _ \<Rightarrow>
            if starts_with cmd ''/'' then False
            else if CHR ''/'' \<notin> set cmd \<and> \<not> starts_with cmd ''.'' \<and> on_path cmd then False
            else (case mtime (path_join dir (trim_dot_slash cmd)) of
                None \<Rightarrow> True
              | Some bin \<Rightarrow> (case max_source_mtime entries of None \<Rightarrow> False | Some src \<Rightarrow> src > bin))))"

record build_outcome =
  bd_exit_code :: int
  bd_command :: "string list"
  bd_stdout :: string
  bd_stderr :: string

datatype build_error =
    No_Build_Command
  | Toolchain_Missing string
  | Build_Failed int string build_outcome
  | Build_Io string

text \<open>\<^verbatim>\<open>str::is_char_boundary\<close>: a byte that continues a character has the two top bits 10.\<close>

definition continues :: "char \<Rightarrow> bool" where
  "continues c = (128 \<le> (of_char c :: nat) \<and> (of_char c :: nat) < 192)"

definition char_boundary :: "string \<Rightarrow> nat \<Rightarrow> bool" where
  "char_boundary s i = (i = 0 \<or> i = length s \<or> (i < length s \<and> \<not> continues (s ! i)))"

definition slice_from :: "nat \<Rightarrow> string \<Rightarrow> string option" where
  "slice_from i s = (if char_boundary s i then Some (drop i s) else None)"

text \<open>What running the command gives: an error, or the exit code (none for a signal) and the two outputs.\<close>

definition run_build ::
    "(string \<Rightarrow> bool) \<Rightarrow> (string list \<Rightarrow> string + (int option \<times> string \<times> string)) \<Rightarrow> manifest
      \<Rightarrow> (build_error + build_outcome) option" where
  "run_build on_path exec m =
     (case en_build (mf_entry m) of
        None \<Rightarrow> Some (Inl No_Build_Command)
      | Some cmd \<Rightarrow>
         (case cmd of
            [] \<Rightarrow> Some (Inl No_Build_Command)
          | tool # args \<Rightarrow>
             if \<not> on_path tool then Some (Inl (Toolchain_Missing tool))
             else (case exec cmd of
                 Inl e \<Rightarrow> Some (Inl (Build_Io e))
               | Inr (code, out, err) \<Rightarrow>
                   (let exit_code = (case code of None \<Rightarrow> - 1 | Some c \<Rightarrow> c);
                        b = \<lparr> bd_exit_code = exit_code, bd_command = cmd, bd_stdout = out, bd_stderr = err \<rparr> in
                    if exit_code \<noteq> 0 then
                      (case slice_from (length err - 500) err of
                         None \<Rightarrow> None
                       | Some tail \<Rightarrow> Some (Inl (Build_Failed exit_code tail b)))
                    else Some (Inr b)))))"

section \<open>When to build\<close>

lemma fold_max_step:
  "fold max_step es cur = None \<longleftrightarrow> cur = None \<and> (\<forall>e\<in>set es. source_mtime e = None)"
  by (induction es arbitrary: cur) (auto simp: max_step_def split: option.splits)

lemma fold_max_above:
  "fold max_step es cur = Some x \<Longrightarrow> x > b \<longleftrightarrow> (\<exists>c. cur = Some c \<and> c > b) \<or> (\<exists>e\<in>set es. \<exists>m. source_mtime e = Some m \<and> m > b)"
proof (induction es arbitrary: cur)
  case (Cons e es)
  from Cons.IH[of "max_step e cur"] Cons.prems show ?case
    by (cases "source_mtime e"; cases cur) (auto simp: max_step_def max_def)
qed simp

text \<open>A handler is built exactly when it has a build command, its program is a file of the handler, and that file is missing or older
  than some source file lying directly in its directory.\<close>

theorem needs_build_iff:
  "needs_build on_path mtime (Some es) dir m \<longleftrightarrow>
     (case (en_build (mf_entry m), en_cmd (mf_entry m)) of
        (Some _, cmd # _) \<Rightarrow>
          \<not> starts_with cmd ''/'' \<and> (CHR ''/'' \<in> set cmd \<or> starts_with cmd ''.'' \<or> \<not> on_path cmd) \<and>
          (case mtime (path_join dir (trim_dot_slash cmd)) of
             None \<Rightarrow> True
           | Some bin \<Rightarrow> list_ex (\<lambda>e. case source_mtime e of None \<Rightarrow> False | Some t \<Rightarrow> t > bin) es)
      | _ \<Rightarrow> False)"
proof -
  have "(case max_source_mtime (Some es) of None \<Rightarrow> False | Some src \<Rightarrow> src > bin) \<longleftrightarrow>
      list_ex (\<lambda>e. case source_mtime e of None \<Rightarrow> False | Some t \<Rightarrow> t > bin) es" for bin
  proof (cases "fold max_step es None")
    case None
    then have "\<forall>e\<in>set es. source_mtime e = None" using fold_max_step[of es None] by blast
    then show ?thesis using None by (auto simp: max_source_mtime_def list_ex_iff)
  next
    case (Some x)
    then show ?thesis using fold_max_above[OF Some, of bin]
      by (auto simp: max_source_mtime_def list_ex_iff split: option.splits)
  qed
  note eq = this
  show ?thesis
    unfolding needs_build_def eq by (cases "en_build (mf_entry m)"; cases "en_cmd (mf_entry m)") auto
qed

section \<open>The build\<close>

text \<open>Reporting a failed build can itself panic: with a command that runs and fails, the result is the failure with the last
  500 bytes of the error output, unless those bytes start inside a character, and then there is no result.\<close>

theorem failed_build_report:
  assumes "en_build (mf_entry m) = Some (tool # args)" "on_path tool" "exec (tool # args) = Inr (Some c, out, err)" "c \<noteq> 0"
  shows "run_build on_path exec m =
     (if length err > 500 \<and> continues (err ! (length err - 500)) then None
      else Some (Inl (Build_Failed c (drop (length err - 500) err)
        \<lparr> bd_exit_code = c, bd_command = tool # args, bd_stdout = out, bd_stderr = err \<rparr>)))"
  using assms by (auto simp: run_build_def Let_def slice_from_def char_boundary_def)

definition build_manifest :: manifest where
  "build_manifest = \<lparr> mf_name = ''h'', mf_version = ''1'', mf_description = [], mf_language = ''go'',
     mf_entry = entry_of_fields [''./h''] (Some [''go'']) None None None, mf_required_input = [], mf_config = [],
     mf_runtime = None, mf_output = None \<rparr>"

lemma failed_build_report_witness:
  "run_build (\<lambda>_. True) (\<lambda>_. Inr (Some 1, [], CHR 0xC3 # CHR 0xA9 # replicate 499 CHR ''x'')) build_manifest = None"
proof -
  let ?err = "CHR 0xC3 # CHR 0xA9 # replicate 499 CHR ''x''"
  have len: "length ?err = 501" by simp
  have i: "length ?err - 500 = Suc 0" unfolding len by simp
  have "continues (?err ! (length ?err - 500))" unfolding i by (simp add: continues_def)
  moreover have "length ?err > 500" unfolding len by simp
  ultimately show ?thesis
    using failed_build_report[of build_manifest "''go''" "[]" "\<lambda>_. True" "\<lambda>_. Inr (Some 1, [], ?err)" 1 "[]" ?err]
    by (simp add: build_manifest_def entry_of_fields_def)
qed

end
