(* ===== verification/Rerun.thy ===== *)
theory Rerun
  imports Row_Resolution
begin

text \<open>
  The legacy re-run from a failed.csv (\<^verbatim>\<open>rerun.rs\<close>): which error codes are filtered and which columns survive. A CSV file is
  its header and its records, a record that cannot be read an error message.
\<close>

definition ALWAYS_FILTERED :: "string list" where
  "ALWAYS_FILTERED = [ERR_WORKER_CRASH_UNSAFE, ERR_ROW_TOO_LARGE]"

definition FILTERED_BY_DEFAULT :: "string list" where
  "FILTERED_BY_DEFAULT = [ERR_WORKER_CRASH, ERR_CANCELLED]"

definition should_filter :: "string \<Rightarrow> bool \<Rightarrow> bool" where
  "should_filter code include_crash_rows =
     (if code \<in> set ALWAYS_FILTERED then True
      else if code \<in> set FILTERED_BY_DEFAULT then \<not> include_crash_rows
      else False)"

definition looks_like_failed_csv :: "string + string list \<Rightarrow> string + bool" where
  "looks_like_failed_csv header = (case header of Inl e \<Rightarrow> Inl e | Inr hs \<Rightarrow> Inr (''errcode'' \<in> set hs))"

definition kept_column :: "string \<Rightarrow> bool" where
  "kept_column h = (h \<noteq> ''seqid'' \<and> h \<noteq> ''errcode'' \<and> h \<noteq> ''errmessage'' \<and> \<not> starts_with h ''meta_'')"

definition keep_indices :: "string list \<Rightarrow> nat list" where
  "keep_indices hs = filter (\<lambda>i. kept_column (hs ! i)) [0..<length hs]"

definition rerun_row :: "nat option \<Rightarrow> nat list \<Rightarrow> bool \<Rightarrow> string list \<Rightarrow> string list option" where
  "rerun_row code_idx keep include_crash rec =
     (case code_idx of
        Some i \<Rightarrow> if i < length rec \<and> should_filter (rec ! i) include_crash then None
                  else Some (map (\<lambda>k. if k < length rec then rec ! k else []) keep)
      | None \<Rightarrow> Some (map (\<lambda>k. if k < length rec then rec ! k else []) keep))"

fun rerun_rows :: "nat option \<Rightarrow> nat list \<Rightarrow> bool \<Rightarrow> (string + string list) list \<Rightarrow> string + string list list" where
  "rerun_rows code_idx keep include_crash [] = Inr []"
| "rerun_rows code_idx keep include_crash (Inl e # recs) = Inl e"
| "rerun_rows code_idx keep include_crash (Inr rec # recs) =
     (case rerun_rows code_idx keep include_crash recs of
        Inl e \<Rightarrow> Inl e
      | Inr rows \<Rightarrow> Inr (case rerun_row code_idx keep include_crash rec of None \<Rightarrow> rows | Some r \<Rightarrow> r # rows))"

definition prepare_rerun_input ::
    "string list \<Rightarrow> (string + string list) list \<Rightarrow> bool \<Rightarrow> string + (string list \<times> string list list)" where
  "prepare_rerun_input hs recs include_crash =
     (let keep = keep_indices hs in
      case rerun_rows (position ''errcode'' hs) keep include_crash recs of
        Inl e \<Rightarrow> Inl e
      | Inr rows \<Rightarrow> Inr (map (\<lambda>i. hs ! i) keep, rows))"

section \<open>What survives\<close>

lemma rerun_rows_filter:
  "rerun_rows ci keep inc (map Inr recs) = Inr (List.map_filter (rerun_row ci keep inc) recs)"
  by (induction recs) (auto simp: List.map_filter_simps split: option.split)

lemma keep_indices_columns: "map (\<lambda>i. hs ! i) (keep_indices hs) = filter kept_column hs"
proof -
  have "filter kept_column hs = filter kept_column (map (\<lambda>i. hs ! i) [0..<length hs])" by (simp add: map_nth)
  then show ?thesis by (simp add: keep_indices_def filter_map comp_def)
qed

text \<open>A re-run from a failed.csv never re-dispatches an unsafe row. The records kept are exactly those whose code is not filtered, in
  order; a row of a crash of a non-idempotent handler and a row too large are never among them, not even with
  \<^verbatim>\<open>--include-crash-rows\<close>; and the columns are those of the header that are not the protocol's.\<close>

theorem rerun_never_unsafe:
  assumes "position ''errcode'' hs = Some i" "\<forall>rec\<in>set recs. i < length rec"
  shows "\<exists>rows. prepare_rerun_input hs (map Inr recs) inc = Inr (filter kept_column hs, rows) \<and>
     length rows = length (filter (\<lambda>rec. \<not> should_filter (rec ! i) inc) recs) \<and>
     should_filter ERR_WORKER_CRASH_UNSAFE inc \<and> should_filter ERR_ROW_TOO_LARGE inc"
proof -
  have "length (List.map_filter (rerun_row (Some i) keep inc) recs) =
      length (filter (\<lambda>rec. \<not> should_filter (rec ! i) inc) recs)" for keep
    using assms(2) by (induction recs) (auto simp: rerun_row_def List.map_filter_simps)
  then show ?thesis
    using assms(1)
    by (simp add: prepare_rerun_input_def Let_def rerun_rows_filter keep_indices_columns should_filter_def ALWAYS_FILTERED_def)
qed

lemma rerun_never_unsafe_witness:
  "\<exists>rows. prepare_rerun_input [''seqid'', ''errcode'', ''x'']
       (map Inr [[''1'', ''WORKER_CRASH_UNSAFE'', ''a''], [''2'', ''E'', ''b'']]) True = Inr ([''x''], rows) \<and> length rows = 1"
proof -
  have f: "filter kept_column [''seqid'', ''errcode'', ''x''] = [''x'']" by code_simp
  have s: "should_filter ''WORKER_CRASH_UNSAFE'' True" "\<not> should_filter ''E'' True" by code_simp+
  show ?thesis
    using rerun_never_unsafe[of "[''seqid'', ''errcode'', ''x'']" 1
        "[[''1'', ''WORKER_CRASH_UNSAFE'', ''a''], [''2'', ''E'', ''b'']]" True] f s
    by auto
qed

text \<open>The retry of an execution does re-dispatch unsafe rows: a row whose last outcome is a crash of a non-idempotent
  handler, and that never succeeded, is among the rows \<^verbatim>\<open>--retry-failed\<close> runs again, although the runtime specification
  lists that code as not retryable and the re-run from a failed.csv excludes it without an override.\<close>

theorem retry_includes_unsafe:
  assumes "compute_resolution js parse files st e = Inr r" "get_execution st e = Inr (Some x)"
    and "list_attempts_for_execution st (ex_id x) = Inr ats"
    and "row_events parse files ats s = evs @ [(aid, Error_Row s ERR_WORKER_CRASH_UNSAFE m dur d)]"
    and "\<not> list_ex (\<lambda>y. is_success (snd y)) evs"
  shows "s \<in> failed_seqs r \<and> should_filter ERR_WORKER_CRASH_UNSAFE inc"
proof -
  have "row_state r s = row_state_spec (map snd (row_events parse files ats s))"
    using resolution_state_and_canonical[OF assms(1-3)] by simp
  also have "\<dots> = CrashedLast"
    using assms(5) by (simp add: assms(4) row_state_spec_def list_ex_iff classify_failure_def ERR_WORKER_CRASH_UNSAFE_def)
  finally have "row_state r s = CrashedLast" .
  then show ?thesis
    by (simp add: failed_seqs_def in_seqs_where_state[OF resolution_ok[OF assms(1)]] should_filter_def ALWAYS_FILTERED_def)
qed

definition unsafe_parse :: "string \<Rightarrow> string + batch_outcome" where
  "unsafe_parse l = Inr \<lparr> bo_first_seq = 0, bo_seqs = [0], bo_outcomes = [Error_Row 0 ERR_WORKER_CRASH_UNSAFE ''m'' 0 None] \<rparr>"

lemma retry_includes_unsafe_witness:
  "\<exists>r. compute_resolution (\<lambda>_. []) unsafe_parse demo_files demo_store ''e_1'' = Inr r \<and> 0 \<in> failed_seqs r"
proof -
  have "\<not> isl (compute_resolution (\<lambda>_. []) unsafe_parse demo_files demo_store ''e_1'')" by code_simp
  then obtain r where r: "compute_resolution (\<lambda>_. []) unsafe_parse demo_files demo_store ''e_1'' = Inr r"
    by (cases "compute_resolution (\<lambda>_. []) unsafe_parse demo_files demo_store ''e_1''") auto
  then obtain x ats where x: "get_execution demo_store ''e_1'' = Inr (Some x)"
      "list_attempts_for_execution demo_store (ex_id x) = Inr ats" by (rule compute_resolutionD)
  have "ex_id x = ''e_1''" using get_execution_id[OF x(1)] by simp
  moreover have "map_sum id (\<lambda>ats. row_events unsafe_parse demo_files ats 0) (list_attempts_for_execution demo_store ''e_1'')
      = Inr ([] @ [(''r_1'', Error_Row 0 ERR_WORKER_CRASH_UNSAFE ''m'' 0 None)])" by code_simp
  ultimately have "row_events unsafe_parse demo_files ats 0 = [] @ [(''r_1'', Error_Row 0 ERR_WORKER_CRASH_UNSAFE ''m'' 0 None)]"
    using x(2) by simp
  from retry_includes_unsafe[OF r x this] show ?thesis using r by simp
qed

end
