(* ===== verification/Cli_Exec.thy ===== *)
theory Cli_Exec
  imports Run_Execute Build_Gate Export Rerun Store_Invariants
begin

text \<open>
  The command line (\<^verbatim>\<open>rowforge-cli\<close>: \<^verbatim>\<open>exec_cmd.rs\<close>, \<^verbatim>\<open>run_cmd.rs\<close>, the exit codes of \<^verbatim>\<open>main.rs\<close>): one attempt of an execution
  from the flags to the exit code, with the registry it changes. What it prints is not modelled here (\<open>Cli_Main\<close> has what commands but a run print); what it meets outside is a field of
  \<open>cli_env\<close>. No other process changes the registry meanwhile.
\<close>

section \<open>Flags\<close>

record run_args =
  ra_exec_id :: string
  ra_handler :: path
  ra_sample :: "nat option"
  ra_dry_run :: bool
  ra_workers :: nat
  ra_config :: "(string \<times> string) list"
  ra_field_map :: "(string \<times> string) list"
  ra_force :: bool
  ra_retry_failed :: bool
  ra_fsync_outcomes :: bool

definition parse_kv :: "string \<Rightarrow> string + (string \<times> string)" where
  "parse_kv s =
     (case split_once ''='' s of
        None \<Rightarrow> Inl (''expected K=V, got '' @ [CHR 0x27] @ s @ [CHR 0x27])
      | Some kv \<Rightarrow> Inr kv)"

text \<open>How a command ends: an exit code, an error of \<^verbatim>\<open>anyhow\<close>, \<^verbatim>\<open>process::exit\<close>, or a panic.\<close>

datatype cli_result = Code int | Failed string | Process_Exit int | Panic

record cli_env =
  ce_show :: "json \<Rightarrow> string"
  ce_parse :: "string \<Rightarrow> string + batch_outcome"
  ce_files :: "path \<Rightarrow> text_file"
  ce_run :: run_env
  ce_on_path :: "string \<Rightarrow> bool"
  ce_mtime :: "path \<Rightarrow> nat option"
  ce_entries :: "dir_entry list option"
  ce_exec :: "string list \<Rightarrow> string + (int option \<times> string \<times> string)"
  ce_hi_ulid :: string
  ce_at_ulid :: string
  ce_now :: time
  ce_end :: time
  ce_dir_fails :: fuse
  ce_db_fails :: fuse
  ce_json :: "string \<Rightarrow> json option"
  ce_is_file :: "path \<Rightarrow> bool"

definition parse_config :: "(string \<Rightarrow> json option) \<Rightarrow> (string \<times> string) list \<Rightarrow> obj" where
  "parse_config js kvs =
     bt_from_list (map (\<lambda>(k, v). (k, case js v of Some j \<Rightarrow> j | None \<Rightarrow> JString v)) kvs)"

section \<open>One attempt\<close>

definition skip_seqs_for :: "cli_env \<Rightarrow> store \<Rightarrow> execution \<Rightarrow> run_args \<Rightarrow> core_error + nat set" where
  "skip_seqs_for env st x a =
     (if ra_force a then Inr {}
      else (case compute_resolution (ce_show env) (ce_parse env) (ce_files env) st (ex_id x) of
          Inl e \<Rightarrow> Inl e
        | Inr res \<Rightarrow>
            if ra_retry_failed a then Inr ({0..<ex_input_row_count x} - failed_seqs res)
            else Inr (attempted_seqs res)))"

text \<open>The build gate: \<open>None\<close> lets the attempt go on.\<close>

definition build_gate :: "cli_env \<Rightarrow> path \<Rightarrow> manifest \<Rightarrow> cli_result option" where
  "build_gate env dir m =
     (if needs_build (ce_on_path env) (ce_mtime env) (ce_entries env) dir m then
        (case run_build (ce_on_path env) (ce_exec env) m of
           None \<Rightarrow> Some Panic
         | Some (Inr _) \<Rightarrow> None
         | Some (Inl No_Build_Command) \<Rightarrow> Some Panic
         | Some (Inl _) \<Rightarrow> Some (Process_Exit 2))
      else None)"

definition prepare_attempt ::
    "cli_env \<Rightarrow> store \<Rightarrow> run_args \<Rightarrow> cli_result + (execution \<times> nat set \<times> manifest \<times> string \<times> path)" where
  "prepare_attempt env st a =
     (case get_execution st (ra_exec_id a) of
        Inl e \<Rightarrow> Inl (Failed (core_error_text e))
      | Inr None \<Rightarrow> Inl (Failed (''execution not found: '' @ ra_exec_id a))
      | Inr (Some x) \<Rightarrow>
     (case skip_seqs_for env st x a of
        Inl e \<Rightarrow> Inl (Failed (core_error_text e))
      | Inr skip \<Rightarrow>
     (case load_from_dir (ev_read (ce_run env)) (ev_yaml (ce_run env)) (ra_handler a) of
        Inl e \<Rightarrow> Inl (Failed (''load handler manifest: '' @ e))
      | Inr (m, mpath) \<Rightarrow>
     (case ev_read (ce_run env) mpath of
        Inl e \<Rightarrow> Inl (Failed e)
      | Inr bytes \<Rightarrow>
     (case ev_canon (ce_run env) (ra_handler a) of
        Inl e \<Rightarrow> Inl (Failed (''canonicalize '' @ ra_handler a @ '': '' @ e))
      | Inr h \<Rightarrow>
     (case build_gate env (show_rel h) m of
        Some r \<Rightarrow> Inl r
      | None \<Rightarrow> Inr (x, skip, m, ''sha256:'' @ ev_sha (ce_run env) bytes, show_rel h)))))))"

definition find_snapshot :: "cli_env \<Rightarrow> execution \<Rightarrow> path option" where
  "find_snapshot env x =
     List.find (ce_is_file env) (map (path_join (ex_dir x)) [''input.jsonl'', ''input.ndjson'', ''input.csv''])"

definition attempt_request ::
    "cli_env \<Rightarrow> run_args \<Rightarrow> attempt \<Rightarrow> path \<Rightarrow> path \<Rightarrow> nat set \<Rightarrow> run_request" where
  "attempt_request env a att dir input skip =
     \<lparr> rq_run_id = at_id att, rq_parent_run_id = None, rq_handler_dir = dir, rq_input = input, rq_output_dir = at_dir att,
       rq_workers = ra_workers a, rq_dry_run = ra_dry_run a, rq_dry_run_sample = 0, rq_row_limit = ra_sample a,
       rq_skip_seqs = skip, rq_field_map = bt_from_list (ra_field_map a),
       rq_config_overrides = parse_config (ce_json env) (ra_config a), rq_progress = True, rq_cancel = None,
       rq_input_format = None, rq_fsync_outcomes = ra_fsync_outcomes a, rq_capture_raw_stdout = False,
       rq_only_row_ids = None, rq_hard_cancel = None \<rparr>"

definition exit_code :: "run_report \<Rightarrow> int" where
  "exit_code rp = (if rp_aborted rp then 2 else if rp_failed_count rp > 0 then 1 else 0)"

definition finish_of :: "string + run_report \<Rightarrow> finish" where
  "finish_of res =
     (case res of
        Inr rp \<Rightarrow> \<lparr> fi_success_count = rp_success_count rp, fi_failed_count = rp_failed_count rp, fi_aborted = rp_aborted rp,
                    fi_aborted_reason = rp_abort_reason rp, fi_cancelled_reason = None \<rparr>
      | Inl e \<Rightarrow> \<lparr> fi_success_count = 0, fi_failed_count = 0, fi_aborted = True, fi_aborted_reason = Some e,
                    fi_cancelled_reason = None \<rparr>)"

definition dispatch_attempt ::
    "cli_env \<Rightarrow> run_args \<Rightarrow> execution \<Rightarrow> nat set \<Rightarrow> path \<Rightarrow> attempt \<Rightarrow> store \<Rightarrow> cli_result \<times> store" where
  "dispatch_attempt env a x skip dir att st =
     (case find_snapshot env x of
        None \<Rightarrow> (Failed (''no input snapshot found in '' @ ex_dir x), st)
      | Some input \<Rightarrow>
          let res = fst (execute (ce_run env) (attempt_request env a att dir input skip)) in
          (case finish_attempt (at_id att) (finish_of res) (ce_end env) (ce_db_fails env) st of
             (fin, st') \<Rightarrow>
               ((case res of
                   Inl e \<Rightarrow> Failed e
                 | Inr rp \<Rightarrow> (case fin of Inl e \<Rightarrow> Failed (core_error_text e) | Inr _ \<Rightarrow> Code (exit_code rp))), st')))"

definition run_attempt :: "cli_env \<Rightarrow> store \<Rightarrow> run_args \<Rightarrow> cli_result \<times> store" where
  "run_attempt env st a =
     (case prepare_attempt env st a of
        Inl r \<Rightarrow> (r, st)
      | Inr (x, skip, m, hsh, dir) \<Rightarrow>
     (case register_handler_instance (ce_hi_ulid env) (ce_now env)
             \<lparr> nh_handler_id = mf_name m, nh_manifest_hash = hsh, nh_source_snapshot_dir = dir, nh_binary_hash = None \<rparr> st of
        (Inl e, st1) \<Rightarrow> (Failed (core_error_text e), st1)
      | (Inr hi, st1) \<Rightarrow>
     (case create_attempt (ce_at_ulid env) (ce_now env)
             \<lparr> na_execution_id = ex_id x, na_handler_instance_id = hi_id hi, na_parent_attempt_id = None,
               na_source = (case ra_sample a of Some n \<Rightarrow> Sampled (u64_as_u32 n) | None \<Rightarrow> Full),
               na_simulation = (if ra_dry_run a then Dry else Real) \<rparr> (ce_dir_fails env) st1 of
        (Inl e, st2) \<Rightarrow> (Failed (core_error_text e), st2)
      | (Inr att, st2) \<Rightarrow> dispatch_attempt env a x skip dir att st2)))"


section \<open>What an attempt dispatches\<close>

text \<open>C10: What an attempt of an execution dispatches. Unless \<^verbatim>\<open>--force\<close> is given, a row of the input that is resolved is never sent to
  a handler again; without \<^verbatim>\<open>--retry-failed\<close> no row is sent that any finished attempt touched, and with it only rows
  whose last outcome is a failure.\<close>

theorem attempt_respects_history:
  assumes "skip_seqs_for env st x a = Inr skip" "\<not> ra_force a"
    and "j \<in> set (rres_sent (reader_task (reader_config_of (attempt_request env a att dir input skip)) items cancel rx))"
    and "rj_seq j < ex_input_row_count x"
  shows "\<exists>r. compute_resolution (ce_show env) (ce_parse env) (ce_files env) st (ex_id x) = Inr r \<and>
     row_state r (rj_seq j) \<noteq> Resolved \<and>
     (if ra_retry_failed a then rj_seq j \<in> failed_seqs r else row_state r (rj_seq j) = NeverAttempted)"
proof -
  obtain r where r: "compute_resolution (ce_show env) (ce_parse env) (ce_files env) st (ex_id x) = Inr r"
      "skip = (if ra_retry_failed a then {0..<ex_input_row_count x} - failed_seqs r else attempted_seqs r)"
    using assms(1,2) by (auto simp: skip_seqs_for_def split: sum.splits if_splits)
  have "rj_seq j \<notin> skip"
    using sent_wanted[OF assms(3)] by (simp add: wanted_def reader_config_of_def attempt_request_def)
  then have "if ra_retry_failed a then rj_seq j \<in> failed_seqs r else rj_seq j \<notin> attempted_seqs r"
    using assms(4) by (simp add: r(2) split: if_splits)
  then show ?thesis
    using r(1) by (auto simp: failed_seqs_def attempted_seqs_def in_seqs_where_state[OF resolution_ok[OF r(1)]] split: if_splits)
qed

text \<open>A dry run without \<^verbatim>\<open>--sample\<close> dispatches no row at all, although the flag says that it does not limit the rows: the
  request carries a sample size of 0, which the run takes as its limit.\<close>

theorem dry_run_dispatches_nothing:
  assumes "ra_dry_run a" "ra_sample a = None"
  shows "rres_sent (reader_task (reader_config_of (attempt_request env a att dir input skip)) items cancel rx) = []"
proof -
  have "rd_row_limit (reader_config_of (attempt_request env a att dir input skip)) = Some 0"
    using assms by (simp add: reader_config_of_def attempt_request_def effective_limit_def)
  moreover obtain ys where "map (job_of (reader_config_of (attempt_request env a att dir input skip)))
      (take_limit (rd_row_limit (reader_config_of (attempt_request env a att dir input skip)))
        (selected (reader_config_of (attempt_request env a att dir input skip)) items)) =
      rres_sent (reader_task (reader_config_of (attempt_request env a att dir input skip)) items cancel rx) @ ys"
    by (rule reader_prefix_of)
  ultimately show ?thesis by (simp add: take_limit_def)
qed

section \<open>What an attempt leaves\<close>

lemma prepare_attempt_exec:
  "prepare_attempt env st a = Inr (x, skip, m, hsh, dir) \<Longrightarrow> get_execution st (ra_exec_id a) = Inr (Some x)"
  by (auto simp: prepare_attempt_def split: sum.splits option.splits)

lemma prepare_attempt_no_code: "prepare_attempt env st a = Inl r \<Longrightarrow> r \<noteq> Code c"
  by (auto simp: prepare_attempt_def build_gate_def split: sum.splits option.splits build_error.splits if_splits)

lemma run_attempt_cases:
  assumes "run_attempt env st a = (r, st')"
  obtains (before) "st_attempts st' = st_attempts st" "\<forall>c. r \<noteq> Code c"
  | (dispatched) x skip dir att e na st2 where "get_execution st (ra_exec_id a) = Inr (Some x)"
      "st_attempts st2 = st_attempts st @ [new_attempt_row (''r_'' @ ce_at_ulid env) e (ce_now env) na]"
      "at_id att = ''r_'' @ ce_at_ulid env" "find_attempt st (''r_'' @ ce_at_ulid env) = None"
      "dispatch_attempt env a x skip dir att st2 = (r, st')"
proof (cases "prepare_attempt env st a")
  case (Inl r')
  then show ?thesis using assms before prepare_attempt_no_code by (simp add: run_attempt_def)
next
  case (Inr t)
  obtain x skip m hsh dir where t: "t = (x, skip, m, hsh, dir)" by (metis prod_cases5)
  let ?nh = "\<lparr> nh_handler_id = mf_name m, nh_manifest_hash = hsh, nh_source_snapshot_dir = dir, nh_binary_hash = None \<rparr>"
  obtain rh st1 where h: "register_handler_instance (ce_hi_ulid env) (ce_now env) ?nh st = (rh, st1)" by force
  note at1 = register_attempts[OF h]
  show ?thesis
  proof (cases rh)
    case (Inl e)
    then have "st' = st1" "r = Failed (core_error_text e)" using assms Inr t h by (simp_all add: run_attempt_def)
    then show ?thesis using before at1 by blast
  next
    case hi: (Inr hi)
    let ?na = "\<lparr> na_execution_id = ex_id x, na_handler_instance_id = hi_id hi, na_parent_attempt_id = None,
               na_source = (case ra_sample a of Some n \<Rightarrow> Sampled (u64_as_u32 n) | None \<Rightarrow> Full),
               na_simulation = (if ra_dry_run a then Dry else Real) \<rparr>"
    obtain ra st2 where c: "create_attempt (ce_at_ulid env) (ce_now env) ?na (ce_dir_fails env) st1 = (ra, st2)" by force
    have run: "run_attempt env st a =
       (case ra of Inl e \<Rightarrow> (Failed (core_error_text e), st2) | Inr att \<Rightarrow> dispatch_attempt env a x skip dir att st2)"
      unfolding run_attempt_def Inr t by (simp add: h hi c)
    show ?thesis
    proof (cases ra)
      case (Inl e)
      then have "st' = st2" "r = Failed (core_error_text e)" using assms run by simp_all
      moreover have "st_attempts st2 = st_attempts st" using create_attempt_Inl[of _ _ _ _ _ e st2] c Inl at1 by simp
      ultimately show ?thesis using before by blast
    next
      case att: (Inr att)
      have fa: "find_attempt st1 i = find_attempt st i" for i by (simp add: find_attempt_def at1)
      from c att create_attempt_Inr obtain e where "st_attempts st2 = st_attempts st1 @ [new_attempt_row (''r_'' @ ce_at_ulid env) e (ce_now env) ?na]"
          "at_id att = ''r_'' @ ce_at_ulid env" "find_attempt st1 (''r_'' @ ce_at_ulid env) = None" by blast
      then show ?thesis
        using dispatched[OF prepare_attempt_exec[OF Inr[unfolded t]]] assms run att at1 fa by simp
    qed
  qed
qed


lemma dispatch_attempt_state:
  assumes "dispatch_attempt env a x skip dir att st2 = (r, st')" "find_snapshot env x = Some input"
  shows "st' = snd (finish_attempt (at_id att)
      (finish_of (fst (execute (ce_run env) (attempt_request env a att dir input skip)))) (ce_end env) (ce_db_fails env) st2) \<and>
    (\<forall>c. r = Code c \<longrightarrow> (\<exists>rp. fst (execute (ce_run env) (attempt_request env a att dir input skip)) = Inr rp \<and> c = exit_code rp))"
  using assms by (auto simp: dispatch_attempt_def Let_def split: prod.splits sum.splits)


text \<open>The exit code tells the state of the attempt. When the command returns a code it is 0, 1 or 2, the attempt is in the registry
  in a final state, it is aborted exactly for 2, and with 0 it completed without a failed row.\<close>

theorem exit_code_tells_state:
  assumes "run_attempt env st a = (Code c, st')"
  shows "c \<in> {0, 1, 2} \<and> (\<exists>row. find_attempt st' (''r_'' @ ce_at_ulid env) = Some row \<and>
     ar_state row = (if c = 2 then ''aborted'' else ''completed'') \<and> (c = 0 \<longrightarrow> ar_failed_count row = 0))"
proof (cases rule: run_attempt_cases[OF assms])
  case 1
  then show ?thesis by simp
next
  case (2 x skip dir att e na st2)
  obtain input where i: "find_snapshot env x = Some input" using 2(5) by (cases "find_snapshot env x") (auto simp: dispatch_attempt_def)
  obtain rp where rp: "fst (execute (ce_run env) (attempt_request env a att dir input skip)) = Inr rp" "c = exit_code rp"
    using dispatch_attempt_state[OF 2(5) i] by auto
  have "find_attempt st' (''r_'' @ ce_at_ulid env) =
      Some (finish_row (finish_of (Inr rp)) (ce_end env) (new_attempt_row (''r_'' @ ce_at_ulid env) e (ce_now env) na))"
    using dispatch_attempt_state[OF 2(5) i] find_attempt_finished[OF 2(2,4)] 2(3) rp(1) by simp
  then show ?thesis
    unfolding rp(2) by (auto simp: exit_code_def finish_row_state finish_of_def) (simp add: finish_row_def u64_as_i64_def)
qed

text \<open>A handler with an empty build command panics the command. Its build gate says that it must be built when its program is
  missing, the build says that there is no build command, and that arm is marked unreachable.\<close>

theorem empty_build_command_panics:
  assumes "en_build (mf_entry m) = Some []" "en_cmd (mf_entry m) = cmd # args" "\<not> starts_with cmd ''/''"
    and "CHR ''/'' \<in> set cmd" "ce_mtime env (path_join dir (trim_dot_slash cmd)) = None"
  shows "build_gate env dir m = Some Panic"
  using assms by (simp add: build_gate_def needs_build_def run_build_def)


section \<open>A concrete registry and environment\<close>

definition demo_cli :: "bool \<Rightarrow> cli_env" where
  "demo_cli has_input = \<lparr> ce_show = (\<lambda>_. []), ce_parse = demo_parse, ce_files = demo_files, ce_run = demo_env,
     ce_on_path = (\<lambda>_. False), ce_mtime = (\<lambda>_. None), ce_entries = None, ce_exec = (\<lambda>_. Inl []), ce_hi_ulid = ''9'',
     ce_at_ulid = ''2'', ce_now = 20, ce_end = 21, ce_dir_fails = None, ce_db_fails = None, ce_json = (\<lambda>_. None),
     ce_is_file = (\<lambda>p. has_input \<and> file_name p = ''input.jsonl'') \<rparr>"

definition demo_args :: run_args where
  "demo_args = \<lparr> ra_exec_id = ''e_1'', ra_handler = ''h'', ra_sample = None, ra_dry_run = True, ra_workers = 1,
     ra_config = [], ra_field_map = [], ra_force = True, ra_retry_failed = False, ra_fsync_outcomes = False \<rparr>"

definition demo_new :: new_execution where
  "demo_new = \<lparr> nx_name = None, nx_input_csv_id = ''in'', nx_input_csv_path = ''/in'', nx_current_handler_instance_id = None \<rparr>"

definition one_execution :: store where
  "one_execution = (empty_store ''/w'')\<lparr> st_execs := [new_execution_row ''e_1'' ''h'' 1 5 demo_new] \<rparr>"

definition demo_execution :: execution where
  "demo_execution = new_execution_value ''e_1'' (execution_dir one_execution ''e_1'') ''h'' 1 5 demo_new"

lemma one_get: "get_execution (one_execution\<lparr> st_his := hs, st_dirs := ds, st_attempts := ats \<rparr>) ''e_1'' = Inr (Some demo_execution)"
proof -
  have "row_to_execution st (new_execution_row ''e_1'' ''h'' 1 5 demo_new) =
      Inr (new_execution_value ''e_1'' (execution_dir st ''e_1'') ''h'' 1 5 demo_new)" for st
    by (rule row_to_new_execution) simp
  then show ?thesis by (simp add: get_execution_def find_exec_def one_execution_def demo_execution_def execution_dir_def)
qed

lemma one_get': "get_execution one_execution ''e_1'' = Inr (Some demo_execution)"
  using one_get[where hs = "st_his one_execution" and ats = "st_attempts one_execution" and ds = "st_dirs one_execution"] by simp

lemma demo_prepared:
  "prepare_attempt (demo_cli b) one_execution demo_args =
     Inr (demo_execution, {}, demo_manifest\<lparr> mf_config := [(''k'', JNull), (''l'', JBool False)] \<rparr>, ''sha256:ff'', ''/h'')"
  by (simp add: prepare_attempt_def demo_args_def one_get' skip_seqs_for_def demo_cli_def demo_env_def load_from_dir_def
      demo_manifest_def build_gate_def needs_build_def entry_of_fields_def show_rel_def)

lemma demo_execution_open: "ex_state demo_execution = Open" "ex_id demo_execution = ''e_1''" "ex_dir demo_execution = ''/w/executions/e_1''"
  by (simp_all add: demo_execution_def new_execution_value_def execution_dir_def one_execution_def empty_store_def path_join_def
      starts_with_def)

definition with_attempt :: "handler_instance list \<Rightarrow> path set \<Rightarrow> new_attempt \<Rightarrow> store" where
  "with_attempt hs ds na = one_execution\<lparr> st_his := hs, st_dirs := ds, st_attempts := [new_attempt_row ''r_2'' ''e_1'' 20 na] \<rparr>"

lemma demo_attempt_created:
  "\<exists>att hs ds na. run_attempt (demo_cli b) one_execution demo_args =
     dispatch_attempt (demo_cli b) demo_args demo_execution {} ''/h'' att (with_attempt hs ds na) \<and> at_id att = ''r_2'' \<and>
     at_dir att \<noteq> ''/h'' \<and> na_source na = Full \<and> na_simulation na = Dry"
proof -
  have e: "ex_id demo_execution = ''e_1''" "ex_state demo_execution = Open"
    by (simp_all add: demo_execution_def new_execution_value_def)
  have s: "st_his one_execution = []" "st_attempts one_execution = []" "st_home one_execution = ''/w''"
    by (simp_all add: one_execution_def empty_store_def)
  have g: "get_execution (one_execution\<lparr> st_his := hs \<rparr>) ''e_1'' = Inr (Some demo_execution)" for hs
    using one_get[where hs = hs and ats = "st_attempts one_execution" and ds = "st_dirs one_execution"] by simp
  show ?thesis
    unfolding run_attempt_def demo_prepared with_attempt_def
    by (simp add: register_handler_instance_def find_content_def get_handler_instance_def s Let_def
        create_attempt_def g e accepts_attempts_def demo_cli_def find_attempt_def new_attempt_value_def attempt_dir_def
        execution_dir_def path_join_def starts_with_def demo_args_def)
       (intro exI conjI, rule refl, auto)
qed

lemma with_attempt_find:
  "\<exists>row. find_attempt (with_attempt hs ds na) ''r_2'' = Some row \<and> ar_state row = ''running''"
  by (simp add: with_attempt_def find_attempt_def new_attempt_row_def)

lemma with_attempt_finish:
  assumes "na_source na = Full" "na_simulation na = Dry"
  shows "\<not> isl (fst (finish_attempt ''r_2'' fi t None (with_attempt hs ds na)))"
proof -
  let ?row = "finish_row fi t (new_attempt_row ''r_2'' ''e_1'' 20 na)"
  let ?st = "one_execution\<lparr> st_his := hs, st_dirs := ds, st_attempts := [?row] \<rparr>"
  have s: "st_execs one_execution = [new_execution_row ''e_1'' ''h'' 1 5 demo_new]"
    by (simp add: one_execution_def)
  obtain a where a: "row_to_attempt ?st ?row = Inr a" "at_execution_id a = ''e_1''"
  proof -
    have "attempt_row_ok (new_attempt_row ''r_2'' ''e_1'' 20 na)" using assms by (simp add: attempt_row_ok_def new_attempt_row_def)
    then have "attempt_row_ok ?row" by (rule finish_row_ok)
    moreover have "ar_execution_id ?row = ''e_1''" by (simp add: new_attempt_row_def)
    ultimately show ?thesis using attempt_row_parses[of ?row ?st] that by auto
  qed
  have g: "get_execution ?st ''e_1'' = Inr (Some demo_execution)"
    using one_get[where hs = hs and ats = "[?row]" and ds = ds] by simp
  have i: "row_to_execution st (set_state_row Iterating None t (new_execution_row ''e_1'' ''h'' 1 5 demo_new)) \<noteq> Inl e" for st e
    by (simp add: row_to_execution_def set_state_row_def new_execution_row_def execution_state_parse_def)
  have "\<not> isl (fst (set_execution_state ''e_1'' Iterating None t None ?st))"
    using i[simplified] by (auto simp: set_execution_state_def update_exec_def s get_execution_def find_exec_def write_manifest_def Let_def
        split: sum.split)
  moreover have "filter (\<lambda>r. ar_id r = ''r_2'' \<and> ar_state r = ''running'') (st_attempts (with_attempt hs ds na)) \<noteq> []"
    "map (\<lambda>r. if ar_id r = ''r_2'' \<and> ar_state r = ''running'' then finish_row fi t r else r) (st_attempts (with_attempt hs ds na)) = [?row]"
    by (simp_all add: with_attempt_def new_attempt_row_def)
  moreover have "with_attempt hs ds na\<lparr> st_attempts := [?row] \<rparr> = ?st" by (simp add: with_attempt_def)
  moreover have "get_attempt ?st ''r_2'' = Inr (Some a)" by (simp add: get_attempt_def find_attempt_def a)
  ultimately show ?thesis
    by (simp add: finish_attempt_def Let_def a g demo_execution_open split: prod.split)
       (auto split: prod.splits sum.splits)
qed

lemma attempt_respects_history_witness:
  "\<exists>r. compute_resolution (\<lambda>_. []) demo_parse demo_files demo_store ''e_1'' = Inr r \<and> row_state r 1 \<noteq> Resolved \<and> 1 \<in> failed_seqs r"
proof -
  let ?x = "demo_execution\<lparr> ex_input_row_count := 2 \<rparr>"
  let ?a = "demo_args\<lparr> ra_dry_run := False, ra_force := False, ra_retry_failed := True \<rparr>"
  obtain r where r: "compute_resolution (\<lambda>_. []) demo_parse demo_files demo_store ''e_1'' = Inr r" using demo_resolution_ok by blast
  have "map_sum id (\<lambda>r. 1 \<in> failed_seqs r) (compute_resolution (\<lambda>_. []) demo_parse demo_files demo_store ''e_1'') = Inr True"
    by code_simp
  then have f: "1 \<in> failed_seqs r" using r by simp
  have e: "ce_show (demo_cli True) = (\<lambda>_. [])" "ce_parse (demo_cli True) = demo_parse" "ce_files (demo_cli True) = demo_files"
    "ex_id ?x = ''e_1''" by (simp_all add: demo_cli_def demo_execution_def new_execution_value_def)
  have s: "skip_seqs_for (demo_cli True) demo_store ?x ?a = Inr ({0..<2} - failed_seqs r)"
    unfolding skip_seqs_for_def e r by (simp add: demo_args_def)
  let ?q = "reader_config_of (attempt_request (demo_cli True) ?a undefined ''/h'' ''/in'' ({0..<2} - failed_seqs r))"
  have "job_of ?q \<lparr> rs_seq = 1, rs_data = [] \<rparr> \<in> set (rres_sent (reader_task ?q [Inr \<lparr> rs_seq = 1, rs_data = [] \<rparr>] None None))"
    using f by (simp add: reader_task_def wanted_def reader_config_of_def attempt_request_def effective_limit_def demo_args_def)
  from attempt_respects_history[OF s _ this] show ?thesis by (simp add: e r demo_args_def)
qed

lemma dry_run_dispatches_nothing_witness:
  "rres_sent (reader_task (reader_config_of (attempt_request (demo_cli True) demo_args (new_attempt_value ''r_2'' ''e_1'' ''/d'' 20
      \<lparr> na_execution_id = ''e_1'', na_handler_instance_id = ''hi_9'', na_parent_attempt_id = None, na_source = Full,
         na_simulation = Dry \<rparr>) ''/h'' ''/in'' {}))
     [Inr \<lparr> rs_seq = 0, rs_data = [] \<rparr>] None None) = []"
  by (rule dry_run_dispatches_nothing) (simp_all add: demo_args_def)


lemma exit_code_tells_state_witness:
  "\<exists>c st' row. run_attempt (demo_cli True) one_execution demo_args = (Code c, st') \<and> find_attempt st' ''r_2'' = Some row \<and>
     ar_state row \<noteq> ''running''"
proof -
  obtain att hs ds na where a: "run_attempt (demo_cli True) one_execution demo_args =
       dispatch_attempt (demo_cli True) demo_args demo_execution {} ''/h'' att (with_attempt hs ds na)" "at_id att = ''r_2''"
     "at_dir att \<noteq> ''/h''" "na_source na = Full" "na_simulation na = Dry" using demo_attempt_created[of True] by blast
  let ?in = "''/w/executions/e_1/input.jsonl''"
  have "file_name ?in = ''input.jsonl''" "path_extension ?in = Some ''jsonl''" by code_simp+
  then have i: "find_snapshot (demo_cli True) demo_execution = Some ?in" "detect ?in None = Inr Jsonl"
    by (simp_all add: find_snapshot_def demo_execution_open demo_cli_def path_join_def starts_with_def detect_def)
  let ?q = "attempt_request (demo_cli True) demo_args att ''/h'' ?in {}"
  have "detect (rq_input ?q) (rq_input_format ?q) = Inr Jsonl" "rq_output_dir ?q \<noteq> rq_handler_dir ?q"
    using i(2) a(3) by (simp_all add: attempt_request_def)
  from demo_run[OF this] obtain rp where rp: "fst (execute demo_env ?q) = Inr rp" by auto
  have e: "ce_run (demo_cli True) = demo_env" "ce_at_ulid (demo_cli True) = ''2''" "ce_db_fails (demo_cli True) = None"
    by (simp_all add: demo_cli_def)
  obtain y st' where f: "finish_attempt ''r_2'' (finish_of (Inr rp)) (ce_end (demo_cli True)) None (with_attempt hs ds na) = (Inr y, st')"
    using with_attempt_finish[OF a(4,5), of "finish_of (Inr rp)" "ce_end (demo_cli True)" hs ds]
    by (cases "finish_attempt ''r_2'' (finish_of (Inr rp)) (ce_end (demo_cli True)) None (with_attempt hs ds na)";
        cases "fst (finish_attempt ''r_2'' (finish_of (Inr rp)) (ce_end (demo_cli True)) None (with_attempt hs ds na))") auto
  have c: "run_attempt (demo_cli True) one_execution demo_args = (Code (exit_code rp), st')"
    unfolding a(1) dispatch_attempt_def i Let_def e by (simp add: rp f a(2))
  from exit_code_tells_state[OF this] show ?thesis using c by (auto simp: e)
qed

lemma empty_build_command_panics_witness:
  "build_gate (demo_cli True) ''/h'' (demo_manifest\<lparr> mf_entry := entry_of_fields [''./run''] (Some []) None None None \<rparr>) = Some Panic"
  by (rule empty_build_command_panics[of _ "''./run''" "[]"]) (simp_all add: entry_of_fields_def demo_cli_def starts_with_def)


section \<open>The other commands\<close>

datatype cli_state = Cli_Open | Cli_Iterating | Cli_Settled | Cli_Closed | Cli_Abandoned

fun state_of_cli :: "cli_state \<Rightarrow> execution_state" where
  "state_of_cli Cli_Open = Open"
| "state_of_cli Cli_Iterating = Iterating"
| "state_of_cli Cli_Settled = Settled"
| "state_of_cli Cli_Closed = Closed"
| "state_of_cli Cli_Abandoned = Abandoned"

definition cli_set_state :: "string \<Rightarrow> cli_state \<Rightarrow> string option \<Rightarrow> time \<Rightarrow> fuse \<Rightarrow> store \<Rightarrow> cli_result \<times> store" where
  "cli_set_state i s reason now f st =
     (if state_of_cli s = Abandoned \<and> reason = None
      then (Failed ''--reason is required when setting state to abandoned'', st)
      else (case set_execution_state i (state_of_cli s) reason now f st of
          (Inl e, st') \<Rightarrow> (Failed (core_error_text e), st')
        | (Inr _, st') \<Rightarrow> (Code 0, st')))"

datatype cli_format = Cli_Csv | Cli_Jsonl | Cli_Both

record export_args =
  xa_exec_id :: string
  xa_output_dir :: "path option"
  xa_format :: cli_format
  xa_strict :: bool

definition export_opts_of :: "export_args \<Rightarrow> export_opts" where
  "export_opts_of a =
     \<lparr> eo_output_dir = xa_output_dir a,
       eo_format = (case xa_format a of Cli_Csv \<Rightarrow> Export_Csv | Cli_Jsonl \<Rightarrow> Export_Jsonl | Cli_Both \<Rightarrow> Export_Both),
       eo_require_complete = xa_strict a \<rparr>"

definition do_export ::
    "(json \<Rightarrow> string) \<Rightarrow> (string \<Rightarrow> string + batch_outcome) \<Rightarrow> (path \<Rightarrow> text_file) \<Rightarrow> (path \<Rightarrow> string option) \<Rightarrow> string
      \<Rightarrow> store \<Rightarrow> export_args \<Rightarrow> cli_result" where
  "do_export ser parse files io now st a =
     (case fst (export_execution ser parse files io now st (xa_exec_id a) (export_opts_of a)) of
        Inr _ \<Rightarrow> Code 0
      | Inl e \<Rightarrow> if contains (core_error_text e) ''export_incomplete:'' then Code 3 else Failed (core_error_text e))"

text \<open>\<^verbatim>\<open>rowforge run\<close>: a failed.csv as input is filtered into a temporary file first. \<open>header\<close> and \<open>recs\<close> are the CSV reading of the
  input, \<open>tmp\<close> the temporary path, \<open>env\<close> what the run meets with a given reading of that path.\<close>

record run_cmd_args =
  rc_handler :: path
  rc_input :: path
  rc_output_dir :: path
  rc_workers :: nat
  rc_dry_run :: bool
  rc_dry_run_sample :: nat
  rc_field_map :: "(string \<times> string) list"
  rc_config :: "(string \<times> string) list"
  rc_quiet :: bool
  rc_include_crash_rows :: bool
  rc_parent_run_id :: "string option"

definition run_cmd_request :: "(string \<Rightarrow> json option) \<Rightarrow> string \<Rightarrow> run_cmd_args \<Rightarrow> path \<Rightarrow> run_request" where
  "run_cmd_request js run_id a input =
     \<lparr> rq_run_id = run_id, rq_parent_run_id = rc_parent_run_id a, rq_handler_dir = rc_handler a, rq_input = input,
       rq_output_dir = rc_output_dir a, rq_workers = rc_workers a, rq_dry_run = rc_dry_run a,
       rq_dry_run_sample = rc_dry_run_sample a, rq_row_limit = None, rq_skip_seqs = {},
       rq_field_map = bt_from_list (rc_field_map a), rq_config_overrides = parse_config js (rc_config a),
       rq_progress = (\<not> rc_quiet a), rq_cancel = None, rq_input_format = None, rq_fsync_outcomes = False,
       rq_capture_raw_stdout = False, rq_only_row_ids = None, rq_hard_cancel = None \<rparr>"

definition effective_input ::
    "string + string list \<Rightarrow> (string + string list) list \<Rightarrow> path \<Rightarrow> run_cmd_args
      \<Rightarrow> string + (path \<times> (string list \<times> string list list) option)" where
  "effective_input header recs tmp a =
     (case looks_like_failed_csv header of
        Inl e \<Rightarrow> Inl e
      | Inr False \<Rightarrow> Inr (rc_input a, None)
      | Inr True \<Rightarrow>
          (case header of
             Inl e \<Rightarrow> Inl (''preparing rerun input: '' @ e)
           | Inr hs \<Rightarrow>
               (case prepare_rerun_input hs recs (rc_include_crash_rows a) of
                  Inl e \<Rightarrow> Inl (''preparing rerun input: '' @ e)
                | Inr csv \<Rightarrow> Inr (tmp, Some csv))))"

definition run_command ::
    "(string \<Rightarrow> json option) \<Rightarrow> string \<Rightarrow> string + string list \<Rightarrow> (string + string list) list \<Rightarrow> path
      \<Rightarrow> ((string list \<times> string list list) option \<Rightarrow> run_env) \<Rightarrow> run_cmd_args \<Rightarrow> cli_result" where
  "run_command js run_id header recs tmp env a =
     (case effective_input header recs tmp a of
        Inl e \<Rightarrow> Failed e
      | Inr (input, csv) \<Rightarrow>
          (case fst (execute (env csv) (run_cmd_request js run_id a input)) of
             Inl e \<Rightarrow> Failed e
           | Inr rp \<Rightarrow> Code (exit_code rp)))"

text \<open>The process's exit code.\<close>

definition to_lowercase :: "string \<Rightarrow> string" where
  "to_lowercase s = map ascii_lower s"

definition map_error_to_exit_code :: "string \<Rightarrow> int" where
  "map_error_to_exit_code e =
     (if contains (to_lowercase e) ''startup timeout'' \<or> contains (to_lowercase e) ''all workers'' then 2 else 3)"

datatype process_end = Exits int | Aborts

definition exec_exit :: "cli_result \<Rightarrow> process_end" where
  "exec_exit r = (case r of Code c \<Rightarrow> Exits c | Failed _ \<Rightarrow> Exits 3 | Process_Exit c \<Rightarrow> Exits c | Panic \<Rightarrow> Aborts)"

definition run_exit :: "cli_result \<Rightarrow> process_end" where
  "run_exit r =
     (case r of Code c \<Rightarrow> Exits c | Failed e \<Rightarrow> Exits (map_error_to_exit_code e) | Process_Exit c \<Rightarrow> Exits c | Panic \<Rightarrow> Aborts)"

text \<open>A \<^verbatim>\<open>key=value\<close> flag is split at its first equals sign: the key has none, the value may.\<close>

theorem parse_kv_roundtrip:
  assumes "CHR ''='' \<notin> set k"
  shows "parse_kv (k @ ''='' @ v) = Inr (k, v)"
proof -
  have "split_once ''='' (k @ ''='' @ v) = Some (k, v)"
    using assms by (induction k) (auto simp: starts_with_def)
  then show ?thesis by (simp add: parse_kv_def)
qed

lemma parse_kv_roundtrip_witness: "parse_kv ''a=b=c'' = Inr (''a'', ''b=c'')"
  using parse_kv_roundtrip[of "''a''" "''b=c''"] by simp

lemma contains_infix: "contains (a @ p @ b) p"
proof (induction a)
  case Nil
  have "starts_with (p @ b) p" by (rule starts_with_append)
  then show ?case by (cases "p @ b") (auto simp: starts_with_def)
qed simp

lemma strict_refusal:
  assumes "get_execution st e = Inr (Some x)" "compute_resolution ser parse files st (ex_id x) = Inr r"
    and "collect_aborted_attempts st (ex_id x) = Inr aborted" "eo_require_complete opts" "rc_never_attempted (rr_counts r) > 0"
  shows "fst (export_execution ser parse files io now st e opts) =
     Inl (Store (''export_incomplete:'' @ nat_str (rc_never_attempted (rr_counts r))))"
  using assms by (simp add: export_execution_def completeness_of_def Let_def)

text \<open>The exit code of a strict export: with rows never attempted it is 3, and so is the process's.\<close>

theorem strict_export_exit_code:
  assumes "get_execution st (xa_exec_id a) = Inr (Some x)" "compute_resolution ser parse files st (ex_id x) = Inr r"
    and "collect_aborted_attempts st (ex_id x) = Inr aborted" "xa_strict a" "rc_never_attempted (rr_counts r) > 0"
  shows "do_export ser parse files io now st a = Code 3 \<and> exec_exit (do_export ser parse files io now st a) = Exits 3"
proof -
  have "eo_require_complete (export_opts_of a)" using assms(4) by (simp add: export_opts_of_def)
  moreover have "contains (''store: export_incomplete:'' @ s) ''export_incomplete:''" for s
    using contains_infix[of "''store: ''" "''export_incomplete:''" s] by simp
  ultimately show ?thesis
    using strict_refusal[OF assms(1-3) _ assms(5), of "export_opts_of a" io now]
    by (simp add: do_export_def exec_exit_def del: contains.simps)
qed


lemma strict_export_exit_code_witness:
  "\<exists>a. do_export (\<lambda>_. []) (\<lambda>_. Inl ''bad'') (\<lambda>_. None) (\<lambda>_. None) ''now'' demo_store a = Code 3 \<and> xa_strict a"
proof -
  let ?a = "\<lparr> xa_exec_id = ''e_1'', xa_output_dir = None, xa_format = Cli_Both, xa_strict = True \<rparr>"
  have "map_sum id (\<lambda>r. rc_never_attempted (rr_counts r)) (compute_resolution (\<lambda>_. []) (\<lambda>_. Inl ''bad'') (\<lambda>_. None) demo_store ''e_1'') = Inr 1"
    by code_simp
  then obtain r where r: "compute_resolution (\<lambda>_. []) (\<lambda>_. Inl ''bad'') (\<lambda>_. None) demo_store ''e_1'' = Inr r"
      "rc_never_attempted (rr_counts r) = 1"
    by (cases "compute_resolution (\<lambda>_. []) (\<lambda>_. Inl ''bad'') (\<lambda>_. None) demo_store ''e_1''") auto
  obtain x where x: "get_execution demo_store ''e_1'' = Inr (Some x)" using compute_resolutionD[OF r(1)] by metis
  have i: "ex_id x = ''e_1''" using get_execution_id[OF x] by simp
  have "\<not> isl (collect_aborted_attempts demo_store ''e_1'')" by code_simp
  then obtain ab where "collect_aborted_attempts demo_store ''e_1'' = Inr ab"
    by (cases "collect_aborted_attempts demo_store ''e_1''") auto
  then show ?thesis
    using strict_export_exit_code[of demo_store ?a x "\<lambda>_. []" "\<lambda>_. Inl ''bad''" "\<lambda>_. None" r ab "\<lambda>_. None" "''now''"] x r i
    by (intro exI[of _ ?a]) simp
qed

text \<open>Abandoning an execution from the command line needs a reason: without one nothing changes and the process exits with 3.\<close>

theorem abandon_needs_reason:
  "cli_set_state i Cli_Abandoned None now f st = (Failed ''--reason is required when setting state to abandoned'', st) \<and>
   exec_exit (fst (cli_set_state i Cli_Abandoned None now f st)) = Exits 3"
  by (simp add: cli_set_state_def exec_exit_def)

end
