(* ===== verification/Aggregator.thy ===== *)
theory Aggregator
  imports Complex_Main Prelude
begin

text \<open>
  The progress of a live run (\<^verbatim>\<open>aggregator.rs\<close>, \<^verbatim>\<open>events.rs\<close>): the counters a run's callback updates, the ticks composed from
  them four times a second, and the budget of outcome samples. Each call is one atomic step (the code holds the mutex), returning the
  new state and the events broadcast; an instant is its time in seconds. Rates and tokens are rationals where the code has single precision floats, so
  their rounding is not modelled.
\<close>

section \<open>Events\<close>

datatype phase = Initializing | Snapshotting | Starting | Running_Phase | Cancelling_Phase | Persisting

datatype outcome_kind = Kind_Error | Kind_Crash | Kind_Too_Large

record ui_report =
  ur_processed :: nat
  ur_success :: nat
  ur_failed :: nat
  ur_crashed :: nat
  ur_dur_ms :: nat

record crash_record =
  cr_worker_id :: nat
  cr_last_seq :: "nat option"
  cr_exit_code :: "int option"
  cr_signal :: "int option"
  cr_stderr_tail :: string

datatype abort_reason =
    User_Cancelled
  | Handler_Startup_Timeout nat string
  | All_Workers_Crashed "crash_record list"
  | Stalled nat "nat option"
  | Missing_Required_Input "string list"
  | Snapshot_Hash_Mismatch path string string
  | Orphaned_On_Restart
  | Crashed_Reason string
  | Internal_Reason string

record snapshot =
  sn_processed :: nat
  sn_total :: "nat option"
  sn_success :: nat
  sn_failed :: nat
  sn_crashed :: nat
  sn_in_flight :: nat
  sn_queue_depth :: nat
  sn_phase :: "phase option"
  sn_rate_10s :: rat

record tick_event =
  tk_seq :: nat
  tk_snapshot :: snapshot
  tk_rate_1s :: rat
  tk_eta_ms :: "nat option"

datatype ui_event =
    Phase_Changed phase
  | Worker_Spawned nat
  | Handler_Ready nat string nat
  | Worker_Crashed crash_record
  | Stall_Warning nat
  | Tick tick_event
  | Outcome_Sample nat outcome_kind "string option" "string option" nat
  | Batch_Summary nat nat nat nat nat
  | Pipeline_Warning string string
  | Handler_Stderr nat string
  | Done ui_report
  | Aborted_Event abort_reason phase ui_report

section \<open>The aggregator\<close>

definition TOKENS_PER_SEC :: rat where "TOKENS_PER_SEC = 20"
definition ERROR_BUDGET_RATIO :: rat where "ERROR_BUDGET_RATIO = 9 / 10"

record aggregator =
  ag_snapshot :: snapshot
  ag_tick_seq :: nat
  ag_rate_1s_buf :: "nat list"
  ag_rate_10s_buf :: "nat list"
  ag_last_processed :: nat
  ag_tokens :: rat
  ag_last_refill :: rat

definition snapshot_default :: snapshot where
  "snapshot_default = \<lparr> sn_processed = 0, sn_total = None, sn_success = 0, sn_failed = 0, sn_crashed = 0,
     sn_in_flight = 0, sn_queue_depth = 0, sn_phase = None, sn_rate_10s = 0 \<rparr>"

definition aggregator_new :: "rat \<Rightarrow> aggregator" where
  "aggregator_new now = \<lparr> ag_snapshot = snapshot_default, ag_tick_seq = 0, ag_rate_1s_buf = replicate 4 0,
     ag_rate_10s_buf = replicate 40 0, ag_last_processed = 0, ag_tokens = TOKENS_PER_SEC * ERROR_BUDGET_RATIO,
     ag_last_refill = now \<rparr>"

definition rate_10s :: "aggregator \<Rightarrow> rat" where
  "rate_10s a = of_nat (sum_list (ag_rate_10s_buf a)) / 10"

definition snapshot_of :: "aggregator \<Rightarrow> snapshot" where
  "snapshot_of a = (ag_snapshot a)\<lparr> sn_rate_10s := rate_10s a \<rparr>"

definition set_total :: "nat \<Rightarrow> aggregator \<Rightarrow> aggregator" where
  "set_total n a = a\<lparr> ag_snapshot := (ag_snapshot a)\<lparr> sn_total := Some n \<rparr> \<rparr>"

definition set_phase :: "phase \<Rightarrow> aggregator \<Rightarrow> aggregator \<times> ui_event list" where
  "set_phase p a = (a\<lparr> ag_snapshot := (ag_snapshot a)\<lparr> sn_phase := Some p \<rparr> \<rparr>, [Phase_Changed p])"

definition set_in_flight :: "nat \<Rightarrow> nat \<Rightarrow> aggregator \<Rightarrow> aggregator" where
  "set_in_flight n q a = a\<lparr> ag_snapshot := (ag_snapshot a)\<lparr> sn_in_flight := n, sn_queue_depth := q \<rparr> \<rparr>"

definition refill_tokens :: "rat \<Rightarrow> aggregator \<Rightarrow> aggregator" where
  "refill_tokens now a =
     (let elapsed = now - ag_last_refill a in
      if elapsed > 0 then
        (let refill = elapsed * TOKENS_PER_SEC; cap = TOKENS_PER_SEC * ERROR_BUDGET_RATIO in
         a\<lparr> ag_tokens := min (ag_tokens a + refill * ERROR_BUDGET_RATIO) cap, ag_last_refill := now \<rparr>)
      else a)"

fun count_kind :: "outcome_kind \<Rightarrow> snapshot \<Rightarrow> snapshot" where
  "count_kind Kind_Error s = s\<lparr> sn_failed := sn_failed s + 1 \<rparr>"
| "count_kind Kind_Crash s = s\<lparr> sn_crashed := sn_crashed s + 1 \<rparr>"
| "count_kind Kind_Too_Large s = s\<lparr> sn_failed := sn_failed s + 1 \<rparr>"

definition on_outcome ::
    "rat \<Rightarrow> nat \<Rightarrow> outcome_kind \<Rightarrow> string option \<Rightarrow> string option \<Rightarrow> nat \<Rightarrow> aggregator \<Rightarrow> aggregator \<times> ui_event list" where
  "on_outcome now row kind code msg dur a =
     (let s = ag_snapshot a; a1 = a\<lparr> ag_snapshot := count_kind kind (s\<lparr> sn_processed := sn_processed s + 1 \<rparr>) \<rparr>;
          a2 = refill_tokens now a1 in
      if ag_tokens a2 \<ge> 1 then (a2\<lparr> ag_tokens := ag_tokens a2 - 1 \<rparr>, [Outcome_Sample row kind code msg dur])
      else (a2, []))"

definition on_outcome_success :: "nat \<Rightarrow> nat \<Rightarrow> aggregator \<Rightarrow> aggregator" where
  "on_outcome_success row dur a =
     (let s = ag_snapshot a in
      a\<lparr> ag_snapshot := s\<lparr> sn_processed := sn_processed s + 1, sn_success := sn_success s + 1 \<rparr> \<rparr>)"

text \<open>\<^verbatim>\<open>rotate_left(1)\<close> and the write of the last slot.\<close>

definition slide :: "nat \<Rightarrow> nat list \<Rightarrow> nat list" where
  "slide d buf = (if rotate1 buf = [] then [] else butlast (rotate1 buf) @ [d])"

definition eta_ms :: "snapshot \<Rightarrow> rat \<Rightarrow> nat option" where
  "eta_ms s rate =
     (case sn_total s of
        Some tot \<Rightarrow>
          if rate > 0 \<and> tot \<ge> sn_processed s
          then Some (nat \<lfloor>of_nat (tot - sn_processed s) / rate * 1000\<rfloor>) else None
      | None \<Rightarrow> None)"

definition compose_tick :: "aggregator \<Rightarrow> aggregator \<times> ui_event list" where
  "compose_tick a =
     (let s = ag_snapshot a; delta = sn_processed s - ag_last_processed a;
          a1 = a\<lparr> ag_tick_seq := ag_tick_seq a + 1, ag_last_processed := sn_processed s,
                  ag_rate_1s_buf := slide delta (ag_rate_1s_buf a), ag_rate_10s_buf := slide delta (ag_rate_10s_buf a) \<rparr> in
      (a1, [Tick \<lparr> tk_seq = ag_tick_seq a1, tk_snapshot = s\<lparr> sn_rate_10s := rate_10s a1 \<rparr>,
                   tk_rate_1s = of_nat (sum_list (ag_rate_1s_buf a1)), tk_eta_ms = eta_ms s (rate_10s a1) \<rparr>]))"

definition report_now :: "aggregator \<Rightarrow> nat \<Rightarrow> ui_report" where
  "report_now a dur =
     (let s = snapshot_of a in
      \<lparr> ur_processed = sn_processed s, ur_success = sn_success s, ur_failed = sn_failed s, ur_crashed = sn_crashed s,
        ur_dur_ms = dur \<rparr>)"

definition emit_done :: "nat \<Rightarrow> aggregator \<Rightarrow> ui_event list" where
  "emit_done dur a = [Done (report_now a dur)]"

text \<open>A call of a live aggregator, with the instant it is made.\<close>

datatype agg_call =
    Set_Total nat
  | Set_Phase phase
  | Set_In_Flight nat nat
  | On_Outcome nat outcome_kind "string option" "string option" nat
  | On_Success nat nat
  | Compose_Tick

fun agg_step :: "rat \<Rightarrow> agg_call \<Rightarrow> aggregator \<Rightarrow> aggregator \<times> ui_event list" where
  "agg_step now (Set_Total n) a = (set_total n a, [])"
| "agg_step now (Set_Phase p) a = set_phase p a"
| "agg_step now (Set_In_Flight n q) a = (set_in_flight n q a, [])"
| "agg_step now (On_Outcome r k c m d) a = on_outcome now r k c m d a"
| "agg_step now (On_Success r d) a = (on_outcome_success r d a, [])"
| "agg_step now Compose_Tick a = compose_tick a"

fun agg_run :: "(rat \<times> agg_call) list \<Rightarrow> aggregator \<Rightarrow> aggregator \<times> ui_event list" where
  "agg_run [] a = (a, [])"
| "agg_run ((now, c) # cs) a =
     (let (a1, e1) = agg_step now c a; (a2, e2) = agg_run cs a1 in (a2, e1 @ e2))"

section \<open>Counters\<close>

fun counts_as :: "agg_call \<Rightarrow> nat" where
  "counts_as (On_Outcome _ _ _ _ _) = 1"
| "counts_as (On_Success _ _) = 1"
| "counts_as _ = 0"

definition agg_ok :: "aggregator \<Rightarrow> bool" where
  "agg_ok a = (sn_processed (ag_snapshot a) = sn_success (ag_snapshot a) + sn_failed (ag_snapshot a) + sn_crashed (ag_snapshot a) \<and>
     ag_last_processed a \<le> sn_processed (ag_snapshot a) \<and> length (ag_rate_1s_buf a) = 4 \<and> length (ag_rate_10s_buf a) = 40 \<and>
     0 \<le> ag_tokens a \<and> ag_tokens a \<le> 18)"

named_theorems agg_simps "how a call changes the aggregator"

lemma refill_fields [simp]:
  "ag_snapshot (refill_tokens now a) = ag_snapshot a" "ag_rate_1s_buf (refill_tokens now a) = ag_rate_1s_buf a"
  "ag_rate_10s_buf (refill_tokens now a) = ag_rate_10s_buf a" "ag_last_processed (refill_tokens now a) = ag_last_processed a"
  by (simp_all add: refill_tokens_def Let_def)

lemma count_kind_fields [simp]:
  "sn_processed (count_kind k s) = sn_processed s" "sn_success (count_kind k s) = sn_success s"
  "sn_failed (count_kind k s) + sn_crashed (count_kind k s) = Suc (sn_failed s + sn_crashed s)"
  by (cases k; simp)+

lemma refill_tokens_eq:
  "refill_tokens now a = (if ag_last_refill a < now
     then a\<lparr> ag_tokens := min (ag_tokens a + 18 * (now - ag_last_refill a)) 18, ag_last_refill := now \<rparr> else a)"
proof -
  have "(now - ag_last_refill a) * 20 * (9 / 10) = 18 * (now - ag_last_refill a)" by (simp add: field_simps)
  moreover have "20 * (9 / 10) = (18 :: rat)" by simp
  ultimately show ?thesis unfolding refill_tokens_def Let_def TOKENS_PER_SEC_def ERROR_BUDGET_RATIO_def by (simp only: diff_gt_0_iff_gt)
qed

lemma refill_tokens_bounds: "0 \<le> ag_tokens a \<Longrightarrow> ag_tokens a \<le> 18 \<Longrightarrow> 0 \<le> ag_tokens (refill_tokens now a) \<and> ag_tokens (refill_tokens now a) \<le> 18"
  by (auto simp: refill_tokens_eq min_def)

lemma slide_eq: "buf \<noteq> [] \<Longrightarrow> slide d buf = tl buf @ [d]"
  by (cases buf) (simp_all add: slide_def)

lemma slide_length [simp]: "length (slide d buf) = length buf"
  by (cases "buf = []") (simp_all add: slide_eq, simp add: slide_def)

lemma agg_step_ok:
  assumes "agg_ok a"
  shows "agg_ok (fst (agg_step now c a)) \<and>
     sn_processed (ag_snapshot (fst (agg_step now c a))) = sn_processed (ag_snapshot a) + counts_as c"
proof (cases c)
  case (On_Outcome r k cd m d)
  have "\<And>x y z. sn_failed (count_kind k (x\<lparr> sn_processed := y \<rparr>)) + sn_crashed (count_kind k (x\<lparr> sn_processed := y \<rparr>)) =
      Suc (sn_failed x + sn_crashed x)" by (simp only: count_kind_fields) simp
  then show ?thesis
    using assms refill_tokens_bounds[of "a\<lparr> ag_snapshot := count_kind k ((ag_snapshot a)\<lparr> sn_processed := sn_processed (ag_snapshot a) + 1 \<rparr>) \<rparr>" now]
    by (simp add: On_Outcome on_outcome_def Let_def agg_ok_def add.assoc)
qed (use assms in \<open>simp_all add: agg_ok_def set_total_def set_phase_def set_in_flight_def on_outcome_success_def
      compose_tick_def Let_def\<close>)

lemma agg_new_ok: "agg_ok (aggregator_new t)"
  by (simp add: agg_ok_def aggregator_new_def snapshot_default_def TOKENS_PER_SEC_def ERROR_BUDGET_RATIO_def)

lemma agg_run_ok:
  "agg_ok a \<Longrightarrow> agg_ok (fst (agg_run cs a)) \<and>
     sn_processed (ag_snapshot (fst (agg_run cs a))) = sn_processed (ag_snapshot a) + sum_list (map (counts_as \<circ> snd) cs)"
proof (induction cs arbitrary: a)
  case (Cons x cs)
  obtain now c where x: "x = (now, c)" by force
  show ?case
    using agg_step_ok[OF Cons.prems, of now c] Cons.IH[of "fst (agg_step now c a)"] by (simp add: x split_def Let_def)
qed simp

text \<open>The progress counters add up. After any sequence of calls, the processed rows are the outcomes reported, and they are the
  successes, the failures and the crashes together; the two windows keep their 4 and 40 samples.\<close>

theorem progress_counters:
  "sn_processed (snapshot_of (fst (agg_run cs (aggregator_new t)))) = sum_list (map (counts_as \<circ> snd) cs) \<and>
   agg_ok (fst (agg_run cs (aggregator_new t)))"
  using agg_run_ok[OF agg_new_ok, of cs t] by (simp add: snapshot_of_def aggregator_new_def snapshot_default_def)


section \<open>The sample budget\<close>

fun is_sample :: "ui_event \<Rightarrow> bool" where
  "is_sample (Outcome_Sample _ _ _ _ _) = True"
| "is_sample _ = False"

definition samples :: "ui_event list \<Rightarrow> nat" where
  "samples es = length (filter is_sample es)"

text \<open>Tokens left and samples sent never exceed what the bucket was filled with; instants do not go back.\<close>

lemma agg_step_budget:
  assumes "ag_last_refill a \<le> now"
  shows "ag_last_refill a \<le> ag_last_refill (fst (agg_step now c a)) \<and> ag_last_refill (fst (agg_step now c a)) \<le> now \<and>
     of_nat (samples (snd (agg_step now c a))) + ag_tokens (fst (agg_step now c a)) - 18 * ag_last_refill (fst (agg_step now c a))
       \<le> ag_tokens a - 18 * ag_last_refill a"
proof (cases c)
  case (On_Outcome r k cd m d)
  have "ag_tokens (refill_tokens now x) - 18 * ag_last_refill (refill_tokens now x) \<le> ag_tokens x - 18 * ag_last_refill x \<and>
      ag_last_refill x \<le> ag_last_refill (refill_tokens now x) \<and> ag_last_refill (refill_tokens now x) \<le> now"
    if "ag_last_refill x \<le> now" for x
    using that by (auto simp: refill_tokens_eq min_def algebra_simps)
  from this[of "a\<lparr> ag_snapshot := count_kind k ((ag_snapshot a)\<lparr> sn_processed := sn_processed (ag_snapshot a) + 1 \<rparr>) \<rparr>"]
  show ?thesis using assms by (simp add: On_Outcome on_outcome_def Let_def samples_def)
qed (use assms in \<open>simp_all add: samples_def set_total_def set_phase_def set_in_flight_def on_outcome_success_def compose_tick_def Let_def\<close>)

lemma agg_run_budget:
  assumes "sorted (map fst cs)" "\<forall>x\<in>set cs. ag_last_refill a \<le> fst x \<and> fst x \<le> t"
    and "ag_last_refill a \<le> t"
  shows "of_nat (samples (snd (agg_run cs a))) + ag_tokens (fst (agg_run cs a)) \<le> ag_tokens a + 18 * (t - ag_last_refill a)"
  using assms
proof (induction cs arbitrary: a)
  case Nil
  then show ?case by (simp add: samples_def)
next
  case (Cons x cs)
  obtain now c where x: "x = (now, c)" by force
  let ?b = "fst (agg_step now c a)"
  have st: "ag_last_refill ?b \<le> now" "of_nat (samples (snd (agg_step now c a))) + ag_tokens ?b - 18 * ag_last_refill ?b
       \<le> ag_tokens a - 18 * ag_last_refill a"
    using agg_step_budget[of a now c] Cons.prems(2) x by auto
  have "of_nat (samples (snd (agg_run cs ?b))) + ag_tokens (fst (agg_run cs ?b)) \<le> ag_tokens ?b + 18 * (t - ag_last_refill ?b)"
  proof (rule Cons.IH)
    show "sorted (map fst cs)" "\<forall>y\<in>set cs. ag_last_refill ?b \<le> fst y \<and> fst y \<le> t" "ag_last_refill ?b \<le> t"
      using Cons.prems st(1) x by (auto intro: order_trans)
  qed
  then show ?case using st(2) by (simp add: x split_def Let_def samples_def algebra_simps)
qed

text \<open>The budget of outcome samples. Within t seconds from its creation, an aggregator broadcasts at most 18 samples at once plus 18 per
  second, whatever the failures reported: nine tenths of the 20 per second of the specification.\<close>

theorem sample_budget:
  assumes "sorted (map fst cs)" "\<forall>x\<in>set cs. t0 \<le> fst x \<and> fst x \<le> t0 + t" "0 \<le> t"
  shows "of_nat (samples (snd (agg_run cs (aggregator_new t0)))) \<le> 18 + 18 * t"
proof -
  have "0 \<le> ag_tokens (fst (agg_run cs (aggregator_new t0)))"
    using agg_run_ok[OF agg_new_ok, of cs t0] by (simp add: agg_ok_def)
  moreover have "ag_last_refill (aggregator_new t0) = t0" "ag_tokens (aggregator_new t0) = 18"
    by (simp_all add: aggregator_new_def TOKENS_PER_SEC_def ERROR_BUDGET_RATIO_def)
  ultimately show ?thesis using agg_run_budget[of cs "aggregator_new t0" "t0 + t"] assms by simp
qed

lemma sample_budget_witness:
  "samples (snd (agg_run (replicate 30 (0, On_Outcome 0 Kind_Error None None 0)) (aggregator_new 0))) \<le> 18"
proof -
  have "of_nat (samples (snd (agg_run (replicate 30 (0, On_Outcome 0 Kind_Error None None 0)) (aggregator_new 0)))) \<le> (18 + 18 * 0 :: rat)"
    by (rule sample_budget) (auto simp: sorted_replicate)
  then show ?thesis by simp
qed

section \<open>The rate window\<close>

text \<open>The processed counts that the ticks of a run see.\<close>

fun tick_counts :: "nat \<Rightarrow> (rat \<times> agg_call) list \<Rightarrow> nat list" where
  "tick_counts p [] = []"
| "tick_counts p ((_, c) # cs) = (case c of Compose_Tick \<Rightarrow> [p] | _ \<Rightarrow> []) @ tick_counts (p + counts_as c) cs"

definition diffs :: "nat list \<Rightarrow> nat list" where
  "diffs zs = map2 (\<lambda>x y. y - x) (butlast zs) (tl zs)"

lemma diffs_snoc: "zs \<noteq> [] \<Longrightarrow> diffs (zs @ [r]) = diffs zs @ [r - last zs]"
proof (induction zs)
  case (Cons z zs)
  then show ?case by (cases zs) (simp_all add: diffs_def)
qed simp

lemma diffs_slide: "length zs > 1 \<Longrightarrow> diffs (tl zs @ [r]) = slide (r - last zs) (diffs zs)"
proof -
  assume len: "length zs > 1"
  then obtain x y ys where zs: "zs = x # y # ys" by (cases zs; cases "tl zs") auto
  have "diffs zs = (y - x) # diffs (y # ys)" by (simp add: zs diffs_def)
  then show ?thesis using diffs_snoc[of "y # ys" r] by (simp add: zs slide_eq)
qed

lemma diffs_sum: "sorted zs \<Longrightarrow> zs \<noteq> [] \<Longrightarrow> sum_list (diffs zs) = last zs - hd zs"
proof (induction zs)
  case (Cons z zs)
  show ?case
  proof (cases zs)
    case (Cons y ys)
    have "diffs (z # zs) = (y - z) # diffs zs" by (simp add: Cons diffs_def)
    moreover have "sorted zs" "z \<le> y" "\<forall>x\<in>set ys. y \<le> x" using \<open>sorted (z # zs)\<close> Cons by auto
    moreover from this have "y \<le> last zs" using Cons by auto
    ultimately show ?thesis using Cons.IH Cons by simp
  qed (simp add: diffs_def)
qed simp

definition window :: "nat list \<Rightarrow> nat list" where
  "window P = drop (length P - 41) P"

lemma window_snoc: "length P \<ge> 41 \<Longrightarrow> window (P @ [r]) = tl (window P) @ [r]"
proof -
  assume len: "length P \<ge> 41"
  then have "length P - 40 = Suc (length P - 41)" by simp
  then have "drop (length P - 40) P = tl (drop (length P - 41) P)" by (simp add: drop_Suc tl_drop)
  then show ?thesis using len by (simp add: window_def)
qed

lemma window_length: "length P \<ge> 41 \<Longrightarrow> length (window P) = 41"
  by (simp add: window_def)

lemma agg_step_window:
  fixes c :: agg_call
  assumes "ag_rate_10s_buf a = diffs (window P)" "ag_last_processed a = last P" "length P \<ge> 41"
  defines "P' \<equiv> P @ (case c of Compose_Tick \<Rightarrow> [sn_processed (ag_snapshot a)] | _ \<Rightarrow> [])"
  shows "ag_rate_10s_buf (fst (agg_step now c a)) = diffs (window P') \<and>
     ag_last_processed (fst (agg_step now c a)) = last P' \<and> length P' \<ge> 41"
proof (cases "c = Compose_Tick")
  case True
  have "last (window P) = last P" using assms(3) by (simp add: window_def last_drop)
  then show ?thesis
    using assms(1-3) window_length[OF assms(3)] diffs_slide[of "window P"]
    by (simp add: True P'_def compose_tick_def Let_def window_snoc)
next
  case False
  then show ?thesis
    using assms(1-3)
    by (cases c) (simp_all add: P'_def set_total_def set_phase_def set_in_flight_def on_outcome_success_def on_outcome_def Let_def)
qed

lemma agg_run_window:
  assumes "agg_ok a" "ag_rate_10s_buf a = diffs (window P)" "ag_last_processed a = last P" "length P \<ge> 41"
  shows "ag_rate_10s_buf (fst (agg_run cs a)) = diffs (window (P @ tick_counts (sn_processed (ag_snapshot a)) cs))"
  using assms
proof (induction cs arbitrary: a P)
  case (Cons x cs)
  obtain now c where x: "x = (now, c)" by force
  note st = agg_step_window[OF Cons.prems(2-4), of now c]
  show ?case
    using Cons.IH[of "fst (agg_step now c a)"] st agg_step_ok[OF Cons.prems(1), of now c]
    by (simp add: x split_def Let_def)
qed simp

lemma tick_counts_sorted:
  "sorted (tick_counts p cs) \<and> (\<forall>x\<in>set (tick_counts p cs). p \<le> x)"
proof (induction cs arbitrary: p)
  case (Cons x cs)
  obtain now c where x: "x = (now, c)" by force
  show ?case using Cons.IH[of "p + counts_as c"] by (cases c) (auto simp: x)
qed simp

text \<open>The ten-second rate is a tenth of the rows processed between the latest tick and the tick 40 ticks before it (counting from nothing before the
  first ticks), whatever calls come between the ticks.\<close>

theorem rate_window:
  "rate_10s (fst (agg_run cs (aggregator_new t))) =
     (let P = replicate 41 0 @ tick_counts 0 cs in of_nat (last P - P ! (length P - 41)) / 10)"
proof -
  define P where "P = replicate 41 0 @ tick_counts 0 cs"
  have r: "diffs (window (replicate 41 0)) = replicate 40 0" by code_simp
  have "ag_rate_10s_buf (fst (agg_run cs (aggregator_new t))) = diffs (window P)"
    using agg_run_window[OF agg_new_ok, of t "replicate 41 0" cs] r
    by (simp add: P_def aggregator_new_def snapshot_default_def)
  moreover have "sorted P" using tick_counts_sorted[of 0 cs] by (simp add: P_def sorted_append sorted_replicate)
  then have "sorted (window P)" by (simp add: window_def sorted_wrt_drop)
  moreover have "41 \<le> length P" by (simp add: P_def)
  then have "length P - 41 < length P" by simp
  then have "window P \<noteq> []" "last (window P) = last P" "hd (window P) = P ! (length P - 41)"
    by (simp_all add: window_def last_drop hd_drop_conv_nth)
  ultimately show ?thesis by (simp add: rate_10s_def diffs_sum Let_def P_def[symmetric])
qed

end
