(* ===== verification/Session_Registry.thy ===== *)
theory Session_Registry
  imports Aggregator
begin

text \<open>
  The live runs of a process (\<^verbatim>\<open>session.rs\<close>, \<^verbatim>\<open>run_handle.rs\<close>, \<^verbatim>\<open>error.rs\<close>): a map from run handles to sessions with its two
  concurrency limits. The hash map is a list of sessions with distinct handles; where the code iterates over it, the order of
  the list stands for the map's arbitrary order.
\<close>

section \<open>Definitions\<close>

datatype busy_scope = Per_Exec_Scope | Per_Workspace_Scope

text \<open>\<^verbatim>\<open>ManifestError\<close> of \<^verbatim>\<open>manifest.rs\<close>.\<close>

datatype manifest_error = Manifest_Missing path | Manifest_Parse_Failed string

datatype ui_error =
    Workspace_Locked string
  | Not_Found_Error string
  | Invalid_Arg string
  | Io_Error string
  | Internal_Error string
  | Run_Aborted abort_reason
  | Run_Busy string nat busy_scope
  | Unknown_Handle string
  | Invalid_Input string
  | Duplicate_Exec_Name string
  | Export_Incomplete nat
  | Manifest_Invalid "manifest_error list"
  | Ui_Toolchain_Missing string string
  | Editor_Not_Found
  | Handler_Not_Found string
  | Handler_Exists string
  | Invalid_Handler_Name string
  | Ui_Build_Failed string int
  | Ui_No_Build_Command string
  | Execution_In_Use string
  | Handler_Busy string

datatype run_status = St_Starting | St_Running | St_Cancelling | St_Done | St_Aborted | St_Crashed

datatype cancel_mode = Soft | Hard

record session =
  ss_handle :: string
  ss_execution_id :: string
  ss_attempt_id :: string
  ss_aggregator :: aggregator
  ss_cancelled :: bool
  ss_hard_cancel :: bool
  ss_status :: run_status

record registry =
  rg_sessions :: "session list"
  rg_workspace_limit :: nat
  rg_per_exec_limit :: nat

definition registry_new :: "nat \<Rightarrow> nat \<Rightarrow> registry" where
  "registry_new w p = \<lparr> rg_sessions = [], rg_workspace_limit = w, rg_per_exec_limit = p \<rparr>"

datatype busy_reason = Busy_Per_Exec string | Busy_Workspace nat

definition of_exec :: "string \<Rightarrow> registry \<Rightarrow> session list" where
  "of_exec e rg = filter (\<lambda>s. ss_execution_id s = e) (rg_sessions rg)"

definition can_start :: "string \<Rightarrow> registry \<Rightarrow> busy_reason + unit" where
  "can_start e rg =
     (if length (rg_sessions rg) \<ge> rg_workspace_limit rg then Inl (Busy_Workspace (rg_workspace_limit rg))
      else if length (of_exec e rg) \<ge> rg_per_exec_limit rg then Inl (Busy_Per_Exec e)
      else Inr ())"

definition register :: "session \<Rightarrow> registry \<Rightarrow> registry" where
  "register s rg =
     rg\<lparr> rg_sessions := (if ss_handle s \<in> ss_handle ` set (rg_sessions rg)
        then map (\<lambda>x. if ss_handle x = ss_handle s then s else x) (rg_sessions rg) else rg_sessions rg @ [s]) \<rparr>"

definition get_session :: "string \<Rightarrow> registry \<Rightarrow> session option" where
  "get_session h rg = List.find (\<lambda>s. ss_handle s = h) (rg_sessions rg)"

definition remove_session :: "string \<Rightarrow> registry \<Rightarrow> session option \<times> registry" where
  "remove_session h rg =
     (get_session h rg, rg\<lparr> rg_sessions := filter (\<lambda>s. ss_handle s \<noteq> h) (rg_sessions rg) \<rparr>)"

definition lookup_by_attempt :: "string \<Rightarrow> registry \<Rightarrow> string option" where
  "lookup_by_attempt a rg = map_option ss_handle (List.find (\<lambda>s. ss_attempt_id s = a) (rg_sessions rg))"

definition handles :: "registry \<Rightarrow> string list" where
  "handles rg = map ss_handle (rg_sessions rg)"

definition snapshots :: "registry \<Rightarrow> (string \<times> snapshot) list" where
  "snapshots rg = map (\<lambda>s. (ss_handle s, snapshot_of (ss_aggregator s))) (rg_sessions rg)"

definition has_active_run_for_exec :: "string \<Rightarrow> registry \<Rightarrow> bool" where
  "has_active_run_for_exec e rg = list_ex (\<lambda>s. ss_execution_id s = e) (rg_sessions rg)"

record rollup_tick =
  ro_active_runs :: nat
  ro_total_processed :: nat
  ro_total_failed :: nat
  ro_total_rate :: rat
  ro_slowest_run :: "string option"

text \<open>\<^verbatim>\<open>Iterator::min_by\<close> keeps the first of equal minima.\<close>

fun min_rate :: "(string \<times> snapshot) list \<Rightarrow> (string \<times> snapshot) option" where
  "min_rate [] = None"
| "min_rate (x # xs) =
     (case min_rate xs of
        None \<Rightarrow> Some x
      | Some y \<Rightarrow> if sn_rate_10s (snd y) < sn_rate_10s (snd x) then Some y else Some x)"

definition rollup_of :: "registry \<Rightarrow> rollup_tick" where
  "rollup_of rg =
     (let snaps = snapshots rg in
      \<lparr> ro_active_runs = length snaps, ro_total_processed = sum_list (map (\<lambda>(_, s). sn_processed s) snaps),
        ro_total_failed = sum_list (map (\<lambda>(_, s). sn_failed s + sn_crashed s) snaps),
        ro_total_rate = sum_list (map (\<lambda>(_, s). sn_rate_10s s) snaps),
        ro_slowest_run = map_option fst (min_rate (filter (\<lambda>(_, s). sn_rate_10s s > 0) snaps)) \<rparr>)"

section \<open>The limits\<close>

definition registry_ok :: "registry \<Rightarrow> bool" where
  "registry_ok rg = (distinct (handles rg) \<and> length (rg_sessions rg) \<le> rg_workspace_limit rg \<and>
     list_all (\<lambda>s. length (of_exec (ss_execution_id s) rg) \<le> rg_per_exec_limit rg) (rg_sessions rg))"

text \<open>What a process does with its registry when a start is one step: check and register under one lock, or remove.\<close>

datatype registry_op = Start_Session session | Remove_Session string

fun registry_step :: "registry_op \<Rightarrow> registry \<Rightarrow> registry" where
  "registry_step (Start_Session s) rg = (case can_start (ss_execution_id s) rg of Inl _ \<Rightarrow> rg | Inr _ \<Rightarrow> register s rg)"
| "registry_step (Remove_Session h) rg = snd (remove_session h rg)"

lemma register_fresh:
  "ss_handle s \<notin> set (handles rg) \<Longrightarrow> register s rg = rg\<lparr> rg_sessions := rg_sessions rg @ [s] \<rparr>"
  by (simp add: register_def handles_def)

lemma of_exec_remove: "length (of_exec e (snd (remove_session h rg))) \<le> length (of_exec e rg)"
proof -
  have "length (filter P (filter Q xs)) \<le> length (filter P xs)" for P Q and xs :: "session list"
    by (induction xs) auto
  then show ?thesis by (simp add: of_exec_def remove_session_def)
qed

lemma registry_step_ok:
  assumes "registry_ok rg" "\<forall>s. op = Start_Session s \<longrightarrow> ss_handle s \<notin> set (handles rg)"
  shows "registry_ok (registry_step op rg)"
proof (cases op)
  case (Start_Session s)
  then have f: "ss_handle s \<notin> set (handles rg)" using assms(2) by simp
  show ?thesis
  proof (cases "can_start (ss_execution_id s) rg")
    case (Inr u)
    then have "length (rg_sessions rg) < rg_workspace_limit rg" "length (of_exec (ss_execution_id s) rg) < rg_per_exec_limit rg"
      by (auto simp: can_start_def split: if_splits)
    then show ?thesis
      using assms(1) Start_Session Inr f
      by (auto simp: register_fresh[OF f] registry_ok_def handles_def of_exec_def list_all_iff)
  qed (use assms(1) Start_Session in simp)
next
  case (Remove_Session h)
  have "list_all (\<lambda>s. length (of_exec (ss_execution_id s) (snd (remove_session h rg))) \<le> rg_per_exec_limit rg) (rg_sessions rg)"
    using assms(1) of_exec_remove[of _ h rg] by (auto simp: registry_ok_def list_all_iff intro: order_trans)
  moreover have "distinct (map ss_handle (filter P xs))" if "distinct (map ss_handle xs)" for P and xs :: "session list"
    using that by (simp add: distinct_map_filter)
  ultimately show ?thesis
    using assms(1) Remove_Session
    by (auto simp: registry_ok_def remove_session_def handles_def list_all_iff intro: order_trans[OF length_filter_le])
qed

text \<open>Fresh handles: every start brings a handle that no session has (they are random identifiers).\<close>

fun fresh_starts :: "registry_op list \<Rightarrow> registry \<Rightarrow> bool" where
  "fresh_starts [] rg = True"
| "fresh_starts (Start_Session s # ops) rg =
     (ss_handle s \<notin> set (handles rg) \<and> fresh_starts ops (registry_step (Start_Session s) rg))"
| "fresh_starts (Remove_Session h # ops) rg = fresh_starts ops (registry_step (Remove_Session h) rg)"

text \<open>C28: The concurrency limits hold as long as a start is atomic: whatever starts and ends, one after the other, the process never has more
  sessions than its workspace limit, nor more of one execution than the per-execution limit, and their handles are distinct.\<close>

theorem limits_when_atomic:
  assumes "fresh_starts ops (registry_new w p)"
  shows "registry_ok (fold registry_step ops (registry_new w p))"
proof -
  have "registry_ok (fold registry_step ops rg)" if "registry_ok rg" "fresh_starts ops rg" for rg
    using that
  proof (induction ops arbitrary: rg)
    case (Cons op ops)
    then show ?case using registry_step_ok[of rg op] by (cases op) auto
  qed simp
  moreover have "registry_ok (registry_new w p)" by (simp add: registry_ok_def registry_new_def handles_def)
  ultimately show ?thesis using assms by blast
qed

definition demo_session :: "string \<Rightarrow> string \<Rightarrow> session" where
  "demo_session h e = \<lparr> ss_handle = h, ss_execution_id = e, ss_attempt_id = ''r'', ss_aggregator = aggregator_new 0,
     ss_cancelled = False, ss_hard_cancel = False, ss_status = St_Starting \<rparr>"

lemma limits_when_atomic_witness:
  "registry_ok (fold registry_step [Start_Session (demo_session ''1'' ''e''), Start_Session (demo_session ''2'' ''e''),
     Remove_Session ''1''] (registry_new 3 1)) \<and>
   handles (fold registry_step [Start_Session (demo_session ''1'' ''e''), Start_Session (demo_session ''2'' ''e'')]
     (registry_new 3 1)) = [''1'']"
proof -
  have "fresh_starts [Start_Session (demo_session ''1'' ''e''), Start_Session (demo_session ''2'' ''e''), Remove_Session ''1'']
      (registry_new 3 1)" by code_simp
  moreover have "handles (fold registry_step [Start_Session (demo_session ''1'' ''e''), Start_Session (demo_session ''2'' ''e'')]
     (registry_new 3 1)) = [''1'']" by code_simp
  ultimately show ?thesis using limits_when_atomic by blast
qed

lemma min_rate_in: "min_rate xs = Some x \<Longrightarrow> x \<in> set xs \<and> (\<forall>y\<in>set xs. sn_rate_10s (snd x) \<le> sn_rate_10s (snd y))"
proof (induction xs arbitrary: x)
  case (Cons a xs)
  show ?case
  proof (cases "min_rate xs")
    case None
    then have "xs = []" by (cases xs) (auto split: option.splits if_splits)
    then show ?thesis using Cons.prems by simp
  next
    case (Some y)
    then show ?thesis using Cons.IH[OF Some] Cons.prems by (auto split: if_splits)
  qed
qed simp

text \<open>The rollup names a slowest run exactly when some run has a positive rate, and it is one with the lowest positive rate; runs still filling their
  window are never named.\<close>

theorem rollup_slowest:
  "case ro_slowest_run (rollup_of rg) of
     None \<Rightarrow> list_all (\<lambda>s. sn_rate_10s (snapshot_of (ss_aggregator s)) \<le> 0) (rg_sessions rg)
   | Some h \<Rightarrow> list_ex (\<lambda>s. ss_handle s = h \<and> sn_rate_10s (snapshot_of (ss_aggregator s)) > 0 \<and>
       list_all (\<lambda>x. sn_rate_10s (snapshot_of (ss_aggregator x)) > 0 \<longrightarrow>
          sn_rate_10s (snapshot_of (ss_aggregator s)) \<le> sn_rate_10s (snapshot_of (ss_aggregator x))) (rg_sessions rg)) (rg_sessions rg)"
proof -
  let ?snaps = "filter (\<lambda>(_, s). sn_rate_10s s > 0) (snapshots rg)"
  show ?thesis
  proof (cases "min_rate ?snaps")
    case None
    then have "?snaps = []" by (cases ?snaps) (auto split: option.splits if_splits)
    then show ?thesis
      using None by (auto simp: rollup_of_def Let_def filter_empty_conv snapshots_def list_all_iff)
  next
    case (Some x)
    then obtain s where "s \<in> set (rg_sessions rg)" "x = (ss_handle s, snapshot_of (ss_aggregator s))"
      using min_rate_in[OF Some] by (auto simp: snapshots_def)
    moreover have "ro_slowest_run (rollup_of rg) = Some (fst x)" using Some by (simp add: rollup_of_def Let_def)
    ultimately show ?thesis
      using min_rate_in[OF Some] by (auto simp: list_all_iff list_ex_iff snapshots_def intro!: bexI[of _ s])
  qed
qed

end
