(* ===== verification/Failed_Rows.thy ===== *)
theory Failed_Rows
  imports Row_Resolution Session_Registry
begin

text \<open>
  What the studio reads back from the outcome files (\<^verbatim>\<open>failed.rs\<close>, \<^verbatim>\<open>lib.rs\<close>): the pages of failed rows of an attempt,
  the failed row numbers a re-run starts from, and the history of one row across the attempts. A file is its lines, each possibly
  unreadable; \<open>js\<close> is the JSON parser.
\<close>

section \<open>Pages of failed rows\<close>

record page_query =
  fq_execution_id :: string
  fq_attempt_id :: string
  fq_offset :: nat
  fq_limit :: nat
  fq_code_filter :: "string option"

record failed_row =
  fw_seq :: nat
  fw_code :: "string option"
  fw_message :: "string option"
  fw_kind :: Aggregator.outcome_kind
  fw_data :: json
  fw_dur_ms :: nat

record failed_page =
  fp_rows :: "failed_row list"
  fp_next_offset :: "nat option"
  fp_total_known :: "nat option"

record raw_outcome =
  ro_kind :: string
  ro_seq :: nat
  ro_code :: "string option"
  ro_message :: "string option"
  ro_dur_ms :: "nat option"
  ro_data :: "json option"

text \<open>A field of type \<^verbatim>\<open>Option<T>\<close>: absent or \<^verbatim>\<open>null\<close> is \<^verbatim>\<open>None\<close>; a value of another type fails the whole line.\<close>

definition opt_of :: "(json \<Rightarrow> 'a option) \<Rightarrow> obj \<Rightarrow> string \<Rightarrow> 'a option option" where
  "opt_of f m k =
     (case bt_lookup m k of None \<Rightarrow> Some None | Some JNull \<Rightarrow> Some None | Some v \<Rightarrow> map_option Some (f v))"

definition raw_outcome_of_json :: "json \<Rightarrow> raw_outcome option" where
  "raw_outcome_of_json v =
     Option.bind (as_object v) (\<lambda>m.
     Option.bind (jfield_str m ''type'') (\<lambda>t.
     Option.bind (jfield_u64 m ''seq'') (\<lambda>s.
     Option.bind (opt_of as_str m ''code'') (\<lambda>c.
     Option.bind (opt_of as_str m ''message'') (\<lambda>msg.
     Option.bind (opt_of as_u64 m ''dur_ms'') (\<lambda>d.
     map_option (\<lambda>x. \<lparr> ro_kind = t, ro_seq = s, ro_code = c, ro_message = msg, ro_dur_ms = d, ro_data = x \<rparr>)
       (opt_of Some m ''data'')))))))"

definition raw_batch_of_json :: "json \<Rightarrow> raw_outcome list option" where
  "raw_batch_of_json v =
     Option.bind (as_object v) (\<lambda>m. Option.bind (jfield_list m ''outcomes'') (those_map raw_outcome_of_json))"

definition failed_kind :: "raw_outcome \<Rightarrow> Aggregator.outcome_kind option" where
  "failed_kind ro =
     (if ro_kind ro = ''error'' then Some Kind_Error else if ro_kind ro = ''crash'' then Some Kind_Crash else None)"

definition code_matches :: "page_query \<Rightarrow> raw_outcome \<Rightarrow> bool" where
  "code_matches q ro =
     (case fq_code_filter q of None \<Rightarrow> True | Some f \<Rightarrow> (case ro_code ro of None \<Rightarrow> [] | Some c \<Rightarrow> c) = f)"

definition failed_row_of :: "Aggregator.outcome_kind \<Rightarrow> raw_outcome \<Rightarrow> failed_row" where
  "failed_row_of k ro =
     \<lparr> fw_seq = ro_seq ro, fw_code = ro_code ro, fw_message = ro_message ro, fw_kind = k,
       fw_data = (case ro_data ro of None \<Rightarrow> JNull | Some v \<Rightarrow> v),
       fw_dur_ms = (case ro_dur_ms ro of None \<Rightarrow> 0 | Some d \<Rightarrow> d) \<rparr>"

text \<open>The scan stops when \<open>sc_next\<close> is set.\<close>

record scan =
  sc_rows :: "failed_row list"
  sc_seen :: nat
  sc_next :: "nat option"

fun scan_outcomes :: "page_query \<Rightarrow> nat \<Rightarrow> raw_outcome list \<Rightarrow> scan \<Rightarrow> scan" where
  "scan_outcomes q cap [] st = st"
| "scan_outcomes q cap (ro # os) st =
     (case failed_kind ro of
        None \<Rightarrow> scan_outcomes q cap os st
      | Some k \<Rightarrow>
          if \<not> code_matches q ro then scan_outcomes q cap os st
          else if sc_seen st < fq_offset q then scan_outcomes q cap os (st\<lparr> sc_seen := sc_seen st + 1 \<rparr>)
          else if length (sc_rows st) \<ge> cap then st\<lparr> sc_next := Some (sc_seen st) \<rparr>
          else scan_outcomes q cap os (st\<lparr> sc_rows := sc_rows st @ [failed_row_of k ro], sc_seen := sc_seen st + 1 \<rparr>))"

fun scan_lines :: "(string \<Rightarrow> json option) \<Rightarrow> page_query \<Rightarrow> nat \<Rightarrow> (string + string) list \<Rightarrow> scan \<Rightarrow> string + scan" where
  "scan_lines js q cap [] st = Inr st"
| "scan_lines js q cap (Inl e # ls) st = Inl e"
| "scan_lines js q cap (Inr l # ls) st =
     (case Option.bind (js l) raw_batch_of_json of
        None \<Rightarrow> scan_lines js q cap ls st
      | Some os \<Rightarrow>
          (let st' = scan_outcomes q cap os st in
           if sc_next st' \<noteq> None then Inr st' else scan_lines js q cap ls st'))"

definition PAGE_CAP :: nat where "PAGE_CAP = 500"

definition read_failed_page :: "(string \<Rightarrow> json option) \<Rightarrow> (string + string) list \<Rightarrow> page_query \<Rightarrow> string + failed_page" where
  "read_failed_page js ls q =
     (case scan_lines js q (min (fq_limit q) PAGE_CAP) ls \<lparr> sc_rows = [], sc_seen = 0, sc_next = None \<rparr> of
        Inl e \<Rightarrow> Inl e
      | Inr st \<Rightarrow> Inr \<lparr> fp_rows = sc_rows st, fp_next_offset = sc_next st, fp_total_known = None \<rparr>)"

text \<open>The rows a query asks for, over the whole file.\<close>

definition line_raws :: "(string \<Rightarrow> json option) \<Rightarrow> string \<Rightarrow> raw_outcome list" where
  "line_raws js l = (case Option.bind (js l) raw_batch_of_json of None \<Rightarrow> [] | Some os \<Rightarrow> os)"

definition wanted_row :: "page_query \<Rightarrow> raw_outcome \<Rightarrow> failed_row option" where
  "wanted_row q ro =
     (case failed_kind ro of None \<Rightarrow> None | Some k \<Rightarrow> if code_matches q ro then Some (failed_row_of k ro) else None)"

definition failed_rows_in :: "page_query \<Rightarrow> raw_outcome list \<Rightarrow> failed_row list" where
  "failed_rows_in q os = List.map_filter (wanted_row q) os"

definition all_failed :: "(string \<Rightarrow> json option) \<Rightarrow> page_query \<Rightarrow> string list \<Rightarrow> failed_row list" where
  "all_failed js q ls = failed_rows_in q (concat (map (line_raws js) ls))"

definition page_scan :: "page_query \<Rightarrow> nat \<Rightarrow> failed_row list \<Rightarrow> scan" where
  "page_scan q cap rs =
     \<lparr> sc_rows = take cap (drop (fq_offset q) rs), sc_seen = min (length rs) (fq_offset q + cap),
       sc_next = (if length rs > fq_offset q + cap then Some (fq_offset q + cap) else None) \<rparr>"

lemma failed_rows_simps [simp]:
  "failed_rows_in q [] = []"
  "failed_rows_in q (ro # os) = (case wanted_row q ro of None \<Rightarrow> [] | Some r \<Rightarrow> [r]) @ failed_rows_in q os"
  "failed_rows_in q (xs @ ys) = failed_rows_in q xs @ failed_rows_in q ys"
  by (auto simp: failed_rows_in_def map_filter_simps map_filter_def split: option.split)

lemma scan_stuck: "length rs > fq_offset q + cap \<Longrightarrow> page_scan q cap (rs @ ss) = page_scan q cap rs"
  by (simp add: page_scan_def)

lemma scan_outcomes_page:
  "length rs \<le> fq_offset q + cap \<Longrightarrow>
   scan_outcomes q cap os (page_scan q cap rs) = page_scan q cap (rs @ failed_rows_in q os)"
proof (induction os arbitrary: rs)
  case (Cons ro os)
  show ?case
  proof (cases "wanted_row q ro")
    case None
    then show ?thesis using Cons by (auto simp: wanted_row_def split: option.splits if_splits)
  next
    case (Some r)
    then obtain k where k: "failed_kind ro = Some k" "code_matches q ro" "r = failed_row_of k ro"
      by (auto simp: wanted_row_def split: option.splits if_splits)
    show ?thesis
    proof (cases "length rs < fq_offset q + cap")
      case True
      then have "scan_outcomes q cap (ro # os) (page_scan q cap rs) = scan_outcomes q cap os (page_scan q cap (rs @ [r]))"
        using k by (auto simp: page_scan_def min_def not_less)
      then show ?thesis using Cons.IH[of "rs @ [r]"] True Some by simp
    next
      case False
      then have "scan_outcomes q cap (ro # os) (page_scan q cap rs) = page_scan q cap (rs @ [r])"
        using k Cons.prems by (auto simp: page_scan_def min_def)
      then show ?thesis using False Cons.prems Some scan_stuck[of q cap "rs @ [r]" "failed_rows_in q os"] by simp
    qed
  qed
qed simp

lemma page_scan_next: "sc_next (page_scan q cap rs) = None \<longleftrightarrow> length rs \<le> fq_offset q + cap"
  by (simp add: page_scan_def)

lemma scan_lines_page:
  "length rs \<le> fq_offset q + cap \<Longrightarrow>
   scan_lines js q cap (map Inr ls) (page_scan q cap rs) = Inr (page_scan q cap (rs @ all_failed js q ls))"
proof (induction ls arbitrary: rs)
  case (Cons l ls)
  let ?os = "line_raws js l"
  have all: "all_failed js q (l # ls) = failed_rows_in q ?os @ all_failed js q ls" by (simp add: all_failed_def)
  show ?case
  proof (cases "Option.bind (js l) raw_batch_of_json")
    case None
    then show ?thesis using Cons all by (simp add: line_raws_def)
  next
    case (Some os)
    then have os: "?os = os" by (simp add: line_raws_def)
    have sc: "scan_outcomes q cap os (page_scan q cap rs) = page_scan q cap (rs @ failed_rows_in q os)"
      using scan_outcomes_page[OF Cons.prems] .
    show ?thesis
    proof (cases "length (rs @ failed_rows_in q os) \<le> fq_offset q + cap")
      case True
      then show ?thesis
        using Cons.IH[OF True] Some sc page_scan_next[of q cap "rs @ failed_rows_in q os"] all os by (simp add: Let_def)
    next
      case False
      then show ?thesis
        using Some sc page_scan_next[of q cap "rs @ failed_rows_in q os"] all os
          scan_stuck[of q cap "rs @ failed_rows_in q os" "all_failed js q ls"] by (simp add: Let_def)
    qed
  qed
qed (simp add: all_failed_def)

lemma read_failed_page_slice:
  "read_failed_page js (map Inr ls) q =
     (let cap = min (fq_limit q) PAGE_CAP; rs = all_failed js q ls in
      Inr \<lparr> fp_rows = take cap (drop (fq_offset q) rs),
            fp_next_offset = (if length rs > fq_offset q + cap then Some (fq_offset q + cap) else None),
            fp_total_known = None \<rparr>)"
proof -
  have e: "\<lparr> sc_rows = [], sc_seen = 0, sc_next = None \<rparr> = page_scan q (min (fq_limit q) PAGE_CAP) []"
    by (simp add: page_scan_def)
  show ?thesis
    unfolding read_failed_page_def e using scan_lines_page[of "[]" q "min (fq_limit q) PAGE_CAP" js ls]
    by (simp add: page_scan_def Let_def)
qed


text \<open>A client that follows the cursors, with a bound on the number of pages it asks for.\<close>

fun follow_pages :: "(string \<Rightarrow> json option) \<Rightarrow> string list \<Rightarrow> page_query \<Rightarrow> nat \<Rightarrow> failed_row list option" where
  "follow_pages js ls q 0 = None"
| "follow_pages js ls q (Suc n) =
     (case read_failed_page js (map Inr ls) q of
        Inl e \<Rightarrow> None
      | Inr p \<Rightarrow>
          (case fp_next_offset p of
             None \<Rightarrow> Some (fp_rows p)
           | Some off \<Rightarrow> map_option ((@) (fp_rows p)) (follow_pages js ls (q\<lparr> fq_offset := off \<rparr>) n)))"

lemma all_failed_offset [simp]: "all_failed js (q\<lparr> fq_offset := off \<rparr>) ls = all_failed js q ls"
proof -
  have "code_matches (q\<lparr> fq_offset := off \<rparr>) = code_matches q" by (rule ext) (simp add: code_matches_def)
  then have "wanted_row (q\<lparr> fq_offset := off \<rparr>) = wanted_row q"
    by (intro ext) (simp add: wanted_row_def split: option.split)
  then show ?thesis by (simp add: all_failed_def failed_rows_in_def)
qed

text \<open>The pages of failed rows partition them. A client that starts anywhere and follows the cursors of non-empty pages
  receives every failed row of the file from there on that has the code asked for, once and in the order of the file, after at most one
  page per row; malformed lines are passed over.\<close>

theorem pages_cover:
  assumes "0 < fq_limit q" "length (all_failed js q ls) - fq_offset q < n"
  shows "follow_pages js ls q n = Some (drop (fq_offset q) (all_failed js q ls))"
  using assms
proof (induction n arbitrary: q)
  case (Suc n)
  let ?cap = "min (fq_limit q) PAGE_CAP" and ?rs = "all_failed js q ls"
  have cap: "0 < ?cap" using Suc.prems(1) by (simp add: PAGE_CAP_def)
  show ?case
  proof (cases "length ?rs > fq_offset q + ?cap")
    case True
    have "follow_pages js ls (q\<lparr> fq_offset := fq_offset q + ?cap \<rparr>) n = Some (drop (fq_offset q + ?cap) ?rs)"
      using Suc.IH[of "q\<lparr> fq_offset := fq_offset q + ?cap \<rparr>"] Suc.prems cap True by simp
    moreover have "take ?cap (drop (fq_offset q) ?rs) @ drop (fq_offset q + ?cap) ?rs = drop (fq_offset q) ?rs"
      by (metis append_take_drop_id drop_drop add.commute)
    ultimately show ?thesis using True by (simp add: read_failed_page_slice Let_def)
  next
    case False
    then have "length (drop (fq_offset q) ?rs) \<le> ?cap" by simp linarith
    then have "take ?cap (drop (fq_offset q) ?rs) = drop (fq_offset q) ?rs" by (rule take_all)
    then show ?thesis using False by (simp add: read_failed_page_slice Let_def)
  qed
qed simp

section \<open>Failed rows of an attempt\<close>

definition value_outcomes :: "json \<Rightarrow> json list option" where
  "value_outcomes v = Option.bind (jget v ''outcomes'') as_array"

definition type_of_value :: "json \<Rightarrow> string" where
  "type_of_value v = (case Option.bind (jget v ''type'') as_str of None \<Rightarrow> [] | Some t \<Rightarrow> t)"

definition failed_seq :: "json \<Rightarrow> nat list" where
  "failed_seq v =
     (if type_of_value v \<noteq> ''error'' \<and> type_of_value v \<noteq> ''crash'' then []
      else (case Option.bind (jget v ''seq'') as_u64 of None \<Rightarrow> [] | Some s \<Rightarrow> [s]))"

definition line_failed_seqs :: "(string \<Rightarrow> json option) \<Rightarrow> string + string \<Rightarrow> nat list" where
  "line_failed_seqs js line =
     (case line of
        Inl e \<Rightarrow> []
      | Inr l \<Rightarrow>
          (case Option.bind (js l) value_outcomes of None \<Rightarrow> [] | Some os \<Rightarrow> concat (map failed_seq os)))"

text \<open>The set is a \<^verbatim>\<open>BTreeSet\<close>, so the list is sorted and has no duplicates; no file is no failed row.\<close>

definition failed_row_ids :: "(string \<Rightarrow> json option) \<Rightarrow> text_file \<Rightarrow> nat list" where
  "failed_row_ids js file =
     (case file of None \<Rightarrow> [] | Some ls \<Rightarrow> sorted_list_of_set (set (concat (map (line_failed_seqs js) ls))))"

section \<open>The history of a row\<close>

datatype seq_outcome = Hist_Success | Hist_Failure Aggregator.outcome_kind "string option"

definition value_seq :: "json \<Rightarrow> nat" where
  "value_seq v = (case Option.bind (jget v ''seq'') as_u64 of None \<Rightarrow> 2 ^ 64 - 1 | Some s \<Rightarrow> s)"

definition seq_outcome_of :: "json \<Rightarrow> seq_outcome option" where
  "seq_outcome_of v =
     (if type_of_value v = ''success'' then Some Hist_Success
      else if type_of_value v = ''error'' then Some (Hist_Failure Kind_Error (Option.bind (jget v ''code'') as_str))
      else if type_of_value v = ''crash'' then Some (Hist_Failure Kind_Crash None)
      else None)"

fun read_outcome_for_seq :: "(string \<Rightarrow> json option) \<Rightarrow> nat \<Rightarrow> (string + string) list \<Rightarrow> string + seq_outcome option" where
  "read_outcome_for_seq js sq [] = Inr None"
| "read_outcome_for_seq js sq (Inl e # ls) = Inl e"
| "read_outcome_for_seq js sq (Inr l # ls) =
     (case Option.bind (js l) value_outcomes of
        None \<Rightarrow> read_outcome_for_seq js sq ls
      | Some os \<Rightarrow>
          (case List.find (\<lambda>v. value_seq v = sq) os of
             None \<Rightarrow> read_outcome_for_seq js sq ls
           | Some v \<Rightarrow> Inr (seq_outcome_of v)))"

record row_history =
  rh_seq :: nat
  rh_rows :: "(string \<times> Aggregator.outcome_kind \<times> string option) list"
  rh_resolved_at :: "string option"

definition outcomes_path :: "execution \<Rightarrow> string \<Rightarrow> path" where
  "outcomes_path x aid = path_join (path_join (path_join (ex_dir x) ''attempts'') aid) ''outcomes.jsonl''"

fun history_walk ::
    "(string \<Rightarrow> json option) \<Rightarrow> (path \<Rightarrow> text_file) \<Rightarrow> execution \<Rightarrow> nat \<Rightarrow> attempt list \<Rightarrow> row_history \<Rightarrow> string + row_history" where
  "history_walk js files x sq [] h = Inr h"
| "history_walk js files x sq (a # as) h =
     (case files (outcomes_path x (at_id a)) of
        None \<Rightarrow> history_walk js files x sq as h
      | Some ls \<Rightarrow>
          (case read_outcome_for_seq js sq ls of
             Inl e \<Rightarrow> Inl e
           | Inr None \<Rightarrow> history_walk js files x sq as h
           | Inr (Some Hist_Success) \<Rightarrow> Inr (h\<lparr> rh_resolved_at := Some (at_id a) \<rparr>)
           | Inr (Some (Hist_Failure k c)) \<Rightarrow> history_walk js files x sq as (h\<lparr> rh_rows := rh_rows h @ [(at_id a, k, c)] \<rparr>)))"

definition row_history ::
    "(string \<Rightarrow> json option) \<Rightarrow> (path \<Rightarrow> text_file) \<Rightarrow> store \<Rightarrow> string \<Rightarrow> nat \<Rightarrow> ui_error + row_history" where
  "row_history js files st e sq =
     (case get_execution st e of
        Inl err \<Rightarrow> Inl (Internal_Error (core_error_text err))
      | Inr None \<Rightarrow> Inl (Not_Found_Error (''execution '' @ e @ '' not found''))
      | Inr (Some x) \<Rightarrow>
          (case list_attempts_for_execution st e of
             Inl err \<Rightarrow> Inl (Internal_Error (core_error_text err))
           | Inr ats \<Rightarrow>
               (case history_walk js files x sq ats \<lparr> rh_seq = sq, rh_rows = [], rh_resolved_at = None \<rparr> of
                  Inl err \<Rightarrow> Inl (Io_Error err)
                | Inr h \<Rightarrow> Inr h)))"


section \<open>The two readings of the outcome files agree\<close>

text \<open>The typed reader on top of the same JSON parser.\<close>

definition typed_line :: "(string \<Rightarrow> json option) \<Rightarrow> string \<Rightarrow> string + batch_outcome" where
  "typed_line js l =
     (case Option.bind (js l) batch_outcome_of_json of None \<Rightarrow> Inl ''not a batch of outcomes'' | Some b \<Rightarrow> Inr b)"

fun hist_of :: "row_outcome \<Rightarrow> seq_outcome" where
  "hist_of (Success _ _ _) = Hist_Success"
| "hist_of (Error_Row _ c _ _ _) = Hist_Failure Kind_Error (Some c)"
| "hist_of (Crash _ _ _) = Hist_Failure Kind_Crash None"

lemma outcome_of_json_value:
  "outcome_of_json v = Some r \<Longrightarrow> value_seq v = outcome_seq r \<and> seq_outcome_of v = Some (hist_of r) \<and>
     failed_seq v = (if is_success r then [] else [outcome_seq r])"
  by (auto simp: outcome_of_json_def value_seq_def seq_outcome_of_def type_of_value_def failed_seq_def jget_def
      jfield_str_def jfield_u64_def jfield_obj_def bind_eq_Some_conv split: if_splits)

lemma batch_of_json_values:
  "batch_outcome_of_json v = Some b \<Longrightarrow> \<exists>vs. value_outcomes v = Some vs \<and> those_map outcome_of_json vs = Some (bo_outcomes b)"
  by (auto simp: batch_outcome_of_json_def value_outcomes_def jget_def jfield_list_def bind_eq_Some_conv)

lemma find_typed:
  "those_map outcome_of_json vs = Some os \<Longrightarrow>
   map_option seq_outcome_of (List.find (\<lambda>v. value_seq v = s) vs) = map_option (Some \<circ> hist_of) (List.find (\<lambda>r. outcome_seq r = s) os)"
  by (induction vs arbitrary: os) (auto simp: outcome_of_json_value split: option.splits)

lemma failed_typed:
  "those_map outcome_of_json vs = Some os \<Longrightarrow>
   concat (map failed_seq vs) = map outcome_seq (filter (\<lambda>r. \<not> is_success r) os)"
  by (induction vs arbitrary: os) (auto simp: outcome_of_json_value split: option.splits)

text \<open>A file whose lines are all blank or a batch, as the writer leaves them.\<close>

fun good_line :: "(string \<Rightarrow> json option) \<Rightarrow> string + string \<Rightarrow> bool" where
  "good_line js (Inl e) = False"
| "good_line js (Inr l) = (if trim l = [] then js l = None else \<exists>b. typed_line js l = Inr b)"

lemma good_line_cases:
  assumes "good_line js line"
  obtains (blank) l where "line = Inr l" "js l = None" "line_outcomes (typed_line js) line = []"
  | (batch) l v b where "line = Inr l" "js l = Some v" "batch_outcome_of_json v = Some b"
      "line_outcomes (typed_line js) line = bo_outcomes b"
  using assms by (cases line) (auto simp: typed_line_def bind_eq_Some_conv split: if_splits option.splits)

lemma read_outcome_typed:
  "list_all (good_line js) ls \<Longrightarrow> read_outcome_for_seq js s ls =
     Inr (map_option hist_of (List.find (\<lambda>r. outcome_seq r = s) (file_outcomes (typed_line js) (Some ls))))"
proof (induction ls)
  case (Cons line ls)
  have ls: "list_all (good_line js) ls" using Cons.prems by simp
  from Cons.prems have "good_line js line" by simp
  then show ?case
  proof (cases rule: good_line_cases)
    case (blank l)
    then show ?thesis using Cons.IH[OF ls] by (simp add: file_outcomes_def)
  next
    case (batch l v b)
    obtain vs where vs: "value_outcomes v = Some vs" "those_map outcome_of_json vs = Some (bo_outcomes b)"
      using batch_of_json_values[OF batch(3)] by blast
    show ?thesis
      using Cons.IH[OF ls] find_typed[OF vs(2), of s] batch(1,2,4) vs(1)
      by (auto simp: file_outcomes_def find_append split: option.splits)
  qed
qed (simp add: file_outcomes_def)

lemma failed_row_ids_typed:
  "list_all (good_line js) ls \<Longrightarrow>
   set (failed_row_ids js (Some ls)) = {outcome_seq r |r. r \<in> set (file_outcomes (typed_line js) (Some ls)) \<and> \<not> is_success r}"
proof -
  have "concat (map (line_failed_seqs js) ls) = map outcome_seq (filter (\<lambda>r. \<not> is_success r) (file_outcomes (typed_line js) (Some ls)))"
    if "list_all (good_line js) ls" for ls
    using that
  proof (induction ls)
    case (Cons line ls)
    have ls: "list_all (good_line js) ls" using Cons.prems by simp
    from Cons.prems have "good_line js line" by simp
    then show ?case
    proof (cases rule: good_line_cases)
      case (blank l)
      then show ?thesis using Cons.IH[OF ls] by (simp add: file_outcomes_def line_failed_seqs_def)
    next
      case (batch l v b)
      obtain vs where vs: "value_outcomes v = Some vs" "those_map outcome_of_json vs = Some (bo_outcomes b)"
        using batch_of_json_values[OF batch(3)] by blast
      show ?thesis
        using Cons.IH[OF ls] failed_typed[OF vs(2)] batch(1,2,4) vs(1)
        by (simp add: file_outcomes_def line_failed_seqs_def)
    qed
  qed (simp add: file_outcomes_def)
  then show "list_all (good_line js) ls \<Longrightarrow> ?thesis" by (auto simp: failed_row_ids_def)
qed


definition attempt_path :: "attempt \<Rightarrow> path" where
  "attempt_path a = path_join (at_dir a) ''outcomes.jsonl''"

text \<open>Each attempt lists the row at most once.\<close>

definition row_listed_once :: "(string \<Rightarrow> json option) \<Rightarrow> (path \<Rightarrow> text_file) \<Rightarrow> attempt list \<Rightarrow> nat \<Rightarrow> bool" where
  "row_listed_once js files ats s =
     list_all (\<lambda>a. length (filter (\<lambda>r. outcome_seq r = s) (file_outcomes (typed_line js) (files (attempt_path a)))) \<le> 1) ats"

lemma filter_find: "length (filter P xs) \<le> 1 \<Longrightarrow> filter P xs = (case List.find P xs of None \<Rightarrow> [] | Some x \<Rightarrow> [x])"
  by (induction xs) (auto simp: filter_empty_conv find_none_iff split: option.splits)

lemma ingest_lines_good:
  assumes "\<forall>l. trim l = [] \<longrightarrow> js l = None" "ingest_lines sh (typed_line js) p aid n ls m = Inr m'"
  shows "list_all (good_line js) ls"
  using assms(2)
proof (induction ls arbitrary: n m)
  case (Cons line ls)
  then show ?case using assms(1) by (cases line) (auto split: if_splits sum.splits)
qed simp

lemma walk_good:
  assumes "\<forall>l. trim l = [] \<longrightarrow> js l = None" "fold_result (walk_attempt sh (typed_line js) files) ats w = Inr w'"
    and "a \<in> set ats" "at_state a \<noteq> Running" "files (attempt_path a) = Some ls"
  shows "list_all (good_line js) ls"
  using assms(2,3)
proof (induction ats arbitrary: w)
  case (Cons b ats)
  obtain w1 where w1: "walk_attempt sh (typed_line js) files b w = Inr w1"
      "fold_result (walk_attempt sh (typed_line js) files) ats w1 = Inr w'"
    using Cons.prems(1) by (auto split: sum.splits)
  show ?case
  proof (cases "b = a")
    case True
    then obtain m where "ingest_lines sh (typed_line js) (attempt_path a) (at_id a) 0 ls (wk_per_seq w) = Inr m"
      using w1(1) assms(4,5) by (auto simp: walk_attempt_def ingest_jsonl_def attempt_path_def split: attempt_state.splits sum.splits)
    then show ?thesis by (rule ingest_lines_good[OF assms(1)])
  next
    case False
    then show ?thesis using Cons.IH[OF w1(2)] Cons.prems(2) by simp
  qed
qed simp

fun history_row :: "string \<times> row_outcome \<Rightarrow> string \<times> Aggregator.outcome_kind \<times> string option" where
  "history_row (aid, Error_Row _ c _ _ _) = (aid, Kind_Error, Some c)"
| "history_row (aid, r) = (aid, Kind_Crash, None)"

lemma row_events_Cons:
  assumes "at_state a \<noteq> Running" "row_listed_once js files (a # as) s"
  shows "row_events (typed_line js) files (a # as) s =
     (case List.find (\<lambda>r. outcome_seq r = s) (file_outcomes (typed_line js) (files (attempt_path a))) of
        None \<Rightarrow> [] | Some r \<Rightarrow> [(at_id a, r)]) @ row_events (typed_line js) files as s"
proof -
  have "filter (\<lambda>x. outcome_seq (snd x) = s) (map (Pair (at_id a)) os) = map (Pair (at_id a)) (filter (\<lambda>r. outcome_seq r = s) os)" for os
    by (induction os) auto
  then show ?thesis
    using assms filter_find[of "\<lambda>r. outcome_seq r = s" "file_outcomes (typed_line js) (files (attempt_path a))"]
    by (simp add: row_events_def attempt_events_def row_listed_once_def attempt_path_def split: option.split)
qed

lemma history_walk_events:
  assumes "\<And>a ls. a \<in> set ats \<Longrightarrow> files (attempt_path a) = Some ls \<Longrightarrow> list_all (good_line js) ls"
    and "list_all (\<lambda>a. at_state a \<noteq> Running \<and> outcomes_path x (at_id a) = attempt_path a) ats"
    and "row_listed_once js files ats s" "evs = row_events (typed_line js) files ats s"
  shows "history_walk js files x s ats h = Inr (h\<lparr> rh_rows := rh_rows h @ map history_row (takeWhile (\<lambda>y. \<not> is_success (snd y)) evs),
     rh_resolved_at := (case List.find (\<lambda>y. is_success (snd y)) evs of None \<Rightarrow> rh_resolved_at h | Some y \<Rightarrow> Some (fst y)) \<rparr>)"
  using assms
proof (induction ats arbitrary: h evs)
  case Nil
  then show ?case by (simp add: row_events_def)
next
  case (Cons a as)
  let ?found = "List.find (\<lambda>r. outcome_seq r = s) (file_outcomes (typed_line js) (files (attempt_path a)))"
  have a: "at_state a \<noteq> Running" "outcomes_path x (at_id a) = attempt_path a" using Cons.prems(2) by simp_all
  have as: "row_listed_once js files as s" using Cons.prems(3) by (simp add: row_listed_once_def)
  let ?evs = "row_events (typed_line js) files as s"
  have ih: "history_walk js files x s as h = Inr (h\<lparr> rh_rows := rh_rows h @ map history_row (takeWhile (\<lambda>y. \<not> is_success (snd y)) ?evs),
     rh_resolved_at := (case List.find (\<lambda>y. is_success (snd y)) ?evs of None \<Rightarrow> rh_resolved_at h | Some y \<Rightarrow> Some (fst y)) \<rparr>)" for h
  proof (rule Cons.IH[OF _ _ as refl])
    show "list_all (good_line js) ls" if "b \<in> set as" "files (attempt_path b) = Some ls" for b ls
      using that by (intro Cons.prems(1)[of b]) simp_all
  qed (use Cons.prems(2) in simp)
  have ev: "evs = (case ?found of None \<Rightarrow> [] | Some r \<Rightarrow> [(at_id a, r)]) @ row_events (typed_line js) files as s"
    using row_events_Cons[OF a(1) Cons.prems(3)] Cons.prems(4) by simp
  show ?case
  proof (cases "files (attempt_path a)")
    case None
    then show ?thesis using ih[of h] a ev by (simp add: file_outcomes_def)
  next
    case (Some ls)
    have "read_outcome_for_seq js s ls = Inr (map_option hist_of ?found)"
      using read_outcome_typed[OF Cons.prems(1)[OF _ Some]] Some by simp
    then show ?thesis
      using ih a ev Some by (cases ?found; cases "the ?found") (simp_all split: option.split)
  qed
qed

lemma row_to_attempt_dir: "row_to_attempt st r = Inr a \<Longrightarrow> at_dir a = attempt_dir st (ar_execution_id r) (at_id a)"
  by (auto simp: row_to_attempt_def split: sum.splits)

lemma list_attempts_dirs:
  assumes "list_attempts_for_execution st e = Inr ats" "a \<in> set ats"
  shows "at_dir a = attempt_dir st e (at_id a)"
proof -
  have walk: "\<forall>b\<in>set ys. at_dir b = attempt_dir st e (at_id b)"
    if "fold_result (\<lambda>r xs. case row_to_attempt st r of Inl err \<Rightarrow> Inl err | Inr x \<Rightarrow> Inr (xs @ [x])) rs xs = Inr ys"
      "\<forall>r\<in>set rs. ar_execution_id r = e" "\<forall>b\<in>set xs. at_dir b = attempt_dir st e (at_id b)" for rs xs ys
    using that
  proof (induction rs arbitrary: xs)
    case (Cons r rs)
    obtain b where b: "row_to_attempt st r = Inr b" using Cons.prems(1) by (cases "row_to_attempt st r") simp_all
    have "ar_execution_id r = e" using Cons.prems(2) by simp
    then have "at_dir b = attempt_dir st e (at_id b)" using row_to_attempt_dir[OF b] by metis
    then have "\<forall>c\<in>set (xs @ [b]). at_dir c = attempt_dir st e (at_id c)" using Cons.prems(3) by (metis UnE empty_iff empty_set set_ConsD set_append)
    moreover have "fold_result (\<lambda>r xs. case row_to_attempt st r of Inl err \<Rightarrow> Inl err | Inr x \<Rightarrow> Inr (xs @ [x])) rs (xs @ [b]) = Inr ys"
      using Cons.prems(1) b by simp
    ultimately show ?case using Cons.IH Cons.prems(2) by (metis list.set_intros(2))
  qed simp
  have "\<forall>b\<in>set ats. at_dir b = attempt_dir st e (at_id b)"
  proof (rule walk[OF assms(1)[unfolded list_attempts_for_execution_def]])
    show "\<forall>r\<in>set (sort_key ar_started_at (filter (\<lambda>r. ar_execution_id r = e) (st_attempts st))). ar_execution_id r = e" by auto
  qed simp
  then show ?thesis using assms(2) by blast
qed

lemma get_execution_dir: "get_execution st e = Inr (Some x) \<Longrightarrow> ex_dir x = execution_dir st e"
  using get_execution_id[of st e x] by (auto simp: get_execution_def row_to_execution_def split: option.splits sum.splits)


lemma history_typed:
  assumes r: "compute_resolution sh (typed_line js) files st e = Inr r"
    and x: "get_execution st e = Inr (Some x)" "list_attempts_for_execution st e = Inr ats"
    and js: "\<forall>l. trim l = [] \<longrightarrow> js l = None" and run: "list_all (\<lambda>a. at_state a \<noteq> Running) ats"
    and once: "row_listed_once js files ats s"
  shows "row_history js files st e s = Inr \<lparr> rh_seq = s,
     rh_rows = map history_row (takeWhile (\<lambda>y. \<not> is_success (snd y)) (row_events (typed_line js) files ats s)),
     rh_resolved_at = map_option fst (List.find (\<lambda>y. is_success (snd y)) (row_events (typed_line js) files ats s)) \<rparr>"
proof -
  have e: "ex_id x = e" using get_execution_id[OF x(1)] by simp
  obtain x' ats' w where w: "get_execution st e = Inr (Some x')" "list_attempts_for_execution st (ex_id x') = Inr ats'"
      "fold_result (walk_attempt sh (typed_line js) files) ats'
         \<lparr> wk_per_seq = initial_rows (ex_input_row_count x'), wk_merged = [], wk_skipped = [] \<rparr> = Inr w"
    by (rule compute_resolutionD[OF r])
  have same: "x' = x" "ats' = ats" using w(1,2) x e by simp_all
  have path: "outcomes_path x (at_id a) = attempt_path a" if "a \<in> set ats" for a
    using list_attempts_dirs[OF x(2) that] get_execution_dir[OF x(1)]
    by (simp add: outcomes_path_def attempt_path_def attempt_dir_def)
  have good: "list_all (good_line js) ls" if "a \<in> set ats" "files (attempt_path a) = Some ls" for a ls
    using walk_good[OF js w(3)[unfolded same] that(1) _ that(2)] run that(1) by (simp add: list_all_iff)
  have att: "list_all (\<lambda>a. at_state a \<noteq> Running \<and> outcomes_path x (at_id a) = attempt_path a) ats"
    using run path by (simp add: list_all_iff)
  let ?h = "\<lparr> rh_seq = s, rh_rows = [], rh_resolved_at = None \<rparr>" and ?evs = "row_events (typed_line js) files ats s"
  have "history_walk js files x s ats ?h = Inr (?h\<lparr> rh_rows := rh_rows ?h @ map history_row (takeWhile (\<lambda>y. \<not> is_success (snd y)) ?evs),
      rh_resolved_at := (case List.find (\<lambda>y. is_success (snd y)) ?evs of None \<Rightarrow> rh_resolved_at ?h | Some y \<Rightarrow> Some (fst y)) \<rparr>)"
    by (rule history_walk_events[OF _ att once refl]) (rule good)
  then show ?thesis by (simp add: row_history_def x split: option.split)
qed

text \<open>C22: The two readings of an execution's outcome files agree. When no attempt is running, the resolution succeeds and no attempt
  lists the row twice, the history shown for a row names the attempt of the success the resolution (and the export) uses, and it is empty exactly when the
  resolution says the row was never attempted, although it reads the files as untyped JSON, skips what it cannot read and stops early. The JSON parser
  is assumed to reject blank lines.\<close>

theorem row_history_agrees:
  assumes "compute_resolution sh (typed_line js) files st e = Inr r" "list_attempts_for_execution st e = Inr ats"
    and "\<forall>l. trim l = [] \<longrightarrow> js l = None" "list_all (\<lambda>a. at_state a \<noteq> Running) ats" "row_listed_once js files ats s"
  shows "\<exists>h. row_history js files st e s = Inr h \<and>
     rh_resolved_at h = map_option or_attempt_id (row_canonical r s) \<and>
     (rh_resolved_at h = None \<and> rh_rows h = [] \<longleftrightarrow> row_state r s = NeverAttempted)"
proof -
  obtain x where x: "get_execution st e = Inr (Some x)" using assms(1) by (rule compute_resolutionD)
  have e: "ex_id x = e" using get_execution_id[OF x] by simp
  let ?evs = "row_events (typed_line js) files ats s"
  have spec: "row_state r s = row_state_spec (map snd ?evs)" "row_canonical r s = canonical_spec sh ?evs"
    using resolution_state_and_canonical[OF assms(1) x, of ats s] assms(2) e by simp_all
  have can: "map_option or_attempt_id (canonical_spec sh ?evs) = map_option fst (List.find (\<lambda>y. is_success (snd y)) ?evs)"
  proof (cases "List.find (\<lambda>y. is_success (snd y)) ?evs")
    case (Some y)
    then have "is_success (snd y)" using find_in[OF Some] by simp
    then obtain aid sq d dur where "y = (aid, Success sq d dur)" by (cases y; cases "snd y") auto
    then show ?thesis using Some by (simp add: canonical_spec_def build_success_record_def)
  qed (simp add: canonical_spec_def)
  have emp: "List.find (\<lambda>y. is_success (snd y)) evs = None \<and> takeWhile (\<lambda>y. \<not> is_success (snd y)) evs = [] \<longleftrightarrow> evs = []" for evs :: "(string \<times> row_outcome) list"
    by (cases evs) auto
  show ?thesis
    using history_typed[OF assms(1) x assms(2-5)] spec can emp[of ?evs] by (simp add: row_state_never)
qed

definition demo_hist_js :: "string \<Rightarrow> json option" where
  "demo_hist_js l = (if l = ''x'' then Some (batch_outcome_json \<lparr> bo_first_seq = 0, bo_seqs = [0, 1],
     bo_outcomes = [Error_Row 0 ''E'' ''m'' 0 None, Success 1 [] 1] \<rparr>) else None)"

lemma row_history_agrees_witness:
  "\<exists>r h. compute_resolution (\<lambda>_. []) (typed_line demo_hist_js) demo_files demo_store ''e_1'' = Inr r \<and>
     row_history demo_hist_js demo_files demo_store ''e_1'' 1 = Inr h \<and>
     rh_resolved_at h = Some ''r_1'' \<and> map_option or_attempt_id (row_canonical r 1) = Some ''r_1''"
proof -
  have "\<not> isl (compute_resolution (\<lambda>_. []) (typed_line demo_hist_js) demo_files demo_store ''e_1'')" by code_simp
  then obtain r where r: "compute_resolution (\<lambda>_. []) (typed_line demo_hist_js) demo_files demo_store ''e_1'' = Inr r"
    by (cases "compute_resolution (\<lambda>_. []) (typed_line demo_hist_js) demo_files demo_store ''e_1''") auto
  have a: "\<not> isl (list_attempts_for_execution demo_store ''e_1'')" by code_simp
  then obtain ats where ats: "list_attempts_for_execution demo_store ''e_1'' = Inr ats"
    by (cases "list_attempts_for_execution demo_store ''e_1''") auto
  have "case list_attempts_for_execution demo_store ''e_1'' of Inl _ \<Rightarrow> False
      | Inr as \<Rightarrow> list_all (\<lambda>a. at_state a \<noteq> Running) as \<and> row_listed_once demo_hist_js demo_files as 1" by code_simp
  then have ok: "list_all (\<lambda>a. at_state a \<noteq> Running) ats" "row_listed_once demo_hist_js demo_files ats 1"
    unfolding ats by simp_all
  have "\<forall>l. trim l = [] \<longrightarrow> demo_hist_js l = None"
  proof (intro allI impI)
    fix l :: string
    assume "trim l = []"
    moreover have "trim ''x'' \<noteq> []" by code_simp
    ultimately show "demo_hist_js l = None" by (auto simp: demo_hist_js_def)
  qed
  from row_history_agrees[OF r ats this ok] obtain h where h: "row_history demo_hist_js demo_files demo_store ''e_1'' 1 = Inr h"
      "rh_resolved_at h = map_option or_attempt_id (row_canonical r 1)" by blast
  have "(case row_history demo_hist_js demo_files demo_store ''e_1'' 1 of Inl _ \<Rightarrow> None | Inr h \<Rightarrow> rh_resolved_at h) = Some ''r_1''"
    by code_simp
  then show ?thesis using h r by auto
qed

text \<open>The rows of \<^verbatim>\<open>Re-run failed\<close> are exactly the failed rows of the attempt: on an outcome file the writer left, the list
  is sorted, has no duplicates, and holds a row number exactly when one of its outcomes in the file is not a success.\<close>

theorem failed_row_ids_exact:
  assumes "list_all (good_line js) ls"
  shows "sorted_wrt (<) (failed_row_ids js (Some ls)) \<and>
     set (failed_row_ids js (Some ls)) = outcome_seq ` set (filter (\<lambda>r. \<not> is_success r) (file_outcomes (typed_line js) (Some ls)))"
proof -
  have "sorted_wrt (<) (failed_row_ids js (Some ls))" by (simp add: failed_row_ids_def strict_sorted_iff)
  then show ?thesis using failed_row_ids_typed[OF assms] by auto
qed

lemma failed_row_ids_exact_witness:
  "set (failed_row_ids demo_hist_js (Some [Inr ''x'', Inr '' ''])) = {0}"
proof -
  have "list_all (good_line demo_hist_js) [Inr ''x'', Inr '' '']"
  proof -
    have "typed_line demo_hist_js ''x'' = Inr \<lparr> bo_first_seq = 0, bo_seqs = [0, 1],
     bo_outcomes = [Error_Row 0 ''E'' ''m'' 0 None, Success 1 [] 1] \<rparr>" "trim ''x'' \<noteq> []" "trim '' '' = []" "demo_hist_js '' '' = None"
      by code_simp+
    then show ?thesis by simp
  qed
  moreover have "filter (\<lambda>r. \<not> is_success r) (file_outcomes (typed_line demo_hist_js) (Some [Inr ''x'', Inr '' ''])) = [Error_Row 0 ''E'' ''m'' 0 None]"
    by code_simp
  ultimately show ?thesis using failed_row_ids_exact[of demo_hist_js "[Inr ''x'', Inr '' '']"] by (simp only: list.set image_insert image_empty outcome_seq.simps)
qed

definition demo_query :: page_query where
  "demo_query = \<lparr> fq_execution_id = [], fq_attempt_id = [], fq_offset = 0, fq_limit = 1, fq_code_filter = None \<rparr>"

lemma pages_cover_witness:
  "follow_pages demo_hist_js [''x'', ''?'', ''x''] demo_query 9 = Some (all_failed demo_hist_js demo_query [''x'', ''?'', ''x'']) \<and>
   length (all_failed demo_hist_js demo_query [''x'', ''?'', ''x'']) = 2"
proof -
  have len: "length (all_failed demo_hist_js demo_query [''x'', ''?'', ''x'']) = 2" by code_simp
  have q: "fq_offset demo_query = 0" "0 < fq_limit demo_query" by (simp_all add: demo_query_def)
  have "follow_pages demo_hist_js [''x'', ''?'', ''x''] demo_query 9 =
      Some (drop (fq_offset demo_query) (all_failed demo_hist_js demo_query [''x'', ''?'', ''x'']))"
    by (rule pages_cover[OF q(2)]) (simp add: len q(1))
  then show ?thesis using len by (simp only: q(1) drop_0)
qed

end
