(* ===== verification/Studio_Run.thy ===== *)
theory Studio_Run
  imports Run_Execute Failed_Rows
begin

text \<open>
  The life of a run started from the studio (\<^verbatim>\<open>rowforge-studio-core/src/run.rs\<close>): the gates and the writes of \<^verbatim>\<open>start_run\<close>, the
  progress callback, the run in a child task, what its end leaves in the registry of attempts and sends to the subscribers, and
  cancellation. \<open>studio\<close> is the part of \<^verbatim>\<open>StudioCore\<close> these use. Each operation is a function of the state; where the code
  releases its locks between two parts, the parts are operations of their own, so that their interleavings can be stated.
\<close>

section \<open>Starting a run\<close>

record run_opts =
  so_handler_dir :: path
  so_workers :: "nat option"
  so_retry_failed :: bool
  so_dry_run :: bool
  so_row_limit :: "nat option"
  so_skip_attempted :: bool
  so_only_row_ids :: "nat list option"

definition run_opts_new :: "path \<Rightarrow> run_opts" where
  "run_opts_new dir = \<lparr> so_handler_dir = dir, so_workers = None, so_retry_failed = False, so_dry_run = False,
     so_row_limit = None, so_skip_attempted = False, so_only_row_ids = None \<rparr>"

record studio =
  sd_store :: store
  sd_sessions :: registry
  sd_capture_raw :: bool

text \<open>What a start meets: the files and parsers, the fresh identifiers, the clock, the failing file operation.\<close>

record start_env =
  sv_run :: run_env
  sv_is_file :: "path \<Rightarrow> bool"
  sv_hi_ulid :: string
  sv_at_ulid :: string
  sv_run_ulid :: string
  sv_now :: time
  sv_clock :: rat
  sv_dir_fails :: fuse
  sv_show :: "json \<Rightarrow> string"
  sv_parse :: "string \<Rightarrow> string + batch_outcome"
  sv_files :: "path \<Rightarrow> text_file"

definition busy_reason_to_ui_error :: "busy_reason \<Rightarrow> nat \<Rightarrow> ui_error" where
  "busy_reason_to_ui_error r per_exec =
     (case r of
        Busy_Per_Exec e \<Rightarrow> Run_Busy e per_exec Per_Exec_Scope
      | Busy_Workspace n \<Rightarrow> Run_Busy [] n Per_Workspace_Scope)"

text \<open>Steps 1a and 1b: each takes and releases its lock.\<close>

definition start_gates :: "string \<Rightarrow> studio \<Rightarrow> ui_error + unit" where
  "start_gates e sd =
     (if has_active_attempt (sd_store sd) e then Inl (Execution_In_Use e)
      else (case can_start e (sd_sessions sd) of
          Inl r \<Rightarrow> Inl (busy_reason_to_ui_error r (rg_per_exec_limit (sd_sessions sd)))
        | Inr _ \<Rightarrow> Inr ()))"

definition input_snapshot_of :: "start_env \<Rightarrow> execution \<Rightarrow> path option" where
  "input_snapshot_of env x =
     List.find (sv_is_file env) (map (path_join (ex_dir x)) [''input.jsonl'', ''input.ndjson'', ''input.csv''])"

text \<open>Step 2, under the lock of the store: nothing is written before the execution, its input and the handler have been found.\<close>

definition find_run_parts :: "start_env \<Rightarrow> string \<Rightarrow> run_opts \<Rightarrow> store \<Rightarrow> ui_error + (execution \<times> path \<times> manifest \<times> string \<times> path)" where
  "find_run_parts env e opts st =
     (case get_execution st e of
        Inl err \<Rightarrow> Inl (Internal_Error (core_error_text err))
      | Inr None \<Rightarrow> Inl (Not_Found_Error (''execution '' @ e @ '' not found''))
      | Inr (Some x) \<Rightarrow>
     (case input_snapshot_of env x of
        None \<Rightarrow> Inl (Not_Found_Error (''no input snapshot found in '' @ ex_dir x))
      | Some input \<Rightarrow>
     (case ev_canon (sv_run env) (so_handler_dir opts) of
        Inl err \<Rightarrow> Inl (Invalid_Arg (''canonicalize handler dir '' @ so_handler_dir opts @ '': '' @ err))
      | Inr h \<Rightarrow>
     (case load_from_dir (ev_read (sv_run env)) (ev_yaml (sv_run env)) (show_rel h) of
        Inl err \<Rightarrow> Inl (Invalid_Arg err)
      | Inr (m, mpath) \<Rightarrow>
     (case ev_read (sv_run env) mpath of
        Inl err \<Rightarrow> Inl (Io_Error err)
      | Inr bytes \<Rightarrow> Inr (x, input, m, ''sha256:'' @ ev_sha (sv_run env) bytes, show_rel h))))))"

definition open_attempt :: "start_env \<Rightarrow> string \<Rightarrow> run_opts \<Rightarrow> store \<Rightarrow> (ui_error + (attempt \<times> path)) \<times> store" where
  "open_attempt env e opts st =
     (case find_run_parts env e opts st of
        Inl err \<Rightarrow> (Inl err, st)
      | Inr (x, input, m, hsh, dir) \<Rightarrow>
     (case register_handler_instance (sv_hi_ulid env) (sv_now env)
             \<lparr> nh_handler_id = mf_name m, nh_manifest_hash = hsh, nh_source_snapshot_dir = dir, nh_binary_hash = None \<rparr> st of
        (Inl err, st1) \<Rightarrow> (Inl (Internal_Error (core_error_text err)), st1)
      | (Inr hi, st1) \<Rightarrow>
     (case create_attempt (sv_at_ulid env) (sv_now env)
             \<lparr> na_execution_id = ex_id x, na_handler_instance_id = hi_id hi, na_parent_attempt_id = None, na_source = Full,
               na_simulation = (if so_dry_run opts then Dry else Real) \<rparr> (sv_dir_fails env) st1 of
        (Inl err, st2) \<Rightarrow> (Inl (Internal_Error (core_error_text err)), st2)
      | (Inr att, st2) \<Rightarrow> (Inr (att, input), snd (set_last_handler_dir e dir st2)))))"

record launch =
  la_handle :: string
  la_attempt :: attempt
  la_input :: path
  la_skip :: "nat set"

definition new_session :: "start_env \<Rightarrow> string \<Rightarrow> attempt \<Rightarrow> session" where
  "new_session env e att =
     \<lparr> ss_handle = ''run-'' @ sv_run_ulid env, ss_execution_id = e, ss_attempt_id = at_id att,
       ss_aggregator = aggregator_new (sv_clock env), ss_cancelled = False, ss_hard_cancel = False, ss_status = St_Starting \<rparr>"

text \<open>Step 6: an error of the resolution is dropped.\<close>

definition studio_skip_seqs :: "start_env \<Rightarrow> string \<Rightarrow> run_opts \<Rightarrow> store \<Rightarrow> nat set" where
  "studio_skip_seqs env e opts st =
     (if so_skip_attempted opts then
        (case compute_resolution (sv_show env) (sv_parse env) (sv_files env) st e of
           Inr res \<Rightarrow> attempted_seqs res
         | Inl _ \<Rightarrow> {})
      else {})"

text \<open>Steps 2 to 6.\<close>

definition start_commit :: "start_env \<Rightarrow> string \<Rightarrow> run_opts \<Rightarrow> studio \<Rightarrow> (ui_error + launch) \<times> studio" where
  "start_commit env e opts sd =
     (case open_attempt env e opts (sd_store sd) of
        (Inl err, st) \<Rightarrow> (Inl err, sd\<lparr> sd_store := st \<rparr>)
      | (Inr (att, input), st) \<Rightarrow>
          (Inr \<lparr> la_handle = ''run-'' @ sv_run_ulid env, la_attempt = att, la_input = input, la_skip = studio_skip_seqs env e opts st \<rparr>,
           sd\<lparr> sd_store := st, sd_sessions := register (new_session env e att) (sd_sessions sd) \<rparr>))"

definition start_run :: "start_env \<Rightarrow> string \<Rightarrow> run_opts \<Rightarrow> studio \<Rightarrow> (ui_error + launch) \<times> studio" where
  "start_run env e opts sd =
     (case start_gates e sd of Inl err \<Rightarrow> (Inl err, sd) | Inr _ \<Rightarrow> start_commit env e opts sd)"

section \<open>Progress\<close>

text \<open>\<^verbatim>\<open>update_in_flight\<close>: the rows in the workers' hands are estimated from the total.\<close>

definition update_in_flight :: "nat \<Rightarrow> nat \<Rightarrow> nat \<Rightarrow> aggregator \<Rightarrow> aggregator" where
  "update_in_flight workers tot processed a =
     (let remaining = tot - processed; in_flight = u64_as_u32 (min workers remaining) in
      set_in_flight in_flight (u64_as_u32 (remaining - in_flight)) a)"

fun on_progress :: "nat \<Rightarrow> rat \<Rightarrow> progress_event \<Rightarrow> aggregator \<Rightarrow> aggregator \<times> ui_event list" where
  "on_progress workers now (Ev_Started n) a =
     (let (a1, es) = set_phase Running_Phase (set_total n a) in (update_in_flight workers n 0 a1, es))"
| "on_progress workers now (Ev_Row_Done sq ok) a =
     (let (a1, es) = (if ok then (on_outcome_success sq 0 a, []) else on_outcome now sq Kind_Error None None 0 a);
          s = snapshot_of a1 in
      (case sn_total s of None \<Rightarrow> (a1, es) | Some n \<Rightarrow> (update_in_flight workers n (sn_processed s) a1, es)))"
| "on_progress workers now (Ev_Completed _ _) a = (set_in_flight 0 0 a, [])"

fun progress_run :: "nat \<Rightarrow> (rat \<times> progress_event) list \<Rightarrow> aggregator \<Rightarrow> aggregator" where
  "progress_run workers [] a = a"
| "progress_run workers ((now, ev) # evs) a = progress_run workers evs (fst (on_progress workers now ev a))"

section \<open>The run in its child task\<close>

definition USIZE_MAX :: nat where "USIZE_MAX = 2 ^ 64 - 1"

definition studio_request :: "run_opts \<Rightarrow> launch \<Rightarrow> path \<Rightarrow> bool \<Rightarrow> bool \<Rightarrow> bool \<Rightarrow> run_request" where
  "studio_request opts la dir capture cancelled hard =
     \<lparr> rq_run_id = at_id (la_attempt la), rq_parent_run_id = None, rq_handler_dir = dir, rq_input = la_input la,
       rq_output_dir = at_dir (la_attempt la), rq_workers = (case so_workers opts of None \<Rightarrow> 1 | Some n \<Rightarrow> n),
       rq_dry_run = so_dry_run opts,
       rq_dry_run_sample = (if so_dry_run opts \<and> so_row_limit opts = None then USIZE_MAX else 0),
       rq_row_limit = so_row_limit opts, rq_skip_seqs = la_skip la, rq_field_map = [], rq_config_overrides = [],
       rq_progress = True, rq_cancel = Some cancelled, rq_input_format = None, rq_fsync_outcomes = False,
       rq_capture_raw_stdout = capture, rq_only_row_ids = so_only_row_ids opts, rq_hard_cancel = Some hard \<rparr>"

datatype run_failure = F_Cancelled run_report | F_Panic string | F_Other string

text \<open>How the child task ends: the call returns, panics (with a \<^verbatim>\<open>&str\<close> or another payload), or is dropped at shutdown.\<close>

datatype panic_payload = Str_Payload string | Other_Payload

datatype child_fate = Runs | Panics panic_payload | Runtime_Shutdown

definition shutdown_report :: run_report where
  "shutdown_report = \<lparr> rp_success_count = 0, rp_failed_count = 0, rp_by_error_code = [], rp_run_dir = [], rp_aborted = True,
     rp_abort_reason = Some ''runtime shutdown'' \<rparr>"

definition panic_message :: "panic_payload \<Rightarrow> string" where
  "panic_message p = (case p of Str_Payload s \<Rightarrow> s | Other_Payload \<Rightarrow> ''unknown panic'')"

definition run_pipeline_in_process ::
    "run_env \<Rightarrow> child_fate \<Rightarrow> run_opts \<Rightarrow> launch \<Rightarrow> bool \<Rightarrow> bool \<Rightarrow> bool \<Rightarrow> run_failure + run_report" where
  "run_pipeline_in_process env fate opts la capture cancelled hard =
     (case ev_canon env (so_handler_dir opts) of
        Inl e \<Rightarrow> Inl (F_Other (''canonicalize handler dir: '' @ e))
      | Inr h \<Rightarrow>
          let rq = studio_request opts la (show_rel h) capture cancelled hard in
          (case fate of
             Panics p \<Rightarrow> Inl (F_Panic (panic_message p))
           | Runtime_Shutdown \<Rightarrow> Inl (F_Cancelled shutdown_report)
           | Runs \<Rightarrow>
               (case fst (execute env rq) of
                  Inl e \<Rightarrow> Inl (F_Other e)
                | Inr rp \<Rightarrow> if rp_aborted rp \<and> run_token env rq = Some True then Inl (F_Cancelled rp) else Inr rp)))"

section \<open>The end of a run\<close>

definition finish_record :: "bool \<Rightarrow> run_failure + run_report \<Rightarrow> finish" where
  "finish_record hard res =
     (case res of
        Inr rp \<Rightarrow> \<lparr> fi_success_count = rp_success_count rp, fi_failed_count = rp_failed_count rp, fi_aborted = rp_aborted rp,
                    fi_aborted_reason = rp_abort_reason rp, fi_cancelled_reason = None \<rparr>
      | Inl (F_Cancelled rp) \<Rightarrow> \<lparr> fi_success_count = rp_success_count rp, fi_failed_count = rp_failed_count rp, fi_aborted = True,
                    fi_aborted_reason = (case rp_abort_reason rp of None \<Rightarrow> Some ''cancelled by operator'' | Some m \<Rightarrow> Some m),
                    fi_cancelled_reason = (if hard then Some ''hard_cancel'' else None) \<rparr>
      | Inl (F_Panic m) \<Rightarrow> \<lparr> fi_success_count = 0, fi_failed_count = 0, fi_aborted = True,
                    fi_aborted_reason = Some (''panic: '' @ m), fi_cancelled_reason = None \<rparr>
      | Inl (F_Other m) \<Rightarrow> \<lparr> fi_success_count = 0, fi_failed_count = 0, fi_aborted = True, fi_aborted_reason = Some m,
                    fi_cancelled_reason = None \<rparr>)"

definition at_phase :: "aggregator \<Rightarrow> phase" where
  "at_phase a = (case sn_phase (snapshot_of a) of None \<Rightarrow> Running_Phase | Some p \<Rightarrow> p)"

definition conclude :: "nat \<Rightarrow> aggregator \<Rightarrow> run_failure + run_report \<Rightarrow> ui_event list \<times> run_status" where
  "conclude dur a res =
     (let aborted = (\<lambda>r. [Aborted_Event r (at_phase a) (report_now a dur)]) in
      case res of
        Inr rp \<Rightarrow>
          if rp_aborted rp
          then (aborted (Internal_Reason (case rp_abort_reason rp of None \<Rightarrow> [] | Some m \<Rightarrow> m)), St_Aborted)
          else (emit_done dur a, St_Done)
      | Inl (F_Cancelled rp) \<Rightarrow> (aborted User_Cancelled, St_Aborted)
      | Inl (F_Panic m) \<Rightarrow> (aborted (Crashed_Reason m), St_Crashed)
      | Inl (F_Other m) \<Rightarrow> (aborted (Internal_Reason m), St_Aborted))"

definition persist_warning :: "string \<Rightarrow> ui_event" where
  "persist_warning err = Pipeline_Warning ''PERSIST_FAILED''
     (''failed to persist terminal attempt state to sqlite: '' @ err @
      '' (orphan recovery will clean up on next workspace open)'')"

text \<open>The tail of the spawned task: the attempt is finished, the events are sent, the session is removed. \<open>s\<close> is the session then.\<close>

definition finish_run ::
    "time \<Rightarrow> fuse \<Rightarrow> nat \<Rightarrow> session \<Rightarrow> run_failure + run_report \<Rightarrow> studio \<Rightarrow> (ui_event list \<times> run_status) \<times> studio" where
  "finish_run now f dur s res sd =
     (case finish_attempt (ss_attempt_id s) (finish_record (ss_hard_cancel s) res) now f (sd_store sd) of
        (fin, st) \<Rightarrow>
          (let warn = (case fin of Inl e \<Rightarrow> [persist_warning (core_error_text e)] | Inr _ \<Rightarrow> []);
               (es, status) = conclude dur (ss_aggregator s) res in
           ((warn @ es, status),
            sd\<lparr> sd_store := st, sd_sessions := snd (remove_session (ss_handle s) (sd_sessions sd)) \<rparr>)))"

section \<open>Operations on a live run\<close>

definition with_session :: "string \<Rightarrow> studio \<Rightarrow> (session \<Rightarrow> 'a) \<Rightarrow> ui_error + 'a" where
  "with_session h sd g = (case get_session h (sd_sessions sd) of None \<Rightarrow> Inl (Unknown_Handle h) | Some s \<Rightarrow> Inr (g s))"

definition update_session :: "string \<Rightarrow> (session \<Rightarrow> session) \<Rightarrow> studio \<Rightarrow> studio" where
  "update_session h g sd =
     sd\<lparr> sd_sessions := (sd_sessions sd)\<lparr> rg_sessions :=
          map (\<lambda>s. if ss_handle s = h then g s else s) (rg_sessions (sd_sessions sd)) \<rparr> \<rparr>"

definition cancelled_session :: "cancel_mode \<Rightarrow> session \<Rightarrow> session" where
  "cancelled_session mode s =
     s\<lparr> ss_aggregator := fst (set_phase Cancelling_Phase (ss_aggregator s)), ss_cancelled := True,
        ss_hard_cancel := (mode = Hard \<or> ss_hard_cancel s), ss_status := St_Cancelling \<rparr>"

definition cancel_run :: "string \<Rightarrow> cancel_mode \<Rightarrow> studio \<Rightarrow> (ui_error + ui_event list) \<times> studio" where
  "cancel_run h mode sd =
     (case with_session h sd (\<lambda>s. snd (set_phase Cancelling_Phase (ss_aggregator s))) of
        Inl e \<Rightarrow> (Inl e, sd)
      | Inr es \<Rightarrow> (Inr es, update_session h (cancelled_session mode) sd))"

definition run_status_of :: "string \<Rightarrow> studio \<Rightarrow> ui_error + run_status" where
  "run_status_of h sd = with_session h sd ss_status"

definition live_snapshot :: "string \<Rightarrow> studio \<Rightarrow> ui_error + snapshot" where
  "live_snapshot h sd = with_session h sd (\<lambda>s. snapshot_of (ss_aggregator s))"

text \<open>\<^verbatim>\<open>subscribe\<close> answers the handle and the snapshot; the receiver of the events is not modelled.\<close>

definition subscribe :: "string \<Rightarrow> studio \<Rightarrow> ui_error + (string \<times> snapshot)" where
  "subscribe h sd = with_session h sd (\<lambda>s. (h, snapshot_of (ss_aggregator s)))"

definition active_runs :: "studio \<Rightarrow> string list" where
  "active_runs sd = handles (sd_sessions sd)"

definition active_handle_for_attempt :: "string \<Rightarrow> studio \<Rightarrow> string option" where
  "active_handle_for_attempt a sd = lookup_by_attempt a (sd_sessions sd)"

section \<open>What a start leaves\<close>

lemma set_last_handler_dir_attempts [simp]: "st_attempts (snd (set_last_handler_dir e d st)) = st_attempts st"
  by (simp add: set_last_handler_dir_def update_exec_def Let_def)

lemma find_run_parts_exec:
  "find_run_parts env e opts st = Inr (x, input, m, hsh, dir) \<Longrightarrow> get_execution st e = Inr (Some x) \<and> ex_id x = e"
  using get_execution_id[of st e x] by (auto simp: find_run_parts_def split: sum.splits option.splits)

lemma create_attempt_row:
  assumes "create_attempt u now na f st = (Inr att, st')"
  shows "st_attempts st' = st_attempts st @ [new_attempt_row (''r_'' @ u) (na_execution_id na) now na] \<and>
     at_id att = ''r_'' @ u \<and> at_execution_id att = na_execution_id na \<and> find_attempt st (''r_'' @ u) = None"
proof -
  have "find_attempt (st_dirs_update g st) i = find_attempt st i" for g i by (simp add: find_attempt_def)
  then show ?thesis
    using assms by (auto simp: create_attempt_def Let_def split_def new_attempt_value_def split: sum.splits option.splits if_splits
        dest: get_execution_id)
qed

lemma open_attempt_Inl: "open_attempt env e opts st = (Inl err, st') \<Longrightarrow> st_attempts st' = st_attempts st"
  by (auto simp: open_attempt_def split: sum.splits prod.splits) (metis register_attempts create_attempt_Inl)+

lemma open_attempt_Inr:
  assumes "open_attempt env e opts st = (Inr (att, input), st')"
  obtains na where "st_attempts st' = st_attempts st @ [new_attempt_row (''r_'' @ sv_at_ulid env) e (sv_now env) na]"
    "at_id att = ''r_'' @ sv_at_ulid env" "find_attempt st (''r_'' @ sv_at_ulid env) = None" "na_source na = Full"
proof -
  obtain x m hsh dir where p: "find_run_parts env e opts st = Inr (x, input, m, hsh, dir)"
    using assms by (auto simp: open_attempt_def split: sum.splits prod.splits)
  let ?nh = "\<lparr> nh_handler_id = mf_name m, nh_manifest_hash = hsh, nh_source_snapshot_dir = dir, nh_binary_hash = None \<rparr>"
  obtain hi st1 where r: "register_handler_instance (sv_hi_ulid env) (sv_now env) ?nh st = (Inr hi, st1)"
    using assms by (auto simp: open_attempt_def p split: sum.splits prod.splits)
  let ?na = "\<lparr> na_execution_id = ex_id x, na_handler_instance_id = hi_id hi, na_parent_attempt_id = None, na_source = Full,
       na_simulation = (if so_dry_run opts then Dry else Real) \<rparr>"
  obtain st2 where c: "create_attempt (sv_at_ulid env) (sv_now env) ?na (sv_dir_fails env) st1 = (Inr att, st2)"
    and st': "st' = snd (set_last_handler_dir e dir st2)"
    using assms by (auto simp: open_attempt_def p r split: sum.splits prod.splits)
  have "find_attempt st1 i = find_attempt st i" for i using register_attempts[OF r] by (simp add: find_attempt_def)
  then show ?thesis
    using that[of ?na] create_attempt_row[OF c] st' register_attempts[OF r] find_run_parts_exec[OF p] by simp
qed


lemma start_gates_ok:
  "start_gates e sd = Inr () \<longleftrightarrow> \<not> has_active_attempt (sd_store sd) e \<and> can_start e (sd_sessions sd) = Inr ()"
  by (auto simp: start_gates_def split: sum.splits)

lemma start_commit_cases:
  assumes "start_commit env e opts sd = (r, sd')"
  obtains (refused) err where "r = Inl err" "sd_sessions sd' = sd_sessions sd" "st_attempts (sd_store sd') = st_attempts (sd_store sd)"
  | (started) la na where "r = Inr la" "la_handle la = ''run-'' @ sv_run_ulid env"
      "st_attempts (sd_store sd') = st_attempts (sd_store sd) @ [new_attempt_row (at_id (la_attempt la)) e (sv_now env) na]"
      "na_source na = Full" "sd_sessions sd' = register (new_session env e (la_attempt la)) (sd_sessions sd)"
      "find_attempt (sd_store sd) (at_id (la_attempt la)) = None"
      "la_skip la = studio_skip_seqs env e opts (sd_store sd')"
proof -
  obtain ra st where o: "open_attempt env e opts (sd_store sd) = (ra, st)" by force
  show ?thesis
  proof (cases ra)
    case (Inl err)
    then show ?thesis using assms o refused[of err] open_attempt_Inl[of env e opts "sd_store sd" err st] by (auto simp: start_commit_def)
  next
    case (Inr p)
    then obtain att input where p: "ra = Inr (att, input)" by (cases p) auto
    obtain na where "st_attempts st = st_attempts (sd_store sd) @ [new_attempt_row (''r_'' @ sv_at_ulid env) e (sv_now env) na]"
        "at_id att = ''r_'' @ sv_at_ulid env" "find_attempt (sd_store sd) (''r_'' @ sv_at_ulid env) = None" "na_source na = Full"
      using open_attempt_Inr[of env e opts "sd_store sd" att input st] o p by blast
    then show ?thesis using assms o p started by (auto simp: start_commit_def)
  qed
qed

lemma new_attempt_row_fields [simp]:
  "ar_execution_id (new_attempt_row i e now na) = e" "ar_state (new_attempt_row i e now na) = ''running''"
  by (simp_all add: new_attempt_row_def)

lemma new_session_fields [simp]:
  "ss_handle (new_session env e att) = ''run-'' @ sv_run_ulid env" "ss_execution_id (new_session env e att) = e"
  "ss_attempt_id (new_session env e att) = at_id att"
  by (simp_all add: new_session_def)

lemma get_session_new: "ss_handle s \<notin> set (handles rg) \<Longrightarrow> get_session (ss_handle s) (register s rg) = Some s"
proof -
  assume h: "ss_handle s \<notin> set (handles rg)"
  then have "List.find (\<lambda>x. ss_handle x = ss_handle s) (rg_sessions rg) = None"
    unfolding find_none_iff handles_def by (metis image_eqI list.set_map)
  then show ?thesis by (simp add: register_fresh[OF h] get_session_def find_append)
qed

lemma register_gated:
  assumes "registry_ok rg" "can_start (ss_execution_id s) rg = Inr ()" "ss_handle s \<notin> set (handles rg)"
  shows "registry_ok (register s rg)"
  using registry_step_ok[of rg "Start_Session s"] assms by simp


text \<open>The limit of one run per execution can be exceeded. The gates and the writes of \<^verbatim>\<open>start_run\<close> are separate critical sections, so
  two starts of one execution that both pass the gates before either has written both go on: where the second start would be refused had it come after the
  first, the execution ends up with two running attempts and two sessions, against a limit of one.\<close>

theorem racing_starts_exceed_limit:
  assumes "start_run env1 e opts1 sd = (Inr la1, sd1)" "start_commit env2 e opts2 sd1 = (Inr la2, sd2)"
    and "''run-'' @ sv_run_ulid env1 \<notin> set (handles (sd_sessions sd))" "''run-'' @ sv_run_ulid env2 \<notin> set (handles (sd_sessions sd1))"
  shows "start_gates e sd = Inr () \<and> fst (start_run env2 e opts2 sd1) = Inl (Execution_In_Use e) \<and>
     2 \<le> length (filter (\<lambda>r. ar_execution_id r = e \<and> ar_state r = ''running'') (st_attempts (sd_store sd2))) \<and>
     2 \<le> length (of_exec e (sd_sessions sd2)) \<and>
     (rg_per_exec_limit (sd_sessions sd) = 1 \<longrightarrow> \<not> registry_ok (sd_sessions sd2))"
proof -
  have g: "start_gates e sd = Inr ()" and c1: "start_commit env1 e opts1 sd = (Inr la1, sd1)"
    using assms(1) by (auto simp: start_run_def split: sum.splits)
  obtain na1 where s1: "st_attempts (sd_store sd1) = st_attempts (sd_store sd) @ [new_attempt_row (at_id (la_attempt la1)) e (sv_now env1) na1]"
      "sd_sessions sd1 = register (new_session env1 e (la_attempt la1)) (sd_sessions sd)"
    using c1 by (rule start_commit_cases) auto
  obtain na2 where s2: "st_attempts (sd_store sd2) = st_attempts (sd_store sd1) @ [new_attempt_row (at_id (la_attempt la2)) e (sv_now env2) na2]"
      "sd_sessions sd2 = register (new_session env2 e (la_attempt la2)) (sd_sessions sd1)"
    using assms(2) by (rule start_commit_cases) auto
  have f1: "sd_sessions sd1 = (sd_sessions sd)\<lparr> rg_sessions := rg_sessions (sd_sessions sd) @ [new_session env1 e (la_attempt la1)] \<rparr>"
    unfolding s1(2) by (rule register_fresh) (use assms(3) in simp)
  have f2: "sd_sessions sd2 = (sd_sessions sd1)\<lparr> rg_sessions := rg_sessions (sd_sessions sd1) @ [new_session env2 e (la_attempt la2)] \<rparr>"
    unfolding s2(2) by (rule register_fresh) (use assms(4) in simp)
  have "has_active_attempt (sd_store sd1) e" unfolding has_active_iff s1(1) by (simp add: is_terminal_text_def)
  then have refused: "fst (start_run env2 e opts2 sd1) = Inl (Execution_In_Use e)" by (simp add: start_run_def start_gates_def)
  have two: "2 \<le> length (of_exec e (sd_sessions sd2))" by (simp add: of_exec_def f2 f1)
  have "\<not> registry_ok (sd_sessions sd2)" if "rg_per_exec_limit (sd_sessions sd) = 1"
    using two that by (simp add: registry_ok_def f2 f1)
  then show ?thesis using g refused two s1(1) s2(1) by simp
qed



section \<open>How an abort is reported\<close>

lemma studio_request_cancel [simp]: "rq_cancel (studio_request opts la dir capture cancelled hard) = Some cancelled"
  by (simp add: studio_request_def)

text \<open>Every aborted run of the studio is shown as cancelled by the user, whoever aborted it. The pool fires the caller's token itself before it
  returns, so the test that should tell a cancellation from a stall, a failed worker or a handler that does not start is always true; the other branch for an
  aborted report is never taken. The row of the attempt does keep the real reason.\<close>

theorem every_abort_shown_as_user_cancelled:
  assumes "ev_canon env (so_handler_dir opts) = Inr h"
    and "execute env (studio_request opts la (show_rel h) capture cancelled hard) = (Inr rp, fx)" "rp_aborted rp"
  shows "conclude dur a (run_pipeline_in_process env Runs opts la capture cancelled hard) =
       ([Aborted_Event User_Cancelled (at_phase a) (report_now a dur)], St_Aborted) \<and>
     fi_aborted_reason (finish_record hard (run_pipeline_in_process env Runs opts la capture cancelled hard)) =
       (case rp_abort_reason rp of None \<Rightarrow> Some ''cancelled by operator'' | Some m \<Rightarrow> Some m)"
proof -
  have "run_token env (studio_request opts la (show_rel h) capture cancelled hard) = Some True"
    using execute_fires_token[OF assms(2)] by simp
  then have "run_pipeline_in_process env Runs opts la capture cancelled hard = Inl (F_Cancelled rp)"
    using assms by (simp add: run_pipeline_in_process_def Let_def)
  then show ?thesis by (simp add: conclude_def finish_record_def)
qed

section \<open>What a run of the studio dispatches\<close>

text \<open>\<^verbatim>\<open>skip attempted\<close> fails open. A run asked to skip the rows already attempted sends no attempted row when the outcome files
  can be read; when the resolution fails, on one corrupt line for instance, the error is dropped and the run skips nothing.\<close>

theorem skip_attempted_fails_open:
  assumes "so_skip_attempted opts" "so_only_row_ids opts = None" "la_skip la = studio_skip_seqs env e opts st"
  shows "case compute_resolution (sv_show env) (sv_parse env) (sv_files env) st e of
      Inr r \<Rightarrow> list_all (\<lambda>j. rj_seq j \<notin> attempted_seqs r)
        (rres_sent (reader_task (reader_config_of (studio_request opts la dir capture cancelled hard)) items cancel rx))
    | Inl err \<Rightarrow> rd_skip_seqs (reader_config_of (studio_request opts la dir capture cancelled hard)) = {}"
proof (cases "compute_resolution (sv_show env) (sv_parse env) (sv_files env) st e")
  case (Inl err)
  then show ?thesis using assms by (simp add: reader_config_of_def studio_request_def studio_skip_seqs_def)
next
  case (Inr r)
  let ?cfg = "reader_config_of (studio_request opts la dir capture cancelled hard)"
  have "wanted ?cfg s \<Longrightarrow> s \<notin> attempted_seqs r" for s
    using assms Inr by (simp add: wanted_def reader_config_of_def studio_request_def studio_skip_seqs_def)
  then show ?thesis using Inr sent_wanted[of _ ?cfg items cancel rx] by (auto simp: list_all_iff)
qed

section \<open>The estimates shown while a run goes on\<close>

lemma update_in_flight_values:
  "n < 2 ^ 32 \<Longrightarrow> workers < 2 ^ 32 \<Longrightarrow>
   ag_snapshot (update_in_flight workers n p a) =
     (ag_snapshot a)\<lparr> sn_in_flight := min workers (n - p), sn_queue_depth := n - p - min workers (n - p) \<rparr>"
  by (simp add: update_in_flight_def set_in_flight_def Let_def)

lemma on_progress_row:
  assumes "n < 2 ^ 32" "workers < 2 ^ 32" "sn_total (ag_snapshot a) = Some n"
  shows "let b = fst (on_progress workers now (Ev_Row_Done sq ok) a); p = Suc (sn_processed (ag_snapshot a)) in
     sn_processed (ag_snapshot b) = p \<and> sn_total (ag_snapshot b) = Some n \<and>
     sn_in_flight (ag_snapshot b) = min workers (n - p) \<and> sn_queue_depth (ag_snapshot b) = n - p - min workers (n - p)"
  using assms
  by (auto simp: Let_def on_outcome_def on_outcome_success_def snapshot_of_def update_in_flight_values)

fun is_row_done :: "progress_event \<Rightarrow> bool" where
  "is_row_done (Ev_Row_Done _ _) = True"
| "is_row_done _ = False"

lemma progress_rows:
  assumes "n < 2 ^ 32" "workers < 2 ^ 32" "list_all (is_row_done \<circ> snd) evs"
    and "sn_total (ag_snapshot a) = Some n" "sn_in_flight (ag_snapshot a) = min workers (n - sn_processed (ag_snapshot a))"
    and "sn_queue_depth (ag_snapshot a) = n - sn_processed (ag_snapshot a) - min workers (n - sn_processed (ag_snapshot a))"
  shows "let b = ag_snapshot (progress_run workers evs a); p = sn_processed (ag_snapshot a) + length evs in
     sn_processed b = p \<and> sn_total b = Some n \<and> sn_in_flight b = min workers (n - p) \<and> sn_queue_depth b = n - p - min workers (n - p)"
  using assms(3-)
proof (induction evs arbitrary: a)
  case (Cons x evs)
  obtain now sq ok where x: "x = (now, Ev_Row_Done sq ok)" using Cons.prems(1) by (cases x; cases "snd x") auto
  let ?b = "fst (on_progress workers now (Ev_Row_Done sq ok) a)"
  have b: "sn_processed (ag_snapshot ?b) = Suc (sn_processed (ag_snapshot a))" "sn_total (ag_snapshot ?b) = Some n"
      "sn_in_flight (ag_snapshot ?b) = min workers (n - sn_processed (ag_snapshot ?b))"
      "sn_queue_depth (ag_snapshot ?b) = n - sn_processed (ag_snapshot ?b) - min workers (n - sn_processed (ag_snapshot ?b))"
    using on_progress_row[OF assms(1,2) Cons.prems(2), of now sq ok] by (simp_all add: Let_def del: on_progress.simps)
  show ?case using Cons.IH[of ?b] Cons.prems(1) b by (simp add: x Let_def del: on_progress.simps)
qed (simp add: Let_def)

text \<open>The rows in flight and queued shown for a live run. After a run announced n rows and k outcomes came back, k rows are processed and the n - k
  rows left are split without overlap: as many as there are workers in flight, the rest queued; when more outcomes come than were announced, both are 0.\<close>

theorem progress_estimates:
  assumes "n < 2 ^ 32" "workers < 2 ^ 32" "list_all (is_row_done \<circ> snd) evs" "sn_processed (ag_snapshot a) = 0"
  shows "let s = snapshot_of (progress_run workers ((t, Ev_Started n) # evs) a) in
     sn_processed s = length evs \<and> sn_total s = Some n \<and> sn_in_flight s = min workers (n - length evs) \<and>
     sn_in_flight s + sn_queue_depth s = n - length evs"
proof -
  let ?b = "fst (on_progress workers t (Ev_Started n) a)"
  have "sn_total (ag_snapshot ?b) = Some n \<and> sn_processed (ag_snapshot ?b) = 0 \<and> sn_in_flight (ag_snapshot ?b) = min workers n \<and>
      sn_queue_depth (ag_snapshot ?b) = n - min workers n"
    using assms(1,2,4) by (simp add: set_phase_def set_total_def Let_def update_in_flight_values)
  then show ?thesis using progress_rows[OF assms(1-3), of ?b] by (simp add: Let_def snapshot_of_def del: on_progress.simps)
qed


section \<open>A concrete studio\<close>

definition demo_start :: "string \<Rightarrow> start_env" where
  "demo_start u = \<lparr> sv_run = demo_env, sv_is_file = (\<lambda>_. True), sv_hi_ulid = ''9'', sv_at_ulid = u, sv_run_ulid = u, sv_now = 20, sv_clock = 0,
     sv_dir_fails = None, sv_show = (\<lambda>_. []), sv_parse = demo_parse, sv_files = demo_files \<rparr>"

definition demo_opts :: run_opts where
  "demo_opts = (run_opts_new ''h'')\<lparr> so_row_limit := Some 3 \<rparr>"

definition demo_hi :: handler_instance where
  "demo_hi = \<lparr> hi_id = ''hi_9'', hi_handler_id = ''h'', hi_manifest_hash = ''sha256:ff'', hi_source_snapshot_dir = ''/h'',
     hi_binary_hash = None, hi_created_at = 20 \<rparr>"

definition demo_na :: new_attempt where
  "demo_na = \<lparr> na_execution_id = ''e_1'', na_handler_instance_id = ''hi_9'', na_parent_attempt_id = None, na_source = Full, na_simulation = Real \<rparr>"

definition race_row :: "path option \<Rightarrow> exec_row" where
  "race_row d = (new_execution_row ''e_1'' ''h'' 1 5
     \<lparr> nx_name = None, nx_input_csv_id = ''in'', nx_input_csv_path = ''/in'', nx_current_handler_instance_id = None \<rparr>)\<lparr> xr_last_handler_dir := d \<rparr>"

definition race_store :: "handler_instance list \<Rightarrow> path set \<Rightarrow> attempt_row list \<Rightarrow> path option \<Rightarrow> store" where
  "race_store hs ds ats d = \<lparr> st_home = ''/w'', st_execs = [race_row d], st_his = hs, st_attempts = ats, st_files = Map.empty, st_dirs = ds,
     st_mirror = Map.empty \<rparr>"

lemma race_parts:
  "\<exists>x. get_execution (race_store hs ds ats d) ''e_1'' = Inr (Some x) \<and> ex_id x = ''e_1'' \<and> ex_state x = Open \<and> ex_dir x = ''/w/executions/e_1''"
  by (simp add: get_execution_def find_exec_def race_store_def race_row_def new_execution_row_def row_to_execution_def execution_state_parse_def
      execution_dir_def path_join_def starts_with_def)

lemma race_register:
  "hs = [] \<or> hs = [demo_hi] \<Longrightarrow>
   register_handler_instance ''9'' 20 \<lparr> nh_handler_id = ''h'', nh_manifest_hash = ''sha256:ff'', nh_source_snapshot_dir = ''/h'', nh_binary_hash = None \<rparr>
     (race_store hs ds ats d) = (Inr demo_hi, race_store [demo_hi] ds ats d)"
  by (auto simp: register_handler_instance_def find_content_def get_handler_instance_def race_store_def demo_hi_def Let_def)

lemma race_create:
  "List.find (\<lambda>r. ar_id r = ''r_'' @ u) ats = None \<Longrightarrow>
   \<exists>att. create_attempt u 20 demo_na None (race_store [demo_hi] ds ats d) =
     (Inr att, race_store [demo_hi] (insert (attempt_dir (race_store [] {} [] d) ''e_1'' (''r_'' @ u)) ds) (ats @ [new_attempt_row (''r_'' @ u) ''e_1'' 20 demo_na]) d) \<and>
     at_id att = ''r_'' @ u"
proof -
  assume f: "List.find (\<lambda>r. ar_id r = ''r_'' @ u) ats = None"
  obtain x where x: "get_execution (race_store [demo_hi] ds ats d) ''e_1'' = Inr (Some x)" "ex_id x = ''e_1''" "ex_state x = Open"
    using race_parts by blast
  have na: "na_execution_id demo_na = ''e_1''" "na_handler_instance_id demo_na = ''hi_9''" by (simp_all add: demo_na_def)
  show ?thesis
    unfolding create_attempt_def na x(1)
    using f by (simp add: x(2,3) accepts_attempts_def get_handler_instance_def race_store_def demo_hi_def Let_def find_attempt_def
        attempt_dir_def execution_dir_def)
qed

lemma race_commit:
  assumes "hs = [] \<or> hs = [demo_hi]" "List.find (\<lambda>r. ar_id r = ''r_'' @ u) ats = None"
  shows "\<exists>la sd'. start_commit (demo_start u) ''e_1'' demo_opts \<lparr> sd_store = race_store hs ds ats d, sd_sessions = rg, sd_capture_raw = b \<rparr> =
     (Inr la, sd') \<and> (\<exists>ds'. sd' = \<lparr> sd_store = race_store [demo_hi] ds' (ats @ [new_attempt_row (''r_'' @ u) ''e_1'' 20 demo_na]) (Some ''/h''),
        sd_sessions = sd_sessions sd', sd_capture_raw = b \<rparr>) \<and> sd_sessions sd' = register (new_session (demo_start u) ''e_1'' (la_attempt la)) rg"
proof -
  obtain x where x: "get_execution (race_store hs ds ats d) ''e_1'' = Inr (Some x)" "ex_id x = ''e_1''" "ex_dir x = ''/w/executions/e_1''"
    using race_parts by blast
  have p: "find_run_parts (demo_start u) ''e_1'' demo_opts (race_store hs ds ats d) =
      Inr (x, ''/w/executions/e_1/input.jsonl'', demo_manifest\<lparr> mf_config := [(''k'', JNull), (''l'', JBool False)] \<rparr>, ''sha256:ff'', ''/h'')"
    by (simp add: find_run_parts_def x input_snapshot_of_def demo_start_def path_join_def starts_with_def demo_opts_def run_opts_new_def
        demo_env_def load_from_dir_def demo_manifest_def entry_of_fields_def show_rel_def)
  obtain att ds' where c: "create_attempt u 20 demo_na None (race_store [demo_hi] ds ats d) =
     (Inr att, race_store [demo_hi] ds' (ats @ [new_attempt_row (''r_'' @ u) ''e_1'' 20 demo_na]) d)"
    using race_create[OF assms(2), of ds d] by blast
  have n: "mf_name (demo_manifest\<lparr> mf_config := [(''k'', JNull), (''l'', JBool False)] \<rparr>) = ''h''" by (simp add: demo_manifest_def)
  have l: "snd (set_last_handler_dir ''e_1'' ''/h'' (race_store h s a d)) = race_store h s a (Some ''/h'')" for h s a
    by (simp add: set_last_handler_dir_def update_exec_def Let_def race_store_def race_row_def new_execution_row_def)
  have na: "\<lparr> na_execution_id = ex_id x, na_handler_instance_id = hi_id demo_hi, na_parent_attempt_id = None, na_source = Full,
      na_simulation = (if so_dry_run demo_opts then Dry else Real) \<rparr> = demo_na"
    by (simp add: x demo_na_def demo_hi_def demo_opts_def run_opts_new_def)
  have e: "sv_hi_ulid (demo_start u) = ''9''" "sv_at_ulid (demo_start u) = u" "sv_now (demo_start u) = 20" "sv_dir_fails (demo_start u) = None"
    by (simp_all add: demo_start_def)
  have "open_attempt (demo_start u) ''e_1'' demo_opts (race_store hs ds ats d) =
      (Inr (att, ''/w/executions/e_1/input.jsonl''), race_store [demo_hi] ds' (ats @ [new_attempt_row (''r_'' @ u) ''e_1'' 20 demo_na]) (Some ''/h''))"
    unfolding open_attempt_def p by (simp add: n e race_register[OF assms(1)] na c l)
  then show ?thesis by (auto simp: start_commit_def)
qed


definition idle_studio :: studio where
  "idle_studio = \<lparr> sd_store = race_store [] {} [] None, sd_sessions = registry_new 3 1, sd_capture_raw = False \<rparr>"

lemma idle_handles [simp]: "handles (sd_sessions idle_studio) = []" "registry_ok (sd_sessions idle_studio)"
  by (simp_all add: idle_studio_def registry_new_def handles_def registry_ok_def)

lemma race_first:
  "\<exists>la sd' ds. start_run (demo_start ''a'') ''e_1'' demo_opts idle_studio = (Inr la, sd') \<and>
     sd_store sd' = race_store [demo_hi] ds [new_attempt_row ''r_a'' ''e_1'' 20 demo_na] (Some ''/h'') \<and>
     sd_sessions sd' = register (new_session (demo_start ''a'') ''e_1'' (la_attempt la)) (registry_new 3 1)"
proof -
  have "start_gates ''e_1'' idle_studio = Inr ()"
    by (simp add: start_gates_ok idle_studio_def has_active_attempt_def race_store_def can_start_def registry_new_def of_exec_def)
  then show ?thesis
    using race_commit[of "[]" "''a''" "[]" "{}" None "registry_new 3 1" False] by (auto simp: start_run_def idle_studio_def)
qed


lemma racing_starts_exceed_limit_witness:
  "\<exists>sd2 :: studio. \<not> registry_ok (sd_sessions sd2) \<and> rg_per_exec_limit (sd_sessions idle_studio) = 1 \<and>
     2 \<le> length (filter (\<lambda>r. ar_execution_id r = ''e_1'' \<and> ar_state r = ''running'') (st_attempts (sd_store sd2)))"
proof -
  obtain la1 sd1 ds where r: "start_run (demo_start ''a'') ''e_1'' demo_opts idle_studio = (Inr la1, sd1)"
      "sd_store sd1 = race_store [demo_hi] ds [new_attempt_row ''r_a'' ''e_1'' 20 demo_na] (Some ''/h'')"
      "sd_sessions sd1 = register (new_session (demo_start ''a'') ''e_1'' (la_attempt la1)) (registry_new 3 1)"
    using race_first by blast
  have "List.find (\<lambda>r. ar_id r = ''r_'' @ ''b'') [new_attempt_row ''r_a'' ''e_1'' 20 demo_na] = None" by simp
  from race_commit[of "[demo_hi]", OF _ this, of ds "Some ''/h''" "sd_sessions sd1" "sd_capture_raw sd1"]
  obtain la2 sd2 where c: "start_commit (demo_start ''b'') ''e_1'' demo_opts sd1 = (Inr la2, sd2)"
    using r(2) by (cases sd1) auto
  have u: "sv_run_ulid (demo_start v) = v" for v by (simp add: demo_start_def)
  have "handles (sd_sessions sd1) = [''run-a'']"
    by (simp add: r(3) register_def registry_new_def handles_def u)
  then have h: "''run-'' @ sv_run_ulid (demo_start ''b'') \<notin> set (handles (sd_sessions sd1))" by (simp add: u)
  have one: "rg_per_exec_limit (sd_sessions idle_studio) = 1" by (simp add: idle_studio_def registry_new_def)
  have "''run-'' @ sv_run_ulid (demo_start ''a'') \<notin> set (handles (sd_sessions idle_studio))" by simp
  note rs = racing_starts_exceed_limit[OF r(1) c this h]
  show ?thesis by (rule exI[of _ sd2]) (use rs one in simp)
qed


definition demo_launch :: launch where
  "demo_launch = \<lparr> la_handle = ''run-1'', la_attempt = new_attempt_value ''r_a'' ''e_1'' ''/o'' 20 demo_na, la_input = ''in.jsonl'', la_skip = {} \<rparr>"

lemma demo_run_aborts:
  assumes "detect (rq_input rq) (rq_input_format rq) = Inr Jsonl" "rq_output_dir rq \<noteq> rq_handler_dir rq" "rq_workers rq = 1"
  shows "\<exists>rp fx. execute demo_env rq = (Inr rp, fx) \<and> rp_aborted rp"
proof -
  let ?m = "demo_manifest\<lparr> mf_config := [(''k'', JNull), (''l'', JBool False)] \<rparr>"
  have "effective_workers (pool_config_of ?m rq) = 1" using assms(3) by (simp add: effective_workers_def pool_config_of_def)
  then have "\<exists>pr. run_pool demo_env rq ?m s = Inr pr \<and> pr_aborted pr" for s
    by (auto simp: run_pool_def run_pool_streaming_def demo_env_def jsonl_open_writer_def aborted_because_def split: sum.split)
  then obtain pr where pr: "run_pool demo_env rq ?m (Jsonl_Stream (Some [(''k'', JString ''a'')]) []) = Inr pr" "pr_aborted pr" by blast
  have "ev_write_meta demo_env = Inr ()" by (simp add: demo_env_def)
  then show ?thesis using pr(2)
    by (simp add: execute_def demo_prepare[OF assms(2)] demo_input[OF assms(1)] pr demo_stats Let_def no_effects_def report_of_def)
qed

lemma every_abort_shown_as_user_cancelled_witness:
  "conclude 5 (aggregator_new 0) (run_pipeline_in_process demo_env Runs demo_opts demo_launch False False False) =
     ([Aborted_Event User_Cancelled Running_Phase (report_now (aggregator_new 0) 5)], St_Aborted)"
proof -
  let ?rq = "studio_request demo_opts demo_launch (show_rel [''h'']) False False False"
  have "detect (rq_input ?rq) (rq_input_format ?rq) = Inr Jsonl" by code_simp
  moreover have "rq_output_dir ?rq \<noteq> rq_handler_dir ?rq" "rq_workers ?rq = 1"
    by (simp_all add: studio_request_def demo_launch_def new_attempt_value_def show_rel_def demo_opts_def run_opts_new_def)
  ultimately obtain rp fx where x: "execute demo_env ?rq = (Inr rp, fx)" "rp_aborted rp" using demo_run_aborts by blast
  have "ev_canon demo_env (so_handler_dir demo_opts) = Inr [''h'']" by (simp add: demo_env_def demo_opts_def run_opts_new_def)
  from every_abort_shown_as_user_cancelled[OF this x] show ?thesis
    by (simp add: at_phase_def aggregator_new_def snapshot_of_def snapshot_default_def)
qed

lemma skip_attempted_fails_open_witness:
  "studio_skip_seqs ((demo_start ''a'')\<lparr> sv_parse := \<lambda>_. Inl ''bad'' \<rparr>) ''e_1'' (demo_opts\<lparr> so_skip_attempted := True \<rparr>) demo_store = {} \<and>
   rd_skip_seqs (reader_config_of (studio_request (demo_opts\<lparr> so_skip_attempted := True \<rparr>)
     (demo_launch\<lparr> la_skip := studio_skip_seqs ((demo_start ''a'')\<lparr> sv_parse := \<lambda>_. Inl ''bad'' \<rparr>) ''e_1'' (demo_opts\<lparr> so_skip_attempted := True \<rparr>) demo_store \<rparr>)
     ''/h'' False False False)) = {}"
proof -
  let ?env = "(demo_start ''a'')\<lparr> sv_parse := \<lambda>_. Inl ''bad'' \<rparr>" and ?o = "demo_opts\<lparr> so_skip_attempted := True \<rparr>"
  have e: "sv_show ?env = (\<lambda>_. [])" "sv_parse ?env = (\<lambda>_. Inl ''bad'')" "sv_files ?env = demo_files" by (simp_all add: demo_start_def)
  have "isl (compute_resolution (\<lambda>_. []) (\<lambda>_. Inl ''bad'') demo_files demo_store ''e_1'')" by code_simp
  then obtain err where err: "compute_resolution (\<lambda>_. []) (\<lambda>_. Inl ''bad'') demo_files demo_store ''e_1'' = Inl err"
    by (cases "compute_resolution (\<lambda>_. []) (\<lambda>_. Inl ''bad'') demo_files demo_store ''e_1''") auto
  let ?la = "demo_launch\<lparr> la_skip := studio_skip_seqs ?env ''e_1'' ?o demo_store \<rparr>"
  have "so_skip_attempted ?o" "so_only_row_ids ?o = None" "la_skip ?la = studio_skip_seqs ?env ''e_1'' ?o demo_store"
    by (simp_all add: demo_opts_def run_opts_new_def)
  from skip_attempted_fails_open[OF this, of "''/h''" False False False "[]" None None] err
  show ?thesis by (simp add: e studio_skip_seqs_def)
qed

lemma progress_estimates_witness:
  "sn_in_flight (snapshot_of (progress_run 4 [(0, Ev_Started 6), (0, Ev_Row_Done 0 True), (1, Ev_Row_Done 1 False), (1, Ev_Row_Done 2 True)] (aggregator_new 0))) = 3"
proof -
  have "sn_processed (ag_snapshot (aggregator_new 0)) = 0" by (simp add: aggregator_new_def snapshot_default_def)
  moreover have "list_all (is_row_done \<circ> snd) [(0 :: rat, Ev_Row_Done 0 True), (1, Ev_Row_Done 1 False), (1, Ev_Row_Done 2 True)]" by simp
  ultimately show ?thesis using progress_estimates[of 6 4 "[(0, Ev_Row_Done 0 True), (1, Ev_Row_Done 1 False), (1, Ev_Row_Done 2 True)]" "aggregator_new 0" 0]
    by (simp add: Let_def del: progress_run.simps)
qed

end
