(* ===== verification/File_System.thy ===== *)
theory File_System
  imports Prelude "HOL-Library.Sublist"
begin

text \<open>
  What the code uses of \<^verbatim>\<open>std::fs\<close> and \<^verbatim>\<open>std::path\<close> where it manages directories: a file system is a finite map from
  canonical paths (lists of names) to nodes. Resolving a path follows symbolic links, at most 40 of them as the
  kernel does; operations fail for the structural reasons (nothing there, not a directory, already there, too many
  links). A failing device is a fuse that the writes observe. Permissions are not modelled.
\<close>

section \<open>Nodes and paths\<close>

datatype fnode = File string | Dir | Link path | Special

type_synonym fs = "(string list, fnode) bt"

fun split_slash :: "path \<Rightarrow> string list" where
  "split_slash [] = [[]]"
| "split_slash (c # s) =
     (if c = CHR ''/'' then [] # split_slash s
      else (case split_slash s of [] \<Rightarrow> [[c]] | x # xs \<Rightarrow> (c # x) # xs))"

text \<open>\<^verbatim>\<open>Path::components\<close> below the root: repeated separators and single dots disappear.\<close>

definition comps :: "path \<Rightarrow> string list" where
  "comps p = filter (\<lambda>c. c \<noteq> [] \<and> c \<noteq> ''.'') (split_slash p)"

definition node_at :: "fs \<Rightarrow> string list \<Rightarrow> fnode option" where
  "node_at fs q = (if q = [] then Some Dir else bt_lookup fs q)"

definition hop :: "fs \<Rightarrow> nat \<Rightarrow> string list \<Rightarrow> string \<Rightarrow> string list \<Rightarrow> (nat \<times> string list \<times> string list) option" where
  "hop fs k cur c cs =
     (if node_at fs cur \<noteq> Some Dir then None
      else if c = ''..'' then Some (k, butlast cur, cs)
      else (case node_at fs (cur @ [c]) of
          None \<Rightarrow> None
        | Some (Link t) \<Rightarrow>
            (case k of 0 \<Rightarrow> None
             | Suc j \<Rightarrow> Some (j, if starts_with t ''/'' then [] else cur, comps t @ cs))
        | Some _ \<Rightarrow> Some (k, cur @ [c], cs)))"

lemma hop_shrinks: "hop fs k cur c cs = Some (k', cur', cs') \<Longrightarrow> k' < k \<or> k' = k \<and> cs' = cs"
  by (auto simp: hop_def split: if_splits option.splits fnode.splits nat.splits)

function (sequential) walk :: "nat \<Rightarrow> fs \<Rightarrow> string list \<Rightarrow> string list \<Rightarrow> (nat \<times> string list) option" where
  "walk k fs cur [] = Some (k, cur)"
| "walk k fs cur (c # cs) =
     (case hop fs k cur c cs of None \<Rightarrow> None | Some (k', cur', cs') \<Rightarrow> walk k' fs cur' cs')"
  by pat_completeness auto
termination
  by (relation "measures [\<lambda>(k, fs, cur, cs). k, \<lambda>(k, fs, cur, cs). length cs]") (auto dest!: hop_shrinks)

definition MAX_LINKS :: nat where "MAX_LINKS = 40"

section \<open>Queries\<close>

definition canonicalize :: "fs \<Rightarrow> path \<Rightarrow> string list option" where
  "canonicalize fs p = map_option snd (walk MAX_LINKS fs [] (comps p))"

text \<open>Where the last name of a path lives, that name not followed.\<close>

definition entry_path :: "fs \<Rightarrow> path \<Rightarrow> string list option" where
  "entry_path fs p =
     (let cs = comps p in
      if cs = [] then Some []
      else map_option (\<lambda>(k, d). d @ [last cs]) (walk MAX_LINKS fs [] (butlast cs)))"

definition symlink_metadata :: "fs \<Rightarrow> path \<Rightarrow> fnode option" where
  "symlink_metadata fs p = Option.bind (entry_path fs p) (node_at fs)"

definition metadata :: "fs \<Rightarrow> path \<Rightarrow> fnode option" where
  "metadata fs p = Option.bind (canonicalize fs p) (node_at fs)"

definition path_exists :: "fs \<Rightarrow> path \<Rightarrow> bool" where
  "path_exists fs p = (metadata fs p \<noteq> None)"

definition is_dir :: "fs \<Rightarrow> path \<Rightarrow> bool" where
  "is_dir fs p = (metadata fs p = Some Dir)"

definition is_file :: "fs \<Rightarrow> path \<Rightarrow> bool" where
  "is_file fs p = (case metadata fs p of Some (File _) \<Rightarrow> True | _ \<Rightarrow> False)"

definition children :: "fs \<Rightarrow> string list \<Rightarrow> string list" where
  "children fs d = map last (filter (\<lambda>q. q \<noteq> [] \<and> butlast q = d) (map fst fs))"

definition read_dir :: "fs \<Rightarrow> path \<Rightarrow> string + string list" where
  "read_dir fs p =
     (case canonicalize fs p of
        None \<Rightarrow> Inl ''No such file or directory''
      | Some d \<Rightarrow> if node_at fs d = Some Dir then Inr (children fs d) else Inl ''Not a directory'')"

definition read_to_string :: "fs \<Rightarrow> path \<Rightarrow> string + string" where
  "read_to_string fs p =
     (case metadata fs p of
        Some (File s) \<Rightarrow> Inr s
      | Some Dir \<Rightarrow> Inl ''Is a directory''
      | Some _ \<Rightarrow> Inl ''Input/output error''
      | None \<Rightarrow> Inl ''No such file or directory'')"

section \<open>Updates\<close>

definition remove_tree :: "string list \<Rightarrow> fs \<Rightarrow> fs" where
  "remove_tree d fs = filter (\<lambda>(q, n). \<not> prefix d q) fs"

definition moved :: "string list \<Rightarrow> string list \<Rightarrow> string list \<Rightarrow> string list" where
  "moved d e q = (if prefix d q then e @ drop (length d) q else q)"

definition move_tree :: "string list \<Rightarrow> string list \<Rightarrow> fs \<Rightarrow> fs" where
  "move_tree d e fs = bt_from_list (map (\<lambda>(q, n). (moved d e q, n)) (remove_tree e fs))"

text \<open>\<^verbatim>\<open>create_dir_all\<close>: each missing directory on the way is made; what is there and is no directory stops it.\<close>

definition mkdir_step :: "string list \<Rightarrow> fuse \<times> fs \<Rightarrow> (string \<times> fuse \<times> fs) + (fuse \<times> fs)" where
  "mkdir_step cs io_fs =
     (let (io, fs) = io_fs in
      case walk MAX_LINKS fs [] cs of
        Some (k, d) \<Rightarrow> if node_at fs d = Some Dir then Inr (io, fs) else Inl (''File exists'', io, fs)
      | None \<Rightarrow>
         (case walk MAX_LINKS fs [] (butlast cs) of
            None \<Rightarrow> Inl (''Not a directory'', io, fs)
          | Some (k, d) \<Rightarrow>
             if node_at fs d \<noteq> Some Dir then Inl (''Not a directory'', io, fs)
             else if node_at fs (d @ [last cs]) \<noteq> None then Inl (''File exists'', io, fs)
             else let (bad, io') = poll io in
               if bad then Inl (''Input/output error'', io', fs)
               else Inr (io', bt_insert (d @ [last cs]) Dir fs)))"

definition create_dirs :: "string list \<Rightarrow> fuse \<times> fs \<Rightarrow> (string \<times> fuse \<times> fs) + (fuse \<times> fs)" where
  "create_dirs cs = fold_result mkdir_step (map (\<lambda>n. take (Suc n) cs) [0..<length cs])"

text \<open>\<^verbatim>\<open>fs::write\<close>: the file that is there is replaced, a link is followed, a missing file is made.\<close>

definition put_file :: "string list \<Rightarrow> string \<Rightarrow> fuse \<times> fs \<Rightarrow> (string \<times> fuse \<times> fs) + (fuse \<times> fs)" where
  "put_file q content io_fs =
     (let (io, fs) = io_fs; (bad, io') = poll io in
      if bad then Inl (''No space left on device'', io', fs) else Inr (io', bt_insert q (File content) fs))"

definition write_file :: "string list \<Rightarrow> string \<Rightarrow> fuse \<times> fs \<Rightarrow> (string \<times> fuse \<times> fs) + (fuse \<times> fs)" where
  "write_file cs content io_fs =
     (let (io, fs) = io_fs in
      case walk MAX_LINKS fs [] cs of
        Some (k, q) \<Rightarrow>
          (case node_at fs q of Some (File _) \<Rightarrow> put_file q content io_fs | _ \<Rightarrow> Inl (''Is a directory'', io, fs))
      | None \<Rightarrow>
         (case walk MAX_LINKS fs [] (butlast cs) of
            None \<Rightarrow> Inl (''No such file or directory'', io, fs)
          | Some (k, d) \<Rightarrow>
             if node_at fs d = Some Dir \<and> node_at fs (d @ [last cs]) = None then put_file (d @ [last cs]) content io_fs
             else Inl (''No such file or directory'', io, fs)))"

section \<open>Well-formed file systems\<close>

definition good_name :: "string \<Rightarrow> bool" where
  "good_name c = (c \<noteq> [] \<and> c \<noteq> ''.'' \<and> c \<noteq> ''..'' \<and> CHR ''/'' \<notin> set c)"

definition fs_ok :: "fs \<Rightarrow> bool" where
  "fs_ok fs = (bt_ok fs \<and>
     list_all (\<lambda>(q, n). q \<noteq> [] \<and> list_all good_name q \<and> node_at fs (butlast q) = Some Dir) fs)"

definition extends :: "fs \<Rightarrow> fs \<Rightarrow> bool" where
  "extends fs' fs = (\<forall>q n. node_at fs q = Some n \<longrightarrow> node_at fs' q = Some n)"

lemma split_slash_nonempty [simp]: "split_slash p \<noteq> []"
  by (cases p) (auto split: list.splits)

lemma split_slash_append: "split_slash (a @ CHR ''/'' # b) = split_slash a @ split_slash b"
  by (induction a) (auto split: list.splits)

lemma comps_Nil [simp]: "comps [] = []"
  by (simp add: comps_def)

lemma split_slash_plain: "CHR ''/'' \<notin> set a \<Longrightarrow> split_slash a = [a]"
  by (induction a) auto

lemma comps_join:
  assumes "\<not> starts_with b ''/''"
  shows "comps (path_join a b) = comps a @ comps b"
proof (cases "a = [] \<or> last a = CHR ''/''")
  case True
  then show ?thesis
  proof
    assume "last a = CHR ''/''"
    then show ?thesis
    proof (cases a rule: rev_cases)
      case (snoc c x)
      then have a: "a = c @ [CHR ''/'']" using \<open>last a = CHR ''/''\<close> by simp
      have "comps a = comps c" by (simp add: a comps_def split_slash_append[of c "[]", simplified])
      moreover have "comps (path_join a b) = comps c @ comps b"
        using assms by (simp add: a path_join_def comps_def split_slash_append)
      ultimately show ?thesis by simp
    qed (use assms in \<open>simp add: path_join_def\<close>)
  qed (use assms in \<open>simp add: path_join_def\<close>)
next
  case False
  then show ?thesis using assms by (simp add: path_join_def comps_def split_slash_append)
qed

lemma comps_plain: "CHR ''/'' \<notin> set a \<Longrightarrow> a \<noteq> [] \<Longrightarrow> a \<noteq> ''.'' \<Longrightarrow> comps a = [a]"
  by (simp add: comps_def split_slash_plain)

lemma hop_append: "hop fs k cur c (cs @ ds) = map_option (\<lambda>(k, cur, cs). (k, cur, cs @ ds)) (hop fs k cur c cs)"
  by (auto simp: hop_def split: option.split fnode.split nat.split)

lemma walk_append:
  "walk k fs cur (cs @ ds) = (case walk k fs cur cs of None \<Rightarrow> None | Some (k', d) \<Rightarrow> walk k' fs d ds)"
  by (induction k fs cur cs rule: walk.induct) (auto simp: hop_append split: option.split)

text \<open>What a path resolves to stays the same when nodes are added and files are overwritten.\<close>

definition covers :: "fs \<Rightarrow> fs \<Rightarrow> bool" where
  "covers fs' fs = (\<forall>q n. node_at fs q = Some n \<longrightarrow>
     node_at fs' q = Some n \<or> (\<exists>s s'. n = File s \<and> node_at fs' q = Some (File s')))"

lemma hop_covers: "covers fs' fs \<Longrightarrow> hop fs k cur c cs = Some r \<Longrightarrow> hop fs' k cur c cs = Some r"
proof -
  assume a: "covers fs' fs" "hop fs k cur c cs = Some r"
  have cur: "node_at fs cur = Some Dir" using a(2) by (auto simp: hop_def split: if_splits)
  then have cur': "node_at fs' cur = Some Dir" using a(1) by (fastforce simp: covers_def)
  show ?thesis
  proof (cases "c = ''..''")
    case False
    then obtain n where n: "node_at fs (cur @ [c]) = Some n"
      using a(2) cur by (auto simp: hop_def split: option.splits)
    then have "node_at fs' (cur @ [c]) = Some n \<or> (\<exists>s s'. n = File s \<and> node_at fs' (cur @ [c]) = Some (File s'))"
      using a(1) by (auto simp: covers_def)
    then show ?thesis using a(2) False n cur cur' by (auto simp: hop_def)
  qed (use a(2) cur cur' in \<open>simp add: hop_def\<close>)
qed

lemma walk_covers:
  "covers fs' fs \<Longrightarrow> walk k fs cur cs = Some r \<Longrightarrow> walk k fs' cur cs = Some r"
  by (induction k fs cur cs rule: walk.induct) (auto split: option.splits dest: hop_covers)

lemma extends_covers: "extends fs' fs \<Longrightarrow> covers fs' fs"
  by (simp add: extends_def covers_def)

lemmas walk_extends = walk_covers[OF extends_covers]

lemma extends_refl [simp]: "extends fs fs"
  by (simp add: extends_def)

lemma extends_trans: "extends c b \<Longrightarrow> extends b a \<Longrightarrow> extends c a"
  by (auto simp: extends_def)

lemma fs_okD: "fs_ok fs \<Longrightarrow> node_at fs q = Some n \<Longrightarrow> node_at fs (butlast q) = Some Dir"
  by (auto simp: fs_ok_def node_at_def bt_lookup_def list_all_iff split: if_splits dest!: map_of_SomeD)

definition found :: "fs \<Rightarrow> string list \<Rightarrow> bool" where
  "found fs d = (node_at fs d \<noteq> None \<and> (\<forall>t. node_at fs d \<noteq> Some (Link t)))"

lemma found_root [simp]: "found fs []"
  by (simp add: found_def node_at_def)

lemma hop_found: "fs_ok fs \<Longrightarrow> hop fs k cur c cs = Some (k', cur', cs') \<Longrightarrow> found fs cur'"
  using fs_okD[of fs cur Dir]
  by (auto simp: hop_def found_def node_at_def[of fs "[]"] split: if_splits option.splits fnode.splits nat.splits)

lemma walk_found: "fs_ok fs \<Longrightarrow> walk k fs cur cs = Some (k', d) \<Longrightarrow> found fs cur \<Longrightarrow> found fs d"
  by (induction k fs cur cs rule: walk.induct) (auto split: option.splits dest: hop_found)

lemma canonicalize_found:
  assumes "fs_ok fs" "canonicalize fs p = Some d"
  shows "found fs d"
  using assms walk_found[of fs MAX_LINKS "[]" "comps p"] by (auto simp: canonicalize_def)

section \<open>Updates of a well-formed file system\<close>

lemma fs_ok_bt [simp]: "fs_ok fs \<Longrightarrow> bt_ok fs"
  by (simp add: fs_ok_def)

lemma fs_ok_iff:
  "fs_ok fs \<longleftrightarrow> bt_ok fs \<and>
     (\<forall>q n. bt_lookup fs q = Some n \<longrightarrow> q \<noteq> [] \<and> list_all good_name q \<and> node_at fs (butlast q) = Some Dir)"
  unfolding fs_ok_def list_all_iff[of _ fs] by (rule conj_cong[OF refl]) (simp add: bt_lookup_in_set, blast)

lemma fs_ok_names:
  assumes "fs_ok fs" "node_at fs q \<noteq> None"
  shows "list_all good_name q"
proof (cases "q = []")
  case False
  then obtain n where "bt_lookup fs q = Some n" using assms(2) by (auto simp: node_at_def)
  then show ?thesis using assms(1) unfolding fs_ok_iff by blast
qed simp

lemma node_at_root [simp]: "node_at fs [] = Some Dir"
  by (simp add: node_at_def)

lemma node_at_insert: "bt_ok fs \<Longrightarrow> q \<noteq> [] \<Longrightarrow> node_at (bt_insert q n fs) p = (if p = q then Some n else node_at fs p)"
  by (auto simp: node_at_def btm.look_ins)

lemma fs_ok_insert:
  assumes "fs_ok fs" "node_at fs d = Some Dir" "good_name c" "node_at fs (d @ [c]) = Some Dir \<longrightarrow> n = Dir"
  shows "fs_ok (bt_insert (d @ [c]) n fs)"
proof -
  have lk: "bt_lookup (bt_insert (d @ [c]) n fs) q = (if q = d @ [c] then Some n else bt_lookup fs q)" for q
    using assms(1) by (simp add: btm.look_ins)
  have at: "node_at (bt_insert (d @ [c]) n fs) q = (if q = d @ [c] then Some n else node_at fs q)" for q
    using assms(1) by (simp add: node_at_insert)
  have "d \<noteq> d @ [c]" by simp
  moreover have "list_all good_name d" using fs_ok_names assms(1,2) by blast
  moreover have "node_at (bt_insert (d @ [c]) n fs) (butlast q) = Some Dir"
    if "bt_lookup fs q = Some m" for q m
  proof -
    have "node_at fs (butlast q) = Some Dir" using that assms(1) by (auto simp: fs_ok_iff)
    then show ?thesis using assms(4) by (auto simp: at)
  qed
  ultimately show ?thesis
    using assms unfolding fs_ok_iff lk by (auto simp: at)
qed

lemma extends_insert: "bt_ok fs \<Longrightarrow> q \<noteq> [] \<Longrightarrow> node_at fs q = None \<Longrightarrow> extends (bt_insert q n fs) fs"
  by (auto simp: extends_def node_at_insert)

lemma bt_ok_filter: "bt_ok fs \<Longrightarrow> bt_ok (filter P fs)"
proof -
  have "sorted_wrt (<) (map fst fs) \<Longrightarrow> sorted_wrt (<) (map fst (filter P fs))"
    by (induction fs) auto
  then show "bt_ok fs \<Longrightarrow> bt_ok (filter P fs)" by (simp add: bt_ok_def bt_keys_def)
qed

lemma lookup_remove: "bt_lookup (remove_tree d fs) q = (if prefix d q then None else bt_lookup fs q)"
proof -
  have "map_of (filter (\<lambda>(q, n). P q) fs) q = (if P q then map_of fs q else None)" for P
    by (induction fs) auto
  from this[of "\<lambda>q. \<not> prefix d q"] show ?thesis by (simp add: remove_tree_def bt_lookup_def)
qed

lemma bt_ok_remove_tree: "bt_ok fs \<Longrightarrow> bt_ok (remove_tree d fs)"
  by (simp add: remove_tree_def bt_ok_filter)

lemma node_at_remove: "d \<noteq> [] \<Longrightarrow> node_at (remove_tree d fs) q = (if prefix d q then None else node_at fs q)"
  by (simp add: node_at_def lookup_remove)

lemma prefix_butlast: "prefix d (butlast q) \<Longrightarrow> prefix d q"
  by (cases q rule: rev_cases) auto

lemma fs_ok_remove:
  assumes "fs_ok fs" "d \<noteq> []"
  shows "fs_ok (remove_tree d fs)"
  unfolding fs_ok_iff
proof (intro conjI allI impI)
  show "bt_ok (remove_tree d fs)" using assms(1) by (simp add: bt_ok_remove_tree)
next
  fix q n
  assume "bt_lookup (remove_tree d fs) q = Some n"
  then have q: "\<not> prefix d q" "bt_lookup fs q = Some n" by (simp_all add: lookup_remove split: if_splits)
  then show "q \<noteq> []" and "list_all good_name q" using assms(1) unfolding fs_ok_iff by blast+
  have "node_at fs (butlast q) = Some Dir" using q(2) assms(1) unfolding fs_ok_iff by blast
  then show "node_at (remove_tree d fs) (butlast q) = Some Dir"
    using q(1) assms(2) prefix_butlast by (auto simp: node_at_remove)
qed

lemma entry_of_dir:
  assumes "comps p = ds @ [c]" "walk MAX_LINKS fs [] ds = Some (k, d)"
  shows "entry_path fs p = Some (d @ [c])"
  using assms by (simp add: entry_path_def)

section \<open>Growing a new directory\<close>

text \<open>
  The tree that an operation grows below a directory \<open>e\<close> that was not there before; \<open>ds\<close> are the names of the path the
  operation uses for \<open>e\<close>. Everything else stays as it was in \<open>fs0\<close>.
\<close>

definition grown :: "fs \<Rightarrow> string list \<Rightarrow> string list \<Rightarrow> fs \<Rightarrow> bool" where
  "grown fs0 ds e fs =
     (fs_ok fs \<and> e \<noteq> [] \<and> (\<exists>k. walk MAX_LINKS fs [] ds = Some (k, e)) \<and> node_at fs e = Some Dir \<and>
      (\<forall>q. prefix e q \<longrightarrow> node_at fs0 q = None) \<and>
      (\<forall>q. \<not> prefix e q \<longrightarrow> node_at fs q = node_at fs0 q) \<and>
      (\<forall>q t. prefix e q \<longrightarrow> node_at fs q \<noteq> Some (Link t)))"

lemma grown_ok: "grown fs0 ds e fs \<Longrightarrow> fs_ok fs"
  by (simp add: grown_def)

lemma grown_extends: "grown fs0 ds e fs \<Longrightarrow> extends fs fs0"
  unfolding grown_def extends_def by (metis option.distinct(1))

lemma grown_only_below: "grown fs0 ds e fs \<Longrightarrow> node_at fs q \<noteq> node_at fs0 q \<Longrightarrow> prefix e q"
  by (auto simp: grown_def)

lemma grown_insert:
  assumes g: "grown fs0 ds e fs" and rel: "rel \<noteq> []" "good_name (last rel)" "node_at fs (e @ butlast rel) = Some Dir"
    and n: "\<And>t. n \<noteq> Link t" "node_at fs (e @ rel) = None \<or> (\<exists>s s'. node_at fs (e @ rel) = Some (File s) \<and> n = File s')"
  shows "grown fs0 ds e (bt_insert (e @ rel) n fs)"
proof -
  have er: "e @ rel = (e @ butlast rel) @ [last rel]" using rel(1) by simp
  have ok: "fs_ok fs" "e \<noteq> []" using g by (simp_all add: grown_def)
  have at: "node_at (bt_insert (e @ rel) n fs) q = (if q = e @ rel then Some n else node_at fs q)" for q
    using ok by (simp add: node_at_insert)
  have "fs_ok (bt_insert (e @ rel) n fs)"
    unfolding er using ok rel n(2) by (intro fs_ok_insert) auto
  moreover have "covers (bt_insert (e @ rel) n fs) fs" using n(2) by (auto simp: covers_def at)
  ultimately show ?thesis using g n(1) rel(1) walk_covers by (fastforce simp: grown_def at)
qed

lemma walk_plain:
  assumes ok: "fs_ok fs" and plain: "\<And>q t. prefix e q \<Longrightarrow> node_at fs q \<noteq> Some (Link t)"
    and e: "node_at fs e = Some Dir" and good: "list_all good_name rel"
  shows "walk k fs e rel = (if node_at fs (e @ rel) = None then None else Some (k, e @ rel))"
  using good
proof (induction rel rule: rev_induct)
  case (snoc c rel)
  have w: "walk k fs e rel = (if node_at fs (e @ rel) = None then None else Some (k, e @ rel))" using snoc by simp
  have up: "node_at fs (e @ rel @ [c]) \<noteq> None \<Longrightarrow> node_at fs (e @ rel) = Some Dir"
    using fs_okD[OF ok, of "e @ rel @ [c]"] by (auto simp: butlast_append)
  have c: "c \<noteq> ''..''" using snoc.prems by (simp add: good_name_def)
  have "node_at fs (e @ rel @ [c]) \<noteq> Some (Link t)" for t using plain[of "e @ rel @ [c]"] by simp
  then show ?case using w up c
    by (cases "node_at fs (e @ rel @ [c])") (auto simp: walk_append hop_def split: fnode.splits)
qed (use e in simp)

lemma walk_grown:
  assumes "grown fs0 ds e fs" "list_all good_name rel"
  shows "\<exists>k. walk MAX_LINKS fs [] (ds @ rel) = (if node_at fs (e @ rel) = None then None else Some (k, e @ rel))"
proof -
  obtain k where "walk MAX_LINKS fs [] ds = Some (k, e)" using assms(1) by (auto simp: grown_def)
  then show ?thesis using assms walk_plain[of fs e rel k] by (auto simp: walk_append grown_def)
qed

text \<open>One directory or file of the new tree.\<close>

lemma mkdir_grown:
  assumes g: "grown fs0 ds e fs" and good: "list_all good_name rel" "rel \<noteq> []"
  shows "mkdir_step (ds @ rel) (io, fs) =
     (case node_at fs (e @ rel) of
        Some n \<Rightarrow> if n = Dir then Inr (io, fs) else Inl (''File exists'', io, fs)
      | None \<Rightarrow>
          if node_at fs (e @ butlast rel) \<noteq> Some Dir then Inl (''Not a directory'', io, fs)
          else let (bad, io') = poll io in
            if bad then Inl (''Input/output error'', io', fs) else Inr (io', bt_insert (e @ rel) Dir fs))"
proof -
  obtain k where k: "walk MAX_LINKS fs [] (ds @ rel) = (if node_at fs (e @ rel) = None then None else Some (k, e @ rel))"
    using walk_grown[OF g good(1)] by blast
  have gb: "list_all good_name (butlast rel)" using good by (auto simp: list_all_iff dest: in_set_butlastD)
  obtain k' where k': "walk MAX_LINKS fs [] (ds @ butlast rel) =
      (if node_at fs (e @ butlast rel) = None then None else Some (k', e @ butlast rel))"
    using walk_grown[OF g gb] by blast
  have b: "butlast (ds @ rel) = ds @ butlast rel" "last (ds @ rel) = last rel" using good(2) by (simp_all add: butlast_append)
  have l: "e @ butlast rel @ [last rel] = e @ rel" using good(2) by simp
  show ?thesis using k k' by (auto simp: mkdir_step_def b l split: option.splits prod.splits)
qed

lemma write_grown:
  assumes g: "grown fs0 ds e fs" and good: "list_all good_name rel" "rel \<noteq> []"
  shows "write_file (ds @ rel) s (io, fs) =
     (case node_at fs (e @ rel) of
        Some (File _) \<Rightarrow> put_file (e @ rel) s (io, fs)
      | Some _ \<Rightarrow> Inl (''Is a directory'', io, fs)
      | None \<Rightarrow>
          if node_at fs (e @ butlast rel) \<noteq> Some Dir then Inl (''No such file or directory'', io, fs)
          else put_file (e @ rel) s (io, fs))"
proof -
  obtain k where k: "walk MAX_LINKS fs [] (ds @ rel) = (if node_at fs (e @ rel) = None then None else Some (k, e @ rel))"
    using walk_grown[OF g good(1)] by blast
  have gb: "list_all good_name (butlast rel)" using good by (auto simp: list_all_iff dest: in_set_butlastD)
  obtain k' where k': "walk MAX_LINKS fs [] (ds @ butlast rel) =
      (if node_at fs (e @ butlast rel) = None then None else Some (k', e @ butlast rel))"
    using walk_grown[OF g gb] by blast
  have b: "butlast (ds @ rel) = ds @ butlast rel" "last (ds @ rel) = last rel" using good(2) by (simp_all add: butlast_append)
  have l: "e @ butlast rel @ [last rel] = e @ rel" using good(2) by simp
  show ?thesis using k k' by (auto simp: write_file_def b l split: option.splits fnode.splits)
qed

definition state_of :: "(string \<times> fuse \<times> fs) + (fuse \<times> fs) \<Rightarrow> fs" where
  "state_of r = (case r of Inl (e, io, fs) \<Rightarrow> fs | Inr (io, fs) \<Rightarrow> fs)"

lemma state_of_simps [simp]: "state_of (Inl (e, io, fs)) = fs" "state_of (Inr (io, fs)) = fs"
  by (simp_all add: state_of_def)

lemma fold_result_states:
  assumes "P fs" "\<And>x io fs. x \<in> set xs \<Longrightarrow> P fs \<Longrightarrow> P (state_of (f x (io, fs)))"
  shows "P (state_of (fold_result f xs (io, fs)))"
  using assms
proof (induction xs arbitrary: io fs)
  case (Cons x xs)
  have p: "P (state_of (f x (io, fs)))" using Cons.prems by simp
  show ?case
  proof (cases "f x (io, fs)")
    case (Inl a)
    then show ?thesis using p by simp
  next
    case (Inr b)
    obtain io' fs' where b: "b = (io', fs')" by (cases b)
    have "P fs'" using p Inr b by simp
    then have "P (state_of (fold_result f xs (io', fs')))" using Cons.IH[of fs' io'] Cons.prems(2) by simp
    then show ?thesis using Inr b by simp
  qed
qed simp

lemma grown_mkdir:
  assumes "grown fs0 ds e fs" "list_all good_name rel" "rel \<noteq> []"
  shows "grown fs0 ds e (state_of (mkdir_step (ds @ rel) (io, fs)))"
proof -
  have "good_name (last rel)" using assms(2,3) by (simp add: list_all_iff)
  moreover obtain b io' where "poll io = (b, io')" by (cases "poll io")
  ultimately show ?thesis
    using assms grown_insert[OF assms(1,3), of Dir] by (auto simp: mkdir_grown split: option.split)
qed

lemma grown_write:
  assumes "grown fs0 ds e fs" "list_all good_name rel" "rel \<noteq> []"
  shows "grown fs0 ds e (state_of (write_file (ds @ rel) s (io, fs)))"
proof -
  have "good_name (last rel)" using assms(2,3) by (simp add: list_all_iff)
  moreover obtain b io' where "poll io = (b, io')" by (cases "poll io")
  moreover have "node_at fs (e @ rel) = Some n \<Longrightarrow> node_at fs (e @ butlast rel) = Some Dir" for n
    using fs_okD[OF grown_ok[OF assms(1)]] assms(3) by (fastforce simp: butlast_append)
  ultimately show ?thesis
    using assms grown_insert[OF assms(1,3), of "File s"]
    by (auto simp: write_grown put_file_def split: option.split fnode.split)
qed

lemma walk_through:
  assumes "walk k fs cur (cs @ ds) = Some (k', d)" "node_at fs d = Some Dir"
  shows "\<exists>k1 d1. walk k fs cur cs = Some (k1, d1) \<and> node_at fs d1 = Some Dir"
  using assms by (cases ds) (auto simp: walk_append hop_def split: option.splits if_splits)

lemma fold_result_noop: "(\<And>x. x \<in> set xs \<Longrightarrow> f x s = Inr s) \<Longrightarrow> fold_result f xs s = Inr s"
  by (induction xs) auto

lemma mkdir_there:
  assumes "walk MAX_LINKS fs [] cs = Some (k, d)" "node_at fs d = Some Dir" "n < length cs"
  shows "mkdir_step (take (Suc n) cs) (io, fs) = Inr (io, fs)"
proof -
  have "walk MAX_LINKS fs [] (take (Suc n) cs @ drop (Suc n) cs) = Some (k, d)" using assms(1) by simp
  from walk_through[OF this assms(2)] show ?thesis by (auto simp: mkdir_step_def)
qed

lemma create_dirs_split:
  assumes "walk MAX_LINKS fs [] cs = Some (k, d)" "node_at fs d = Some Dir"
  shows "create_dirs (cs @ rel) (io, fs) =
    fold_result (\<lambda>n. mkdir_step (cs @ take (Suc n) rel)) [0..<length rel] (io, fs)"
proof -
  have up: "[0..<length (cs @ rel)] = [0..<length cs] @ map (\<lambda>n. length cs + n) [0..<length rel]"
    by (intro nth_equalityI) (auto simp: nth_append)
  have "fold_result mkdir_step (map (\<lambda>n. take (Suc n) (cs @ rel)) [0..<length cs]) (io, fs) = Inr (io, fs)"
    using mkdir_there[OF assms] by (intro fold_result_noop) auto
  moreover have "fold_result mkdir_step (map (\<lambda>n. take (Suc n) (cs @ rel)) (map (\<lambda>n. length cs + n) ns)) st =
      fold_result (\<lambda>n. mkdir_step (cs @ take (Suc n) rel)) ns st" for ns st
    by (induction ns arbitrary: st) (auto split: sum.split)
  ultimately show ?thesis
    unfolding create_dirs_def up map_append fold_result_append by simp
qed

lemma good_take: "list_all good_name rel \<Longrightarrow> list_all good_name (take n rel)"
  by (auto simp: list_all_iff dest: in_set_takeD)

lemma grown_create_dirs:
  assumes g: "grown fs0 ds e fs" and good: "list_all good_name rel"
  shows "grown fs0 ds e (state_of (create_dirs (ds @ rel) (io, fs)))"
proof -
  obtain k where "walk MAX_LINKS fs [] ds = Some (k, e)" "node_at fs e = Some Dir" using g by (auto simp: grown_def)
  note eq = create_dirs_split[OF this, of rel io]
  show ?thesis
    unfolding eq
  proof (rule fold_result_states[where P = "grown fs0 ds e"])
    fix n io fs
    assume "n \<in> set [0..<length rel]" "grown fs0 ds e fs"
    then show "grown fs0 ds e (state_of (mkdir_step (ds @ take (Suc n) rel) (io, fs)))"
      using good_take[OF good, of "Suc n"] by (intro grown_mkdir) auto
  qed (rule g)
qed

lemma create_dirs_grown:
  assumes g: "grown fs0 ds e fs" and good: "list_all good_name rel"
    and free: "\<And>r. prefix r rel \<Longrightarrow> node_at fs (e @ r) \<in> {None, Some Dir}"
  shows "\<exists>fs'. create_dirs (ds @ rel) (None, fs) = Inr (None, fs') \<and> grown fs0 ds e fs' \<and>
    (\<forall>q. node_at fs' q = (if \<exists>r. q = e @ r \<and> prefix r rel then Some Dir else node_at fs q))"
proof -
  obtain k where w: "walk MAX_LINKS fs [] ds = Some (k, e)" "node_at fs e = Some Dir" using g by (auto simp: grown_def)
  have "\<exists>fs'. fold_result (\<lambda>n. mkdir_step (ds @ take (Suc n) rel)) [0..<length rel] (None, fs) = Inr (None, fs') \<and>
      grown fs0 ds e fs' \<and> (\<forall>q. node_at fs' q = (if \<exists>r. q = e @ r \<and> prefix r rel then Some Dir else node_at fs q))"
    using good free
  proof (induction rel rule: rev_induct)
    case Nil
    then show ?case using g w(2) by auto
  next
    case (snoc c rel)
    have "fold_result (\<lambda>n. mkdir_step (ds @ take (Suc n) (rel @ [c]))) [0..<length rel] st =
        fold_result (\<lambda>n. mkdir_step (ds @ take (Suc n) rel)) [0..<length rel] st" for st
    proof -
      have "\<forall>n\<in>set ns. n < length rel \<Longrightarrow> fold_result (\<lambda>n. mkdir_step (ds @ take (Suc n) (rel @ [c]))) ns st =
        fold_result (\<lambda>n. mkdir_step (ds @ take (Suc n) rel)) ns st" for ns
        by (induction ns arbitrary: st) (auto split: sum.split)
      then show ?thesis by simp
    qed
    moreover obtain fs1 where f1: "fold_result (\<lambda>n. mkdir_step (ds @ take (Suc n) rel)) [0..<length rel] (None, fs) = Inr (None, fs1)"
      and g1: "grown fs0 ds e fs1"
      and n1: "\<And>q. node_at fs1 q = (if \<exists>r. q = e @ r \<and> prefix r rel then Some Dir else node_at fs q)"
      using snoc by auto
    ultimately have eq: "fold_result (\<lambda>n. mkdir_step (ds @ take (Suc n) (rel @ [c]))) [0..<length (rel @ [c])] (None, fs) =
        mkdir_step (ds @ rel @ [c]) (None, fs1)"
      by (simp add: fold_result_append split: sum.split)
    have up: "node_at fs1 (e @ rel) = Some Dir" by (simp add: n1)
    have at: "node_at fs1 (e @ rel @ [c]) = node_at fs (e @ rel @ [c])" by (auto simp: n1)
    have old: "node_at fs (e @ rel @ [c]) \<in> {None, Some Dir}" using snoc.prems(2)[of "rel @ [c]"] by simp
    have gc: "list_all good_name (rel @ [c])" using snoc.prems by simp
    show ?case
    proof (cases "node_at fs (e @ rel @ [c])")
      case None
      have "grown fs0 ds e (bt_insert (e @ rel @ [c]) Dir fs1)"
        using grown_insert[OF g1, of "rel @ [c]" Dir] None up at snoc.prems(1) by (simp add: butlast_append)
      moreover have "mkdir_step (ds @ rel @ [c]) (None, fs1) = Inr (None, bt_insert (e @ rel @ [c]) Dir fs1)"
        using mkdir_grown[OF g1 gc] None at up by (simp add: butlast_append)
      moreover have "node_at (bt_insert (e @ rel @ [c]) Dir fs1) q =
          (if \<exists>r. q = e @ r \<and> prefix r (rel @ [c]) then Some Dir else node_at fs q)" for q
        using fs_ok_bt[OF grown_ok[OF g1]] by (auto simp: node_at_insert n1)
      ultimately show ?thesis using eq by auto
    next
      case (Some n)
      then have "node_at fs (e @ rel @ [c]) = Some Dir" using old by auto
      moreover from this have "mkdir_step (ds @ rel @ [c]) (None, fs1) = Inr (None, fs1)"
        using mkdir_grown[OF g1 gc] at by simp
      ultimately show ?thesis using eq g1 by (auto simp: n1)
    qed
  qed
  then show ?thesis using create_dirs_split[OF w] by simp
qed

lemma fs_ok_below: "fs_ok fs \<Longrightarrow> node_at fs e = None \<Longrightarrow> prefix e q \<Longrightarrow> node_at fs q = None"
proof (induction q rule: rev_induct)
  case (snoc c q)
  show ?case
  proof (cases "e = q @ [c]")
    case False
    then have "node_at fs q = None" using snoc by simp
    then show ?thesis using fs_okD[OF snoc.prems(1), of "q @ [c]"] by (cases "node_at fs (q @ [c])") auto
  qed (use snoc in simp)
qed auto

section \<open>Every update keeps a file system well formed\<close>

definition path_names :: "string list \<Rightarrow> bool" where
  "path_names cs = list_all (\<lambda>c. good_name c \<or> c = ''..'') cs"

lemma split_slash_no_slash: "c \<in> set (split_slash p) \<Longrightarrow> CHR ''/'' \<notin> set c"
  by (induction p arbitrary: c) (auto split: if_splits list.splits)

lemma path_names_comps [simp]: "path_names (comps p)"
  by (auto simp: path_names_def comps_def list_all_iff good_name_def dest: split_slash_no_slash)

lemma path_names_append [simp]: "path_names (a @ b) \<longleftrightarrow> path_names a \<and> path_names b"
  by (simp add: path_names_def)

lemma path_names_good: "list_all good_name rel \<Longrightarrow> path_names rel"
  by (auto simp: path_names_def list_all_iff)

lemma path_names_take: "path_names cs \<Longrightarrow> path_names (take n cs)"
  by (auto simp: path_names_def list_all_iff dest: in_set_takeD)

lemma walk_butlast_dots:
  assumes "cs \<noteq> []" "walk k fs cur (butlast cs) = Some (k', d)" "node_at fs d = Some Dir" "last cs = ''..''"
  shows "walk k fs cur cs \<noteq> None"
proof -
  have "walk k fs cur (butlast cs @ [last cs]) \<noteq> None" using assms(2-) by (simp add: walk_append hop_def)
  then show ?thesis using assms(1) by (metis append_butlast_last_id)
qed

lemma fs_ok_mkdir:
  assumes "fs_ok fs" "path_names cs" "cs \<noteq> []"
  shows "fs_ok (state_of (mkdir_step cs (io, fs)))"
proof -
  obtain b io' where p: "poll io = (b, io')" by (cases "poll io")
  have "fs_ok (bt_insert (d @ [last cs]) Dir fs)"
    if "walk MAX_LINKS fs [] cs = None" "walk MAX_LINKS fs [] (butlast cs) = Some (k, d)" "node_at fs d = Some Dir" for k d
  proof (rule fs_ok_insert[OF assms(1) that(3)])
    have "last cs \<noteq> ''..''" using walk_butlast_dots[OF assms(3) that(2,3)] that(1) by blast
    then show "good_name (last cs)" using assms(2,3) by (auto simp: path_names_def list_all_iff)
  qed simp
  then show ?thesis using assms(1) by (auto simp: mkdir_step_def p split: option.split)
qed

lemma fs_ok_create_dirs: "fs_ok fs \<Longrightarrow> path_names cs \<Longrightarrow> fs_ok (state_of (create_dirs cs (io, fs)))"
  unfolding create_dirs_def
proof (rule fold_result_states[where P = fs_ok])
  fix x io fs
  assume "path_names cs" "x \<in> set (map (\<lambda>n. take (Suc n) cs) [0..<length cs])" "fs_ok fs"
  then show "fs_ok (state_of (mkdir_step x (io, fs)))" by (intro fs_ok_mkdir) (auto intro: path_names_take)
qed

lemma fs_ok_put:
  assumes "fs_ok fs" "node_at fs d = Some Dir" "good_name c" "node_at fs (d @ [c]) \<noteq> Some Dir"
  shows "fs_ok (state_of (put_file (d @ [c]) s (io, fs)))"
  using assms fs_ok_insert[OF assms(1-3), of "File s"] by (auto simp: put_file_def split: prod.split)

lemma fs_ok_write:
  assumes "fs_ok fs" "path_names cs" "cs \<noteq> []"
  shows "fs_ok (state_of (write_file cs s (io, fs)))"
proof (cases "walk MAX_LINKS fs [] cs")
  case None
  have "fs_ok (state_of (put_file (d @ [last cs]) s (io, fs)))"
    if "walk MAX_LINKS fs [] (butlast cs) = Some (k, d)" "node_at fs d = Some Dir" "node_at fs (d @ [last cs]) = None" for k d
  proof (rule fs_ok_put[OF assms(1) that(2)])
    have "last cs \<noteq> ''..''" using walk_butlast_dots[OF assms(3) that(1,2)] None by blast
    then show "good_name (last cs)" using assms(2,3) by (auto simp: path_names_def list_all_iff)
  qed (simp add: that)
  then show ?thesis using None assms(1) by (auto simp: write_file_def split: option.split)
next
  case (Some a)
  obtain k q where a: "a = (k, q)" by (cases a)
  have "fs_ok (state_of (put_file q s (io, fs)))" if f: "node_at fs q = Some (File x)" for x
  proof -
    have q: "q \<noteq> []" using f by auto
    have "list_all good_name q" using fs_ok_names[OF assms(1), of q] f by simp
    then have "good_name (last q)" using q by (simp add: list_all_iff)
    then show ?thesis using fs_ok_put[OF assms(1) fs_okD[OF assms(1) f], of "last q" s io] f q by simp
  qed
  then show ?thesis using Some a assms(1) by (auto simp: write_file_def split: option.split fnode.split)
qed

section \<open>Moving a tree to a sibling\<close>

lemma map_of_moved:
  "\<forall>q\<in>insert p (fst ` set l). g (f q) = q \<Longrightarrow> map_of (map (\<lambda>(q, n). (f q, n)) l) (f p) = map_of l p"
proof (induction l)
  case (Cons kv l)
  obtain k v where kv: "kv = (k, v)" by (cases kv)
  have "f k = f p \<longleftrightarrow> k = p" using Cons.prems kv by (metis fst_conv image_insert insertCI list.simps(15))
  then show ?case using Cons kv by auto
qed simp

lemma map_of_rev_keys: "distinct (map fst xs) \<Longrightarrow> map_of (rev xs) = map_of xs"
  using map_of_inject_set[of "rev xs" xs] by (simp add: rev_map[symmetric])

lemma moved_back: "a \<noteq> b \<Longrightarrow> \<not> prefix (x @ [b]) q \<Longrightarrow> moved (x @ [b]) (x @ [a]) (moved (x @ [a]) (x @ [b]) q) = q"
  by (auto simp: moved_def prefix_def)

lemma lookup_move:
  assumes ok: "fs_ok fs" and ab: "a \<noteq> b"
  shows "bt_lookup (move_tree (x @ [a]) (x @ [b]) fs) q =
     (if prefix (x @ [b]) q then bt_lookup fs (x @ [a] @ drop (Suc (length x)) q)
      else if prefix (x @ [a]) q then None else bt_lookup fs q)"
proof -
  let ?d = "x @ [a]" and ?e = "x @ [b]" and ?l = "remove_tree (x @ [b]) fs"
  let ?f = "moved ?d ?e"
  have keys: "\<forall>p\<in>fst ` set ?l. \<not> prefix ?e p" by (auto simp: remove_tree_def)
  have undo: "\<not> prefix ?e p \<Longrightarrow> \<forall>q\<in>insert p (fst ` set ?l). moved ?e ?d (?f q) = q" for p
    using moved_back[OF ab] keys by auto
  have "distinct (map fst ?l)" using ok by (simp add: bt_ok_distinct bt_ok_remove_tree)
  moreover have "inj_on ?f (fst ` set ?l)"
    using undo[of ?d] ab by (auto intro!: inj_on_inverseI[where g = "moved ?e ?d"])
  ultimately have dist: "distinct (map fst (map (\<lambda>(q, n). (?f q, n)) ?l))"
    by (simp add: distinct_map comp_inj_on[of fst] comp_def split_beta inj_on_def image_iff)
  have lk: "bt_lookup (move_tree ?d ?e fs) q = map_of (map (\<lambda>(q, n). (?f q, n)) ?l) q" for q
    unfolding move_tree_def bt_lookup_from_list using dist by (simp add: map_of_rev_keys)
  have at: "bt_lookup (move_tree ?d ?e fs) (?f p) = bt_lookup fs p" if "\<not> prefix ?e p" for p
    using map_of_moved[of p ?l "moved ?e ?d" ?f, OF undo[OF that]] that lookup_remove[of ?e fs p] unfolding lk by (simp add: bt_lookup_def)
  consider (new) "prefix ?e q" | (old) "\<not> prefix ?e q" "prefix ?d q" | (rest) "\<not> prefix ?e q" "\<not> prefix ?d q" by blast
  then show ?thesis
  proof cases
    case new
    then obtain r where r: "q = ?e @ r" by (auto simp: prefix_def)
    have "\<not> prefix ?e (?d @ r)" using ab by (auto simp: prefix_def)
    from at[OF this] show ?thesis using r by (simp add: moved_def)
  next
    case old
    have "q \<notin> ?f ` (fst ` set ?l)"
    proof
      assume "q \<in> ?f ` (fst ` set ?l)"
      then obtain p where "q = ?f p" by blast
      then show False using old ab by (auto simp: moved_def prefix_def split: if_splits)
    qed
    then have "map_of (map (\<lambda>(q, n). (?f q, n)) ?l) q = None" by (force simp: map_of_eq_None_iff)
    then show ?thesis using old by (simp add: lk)
  next
    case rest
    then show ?thesis using at[OF rest(1)] by (simp add: moved_def)
  qed
qed

lemma node_at_move:
  assumes "fs_ok fs" "a \<noteq> b"
  shows "node_at (move_tree (x @ [a]) (x @ [b]) fs) q =
     (if prefix (x @ [b]) q then node_at fs (x @ [a] @ drop (Suc (length x)) q)
      else if prefix (x @ [a]) q then None else node_at fs q)"
  using lookup_move[OF assms] by (auto simp: node_at_def)

lemma fs_ok_move:
  assumes ok: "fs_ok fs" and ab: "a \<noteq> b" "good_name b" and src: "node_at fs (x @ [a]) \<noteq> None"
  shows "fs_ok (move_tree (x @ [a]) (x @ [b]) fs)"
proof -
  let ?fs = "move_tree (x @ [a]) (x @ [b]) fs"
  note at' = node_at_move[OF ok ab(1), of x]
  have x: "node_at fs x = Some Dir" using fs_okD[OF ok, of "x @ [a]"] src by auto
  have gx: "list_all good_name x" using fs_ok_names[OF ok, of x] x by simp
  have "q \<noteq> [] \<and> list_all good_name q \<and> node_at ?fs (butlast q) = Some Dir"
    if q: "q \<noteq> []" and n: "node_at ?fs q = Some n" for q n
  proof (cases "prefix (x @ [b]) q")
    case True
    then obtain r where r: "q = x @ [b] @ r" by (auto simp: prefix_def)
    have old: "node_at fs (x @ [a] @ r) = Some n" using n r at' by simp
    have "list_all good_name (x @ [a] @ r)" using fs_ok_names[OF ok] old by blast
    moreover have "node_at ?fs (butlast q) = Some Dir"
    proof (cases r rule: rev_cases)
      case Nil
      then show ?thesis using x r at' by (simp add: butlast_append)
    next
      case (snoc r' c)
      have "node_at fs (x @ [a] @ r') = Some Dir" using fs_okD[OF ok old] snoc by (simp add: butlast_append)
      then show ?thesis using snoc r at' by (simp add: butlast_append)
    qed
    ultimately show ?thesis using q r ab(2) by simp
  next
    case False
    then have old: "node_at fs q = Some n" "\<not> prefix (x @ [a]) q" using n at' by (auto split: if_splits)
    have "node_at fs (butlast q) = Some Dir" using fs_okD[OF ok old(1)] .
    then show ?thesis
      using q fs_ok_names[OF ok, of q] old False prefix_butlast at' by auto
  qed
  moreover have "bt_ok ?fs" by (simp add: move_tree_def)
  moreover have "bt_lookup ?fs [] = None"
    using ok lookup_move[OF ok ab(1), of x "[]"] unfolding fs_ok_iff by (auto simp del: bt_lookup_from_list)
  ultimately show ?thesis unfolding fs_ok_iff by (metis node_at_def option.distinct(1))
qed

end
