(* ===== verification/Manifest_Check.thy ===== *)
theory Manifest_Check
  imports File_System Build_Gate Session_Registry
begin

text \<open>
  The report on a handler's manifest that the Studio shows before a run (\<^verbatim>\<open>studio-core/manifest.rs\<close>): structured
  errors, and warnings for programs that cannot be found. The YAML parser and the lookup on the search path are
  arguments; the directory is a \<open>File_System\<close>.
\<close>

section \<open>Definitions\<close>

datatype manifest_warning =
    Path_Lookup_Failed string string
  | Build_Tool_Not_In_Path string
  | Cmd_Target_Missing string

record manifest_view =
  mv_name :: string
  mv_version :: string
  mv_language :: string
  mv_entry_cmd :: "string list"
  mv_entry_build :: "string list option"

record manifest_report =
  mr_manifest :: "manifest_view option"
  mr_errors :: "manifest_error list"
  mr_warnings :: "manifest_warning list"

definition bare :: "string \<Rightarrow> bool" where
  "bare t = (CHR ''/'' \<notin> set t \<and> CHR 0x5C \<notin> set t)"

definition probe_path_token :: "(string \<Rightarrow> bool) \<Rightarrow> string \<Rightarrow> string \<Rightarrow> manifest_warning list" where
  "probe_path_token on_path token field =
     (if \<not> bare token then [] else if on_path token then [] else [Path_Lookup_Failed field token])"

definition first_of :: "string list option \<Rightarrow> string option" where
  "first_of b = (case b of Some (t # _) \<Rightarrow> Some t | _ \<Rightarrow> None)"

definition target_exists :: "(string \<Rightarrow> bool) \<Rightarrow> fs \<Rightarrow> path \<Rightarrow> string \<Rightarrow> bool" where
  "target_exists on_path fs dir t =
     (if starts_with t ''/'' then path_exists fs t
      else if CHR ''/'' \<in> set t \<or> starts_with t ''.'' then path_exists fs (path_join dir (trim_dot_slash t))
      else on_path t)"

definition check_path_resolution :: "(string \<Rightarrow> bool) \<Rightarrow> fs \<Rightarrow> path \<Rightarrow> manifest \<Rightarrow> manifest_warning list" where
  "check_path_resolution on_path fs dir m =
     (let tool = first_of (en_build (mf_entry m));
          w1 = (case tool of None \<Rightarrow> []
                | Some t \<Rightarrow> if bare t \<and> \<not> on_path t then [Build_Tool_Not_In_Path t] else []);
          resolves = (case tool of None \<Rightarrow> False | Some t \<Rightarrow> on_path t);
          suppress = en_build (mf_entry m) \<noteq> None \<and> resolves in
      w1 @ (if suppress then []
            else (case en_cmd (mf_entry m) of
                [] \<Rightarrow> []
              | t # _ \<Rightarrow> if target_exists on_path fs dir t then [] else [Cmd_Target_Missing t])))"

definition validate_manifest ::
    "(string \<Rightarrow> string + manifest) \<Rightarrow> (string \<Rightarrow> bool) \<Rightarrow> fs \<Rightarrow> path \<Rightarrow> manifest_report" where
  "validate_manifest yaml on_path fs dir =
     (let path = path_join dir ''rowforge.yaml'';
          failed = (\<lambda>e. \<lparr> mr_manifest = None, mr_errors = [e], mr_warnings = [] \<rparr>) in
      if \<not> is_file fs path then failed (Manifest_Missing path)
      else (case load_from_dir (read_to_string fs) yaml dir of
          Inl e \<Rightarrow> failed (Manifest_Parse_Failed e)
        | Inr (m, _) \<Rightarrow>
           (case en_cmd (mf_entry m) of
              [] \<Rightarrow> failed (Manifest_Parse_Failed ''entry.cmd must be non-empty (no run command defined)'')
            | first # _ \<Rightarrow>
               \<lparr> mr_manifest = Some \<lparr> mv_name = mf_name m, mv_version = mf_version m, mv_language = mf_language m,
                   mv_entry_cmd = en_cmd (mf_entry m), mv_entry_build = en_build (mf_entry m) \<rparr>,
                 mr_errors = [],
                 mr_warnings = probe_path_token on_path first ''entry.cmd'' @
                   (case first_of (en_build (mf_entry m)) of None \<Rightarrow> []
                    | Some t \<Rightarrow> probe_path_token on_path t ''entry.build'') @
                   check_path_resolution on_path fs dir m \<rparr>)))"

section \<open>What a report means\<close>

lemma report_loads:
  "mr_errors (validate_manifest yaml on_path fs dir) = [] \<longleftrightarrow>
     is_file fs (path_join dir ''rowforge.yaml'') \<and>
     (case load_from_dir (read_to_string fs) yaml dir of Inl _ \<Rightarrow> False | Inr (m, _) \<Rightarrow> en_cmd (mf_entry m) \<noteq> [])"
  by (auto simp: validate_manifest_def Let_def split: sum.split list.split)

text \<open>A manifest report has either exactly one error and no manifest, or a manifest and no error, the latter exactly when the
  file is there, loads, and names a command. The warning that the command is missing is given exactly when that command
  cannot be found (as a file for a path, on the search path for a bare name) and there is no build command whose tool is found.\<close>

theorem manifest_report_exact:
  "let r = validate_manifest yaml on_path fs dir in
   (mr_manifest r = None \<longleftrightarrow> mr_errors r \<noteq> []) \<and> length (mr_errors r) \<le> 1 \<and>
   (mr_errors r = [] \<longleftrightarrow> is_file fs (path_join dir ''rowforge.yaml'') \<and>
      (case load_from_dir (read_to_string fs) yaml dir of Inl _ \<Rightarrow> False | Inr (m, _) \<Rightarrow> en_cmd (mf_entry m) \<noteq> [])) \<and>
   (Cmd_Target_Missing t \<in> set (mr_warnings r) \<longleftrightarrow>
      mr_errors r = [] \<and>
      (case load_from_dir (read_to_string fs) yaml dir of Inl _ \<Rightarrow> False
       | Inr (m, _) \<Rightarrow> t = hd (en_cmd (mf_entry m)) \<and> \<not> target_exists on_path fs dir t \<and>
           (case first_of (en_build (mf_entry m)) of None \<Rightarrow> True | Some tool \<Rightarrow> \<not> on_path tool)))"
proof (cases "load_from_dir (read_to_string fs) yaml dir")
  case (Inr mp)
  obtain m p where mp: "mp = (m, p)" by (cases mp)
  show ?thesis
  proof (cases "en_cmd (mf_entry m)")
    case (Cons first rest)
    have "Cmd_Target_Missing t \<in> set (check_path_resolution on_path fs dir m) \<longleftrightarrow>
        t = first \<and> \<not> target_exists on_path fs dir t \<and>
        (case first_of (en_build (mf_entry m)) of None \<Rightarrow> True | Some tool \<Rightarrow> \<not> on_path tool)"
      using Cons by (cases "target_exists on_path fs dir first"; cases "first_of (en_build (mf_entry m))")
        (auto simp: check_path_resolution_def first_of_def split: option.splits)
    moreover have "Cmd_Target_Missing t \<notin> set (probe_path_token on_path x y)" for x y
      by (simp add: probe_path_token_def)
    ultimately show ?thesis
      using Inr mp Cons by (simp add: validate_manifest_def Let_def split: option.split)
  qed (use Inr mp in \<open>simp add: validate_manifest_def Let_def\<close>)
qed (simp add: validate_manifest_def Let_def)

end
