(* ===== verification/Handler_Mgmt.thy ===== *)
theory Handler_Mgmt
  imports Manifest_Check
begin

text \<open>
  The handlers of a workspace (\<^verbatim>\<open>studio-core/handler.rs\<close> and the handler methods of \<^verbatim>\<open>studio-core/lib.rs\<close>): listing,
  detail, scaffolding, import, fork, rename, delete, build and the choice of an editor, over a \<open>File_System\<close>. Every
  operation gets the file system and the fuse of its device and gives back its result with both. The YAML parser and
  printer, the lookup on the search path, the splitting of a command line, the child processes, the modification times
  and the texts of the templates are arguments.
\<close>

section \<open>Names\<close>

definition ascii_lower :: "char \<Rightarrow> bool" where
  "ascii_lower c = (97 \<le> (of_char c :: nat) \<and> (of_char c :: nat) \<le> 122)"

definition ascii_upper :: "char \<Rightarrow> bool" where
  "ascii_upper c = (65 \<le> (of_char c :: nat) \<and> (of_char c :: nat) \<le> 90)"

definition validate_name :: "string \<Rightarrow> bool" where
  "validate_name s =
     (case s of [] \<Rightarrow> False
      | c # _ \<Rightarrow> if \<not> ascii_lower c \<and> \<not> is_digit c then False
                else list_all (\<lambda>c. ascii_lower c \<or> is_digit c \<or> c = CHR ''-'') s)"

definition validate_primary_field :: "string \<Rightarrow> bool" where
  "validate_primary_field s =
     (case s of [] \<Rightarrow> False
      | c # _ \<Rightarrow> if \<not> (ascii_lower c \<or> ascii_upper c) \<and> c \<noteq> CHR ''_'' then False
                else list_all (\<lambda>c. ascii_lower c \<or> ascii_upper c \<or> is_digit c \<or> c = CHR ''_'') s)"

definition handlers_dir :: "path \<Rightarrow> path" where
  "handlers_dir ws = path_join ws ''handlers''"

definition handler_dir :: "path \<Rightarrow> string \<Rightarrow> path" where
  "handler_dir ws name = path_join (handlers_dir ws) name"

section \<open>Listing and detail\<close>

datatype manifest_status = Ms_Valid | Ms_Invalid | Ms_Missing

record handler_summary =
  hs_name :: string
  hs_path :: path
  hs_manifest_status :: manifest_status
  hs_last_modified :: nat
  hs_version :: "string option"
  hs_language :: "string option"

record source_file =
  sf_name :: string
  sf_size :: nat
  sf_is_directory :: bool

record handler_detail =
  hd_summary :: handler_summary
  hd_manifest :: "manifest option"
  hd_errors :: "manifest_error list"
  hd_warnings :: "manifest_warning list"
  hd_source_files :: "source_file list"
  hd_has_fixtures :: bool
  hd_last_build :: "build_outcome option"

text \<open>\<^verbatim>\<open>fs::metadata\<close> and \<^verbatim>\<open>DirEntry::metadata\<close> give the times: those of the resolved path and of the entry itself.\<close>

definition max_mtime :: "(string list \<Rightarrow> nat) \<Rightarrow> fs \<Rightarrow> string list \<Rightarrow> nat" where
  "max_mtime mtime fs d =
     fold (\<lambda>n acc. let t = mtime (d @ [n]) in if t > acc then t else acc) (children fs d) (mtime d)"

definition build_summary ::
    "(string \<Rightarrow> string + manifest) \<Rightarrow> (string list \<Rightarrow> nat) \<Rightarrow> fs \<Rightarrow> path \<Rightarrow> string \<Rightarrow> ui_error + handler_summary" where
  "build_summary yaml mtime fs path name =
     (let (status, m) =
        (if \<not> is_file fs (path_join path ''rowforge.yaml'') then (Ms_Missing, None)
         else (case load_from_dir (read_to_string fs) yaml path of
             Inr (m, _) \<Rightarrow> (Ms_Valid, Some m)
           | Inl _ \<Rightarrow> (Ms_Invalid, None))) in
      case canonicalize fs path of
        None \<Rightarrow> Inl (Io_Error ''No such file or directory'')
      | Some d \<Rightarrow> Inr
          \<lparr> hs_name = name, hs_path = path, hs_manifest_status = status, hs_last_modified = max_mtime mtime fs d,
            hs_version = map_option mf_version m,
            hs_language = Option.bind m (\<lambda>m. if mf_language m = [] then None else Some (mf_language m)) \<rparr>)"

fun list_entries ::
    "(string \<Rightarrow> string + manifest) \<Rightarrow> (string list \<Rightarrow> nat) \<Rightarrow> fs \<Rightarrow> path \<Rightarrow> string list \<Rightarrow> ui_error + handler_summary list" where
  "list_entries yaml mtime fs dir [] = Inr []"
| "list_entries yaml mtime fs dir (n # ns) =
     (if \<not> is_dir fs (path_join dir n) then list_entries yaml mtime fs dir ns
      else (case build_summary yaml mtime fs (path_join dir n) n of
          Inl e \<Rightarrow> Inl e
        | Inr s \<Rightarrow> map_sum id ((#) s) (list_entries yaml mtime fs dir ns)))"

definition list_handlers ::
    "(string \<Rightarrow> string + manifest) \<Rightarrow> (string list \<Rightarrow> nat) \<Rightarrow> fs \<Rightarrow> path \<Rightarrow> ui_error + handler_summary list" where
  "list_handlers yaml mtime fs ws =
     (if \<not> is_dir fs (handlers_dir ws) then Inr []
      else (case read_dir fs (handlers_dir ws) of
          Inl e \<Rightarrow> Inl (Io_Error e)
        | Inr ns \<Rightarrow> list_entries yaml mtime fs (handlers_dir ws) ns))"

text \<open>The size a directory or a special file reports is the operating system's (\<open>other_len\<close>).\<close>

fun source_entries :: "nat \<Rightarrow> fs \<Rightarrow> path \<Rightarrow> string list \<Rightarrow> ui_error + source_file list" where
  "source_entries other_len fs dir [] = Inr []"
| "source_entries other_len fs dir (n # ns) =
     (if n = ''rowforge.yaml'' then source_entries other_len fs dir ns
      else (case metadata fs (path_join dir n) of
          None \<Rightarrow> Inl (Io_Error ''No such file or directory'')
        | Some node \<Rightarrow>
            map_sum id ((#) \<lparr> sf_name = n,
                sf_size = (case node of File s \<Rightarrow> length s | _ \<Rightarrow> other_len),
                sf_is_directory = (node = Dir) \<rparr>)
              (source_entries other_len fs dir ns)))"

definition show_handler ::
    "(string \<Rightarrow> string + manifest) \<Rightarrow> (string \<Rightarrow> bool) \<Rightarrow> (string list \<Rightarrow> nat) \<Rightarrow> nat \<Rightarrow> fs \<Rightarrow> path \<Rightarrow> string
      \<Rightarrow> ui_error + handler_detail" where
  "show_handler yaml on_path mtime other_len fs ws name =
     (let path = handler_dir ws name in
      if \<not> validate_name name then Inl (Invalid_Handler_Name name)
      else if \<not> is_dir fs path then Inl (Handler_Not_Found name)
      else (case build_summary yaml mtime fs path name of
          Inl e \<Rightarrow> Inl e
        | Inr s \<Rightarrow>
           (let report = validate_manifest yaml on_path fs path;
                raw = (if mr_errors report = [] then
                         (case load_from_dir (read_to_string fs) yaml path of Inr (m, _) \<Rightarrow> Some m | Inl _ \<Rightarrow> None)
                       else None) in
            case read_dir fs path of
              Inl e \<Rightarrow> Inl (Io_Error e)
            | Inr ns \<Rightarrow>
               (case source_entries other_len fs path ns of
                  Inl e \<Rightarrow> Inl e
                | Inr sfs \<Rightarrow> Inr
                    \<lparr> hd_summary = s, hd_manifest = raw, hd_errors = mr_errors report, hd_warnings = mr_warnings report,
                      hd_source_files = sort_key sf_name sfs,
                      hd_has_fixtures = is_dir fs (path_join path ''fixtures''), hd_last_build = None \<rparr>))))"

definition handler_show ::
    "(string \<Rightarrow> string + manifest) \<Rightarrow> (string \<Rightarrow> bool) \<Rightarrow> (string list \<Rightarrow> nat) \<Rightarrow> nat \<Rightarrow> (string, build_outcome) bt
      \<Rightarrow> fs \<Rightarrow> path \<Rightarrow> string \<Rightarrow> ui_error + handler_detail" where
  "handler_show yaml on_path mtime other_len cache fs ws name =
     map_sum id (\<lambda>d. d\<lparr>hd_last_build := bt_lookup cache name\<rparr>) (show_handler yaml on_path mtime other_len fs ws name)"

section \<open>Build\<close>

definition build_raw ::
    "(string \<Rightarrow> string + manifest) \<Rightarrow> (string \<Rightarrow> bool) \<Rightarrow> (path \<Rightarrow> string list \<Rightarrow> string + (int option \<times> string \<times> string))
      \<Rightarrow> fs \<Rightarrow> path \<Rightarrow> string \<Rightarrow> (build_error + build_outcome) option" where
  "build_raw yaml on_path exec fs ws name =
     (if \<not> validate_name name then Some (Inl (Build_Io (''invalid handler name: '' @ name)))
      else if \<not> is_dir fs (handler_dir ws name) then
        Some (Inl (Build_Io (''handler '' @ CHR 0x27 # name @ CHR 0x27 # '' not found'')))
      else (case load_from_dir (read_to_string fs) yaml (handler_dir ws name) of
          Inl e \<Rightarrow> Some (Inl (Build_Io (''manifest load: '' @ e)))
        | Inr (m, _) \<Rightarrow> run_build on_path (exec (handler_dir ws name)) m))"

text \<open>The cache keeps the outcome of the last build that ran, failed or not; no result (\<open>None\<close>) is the panic of \<open>run_build\<close>.\<close>

definition handler_build ::
    "(string \<Rightarrow> string + manifest) \<Rightarrow> (string \<Rightarrow> bool) \<Rightarrow> (path \<Rightarrow> string list \<Rightarrow> string + (int option \<times> string \<times> string))
      \<Rightarrow> fs \<Rightarrow> path \<Rightarrow> string \<Rightarrow> (string, build_outcome) bt
      \<Rightarrow> ((ui_error + build_outcome) \<times> (string, build_outcome) bt) option" where
  "handler_build yaml on_path exec fs ws name cache =
     (if \<not> validate_name name then Some (Inl (Invalid_Handler_Name name), cache)
      else (case load_from_dir (read_to_string fs) yaml (handler_dir ws name) of
          Inl e \<Rightarrow> Some (Inl (Io_Error (''manifest load: '' @ e)), cache)
        | Inr (m, _) \<Rightarrow>
            if en_build (mf_entry m) = None then Some (Inl (Ui_No_Build_Command name), cache)
            else (case build_raw yaml on_path exec fs ws name of
                None \<Rightarrow> None
              | Some (Inr b) \<Rightarrow> Some (Inr b, bt_insert name b cache)
              | Some (Inl (Build_Failed code tail b)) \<Rightarrow> Some (Inl (Ui_Build_Failed name code), bt_insert name b cache)
              | Some (Inl (Toolchain_Missing tool)) \<Rightarrow> Some (Inl (Ui_Toolchain_Missing name tool), cache)
              | Some (Inl No_Build_Command) \<Rightarrow> Some (Inl (Ui_No_Build_Command name), cache)
              | Some (Inl (Build_Io e)) \<Rightarrow> Some (Inl (Io_Error e), cache))))"

section \<open>The editor\<close>

definition parse_argv :: "(string \<Rightarrow> string + string list) \<Rightarrow> string \<Rightarrow> ui_error + string list" where
  "parse_argv split cmd =
     (case split cmd of
        Inl e \<Rightarrow> Inl (Invalid_Arg (''invalid editor command '' @ CHR 0x27 # cmd @ CHR 0x27 # '': '' @ e))
      | Inr argv \<Rightarrow> Inr argv)"

definition blank :: "string \<Rightarrow> bool" where "blank s = (trim s = [])"

definition resolve_editor ::
    "(string \<Rightarrow> string + string list) \<Rightarrow> (string \<Rightarrow> bool) \<Rightarrow> string option \<Rightarrow> string option \<Rightarrow> string option \<Rightarrow> string list
      \<Rightarrow> ui_error + string list" where
  "resolve_editor split on_path preferred visual editor probes =
     (let probing = (case find on_path probes of Some n \<Rightarrow> Inr [n] | None \<Rightarrow> Inl Editor_Not_Found);
          tier = (\<lambda>v rest. case v of None \<Rightarrow> rest | Some cmd \<Rightarrow> if \<not> blank cmd then parse_argv split cmd else rest) in
      tier preferred (tier visual (tier editor probing)))"

definition PROBES :: "string list" where "PROBES = [''code'', ''cursor'', ''nvim'', ''vim'', ''nano'']"

text \<open>What is spawned: the program with its arguments, the handler's directory last.\<close>

definition open_editor ::
    "(string \<Rightarrow> string + string list) \<Rightarrow> (string \<Rightarrow> bool) \<Rightarrow> (string list \<Rightarrow> string + unit) \<Rightarrow> string option \<Rightarrow> string option
      \<Rightarrow> fs \<Rightarrow> path \<Rightarrow> string \<Rightarrow> string option \<Rightarrow> ui_error + unit" where
  "open_editor split on_path spawn visual editor fs ws name preferred =
     (if \<not> validate_name name then Inl (Invalid_Handler_Name name)
      else if \<not> is_dir fs (handler_dir ws name) then Inl (Handler_Not_Found name)
      else (case resolve_editor split on_path preferred visual editor PROBES of
          Inl e \<Rightarrow> Inl e
        | Inr [] \<Rightarrow> Inl Editor_Not_Found
        | Inr (cmd # args) \<Rightarrow>
           (case spawn (cmd # args @ [handler_dir ws name]) of
              Inl e \<Rightarrow> Inl (Io_Error (''spawn editor '' @ CHR 0x27 # cmd @ CHR 0x27 # '': '' @ e))
            | Inr _ \<Rightarrow> Inr ())))"

definition reveal_path :: "fs \<Rightarrow> path \<Rightarrow> string \<Rightarrow> ui_error + path" where
  "reveal_path fs ws name =
     (if \<not> validate_name name then Inl (Invalid_Handler_Name name)
      else if \<not> is_dir fs (handler_dir ws name) then Inl (Handler_Not_Found name)
      else Inr (handler_dir ws name))"

section \<open>Scaffolding\<close>

datatype scaffold_template = Go_Stdio | Go_Batch | Empty_Template

record scaffold_args =
  sa_name :: string
  sa_template :: scaffold_template
  sa_primary_field :: string

text \<open>The texts of the templates are the files of \<^verbatim>\<open>handler_templates/\<close>, given by \<open>tpl\<close>.\<close>

definition template_files :: "(path \<Rightarrow> string) \<Rightarrow> scaffold_template \<Rightarrow> (string \<times> string) list" where
  "template_files tpl t =
     (case t of
        Go_Stdio \<Rightarrow> [(''rowforge.yaml'', tpl ''go_stdio/rowforge.yaml.tpl''),
                     (''handler.go'', tpl ''go_stdio/handler.go.tpl''), (''go.mod'', tpl ''go_stdio/go.mod.tpl'')]
      | Go_Batch \<Rightarrow> [(''rowforge.yaml'', tpl ''go_batch/rowforge.yaml.tpl''),
                     (''handler.go'', tpl ''go_batch/handler.go.tpl''), (''go.mod'', tpl ''go_batch/go.mod.tpl'')]
      | Empty_Template \<Rightarrow> [(''rowforge.yaml'', tpl ''empty/rowforge.yaml.tpl''), (''handler.go'', tpl ''empty/handler.go.tpl'')])"

text \<open>\<^verbatim>\<open>str::replace\<close> with a pattern that is not empty: leftmost occurrences first, none overlapping.\<close>

fun replace :: "string \<Rightarrow> string \<Rightarrow> string \<Rightarrow> string" where
  "replace p r [] = []"
| "replace p r (c # s) =
     (if p \<noteq> [] \<and> starts_with (c # s) p then r @ replace p r (drop (length p - 1) s) else c # replace p r s)"

definition render :: "string \<Rightarrow> string \<Rightarrow> string \<Rightarrow> string" where
  "render template name primary_field =
     replace ''{{primary_field}}'' primary_field (replace ''{{name}}'' name template)"

type_synonym 'a op_result = "(ui_error + 'a) \<times> fuse \<times> fs"

text \<open>The \<^verbatim>\<open>?\<close> operator on the result of a file operation.\<close>

definition io_try :: "(string \<Rightarrow> string) \<Rightarrow> (string \<times> fuse \<times> fs) + (fuse \<times> fs) \<Rightarrow> (fuse \<times> fs \<Rightarrow> 'a op_result) \<Rightarrow> 'a op_result" where
  "io_try msg r k = (case r of Inl (e, st) \<Rightarrow> (Inl (Io_Error (msg e)), st) | Inr st \<Rightarrow> k st)"

definition write_templates ::
    "(path \<Rightarrow> string) \<Rightarrow> path \<Rightarrow> scaffold_args \<Rightarrow> fuse \<times> fs \<Rightarrow> (string \<times> fuse \<times> fs) + (fuse \<times> fs)" where
  "write_templates tpl dir args =
     fold_result (\<lambda>(n, t). write_file (comps (path_join dir n)) (render t (sa_name args) (sa_primary_field args)))
       (template_files tpl (sa_template args))"

definition scaffold :: "(path \<Rightarrow> string) \<Rightarrow> path \<Rightarrow> scaffold_args \<Rightarrow> fuse \<times> fs \<Rightarrow> string op_result" where
  "scaffold tpl ws args st =
     (let dir = handler_dir ws (sa_name args) in
      if \<not> validate_name (sa_name args) then (Inl (Invalid_Handler_Name (sa_name args)), st)
      else if \<not> validate_primary_field (sa_primary_field args) then
        (Inl (Invalid_Arg ''primary_field must be a valid identifier (letters, digits, underscores; cannot start with a digit)''), st)
      else if path_exists (snd st) dir then (Inl (Handler_Exists (sa_name args)), st)
      else io_try id (create_dirs (comps dir) st) (\<lambda>st.
           io_try id (write_templates tpl dir args st) (\<lambda>st. (Inr (sa_name args), st))))"

section \<open>Delete and rename\<close>

definition quoted :: "string \<Rightarrow> string" where "quoted s = CHR 0x27 # s @ [CHR 0x27]"

definition delete_handler :: "path \<Rightarrow> string \<Rightarrow> fuse \<times> fs \<Rightarrow> unit op_result" where
  "delete_handler ws name st =
     (let fs = snd st; target = handler_dir ws name in
      if \<not> validate_name name then (Inl (Invalid_Handler_Name name), st)
      else if symlink_metadata fs target = None then (Inl (Handler_Not_Found name), st)
      else (case canonicalize fs (handlers_dir ws) of
          None \<Rightarrow> (Inl (Io_Error ''canonicalize handlers dir: No such file or directory''), st)
        | Some canon_handlers \<Rightarrow>
           (case canonicalize fs target of
              None \<Rightarrow> (Inl (Io_Error ''canonicalize handler dir: No such file or directory''), st)
            | Some canon_target \<Rightarrow>
               if \<not> prefix canon_handlers canon_target then
                 (Inl (Invalid_Arg (''handler '' @ quoted name @ '' resolves outside the workspace's handlers/ directory'')), st)
               else (case (symlink_metadata fs target, entry_path fs target) of
                   (Some (Link _), Some q) \<Rightarrow>
                     (let (bad, io) = poll (fst st) in
                      if bad then (Inl (Io_Error ''remove symlink: Input/output error''), io, fs)
                      else (Inr (), io, remove_tree q fs))
                 | (Some Dir, Some q) \<Rightarrow>
                     (let (bad, io) = poll (fst st) in
                      if bad then (Inl (Io_Error ''remove handler dir: Input/output error''), io, fs)
                      else (Inr (), io, remove_tree q fs))
                 | _ \<Rightarrow> (Inl (Io_Error ''remove handler dir: Not a directory''), st)))))"

text \<open>
  \<^verbatim>\<open>fs::rename\<close> of a directory or of a link to one, onto a name that is free or a link that leads nowhere: a link
  replaces a link, a directory does not.
\<close>

definition rename_entry :: "path \<Rightarrow> path \<Rightarrow> fuse \<times> fs \<Rightarrow> (string \<times> fuse \<times> fs) + (fuse \<times> fs)" where
  "rename_entry src dst st =
     (let fs = snd st in
      case (entry_path fs src, entry_path fs dst) of
        (Some p, Some q) \<Rightarrow>
          (case (node_at fs p, node_at fs q) of
             (None, _) \<Rightarrow> Inl (''No such file or directory'', st)
           | (Some Dir, Some n) \<Rightarrow> Inl (''Not a directory'', st)
           | (Some _, _) \<Rightarrow>
               (let (bad, io) = poll (fst st) in
                if bad then Inl (''Input/output error'', io, fs) else Inr (io, move_tree p q fs)))
      | _ \<Rightarrow> Inl (''No such file or directory'', st))"

definition rename_handler :: "path \<Rightarrow> string \<Rightarrow> string \<Rightarrow> fuse \<times> fs \<Rightarrow> unit op_result" where
  "rename_handler ws old new st =
     (let fs = snd st; src = handler_dir ws old; dst = handler_dir ws new in
      if \<not> validate_name old then (Inl (Invalid_Handler_Name old), st)
      else if \<not> validate_name new then (Inl (Invalid_Handler_Name new), st)
      else if \<not> is_dir fs src then (Inl (Handler_Not_Found old), st)
      else if path_exists fs dst then (Inl (Handler_Exists new), st)
      else io_try (\<lambda>e. ''rename '' @ quoted old @ '' -> '' @ quoted new @ '': '' @ e)
             (rename_entry src dst st) (\<lambda>st. (Inr (), st)))"

section \<open>Import and fork\<close>

text \<open>
  The walk over the source: directories before what they hold, links not followed. The source is read as it was before
  the copy, so a destination inside of the source is a case of its own: there the walk meets the copies it makes and goes
  on until the operating system refuses the length of a path, which is not modelled (\<open>None\<close>).
\<close>

definition copy_entry :: "string list \<Rightarrow> string list \<times> fnode \<Rightarrow> fuse \<times> fs \<Rightarrow> (string \<times> fuse \<times> fs) + (fuse \<times> fs)" where
  "copy_entry dst e st =
     (case e of (rel, n) \<Rightarrow>
       (case n of
          Dir \<Rightarrow> create_dirs (dst @ rel) st
        | File s \<Rightarrow> (case create_dirs (dst @ butlast rel) st of Inl x \<Rightarrow> Inl x | Inr st \<Rightarrow> write_file (dst @ rel) s st)
        | _ \<Rightarrow> Inr st))"

definition tree_below :: "fs \<Rightarrow> string list \<Rightarrow> (string list \<times> fnode) list" where
  "tree_below fs c = map (\<lambda>(q, n). (drop (length c) q, n)) (filter (\<lambda>(q, n). strict_prefix c q) fs)"

definition copy_dir_recursive :: "path \<Rightarrow> path \<Rightarrow> fuse \<times> fs \<Rightarrow> ((string \<times> fuse \<times> fs) + (fuse \<times> fs)) option" where
  "copy_dir_recursive src dst st =
     (case create_dirs (comps dst) st of
        Inl x \<Rightarrow> Some (Inl x)
      | Inr (io, fs) \<Rightarrow>
         (case (canonicalize fs src, canonicalize fs dst) of
            (Some c, Some e) \<Rightarrow>
              if prefix c e then None
              else Some (fold_result (copy_entry (comps dst)) (tree_below fs c) (io, fs))
          | _ \<Rightarrow> Some (Inr (io, fs))))"

definition import_from_folder :: "path \<Rightarrow> path \<Rightarrow> string \<Rightarrow> fuse \<times> fs \<Rightarrow> unit op_result option" where
  "import_from_folder ws source name st =
     (let fs = snd st; target = handler_dir ws name in
      if \<not> validate_name name then Some (Inl (Invalid_Handler_Name name), st)
      else if \<not> is_dir fs source then Some (Inl (Invalid_Arg (''source path is not a directory: '' @ source)), st)
      else if \<not> is_file fs (path_join source ''rowforge.yaml'') then
        Some (Inl (Invalid_Arg ''source folder must contain rowforge.yaml''), st)
      else if path_exists fs target then Some (Inl (Handler_Exists name), st)
      else map_option (\<lambda>r. io_try (\<lambda>e. ''copy_dir_recursive: '' @ e) r (\<lambda>st. (Inr (), st)))
             (copy_dir_recursive source target st))"

definition rewrite_name ::
    "(string \<Rightarrow> string + manifest) \<Rightarrow> (manifest \<Rightarrow> string + string) \<Rightarrow> path \<Rightarrow> string \<Rightarrow> fuse \<times> fs \<Rightarrow> unit op_result" where
  "rewrite_name yaml to_yaml target new_name st =
     (case load_from_dir (read_to_string (snd st)) yaml target of
        Inl e \<Rightarrow> (Inr (), st)
      | Inr (m, _) \<Rightarrow>
         (case to_yaml (m\<lparr>mf_name := new_name\<rparr>) of
            Inl e \<Rightarrow> (Inl (Io_Error (''serialize manifest after fork: '' @ e)), st)
          | Inr text \<Rightarrow>
              io_try (\<lambda>e. ''write manifest after fork: '' @ e)
                (write_file (comps (path_join target ''rowforge.yaml'')) text st) (\<lambda>st. (Inr (), st))))"

definition fork_handler ::
    "(string \<Rightarrow> string + manifest) \<Rightarrow> (manifest \<Rightarrow> string + string) \<Rightarrow> path \<Rightarrow> string \<Rightarrow> string \<Rightarrow> fuse \<times> fs
      \<Rightarrow> unit op_result option" where
  "fork_handler yaml to_yaml ws source new_name st =
     (let fs = snd st; source_dir = handler_dir ws source; target = handler_dir ws new_name in
      if \<not> validate_name source then Some (Inl (Invalid_Handler_Name source), st)
      else if \<not> validate_name new_name then Some (Inl (Invalid_Handler_Name new_name), st)
      else if source = new_name then Some (Inl (Invalid_Arg ''new_name must differ from source''), st)
      else if \<not> is_dir fs source_dir then Some (Inl (Handler_Not_Found source), st)
      else if path_exists fs target then Some (Inl (Handler_Exists new_name), st)
      else map_option (\<lambda>r. io_try (\<lambda>e. ''copy_dir_recursive: '' @ e) r (rewrite_name yaml to_yaml target new_name))
             (copy_dir_recursive source_dir target st))"

section \<open>All operations\<close>

datatype handler_op =
    Op_Scaffold scaffold_args
  | Op_Delete string
  | Op_Rename string string
  | Op_Import path string
  | Op_Fork string string

definition handler_step ::
    "(path \<Rightarrow> string) \<Rightarrow> (string \<Rightarrow> string + manifest) \<Rightarrow> (manifest \<Rightarrow> string + string) \<Rightarrow> path \<Rightarrow> handler_op
      \<Rightarrow> fuse \<times> fs \<Rightarrow> unit op_result option" where
  "handler_step tpl yaml to_yaml ws op st =
     (case op of
        Op_Scaffold args \<Rightarrow> (case scaffold tpl ws args st of (r, st) \<Rightarrow> Some (map_sum id (\<lambda>_. ()) r, st))
      | Op_Delete n \<Rightarrow> Some (delete_handler ws n st)
      | Op_Rename a b \<Rightarrow> Some (rename_handler ws a b st)
      | Op_Import src n \<Rightarrow> import_from_folder ws src n st
      | Op_Fork a b \<Rightarrow> fork_handler yaml to_yaml ws a b st)"

section \<open>Where a handler lives\<close>

lemma valid_good: "validate_name n \<Longrightarrow> good_name n"
  by (auto simp: validate_name_def good_name_def ascii_lower_def is_digit_def list_all_iff split: list.splits if_splits)

lemma good_relative: "good_name n \<Longrightarrow> \<not> starts_with n ''/''"
  by (cases n) (auto simp: good_name_def starts_with_def)

lemma comps_good: "good_name n \<Longrightarrow> comps n = [n]"
  by (rule comps_plain) (auto simp: good_name_def)

lemma comps_join_good: "good_name n \<Longrightarrow> comps (path_join p n) = comps p @ [n]"
  by (simp add: comps_join comps_good good_relative)

lemma comps_handler: "validate_name n \<Longrightarrow> comps (handler_dir ws n) = comps (handlers_dir ws) @ [n]"
  by (simp add: handler_dir_def comps_join_good valid_good)

text \<open>The directory the handlers are in, and how its path resolves.\<close>

definition handlers_at :: "fs \<Rightarrow> path \<Rightarrow> string list \<Rightarrow> bool" where
  "handlers_at fs ws d = (canonicalize fs (handlers_dir ws) = Some d \<and> node_at fs d = Some Dir)"

lemma handlers_at_walk:
  "handlers_at fs ws d \<longleftrightarrow> (\<exists>k. walk MAX_LINKS fs [] (comps (handlers_dir ws)) = Some (k, d)) \<and> node_at fs d = Some Dir"
  by (auto simp: handlers_at_def canonicalize_def)

lemma handler_entry:
  assumes "handlers_at fs ws d" "validate_name n"
  shows "entry_path fs (handler_dir ws n) = Some (d @ [n])"
  using assms by (auto simp: handlers_at_walk entry_of_dir[OF comps_handler])

lemma handler_lstat:
  "handlers_at fs ws d \<Longrightarrow> validate_name n \<Longrightarrow> symlink_metadata fs (handler_dir ws n) = node_at fs (d @ [n])"
  by (simp add: symlink_metadata_def handler_entry)

lemma handler_walk:
  assumes "handlers_at fs ws d" "validate_name n"
  shows "\<exists>k. walk MAX_LINKS fs [] (comps (handlers_dir ws)) = Some (k, d) \<and>
    walk MAX_LINKS fs [] (comps (handler_dir ws n)) =
      (case node_at fs (d @ [n]) of
         None \<Rightarrow> None
       | Some (Link t) \<Rightarrow> (case k of 0 \<Rightarrow> None | Suc j \<Rightarrow> walk j fs (if starts_with t ''/'' then [] else d) (comps t))
       | Some _ \<Rightarrow> Some (k, d @ [n]))"
proof -
  have "n \<noteq> ''..''" using valid_good[OF assms(2)] by (simp add: good_name_def)
  then show ?thesis
    using assms(1) by (fastforce simp: handlers_at_walk comps_handler[OF assms(2)] walk_append hop_def
        split: option.split fnode.split nat.split)
qed

lemma handler_canonical:
  assumes "handlers_at fs ws d" "validate_name n"
  shows "node_at fs (d @ [n]) = None \<Longrightarrow> canonicalize fs (handler_dir ws n) = None"
    and "node_at fs (d @ [n]) = Some m \<Longrightarrow> (\<And>t. m \<noteq> Link t) \<Longrightarrow> canonicalize fs (handler_dir ws n) = Some (d @ [n])"
  using handler_walk[OF assms] by (auto simp: canonicalize_def, cases m) auto

lemma handler_missing:
  assumes "fs_ok fs" "handlers_at fs ws d" "validate_name n"
  shows "\<not> path_exists fs (handler_dir ws n) \<longleftrightarrow>
    node_at fs (d @ [n]) = None \<or>
    (\<exists>t. node_at fs (d @ [n]) = Some (Link t)) \<and> canonicalize fs (handler_dir ws n) = None"
proof (cases "node_at fs (d @ [n])")
  case None
  then show ?thesis using handler_canonical(1)[OF assms(2,3)] by (simp add: path_exists_def metadata_def)
next
  case (Some m)
  show ?thesis
  proof (cases "\<exists>t. m = Link t")
    case True
    have "canonicalize fs (handler_dir ws n) = Some c \<Longrightarrow> node_at fs c \<noteq> None" for c
      using canonicalize_found[OF assms(1)] by (auto simp: found_def)
    then show ?thesis using Some True
      by (cases "canonicalize fs (handler_dir ws n)") (auto simp: path_exists_def metadata_def)
  next
    case False
    then show ?thesis using Some handler_canonical(2)[OF assms(2,3)] by (auto simp: path_exists_def metadata_def)
  qed
qed

section \<open>A new handler directory\<close>

lemma new_handler_grown:
  assumes ok: "fs_ok fs" and h: "handlers_at fs ws d" and n: "validate_name n" and free: "node_at fs (d @ [n]) = None"
  shows "grown fs (comps (handler_dir ws n)) (d @ [n]) (bt_insert (d @ [n]) Dir fs)"
proof -
  let ?fs = "bt_insert (d @ [n]) Dir fs"
  have at: "node_at ?fs q = (if q = d @ [n] then Some Dir else node_at fs q)" for q
    using ok by (simp add: node_at_insert)
  have d: "node_at fs d = Some Dir" using h by (simp add: handlers_at_def)
  have ext: "extends ?fs fs" using ok free by (intro extends_insert) auto
  have ok': "fs_ok ?fs" using ok d valid_good[OF n] by (intro fs_ok_insert) auto
  have "handlers_at ?fs ws d" using h walk_extends[OF ext] ext by (auto simp: handlers_at_walk extends_def)
  then obtain k where "walk MAX_LINKS ?fs [] (comps (handler_dir ws n)) = Some (k, d @ [n])"
    using handler_walk[of ?fs ws d n] n by (auto simp: at)
  moreover have "prefix (d @ [n]) q \<Longrightarrow> node_at fs q = None" for q using fs_ok_below[OF ok free] .
  ultimately show ?thesis using ok' by (auto simp: grown_def at)
qed

lemma create_handler_dir:
  assumes ok: "fs_ok fs" and h: "handlers_at fs ws d" and n: "validate_name n"
    and gone: "\<not> path_exists fs (handler_dir ws n)"
  shows "create_dirs (comps (handler_dir ws n)) (io, fs) =
    (if node_at fs (d @ [n]) \<noteq> None then Inl (''File exists'', io, fs)
     else let (bad, io') = poll io in
       if bad then Inl (''Input/output error'', io', fs) else Inr (io', bt_insert (d @ [n]) Dir fs))"
proof -
  obtain k where w: "walk MAX_LINKS fs [] (comps (handlers_dir ws)) = Some (k, d)" "node_at fs d = Some Dir"
    using h by (auto simp: handlers_at_walk)
  have "canonicalize fs (handler_dir ws n) = None"
    using gone handler_missing[OF ok h n] handler_canonical(1)[OF h n] by auto
  then have none: "walk MAX_LINKS fs [] (comps (handlers_dir ws) @ [n]) = None"
    by (simp add: canonicalize_def comps_handler[OF n])
  have "create_dirs (comps (handler_dir ws n)) (io, fs) = mkdir_step (comps (handlers_dir ws) @ [n]) (io, fs)"
    using create_dirs_split[OF w, of "[n]" io] by (simp add: comps_handler[OF n] split: sum.split)
  then show ?thesis using none w by (auto simp: mkdir_step_def split: prod.split)
qed

lemma create_handler_grown:
  assumes "fs_ok fs" "handlers_at fs ws d" "validate_name n" "\<not> path_exists fs (handler_dir ws n)"
  shows "case create_dirs (comps (handler_dir ws n)) (io, fs) of
      Inl (e, io', fs') \<Rightarrow> fs' = fs
    | Inr (io', fs') \<Rightarrow> grown fs (comps (handler_dir ws n)) (d @ [n]) fs'"
proof -
  obtain b io' where "poll io = (b, io')" by (cases "poll io")
  then show ?thesis
    using create_handler_dir[OF assms, of io] new_handler_grown[OF assms(1-3)] by (auto split: option.split)
qed

section \<open>The operations that make a handler\<close>

text \<open>How an operation leaves the file system: untouched, or with one new tree at the handler's name.\<close>

definition only_new :: "fs \<Rightarrow> path \<Rightarrow> string list \<Rightarrow> string \<Rightarrow> fs \<Rightarrow> bool" where
  "only_new fs ws d n fs' = (fs' = fs \<or> grown fs (comps (handler_dir ws n)) (d @ [n]) fs')"

lemma io_try_state: "snd (snd (io_try msg r k)) = (case r of Inl (e, io, fs) \<Rightarrow> fs | Inr st \<Rightarrow> snd (snd (k st)))"
  by (auto simp: io_try_def split: sum.split)

lemma template_names: "(f, t) \<in> set (template_files tpl k) \<Longrightarrow> good_name f"
  by (auto simp: template_files_def good_name_def split: scaffold_template.splits)

lemma grown_templates:
  assumes g: "grown fs0 (comps dir) e fs"
  shows "grown fs0 (comps dir) e (state_of (write_templates tpl dir args (io, fs)))"
  unfolding write_templates_def
proof (rule fold_result_states[where P = "grown fs0 (comps dir) e"])
  fix x io fs
  assume "x \<in> set (template_files tpl (sa_template args))" "grown fs0 (comps dir) e fs"
  moreover obtain f t where "x = (f, t)" by (cases x)
  ultimately show "grown fs0 (comps dir) e (state_of ((case x of (n, t) \<Rightarrow>
      write_file (comps (path_join dir n)) (render t (sa_name args) (sa_primary_field args))) (io, fs)))"
    using template_names[of f t tpl "sa_template args"] by (simp add: comps_join_good grown_write)
qed (rule g)

lemma scaffold_only_new:
  assumes ok: "fs_ok fs" and h: "handlers_at fs ws d"
  shows "validate_name (sa_name args) \<and> only_new fs ws d (sa_name args) (snd (snd (scaffold tpl ws args (io, fs)))) \<or>
    snd (snd (scaffold tpl ws args (io, fs))) = fs"
proof (cases "validate_name (sa_name args) \<and> \<not> path_exists fs (handler_dir ws (sa_name args))")
  case True
  note c = create_handler_grown[OF ok h conjunct1[OF True] conjunct2[OF True], of io]
  show ?thesis
  proof (cases "create_dirs (comps (handler_dir ws (sa_name args))) (io, fs)")
    case (Inl a)
    then show ?thesis using c True by (auto simp: scaffold_def Let_def io_try_state split: prod.splits)
  next
    case (Inr b)
    obtain io' fs' where b: "b = (io', fs')" by (cases b)
    then have "grown fs (comps (handler_dir ws (sa_name args))) (d @ [sa_name args]) fs'" using c Inr by simp
    from grown_templates[OF this, of tpl args io'] show ?thesis
      using True Inr b by (auto simp: scaffold_def Let_def io_try_state only_new_def state_of_def split: sum.splits)
  qed
qed (auto simp: scaffold_def Let_def)

lemma tree_below_names:
  assumes "fs_ok fs" "(rel, n) \<in> set (tree_below fs c)"
  shows "rel \<noteq> [] \<and> list_all good_name rel \<and> node_at fs (c @ rel) = Some n"
proof -
  obtain q where q: "(q, n) \<in> set fs" "strict_prefix c q" "rel = drop (length c) q"
    using assms(2) by (auto simp: tree_below_def)
  then have lk: "bt_lookup fs q = Some n" using assms(1) by (simp add: bt_lookup_in_set)
  obtain r where r: "q = c @ r" "r \<noteq> []" using q(2) by (auto simp: strict_prefix_def prefix_def)
  have "node_at fs q = Some n" using lk r by (simp add: node_at_def)
  moreover from this have "list_all good_name q" using fs_ok_names[OF assms(1)] by blast
  ultimately show ?thesis using q(3) r by simp
qed

lemma tree_below_iff:
  assumes "fs_ok fs"
  shows "(rel, n) \<in> set (tree_below fs c) \<longleftrightarrow> rel \<noteq> [] \<and> node_at fs (c @ rel) = Some n"
proof
  assume r: "rel \<noteq> [] \<and> node_at fs (c @ rel) = Some n"
  then have "(c @ rel, n) \<in> set fs" using assms by (auto simp: node_at_def bt_lookup_in_set[symmetric])
  moreover have "strict_prefix c (c @ rel)" using r by (auto simp: strict_prefix_def)
  ultimately show "(rel, n) \<in> set (tree_below fs c)" by (force simp: tree_below_def)
qed (use tree_below_names[OF assms] in blast)

lemma grown_copy_entry:
  assumes g: "grown fs0 ds e fs" and rel: "list_all good_name rel" "rel \<noteq> []"
  shows "grown fs0 ds e (state_of (copy_entry ds (rel, n) (io, fs)))"
proof (cases n)
  case (File s)
  have b: "list_all good_name (butlast rel)" using rel by (auto simp: list_all_iff dest: in_set_butlastD)
  note c = grown_create_dirs[OF g b, of io]
  show ?thesis
  proof (cases "create_dirs (ds @ butlast rel) (io, fs)")
    case (Inr st)
    obtain io' fs' where "st = (io', fs')" by (cases st)
    then show ?thesis using File Inr c grown_write[of fs0 ds e fs' rel s io'] rel by (simp add: copy_entry_def)
  qed (use File c in \<open>simp add: copy_entry_def\<close>)
next
  case Dir
  then show ?thesis using grown_create_dirs[OF g rel(1)] by (simp add: copy_entry_def)
qed (use g in \<open>simp_all add: copy_entry_def\<close>)

lemma copy_grown:
  assumes ok: "fs_ok fs" and h: "handlers_at fs ws d" and n: "validate_name n"
    and gone: "\<not> path_exists fs (handler_dir ws n)"
    and r: "copy_dir_recursive src (handler_dir ws n) (io, fs) = Some r"
  shows "only_new fs ws d n (state_of r) \<and>
    (\<forall>st. r = Inr st \<longrightarrow> grown fs (comps (handler_dir ws n)) (d @ [n]) (snd st))"
proof (cases "create_dirs (comps (handler_dir ws n)) (io, fs)")
  case (Inl a)
  then show ?thesis
    using create_handler_grown[OF ok h n gone, of io] r
    by (auto simp: copy_dir_recursive_def only_new_def state_of_def split: prod.splits)
next
  case (Inr b)
  obtain io1 fs1 where b: "b = (io1, fs1)" by (cases b)
  have g: "grown fs (comps (handler_dir ws n)) (d @ [n]) fs1" using create_handler_grown[OF ok h n gone, of io] Inr b by simp
  have "grown fs (comps (handler_dir ws n)) (d @ [n]) (state_of (fold_result (copy_entry (comps (handler_dir ws n))) (tree_below fs1 c) (io1, fs1)))" for c
  proof (rule fold_result_states[where P = "grown fs (comps (handler_dir ws n)) (d @ [n])"])
    fix x io fs2
    assume x: "x \<in> set (tree_below fs1 c)" and g2: "grown fs (comps (handler_dir ws n)) (d @ [n]) fs2"
    obtain rel m where "x = (rel, m)" by (cases x)
    with x g2 show "grown fs (comps (handler_dir ws n)) (d @ [n]) (state_of (copy_entry (comps (handler_dir ws n)) x (io, fs2)))"
      using tree_below_names[OF grown_ok[OF g]] by (blast intro: grown_copy_entry)
  qed (rule g)
  moreover have "r = Inr (io1, fs1) \<or> (\<exists>c. r = fold_result (copy_entry (comps (handler_dir ws n))) (tree_below fs1 c) (io1, fs1))"
    using r Inr b by (auto simp: copy_dir_recursive_def split: option.splits if_splits)
  ultimately have "grown fs (comps (handler_dir ws n)) (d @ [n]) (state_of r)" using g by auto
  then show ?thesis by (auto simp: only_new_def state_of_def split: sum.splits prod.splits)
qed

lemma import_only_new:
  assumes ok: "fs_ok fs" and h: "handlers_at fs ws d" and r: "import_from_folder ws src n (io, fs) = Some (r, io', fs')"
  shows "fs' = fs \<or> validate_name n \<and> only_new fs ws d n fs'"
proof (cases "validate_name n \<and> \<not> path_exists fs (handler_dir ws n)")
  case True
  show ?thesis
  proof (cases "fs' = fs")
    case False
    then obtain c where c: "copy_dir_recursive src (handler_dir ws n) (io, fs) = Some c"
      and s: "io_try ((@) ''copy_dir_recursive: '') c (\<lambda>st. (Inr (), st)) = (r, io', fs')"
      using r True by (auto simp: import_from_folder_def Let_def split: if_splits)
    have "fs' = state_of c" using arg_cong[OF s, of "\<lambda>x. snd (snd x)"] by (auto simp: io_try_state state_of_def split: sum.splits prod.splits)
    then show ?thesis using copy_grown[OF ok h conjunct1[OF True] conjunct2[OF True] c] True by simp
  qed simp
qed (use r in \<open>auto simp: import_from_folder_def Let_def split: if_splits\<close>)

lemma rewrite_state:
  "snd (snd (rewrite_name yaml to_yaml dir n (io, fs))) = fs \<or>
   (\<exists>t. snd (snd (rewrite_name yaml to_yaml dir n (io, fs))) = state_of (write_file (comps (path_join dir ''rowforge.yaml'')) t (io, fs)))"
proof (cases "load_from_dir (read_to_string fs) yaml dir")
  case (Inr mp)
  obtain m p where mp: "mp = (m, p)" by (cases mp)
  show ?thesis
  proof (cases "to_yaml (m\<lparr>mf_name := n\<rparr>)")
    case (Inr t)
    have "snd (snd (rewrite_name yaml to_yaml dir n (io, fs))) =
        state_of (write_file (comps (path_join dir ''rowforge.yaml'')) t (io, fs))"
      using Inr mp \<open>load_from_dir (read_to_string fs) yaml dir = Inr mp\<close>
      by (auto simp: rewrite_name_def io_try_state state_of_def split: sum.split prod.split)
    then show ?thesis by blast
  qed (use Inr mp in \<open>simp add: rewrite_name_def\<close>)
qed (simp add: rewrite_name_def)

lemma rewrite_grown:
  assumes g: "grown fs0 (comps dir) e fs"
  shows "grown fs0 (comps dir) e (snd (snd (rewrite_name yaml to_yaml dir n (io, fs))))"
proof -
  have "good_name ''rowforge.yaml''" by (simp add: good_name_def)
  then have "grown fs0 (comps dir) e (state_of (write_file (comps (path_join dir ''rowforge.yaml'')) t (io, fs)))" for t
    using grown_write[OF g, of "[''rowforge.yaml'']"] by (simp add: comps_join_good)
  then show ?thesis using g rewrite_state[of yaml to_yaml dir n io fs] by auto
qed

lemma fork_only_new:
  assumes ok: "fs_ok fs" and h: "handlers_at fs ws d"
    and r: "fork_handler yaml to_yaml ws a n (io, fs) = Some (r, io', fs')"
  shows "fs' = fs \<or> validate_name n \<and> only_new fs ws d n fs'"
proof (cases "validate_name n \<and> \<not> path_exists fs (handler_dir ws n)")
  case True
  show ?thesis
  proof (cases "fs' = fs")
    case False
    then obtain c where c: "copy_dir_recursive (handler_dir ws a) (handler_dir ws n) (io, fs) = Some c"
      and s: "io_try ((@) ''copy_dir_recursive: '') c (rewrite_name yaml to_yaml (handler_dir ws n) n) = (r, io', fs')"
      using r True by (auto simp: fork_handler_def Let_def split: if_splits)
    note cg = copy_grown[OF ok h conjunct1[OF True] conjunct2[OF True] c]
    have fs': "fs' = (case c of Inl (e, io, fs) \<Rightarrow> fs | Inr st \<Rightarrow> snd (snd (rewrite_name yaml to_yaml (handler_dir ws n) n st)))"
      using arg_cong[OF s, of "\<lambda>x. snd (snd x)"] by (simp add: io_try_state)
    show ?thesis
    proof (cases c)
      case (Inl x)
      then show ?thesis using cg fs' True by (auto simp: state_of_def split: prod.splits)
    next
      case (Inr st)
      obtain io2 fs2 where "st = (io2, fs2)" by (cases st)
      then show ?thesis using cg fs' Inr True rewrite_grown[of fs "handler_dir ws n" "d @ [n]" fs2 yaml to_yaml n io2]
        by (auto simp: only_new_def)
    qed
  qed simp
qed (use r in \<open>auto simp: fork_handler_def Let_def split: if_splits\<close>)

section \<open>Delete and rename\<close>

lemma delete_state:
  assumes "handlers_at fs ws d" "validate_name n"
  shows "snd (snd (delete_handler ws n (io, fs))) = fs \<or>
    node_at fs (d @ [n]) \<noteq> None \<and> snd (snd (delete_handler ws n (io, fs))) = remove_tree (d @ [n]) fs"
  using assms handler_lstat[OF assms] handler_entry[OF assms]
  by (auto simp: delete_handler_def Let_def split: option.split fnode.split prod.split)

lemma delete_invalid: "\<not> validate_name n \<Longrightarrow> delete_handler ws n st = (Inl (Invalid_Handler_Name n), st)"
  by (simp add: delete_handler_def)

lemma rename_state:
  assumes ok: "fs_ok fs" and h: "handlers_at fs ws d"
  shows "snd (snd (rename_handler ws a b (io, fs))) = fs \<or>
    validate_name a \<and> validate_name b \<and> a \<noteq> b \<and> node_at fs (d @ [a]) \<noteq> None \<and>
    (node_at fs (d @ [b]) = None \<or> (\<exists>t. node_at fs (d @ [b]) = Some (Link t))) \<and>
    snd (snd (rename_handler ws a b (io, fs))) = move_tree (d @ [a]) (d @ [b]) fs"
proof (cases "validate_name a \<and> validate_name b \<and> is_dir fs (handler_dir ws a) \<and> \<not> path_exists fs (handler_dir ws b)")
  case True
  then have ab: "a \<noteq> b" by (auto simp: is_dir_def path_exists_def)
  have free: "node_at fs (d @ [b]) = None \<or> (\<exists>t. node_at fs (d @ [b]) = Some (Link t))"
    using handler_missing[OF ok h] True by auto
  have e: "entry_path fs (handler_dir ws a) = Some (d @ [a])" "entry_path fs (handler_dir ws b) = Some (d @ [b])"
    using handler_entry[OF h] True by auto
  have "state_of (rename_entry (handler_dir ws a) (handler_dir ws b) (io, fs)) = fs \<or>
      node_at fs (d @ [a]) \<noteq> None \<and>
      state_of (rename_entry (handler_dir ws a) (handler_dir ws b) (io, fs)) = move_tree (d @ [a]) (d @ [b]) fs"
    unfolding rename_entry_def
    by (simp add: e Let_def split: option.split fnode.split prod.split)
  then show ?thesis using True ab free
    by (auto simp: rename_handler_def Let_def io_try_state state_of_def split: sum.splits prod.splits)
qed (auto simp: rename_handler_def Let_def)

lemma nothing_below: "fs_ok fs \<Longrightarrow> node_at fs e \<noteq> Some Dir \<Longrightarrow> strict_prefix e q \<Longrightarrow> node_at fs q = None"
proof (induction q rule: rev_induct)
  case (snoc c q)
  show ?case
  proof (cases "e = q")
    case True
    then show ?thesis using fs_okD[OF snoc.prems(1), of "q @ [c]"] snoc.prems(2) by (cases "node_at fs (q @ [c])") auto
  next
    case False
    then have "node_at fs q = None" using snoc by (auto simp: strict_prefix_def)
    then show ?thesis using fs_okD[OF snoc.prems(1), of "q @ [c]"] by (cases "node_at fs (q @ [c])") auto
  qed
qed (simp add: strict_prefix_def)

section \<open>The operations together\<close>

text \<open>The names an operation is about, and those whose entry it is meant to take away.\<close>

definition op_names :: "handler_op \<Rightarrow> string list" where
  "op_names op =
     (case op of Op_Scaffold args \<Rightarrow> [sa_name args] | Op_Delete n \<Rightarrow> [n] | Op_Rename a b \<Rightarrow> [a, b]
      | Op_Import src n \<Rightarrow> [n] | Op_Fork a b \<Rightarrow> [b])"

definition gives_up :: "handler_op \<Rightarrow> string list" where
  "gives_up op = (case op of Op_Delete n \<Rightarrow> [n] | Op_Rename a b \<Rightarrow> [a] | _ \<Rightarrow> [])"

definition free_name :: "fs \<Rightarrow> string list \<Rightarrow> bool" where
  "free_name fs q = (case node_at fs q of None \<Rightarrow> True | Some (Link _) \<Rightarrow> True | Some _ \<Rightarrow> False)"

lemma free_name_iff: "free_name fs q \<longleftrightarrow> node_at fs q = None \<or> (\<exists>t. node_at fs q = Some (Link t))"
  by (auto simp: free_name_def split: option.split fnode.split)

lemma handler_step_cases:
  assumes ok: "fs_ok fs" and h: "handlers_at fs ws d" and r: "handler_step tpl yaml to_yaml ws op (io, fs) = Some (r, io', fs')"
  shows "fs' = fs \<or>
    (\<exists>n\<in>set (op_names op). validate_name n \<and> only_new fs ws d n fs') \<or>
    (\<exists>n. op = Op_Delete n \<and> validate_name n \<and> fs' = remove_tree (d @ [n]) fs) \<or>
    (\<exists>a b. op = Op_Rename a b \<and> validate_name a \<and> validate_name b \<and> a \<noteq> b \<and> node_at fs (d @ [a]) \<noteq> None \<and>
       free_name fs (d @ [b]) \<and> fs' = move_tree (d @ [a]) (d @ [b]) fs)"
proof (cases op)
  case (Op_Scaffold args)
  then have "fs' = snd (snd (scaffold tpl ws args (io, fs)))" using r by (auto simp: handler_step_def split: prod.splits)
  then show ?thesis using scaffold_only_new[OF ok h, of args tpl io] Op_Scaffold by (auto simp: op_names_def)
next
  case (Op_Delete n)
  then have s: "fs' = snd (snd (delete_handler ws n (io, fs)))" using r by (auto simp: handler_step_def)
  show ?thesis
  proof (cases "validate_name n")
    case True
    then show ?thesis using delete_state[OF h True, of io] s Op_Delete by auto
  qed (use s in \<open>simp add: delete_invalid\<close>)
next
  case (Op_Rename a b)
  then have "fs' = snd (snd (rename_handler ws a b (io, fs)))" using r by (auto simp: handler_step_def)
  then show ?thesis using rename_state[OF ok h, of a b io] Op_Rename by (auto simp: free_name_iff)
next
  case (Op_Import src n)
  then show ?thesis using import_only_new[OF ok h] r by (auto simp: handler_step_def op_names_def)
next
  case (Op_Fork a b)
  then show ?thesis using fork_only_new[OF ok h] r by (auto simp: handler_step_def op_names_def)
qed

text \<open>C24: Whatever handler operation is asked for, with whatever names, source folder, templates and device failures, it
  changes nothing but what lies below one of its own names in the workspace's directory of handlers, and only if that
  name passes the name check. No name can lead it anywhere else (\<open>d\<close> is where the handlers directory really is).\<close>

theorem handler_ops_fenced:
  assumes "fs_ok fs" "handlers_at fs ws d"
    and "handler_step tpl yaml to_yaml ws op (io, fs) = Some (r, io', fs')"
    and "node_at fs' q \<noteq> node_at fs q"
  shows "list_ex (\<lambda>n. validate_name n \<and> prefix (d @ [n]) q) (op_names op)"
  using handler_step_cases[OF assms(1-3)] assms(4)
proof (elim disjE bexE exE conjE)
  fix n
  assume "n \<in> set (op_names op)" "validate_name n" "only_new fs ws d n fs'"
  then show ?thesis using assms(4) grown_only_below by (fastforce simp: only_new_def list_ex_iff)
next
  fix n
  assume "op = Op_Delete n" "validate_name n" "fs' = remove_tree (d @ [n]) fs"
  then show ?thesis using assms(4) by (auto simp: op_names_def node_at_remove split: if_splits)
next
  fix a b
  assume "op = Op_Rename a b" "validate_name a" "validate_name b" "a \<noteq> b" "fs' = move_tree (d @ [a]) (d @ [b]) fs"
  then show ?thesis using assms(1,4) by (auto simp: op_names_def node_at_move split: if_splits)
qed auto

text \<open>No operation overwrites or loses a file or a directory: scaffolding, importing and forking leave everything that was
  there, a rename everything but what it moves, a delete everything but what it removes.\<close>

theorem handler_ops_keep_others:
  assumes "fs_ok fs" "handlers_at fs ws d"
    and "handler_step tpl yaml to_yaml ws op (io, fs) = Some (r, io', fs')"
    and "node_at fs q = Some m" "case m of Link _ \<Rightarrow> False | _ \<Rightarrow> True" "list_all (\<lambda>n. \<not> prefix (d @ [n]) q) (gives_up op)"
  shows "node_at fs' q = Some m"
  using handler_step_cases[OF assms(1-3)]
proof (elim disjE bexE exE conjE)
  fix n
  assume "only_new fs ws d n fs'"
  then show ?thesis using assms(4) grown_extends by (fastforce simp: only_new_def extends_def)
next
  fix n
  assume "op = Op_Delete n" "fs' = remove_tree (d @ [n]) fs"
  then show ?thesis using assms(4,6) by (simp add: gives_up_def node_at_remove)
next
  fix a b
  assume r: "op = Op_Rename a b" "a \<noteq> b" "fs' = move_tree (d @ [a]) (d @ [b]) fs"
    and free': "free_name fs (d @ [b])"
  note free = free'[unfolded free_name_iff]
  have "\<not> prefix (d @ [b]) q"
  proof
    assume p: "prefix (d @ [b]) q"
    have "q \<noteq> d @ [b]" using free assms(4,5) by auto
    then have "strict_prefix (d @ [b]) q" using p by (simp add: strict_prefix_def)
    moreover have "node_at fs (d @ [b]) \<noteq> Some Dir" using free by auto
    ultimately show False using nothing_below[OF assms(1)] assms(4) by fastforce
  qed
  then show ?thesis using r assms(1,4,6) by (simp add: gives_up_def node_at_move)
qed (use assms(4) in auto)

text \<open>How a path of the library is resolved one name at a time keeps an unsettled file system well formed too.\<close>

lemma handler_comps: "validate_name n \<Longrightarrow> path_names (comps (handler_dir ws n)) \<and> comps (handler_dir ws n) \<noteq> []"
  by (simp add: comps_handler path_names_good valid_good)

lemma fs_ok_templates:
  assumes "fs_ok fs"
  shows "fs_ok (state_of (write_templates tpl dir args (io, fs)))"
  unfolding write_templates_def
proof (rule fold_result_states[where P = fs_ok])
  fix x io fs
  assume "x \<in> set (template_files tpl (sa_template args))" "fs_ok fs"
  moreover obtain f t where "x = (f, t)" by (cases x)
  ultimately show "fs_ok (state_of ((case x of (n, t) \<Rightarrow>
      write_file (comps (path_join dir n)) (render t (sa_name args) (sa_primary_field args))) (io, fs)))"
    using template_names[of f t tpl "sa_template args"] by (simp add: comps_join_good fs_ok_write path_names_good)
qed (rule assms)

lemma fs_ok_copy_entry:
  assumes ok: "fs_ok fs" and ds: "path_names ds" and rel: "list_all good_name rel" "rel \<noteq> []"
  shows "fs_ok (state_of (copy_entry ds (rel, n) (io, fs)))"
proof (cases n)
  case (File s)
  have "list_all good_name (butlast rel)" using rel by (auto simp: list_all_iff dest: in_set_butlastD)
  then have c: "fs_ok (state_of (create_dirs (ds @ butlast rel) (io, fs)))"
    using ok ds by (intro fs_ok_create_dirs) (auto intro: path_names_good)
  show ?thesis
  proof (cases "create_dirs (ds @ butlast rel) (io, fs)")
    case (Inr st)
    obtain io' fs' where "st = (io', fs')" by (cases st)
    then show ?thesis using File Inr c ds rel by (simp add: copy_entry_def fs_ok_write path_names_good)
  qed (use File c in \<open>simp add: copy_entry_def\<close>)
next
  case Dir
  then show ?thesis using ok ds rel by (simp add: copy_entry_def fs_ok_create_dirs path_names_good)
qed (use ok in \<open>simp_all add: copy_entry_def\<close>)

lemma fs_ok_copy:
  assumes ok: "fs_ok fs" and r: "copy_dir_recursive src dst (io, fs) = Some r"
  shows "fs_ok (state_of r)"
proof (cases "create_dirs (comps dst) (io, fs)")
  case (Inl a)
  then show ?thesis using r fs_ok_create_dirs[OF ok, of "comps dst" io] by (auto simp: copy_dir_recursive_def)
next
  case (Inr b)
  obtain io1 fs1 where b: "b = (io1, fs1)" by (cases b)
  have ok1: "fs_ok fs1" using fs_ok_create_dirs[OF ok, of "comps dst" io] Inr b by simp
  have "fs_ok (state_of (fold_result (copy_entry (comps dst)) (tree_below fs1 c) (io1, fs1)))" for c
  proof (rule fold_result_states[where P = fs_ok])
    fix x io fs2
    assume x: "x \<in> set (tree_below fs1 c)" and ok2: "fs_ok fs2"
    obtain rel m where "x = (rel, m)" by (cases x)
    with x ok2 show "fs_ok (state_of (copy_entry (comps dst) x (io, fs2)))"
      using tree_below_names[OF ok1] by (blast intro: fs_ok_copy_entry path_names_comps)
  qed (rule ok1)
  moreover have "r = Inr (io1, fs1) \<or> (\<exists>c. r = fold_result (copy_entry (comps dst)) (tree_below fs1 c) (io1, fs1))"
    using r Inr b by (auto simp: copy_dir_recursive_def split: option.splits if_splits)
  ultimately show ?thesis using ok1 by auto
qed

lemma fs_ok_rewrite:
  assumes "fs_ok fs"
  shows "fs_ok (snd (snd (rewrite_name yaml to_yaml dir n (io, fs))))"
proof -
  have g: "good_name ''rowforge.yaml''" by (simp add: good_name_def)
  have "fs_ok (state_of (write_file (comps (path_join dir ''rowforge.yaml'')) t (io, fs)))" for t
    using assms by (intro fs_ok_write) (auto simp: comps_join_good[OF g] path_names_good g)
  then show ?thesis using assms rewrite_state[of yaml to_yaml dir n io fs] by auto
qed

lemma fs_ok_delete:
  assumes ok: "fs_ok fs"
  shows "fs_ok (snd (snd (delete_handler ws n (io, fs))))"
proof -
  have "q \<noteq> []" if "entry_path fs (handler_dir ws n) = Some q" "validate_name n" for q
    using that handler_comps[OF that(2)] by (auto simp: entry_path_def Let_def)
  then show ?thesis
    using ok by (auto simp: delete_handler_def Let_def fs_ok_remove split: option.split fnode.split prod.split)
qed

lemma fs_ok_rename:
  assumes ok: "fs_ok fs"
  shows "fs_ok (snd (snd (rename_handler ws a b (io, fs))))"
proof (cases "validate_name a \<and> validate_name b \<and> is_dir fs (handler_dir ws a) \<and> \<not> path_exists fs (handler_dir ws b)")
  case True
  then have ab: "a \<noteq> b" by (auto simp: is_dir_def path_exists_def)
  have "fs_ok (state_of (rename_entry (handler_dir ws a) (handler_dir ws b) (io, fs)))"
  proof (cases "walk MAX_LINKS fs [] (comps (handlers_dir ws))")
    case None
    then show ?thesis using True ok by (simp add: rename_entry_def entry_path_def comps_handler)
  next
    case (Some kd)
    obtain k d where kd: "kd = (k, d)" by (cases kd)
    have e: "entry_path fs (handler_dir ws a) = Some (d @ [a])" "entry_path fs (handler_dir ws b) = Some (d @ [b])"
      using True Some kd by (simp_all add: entry_path_def comps_handler)
    show ?thesis
      using ok fs_ok_move[OF ok ab, of d] True valid_good
      by (auto simp: rename_entry_def e Let_def split: option.split fnode.split prod.split)
  qed
  then show ?thesis using True
    by (auto simp: rename_handler_def Let_def io_try_state state_of_def split: sum.splits prod.splits)
qed (use ok in \<open>auto simp: rename_handler_def Let_def\<close>)

lemma fs_ok_scaffold:
  assumes ok: "fs_ok fs"
  shows "fs_ok (snd (snd (scaffold tpl ws args (io, fs))))"
proof (cases "validate_name (sa_name args)")
  case True
  let ?c = "create_dirs (comps (handler_dir ws (sa_name args))) (io, fs)"
  have c: "fs_ok (state_of ?c)" using ok handler_comps[OF True] by (intro fs_ok_create_dirs) auto
  show ?thesis
  proof (cases ?c)
    case (Inl x)
    then show ?thesis using c ok by (auto simp: scaffold_def Let_def io_try_state state_of_def split: prod.splits)
  next
    case (Inr st)
    obtain io' fs' where st: "st = (io', fs')" by (cases st)
    have "fs_ok fs'" using c Inr st by simp
    from fs_ok_templates[OF this, of tpl "handler_dir ws (sa_name args)" args io'] show ?thesis
      using ok Inr st by (auto simp: scaffold_def Let_def io_try_state state_of_def split: sum.splits prod.splits)
  qed
qed (use ok in \<open>simp add: scaffold_def Let_def\<close>)

lemma fs_ok_import:
  assumes ok: "fs_ok fs" and r: "import_from_folder ws src n (io, fs) = Some (r, io', fs')"
  shows "fs_ok fs'"
proof (cases "fs' = fs")
  case False
  then obtain c where c: "copy_dir_recursive src (handler_dir ws n) (io, fs) = Some c"
    and s: "io_try ((@) ''copy_dir_recursive: '') c (\<lambda>st. (Inr (), st)) = (r, io', fs')"
    using r by (auto simp: import_from_folder_def Let_def split: if_splits)
  have "fs' = state_of c"
    using arg_cong[OF s, of "\<lambda>x. snd (snd x)"] by (auto simp: io_try_state state_of_def split: sum.splits prod.splits)
  then show ?thesis using fs_ok_copy[OF ok c] by simp
qed (use ok in simp)

lemma fs_ok_fork:
  assumes ok: "fs_ok fs" and r: "fork_handler yaml to_yaml ws a n (io, fs) = Some (r, io', fs')"
  shows "fs_ok fs'"
proof (cases "fs' = fs")
  case False
  then obtain c where c: "copy_dir_recursive (handler_dir ws a) (handler_dir ws n) (io, fs) = Some c"
    and s: "io_try ((@) ''copy_dir_recursive: '') c (rewrite_name yaml to_yaml (handler_dir ws n) n) = (r, io', fs')"
    using r by (auto simp: fork_handler_def Let_def split: if_splits)
  have fs': "fs' = (case c of Inl (e, io, fs) \<Rightarrow> fs | Inr st \<Rightarrow> snd (snd (rewrite_name yaml to_yaml (handler_dir ws n) n st)))"
    using arg_cong[OF s, of "\<lambda>x. snd (snd x)"] by (simp add: io_try_state)
  note cok = fs_ok_copy[OF ok c]
  show ?thesis
  proof (cases c)
    case (Inr st)
    obtain io2 fs2 where "st = (io2, fs2)" by (cases st)
    then show ?thesis using Inr cok fs' by (simp add: fs_ok_rewrite)
  qed (use cok fs' in \<open>auto simp: state_of_def split: prod.splits\<close>)
qed (use ok in simp)

fun handler_run ::
    "(path \<Rightarrow> string) \<Rightarrow> (string \<Rightarrow> string + manifest) \<Rightarrow> (manifest \<Rightarrow> string + string) \<Rightarrow> path \<Rightarrow> handler_op list
      \<Rightarrow> fuse \<times> fs \<Rightarrow> (fuse \<times> fs) option" where
  "handler_run tpl yaml to_yaml ws [] st = Some st"
| "handler_run tpl yaml to_yaml ws (op # ops) st =
     (case handler_step tpl yaml to_yaml ws op st of
        None \<Rightarrow> None | Some (r, st') \<Rightarrow> handler_run tpl yaml to_yaml ws ops st')"

lemma handler_step_ok:
  assumes "fs_ok fs" "handler_step tpl yaml to_yaml ws op (io, fs) = Some (r, io', fs')"
  shows "fs_ok fs'"
  using assms fs_ok_scaffold[of fs tpl ws _ io] fs_ok_delete[of fs ws _ io] fs_ok_rename[of fs ws _ _ io]
    fs_ok_import[OF assms(1)] fs_ok_fork[OF assms(1)]
  by (cases op) (auto simp: handler_step_def split: prod.splits dest!: arg_cong[of _ _ "\<lambda>x. snd (snd x)"])


text \<open>Every sequence of handler operations, failing devices included, keeps the file system a well-formed tree: sorted
  canonical paths of proper names, each in a directory that is there.\<close>

theorem handler_runs_well_formed:
  assumes "fs_ok fs" "handler_run tpl yaml to_yaml ws ops (io, fs) = Some (io', fs')"
  shows "fs_ok fs'"
  using assms
proof (induction ops arbitrary: io fs)
  case (Cons op ops)
  then obtain r io1 fs1 where "handler_step tpl yaml to_yaml ws op (io, fs) = Some (r, io1, fs1)"
    "handler_run tpl yaml to_yaml ws ops (io1, fs1) = Some (io', fs')"
    by (auto split: option.splits)
  then show ?case using Cons.IH[of fs1 io1] handler_step_ok[OF Cons.prems(1)] by blast
qed simp

section \<open>Exact results\<close>

text \<open>Deleting a handler, on a device that works, succeeds exactly for a directory and for a link that leads inside of the
  handlers directory, and then takes away the entry of that name with what is below it and nothing else; in every other
  case (no entry, a file, a link that leads outside or nowhere) nothing changes.\<close>

theorem delete_exact:
  assumes "fs_ok fs" "handlers_at fs ws d" "validate_name n" "delete_handler ws n (None, fs) = (r, io', fs')"
  shows "(r = Inr () \<longleftrightarrow>
       (case node_at fs (d @ [n]) of
          Some Dir \<Rightarrow> True
        | Some (Link t) \<Rightarrow> (case canonicalize fs (handler_dir ws n) of None \<Rightarrow> False | Some c \<Rightarrow> prefix d c)
        | _ \<Rightarrow> False)) \<and>
     node_at fs' q = (if r = Inr () \<and> prefix (d @ [n]) q then None else node_at fs q)"
proof -
  have can: "canonicalize fs (handlers_dir ws) = Some d" using assms(2) by (simp add: handlers_at_def)
  note defs = delete_handler_def Let_def can handler_lstat[OF assms(2,3)] handler_entry[OF assms(2,3)]
  show ?thesis
  proof (cases "node_at fs (d @ [n])")
    case None
    then show ?thesis using assms(3,4) by (auto simp: defs)
  next
    case (Some m)
    show ?thesis
    proof (cases m)
      case (Link t)
      then show ?thesis using Some assms(3,4) by (auto simp: defs node_at_remove split: option.splits if_splits)
    qed (use Some assms(3,4) handler_canonical(2)[OF assms(2,3)] in \<open>auto simp: defs node_at_remove split: if_splits\<close>)
  qed
qed

text \<open>Renaming a handler to a free name moves the whole tree, each entry to the same place below the new name, and
  changes nothing else; the registry of past runs is not an argument of the operation at all.\<close>

theorem rename_exact:
  assumes "fs_ok fs" "handlers_at fs ws d" "validate_name a" "validate_name b" "node_at fs (d @ [a]) = Some Dir"
    and "node_at fs (d @ [b]) = None" "rename_handler ws a b (None, fs) = (r, io', fs')"
  shows "r = Inr () \<and> io' = None \<and>
    node_at fs' q = (if prefix (d @ [b]) q then node_at fs (d @ [a] @ drop (Suc (length d)) q)
                     else if prefix (d @ [a]) q then None else node_at fs q)"
proof -
  have "is_dir fs (handler_dir ws a)"
    using handler_canonical(2)[OF assms(2,3,5)] assms(5) by (simp add: is_dir_def metadata_def)
  moreover have "\<not> path_exists fs (handler_dir ws b)" using handler_missing[OF assms(1,2,4)] assms(6) by simp
  moreover have "rename_entry (handler_dir ws a) (handler_dir ws b) (None, fs) = Inr (None, move_tree (d @ [a]) (d @ [b]) fs)"
    using assms by (simp add: rename_entry_def handler_entry)
  moreover have "a \<noteq> b" using assms(5,6) by auto
  ultimately show ?thesis
    using assms(3,4,7) node_at_move[OF assms(1), of a b d] by (auto simp: rename_handler_def io_try_def)
qed

text \<open>An entry that is a link leading nowhere cannot be dealt with at all: it is found, and yet cannot be deleted as a
  handler, shown, or renamed away, and no handler can be made under its name; each attempt fails and changes nothing.\<close>

theorem dangling_link_stuck:
  assumes "fs_ok fs" "handlers_at fs ws d" "validate_name n" "node_at fs (d @ [n]) = Some (Link t)"
    and "canonicalize fs (handler_dir ws n) = None" "validate_primary_field pf" "validate_name b"
  shows "symlink_metadata fs (handler_dir ws n) \<noteq> None \<and>
    delete_handler ws n (io, fs) = (Inl (Io_Error ''canonicalize handler dir: No such file or directory''), io, fs) \<and>
    show_handler yaml on_path mtime other_len fs ws n = Inl (Handler_Not_Found n) \<and>
    rename_handler ws n b (io, fs) = (Inl (Handler_Not_Found n), io, fs) \<and>
    scaffold tpl ws \<lparr> sa_name = n, sa_template = k, sa_primary_field = pf \<rparr> (io, fs) = (Inl (Io_Error ''File exists''), io, fs)"
proof -
  have gone: "\<not> path_exists fs (handler_dir ws n)" using handler_missing[OF assms(1-3)] assms(4,5) by simp
  have "\<not> is_dir fs (handler_dir ws n)" using assms(5) by (simp add: is_dir_def metadata_def)
  moreover have "canonicalize fs (handlers_dir ws) = Some d" using assms(2) by (simp add: handlers_at_def)
  ultimately show ?thesis
    using assms(3-7) gone create_handler_dir[OF assms(1-3) gone, of io] handler_lstat[OF assms(2,3)]
    by (simp add: delete_handler_def show_handler_def rename_handler_def scaffold_def Let_def io_try_def)
qed

section \<open>Copies\<close>

definition copied :: "fnode option \<Rightarrow> fnode option" where
  "copied m = (case m of Some Dir \<Rightarrow> m | Some (File s) \<Rightarrow> m | _ \<Rightarrow> None)"

lemma copied_simps [simp]:
  "copied None = None" "copied (Some Dir) = Some Dir" "copied (Some (File s)) = Some (File s)"
  "copied (Some (Link t)) = None" "copied (Some Special) = None"
  by (simp_all add: copied_def)

text \<open>A copy under way: below the new directory there are only copies.\<close>

definition copying :: "fs \<Rightarrow> string list \<Rightarrow> string list \<Rightarrow> string list \<Rightarrow> fs \<Rightarrow> bool" where
  "copying fs0 ds e c fs =
     (grown fs0 ds e fs \<and> (\<forall>rel. node_at fs (e @ rel) \<in> {None, copied (node_at fs0 (c @ rel))}))"

lemma above_is_dir: "fs_ok fs \<Longrightarrow> node_at fs (c @ rel) \<noteq> None \<Longrightarrow> strict_prefix r rel \<Longrightarrow> node_at fs (c @ r) = Some Dir"
  by (rule ccontr) (use nothing_below[of fs "c @ r" "c @ rel"] in \<open>auto simp: strict_prefix_def\<close>)

lemma copying_dirs:
  assumes cp: "copying fs0 ds e c fs" and ok: "fs_ok fs0" and good: "list_all good_name r"
    and d: "node_at fs0 (c @ r) = Some Dir"
  shows "\<exists>fs'. create_dirs (ds @ r) (None, fs) = Inr (None, fs') \<and> copying fs0 ds e c fs' \<and>
    node_at fs' (e @ r) = Some Dir \<and> (\<forall>q m. node_at fs q = Some m \<longrightarrow> node_at fs' q = Some m)"
proof -
  have up: "node_at fs0 (c @ p) = Some Dir" if "prefix p r" for p
    using above_is_dir[OF ok, of c r p] d that by (cases "p = r") (auto simp: strict_prefix_def)
  have g: "grown fs0 ds e fs" and only: "\<And>rel. node_at fs (e @ rel) \<in> {None, copied (node_at fs0 (c @ rel))}"
    using cp by (auto simp: copying_def)
  have free: "prefix p r \<Longrightarrow> node_at fs (e @ p) \<in> {None, Some Dir}" for p using only[of p] up[of p] by auto
  obtain fs' where f: "create_dirs (ds @ r) (None, fs) = Inr (None, fs')" "grown fs0 ds e fs'"
    and n: "\<And>q. node_at fs' q = (if \<exists>p. q = e @ p \<and> prefix p r then Some Dir else node_at fs q)"
    using create_dirs_grown[OF g good free] by blast
  have "copying fs0 ds e c fs'" using f(2) only up by (auto simp: copying_def n)
  moreover have "node_at fs q = Some m \<Longrightarrow> node_at fs' q = Some m" for q m using free n by fastforce
  ultimately show ?thesis using f(1) n by auto
qed

lemma copying_entry:
  assumes cp: "copying fs0 ds e c fs" and ok: "fs_ok fs0" and rel: "list_all good_name rel" "rel \<noteq> []"
    and src: "node_at fs0 (c @ rel) = Some n"
  shows "\<exists>fs'. copy_entry ds (rel, n) (None, fs) = Inr (None, fs') \<and> copying fs0 ds e c fs' \<and>
    node_at fs' (e @ rel) = copied (Some n) \<and> (\<forall>q m. node_at fs q = Some m \<longrightarrow> node_at fs' q = Some m)"
proof (cases n)
  case Dir
  then show ?thesis using copying_dirs[OF cp ok rel(1)] src by (auto simp: copy_entry_def)
next
  case (File s)
  have b: "list_all good_name (butlast rel)" using rel by (auto simp: list_all_iff dest: in_set_butlastD)
  have "strict_prefix (butlast rel) rel" using rel(2) by (metis append_butlast_last_id strict_prefixI')
  then have "node_at fs0 (c @ butlast rel) = Some Dir" using above_is_dir[OF ok] src by blast
  from copying_dirs[OF cp ok b this] obtain fs1 where
    f: "create_dirs (ds @ butlast rel) (None, fs) = Inr (None, fs1)" "copying fs0 ds e c fs1"
      "node_at fs1 (e @ butlast rel) = Some Dir" and keep: "\<And>q m. node_at fs q = Some m \<Longrightarrow> node_at fs1 q = Some m"
    by blast
  have g1: "grown fs0 ds e fs1" and only: "\<And>rel. node_at fs1 (e @ rel) \<in> {None, copied (node_at fs0 (c @ rel))}"
    using f(2) by (auto simp: copying_def)
  have old: "node_at fs1 (e @ rel) \<in> {None, Some (File s)}" using only[of rel] src File by simp
  then have w: "write_file (ds @ rel) s (None, fs1) = Inr (None, bt_insert (e @ rel) (File s) fs1)"
    using write_grown[OF g1 rel] f(3) by (auto simp: put_file_def)
  have "good_name (last rel)" using rel by (simp add: list_all_iff)
  then have g2: "grown fs0 ds e (bt_insert (e @ rel) (File s) fs1)"
    using grown_insert[OF g1 rel(2) _ f(3), of "File s"] old by auto
  have at2: "node_at (bt_insert (e @ rel) (File s) fs1) q = (if q = e @ rel then Some (File s) else node_at fs1 q)" for q
    using fs_ok_bt[OF grown_ok[OF g1]] rel(2) by (simp add: node_at_insert)
  have "copying fs0 ds e c (bt_insert (e @ rel) (File s) fs1)"
    using g2 only src File by (auto simp: copying_def at2)
  moreover have "node_at fs q = Some m \<Longrightarrow> node_at (bt_insert (e @ rel) (File s) fs1) q = Some m" for q m
    using keep[of q m] old by (auto simp: at2)
  ultimately show ?thesis using f(1) w File by (auto simp: copy_entry_def at2)
qed (use cp src in \<open>auto simp: copy_entry_def copying_def dest: spec[of _ rel]\<close>)

lemma copying_all:
  assumes "copying fs0 ds e c fs" "fs_ok fs0"
    and "\<And>rel n. (rel, n) \<in> set xs \<Longrightarrow> list_all good_name rel \<and> rel \<noteq> [] \<and> node_at fs0 (c @ rel) = Some n"
  shows "\<exists>fs'. fold_result (copy_entry ds) xs (None, fs) = Inr (None, fs') \<and> copying fs0 ds e c fs' \<and>
    (\<forall>rel n. (rel, n) \<in> set xs \<longrightarrow> node_at fs' (e @ rel) = copied (Some n)) \<and>
    (\<forall>q m. node_at fs q = Some m \<longrightarrow> node_at fs' q = Some m)"
  using assms
proof (induction xs arbitrary: fs)
  case (Cons x xs)
  obtain rel n where x: "x = (rel, n)" by (cases x)
  have "list_all good_name rel" "rel \<noteq> []" "node_at fs0 (c @ rel) = Some n" using Cons.prems(3) x by auto
  from copying_entry[OF Cons.prems(1,2) this] obtain fs1 where
    f: "copy_entry ds (rel, n) (None, fs) = Inr (None, fs1)" "copying fs0 ds e c fs1" "node_at fs1 (e @ rel) = copied (Some n)"
    and k1: "\<And>q m. node_at fs q = Some m \<Longrightarrow> node_at fs1 q = Some m" by blast
  obtain fs2 where g: "fold_result (copy_entry ds) xs (None, fs1) = Inr (None, fs2)" "copying fs0 ds e c fs2"
    and all: "\<And>rel n. (rel, n) \<in> set xs \<Longrightarrow> node_at fs2 (e @ rel) = copied (Some n)"
    and k2: "\<And>q m. node_at fs1 q = Some m \<Longrightarrow> node_at fs2 q = Some m"
    using Cons.IH[OF f(2) Cons.prems(2)] Cons.prems(3) by (metis list.set_intros(2))
  have "node_at fs2 (e @ rel) = copied (Some n)"
  proof (cases "copied (Some n)")
    case None
    have "node_at fs2 (e @ rel) \<in> {None, copied (node_at fs0 (c @ rel))}" using g(2) unfolding copying_def by blast
    then show ?thesis using None \<open>node_at fs0 (c @ rel) = Some n\<close> by auto
  qed (use k2 f(3) in auto)
  then show ?case using f(1) g all k1 k2 x by (auto intro!: exI[of _ fs2])
qed auto

lemma copy_whole:
  assumes ok: "fs_ok fs" and h: "handlers_at fs ws d" and n: "validate_name n" and free: "node_at fs (d @ [n]) = None"
    and src: "canonicalize fs src = Some c" "node_at fs c = Some Dir" "\<not> prefix c d"
  shows "\<exists>fs'. copy_dir_recursive src (handler_dir ws n) (None, fs) = Some (Inr (None, fs')) \<and>
    grown fs (comps (handler_dir ws n)) (d @ [n]) fs' \<and>
    (\<forall>q. node_at fs' q = (if prefix (d @ [n]) q then copied (node_at fs (c @ drop (Suc (length d)) q)) else node_at fs q))"
proof -
  let ?e = "d @ [n]" and ?ds = "comps (handler_dir ws n)"
  let ?fs1 = "bt_insert ?e Dir fs"
  have gone: "\<not> path_exists fs (handler_dir ws n)" using handler_missing[OF ok h n] free by simp
  have mk: "create_dirs ?ds (None, fs) = Inr (None, ?fs1)" using create_handler_dir[OF ok h n gone, of None] free by simp
  have g1: "grown fs ?ds ?e ?fs1" using new_handler_grown[OF ok h n free] .
  have at1: "node_at ?fs1 q = (if q = ?e then Some Dir else node_at fs q)" for q using ok by (simp add: node_at_insert)
  have ext: "extends ?fs1 fs" using grown_extends[OF g1] .
  have ce: "c \<noteq> ?e" using free src(2) by auto
  then have apart: "\<not> prefix c ?e" using src(3) by simp
  obtain k1 where "walk MAX_LINKS fs [] (comps src) = Some (k1, c)" using src(1) by (auto simp: canonicalize_def)
  then have c1: "canonicalize ?fs1 src = Some c" using walk_extends[OF ext] by (simp add: canonicalize_def)
  have e1: "canonicalize ?fs1 (handler_dir ws n) = Some ?e" using g1 by (auto simp: canonicalize_def grown_def)
  have below: "node_at fs (?e @ rel) = None" for rel using fs_ok_below[OF ok free] by simp
  have start: "copying fs ?ds ?e c ?fs1" using g1 src(2) below by (auto simp: copying_def at1)
  have apart': "c @ rel \<noteq> ?e" for rel using apart by (metis prefixI)
  have entries: "(rel, m) \<in> set (tree_below ?fs1 c) \<longleftrightarrow> rel \<noteq> [] \<and> node_at fs (c @ rel) = Some m" for rel m
    using tree_below_iff[OF grown_ok[OF g1], of rel m c] apart'[of rel] by (simp add: at1)
  have names: "node_at fs (c @ rel) = Some m \<Longrightarrow> list_all good_name rel" for rel m
    using fs_ok_names[OF ok, of "c @ rel"] by simp
  obtain fs' where f: "fold_result (copy_entry ?ds) (tree_below ?fs1 c) (None, ?fs1) = Inr (None, fs')" "copying fs ?ds ?e c fs'"
    and all: "\<And>rel m. (rel, m) \<in> set (tree_below ?fs1 c) \<Longrightarrow> node_at fs' (?e @ rel) = copied (Some m)"
    and keep: "\<And>q m. node_at ?fs1 q = Some m \<Longrightarrow> node_at fs' q = Some m"
    using copying_all[OF start ok, of "tree_below ?fs1 c"] entries names by blast
  have "copy_dir_recursive src (handler_dir ws n) (None, fs) = Some (Inr (None, fs'))"
    using mk c1 e1 apart f(1) by (simp add: copy_dir_recursive_def)
  moreover have g: "grown fs ?ds ?e fs'" using f(2) by (simp add: copying_def)
  moreover have "node_at fs' (?e @ rel) = copied (node_at fs (c @ rel))" for rel
  proof (cases "node_at fs (c @ rel)")
    case None
    have "node_at fs' (?e @ rel) \<in> {None, copied (node_at fs (c @ rel))}" using f(2) unfolding copying_def by blast
    then show ?thesis using None by auto
  next
    case (Some m)
    show ?thesis
    proof (cases "rel = []")
      case True
      then show ?thesis using keep[of ?e Dir] at1 src(2) by simp
    qed (use all[of rel m] entries Some in simp)
  qed
  then have "prefix ?e q \<Longrightarrow> node_at fs' q = copied (node_at fs (c @ drop (Suc (length d)) q))" for q
    by (auto simp: prefix_def)
  moreover have "\<not> prefix ?e q \<Longrightarrow> node_at fs' q = node_at fs q" for q using g by (simp add: grown_def)
  ultimately show ?thesis by (intro exI[of _ fs']) auto
qed

lemma read_grown:
  assumes "grown fs0 (comps dir) e fs" "good_name f"
  shows "read_to_string fs (path_join dir f) = (case node_at fs (e @ [f]) of
      Some (File s) \<Rightarrow> Inr s | Some Dir \<Rightarrow> Inl ''Is a directory'' | Some _ \<Rightarrow> Inl ''Input/output error''
    | None \<Rightarrow> Inl ''No such file or directory'')"
proof -
  obtain k where "walk MAX_LINKS fs [] (comps dir @ [f]) = (if node_at fs (e @ [f]) = None then None else Some (k, e @ [f]))"
    using walk_grown[OF assms(1), of "[f]"] assms(2) by auto
  then show ?thesis
    by (cases "node_at fs (e @ [f])") (auto simp: read_to_string_def metadata_def canonicalize_def comps_join_good[OF assms(2)])
qed

lemma yaml_name: "good_name ''rowforge.yaml''"
  by (simp add: good_name_def)

text \<open>A fork, on a device that works, gives a copy of the source: each file and directory at the same place below the new
  name, and no link; only the manifest differs, being the printed form of the source's manifest under the new name.
  Nothing else changes, the source included.\<close>

theorem fork_exact:
  assumes "fs_ok fs" "handlers_at fs ws d" "validate_name a" "validate_name b"
    and "node_at fs (d @ [a]) = Some Dir" "node_at fs (d @ [b]) = None"
    and "node_at fs (d @ [a, ''rowforge.yaml'']) = Some (File s)"
    and "load_from_dir (\<lambda>_. Inr s) yaml (handler_dir ws b) = Inr (m, p)" "to_yaml (m\<lparr>mf_name := b\<rparr>) = Inr text"
  shows "case fork_handler yaml to_yaml ws a b (None, fs) of
      Some (Inr _, io', fs') \<Rightarrow>
        node_at fs' q =
          (if q = d @ [b, ''rowforge.yaml''] then Some (File text)
           else if prefix (d @ [b]) q then copied (node_at fs (d @ [a] @ drop (Suc (length d)) q))
           else node_at fs q)
    | _ \<Rightarrow> False"
proof -
  let ?e = "d @ [b]" and ?dir = "handler_dir ws b"
  have src: "canonicalize fs (handler_dir ws a) = Some (d @ [a])"
    using handler_canonical(2)[OF assms(2,3,5)] by simp
  have "\<not> prefix (d @ [a]) d" by (auto simp: prefix_def)
  from copy_whole[OF assms(1,2,4,6) src assms(5) this] obtain fs1 where
    c: "copy_dir_recursive (handler_dir ws a) ?dir (None, fs) = Some (Inr (None, fs1))"
    and g: "grown fs (comps ?dir) ?e fs1"
    and n1: "\<And>q. node_at fs1 q = (if prefix ?e q then copied (node_at fs (d @ [a] @ drop (Suc (length d)) q)) else node_at fs q)"
    by auto
  have y1: "node_at fs1 (?e @ [''rowforge.yaml'']) = Some (File s)" using assms(7) by (simp add: n1)
  have "load_from_dir (read_to_string fs1) yaml ?dir = load_from_dir (\<lambda>_. Inr s) yaml ?dir"
    using read_grown[OF g yaml_name] y1 by (simp add: load_from_dir_def Let_def)
  moreover have "write_file (comps (path_join ?dir ''rowforge.yaml'')) text (None, fs1) =
      Inr (None, bt_insert (?e @ [''rowforge.yaml'']) (File text) fs1)"
    using write_grown[OF g, of "[''rowforge.yaml'']"] y1 by (simp add: comps_join_good[OF yaml_name] yaml_name put_file_def)
  ultimately have "rewrite_name yaml to_yaml ?dir b (None, fs1) = (Inr (), None, bt_insert (?e @ [''rowforge.yaml'']) (File text) fs1)"
    using assms(8,9) by (simp add: rewrite_name_def io_try_def)
  moreover have "is_dir fs (handler_dir ws a)" using src assms(5) by (simp add: is_dir_def metadata_def)
  moreover have "\<not> path_exists fs ?dir" using handler_missing[OF assms(1,2,4)] assms(6) by simp
  moreover have "a \<noteq> b" using assms(5,6) by auto
  ultimately have "fork_handler yaml to_yaml ws a b (None, fs) = Some (Inr (), None, bt_insert (?e @ [''rowforge.yaml'']) (File text) fs1)"
    using assms(3,4) c by (simp add: fork_handler_def io_try_def)
  then show ?thesis using fs_ok_bt[OF grown_ok[OF g]] n1 by (simp add: node_at_insert)
qed

text \<open>Importing a folder whose \<^verbatim>\<open>rowforge.yaml\<close> is a link to a file passes the check for the manifest and succeeds, and
  the handler it makes has no manifest: links are not copied.\<close>

theorem import_loses_linked_manifest:
  assumes "fs_ok fs" "handlers_at fs ws d" "validate_name n" "node_at fs (d @ [n]) = None"
    and "canonicalize fs src = Some c" "node_at fs c = Some Dir" "\<not> prefix c d"
    and "is_file fs (path_join src ''rowforge.yaml'')" "node_at fs (c @ [''rowforge.yaml'']) = Some (Link t)"
  shows "case import_from_folder ws src n (None, fs) of
      Some (Inr _, io', fs') \<Rightarrow> node_at fs' (d @ [n]) = Some Dir \<and> \<not> is_file fs' (path_join (handler_dir ws n) ''rowforge.yaml'')
    | _ \<Rightarrow> False"
proof -
  obtain fs1 where c: "copy_dir_recursive src (handler_dir ws n) (None, fs) = Some (Inr (None, fs1))"
    and g: "grown fs (comps (handler_dir ws n)) (d @ [n]) fs1"
    and n1: "\<And>q. node_at fs1 q = (if prefix (d @ [n]) q then copied (node_at fs (c @ drop (Suc (length d)) q)) else node_at fs q)"
    using copy_whole[OF assms(1-7)] by blast
  have gone: "\<not> path_exists fs (handler_dir ws n)" using handler_missing[OF assms(1-3)] assms(4) by simp
  have "is_dir fs src" using assms(5,6) by (simp add: is_dir_def metadata_def)
  then have "import_from_folder ws src n (None, fs) = Some (Inr (), None, fs1)"
    using assms(3,8) gone c by (simp add: import_from_folder_def io_try_def)
  moreover have "node_at fs1 (d @ [n]) = Some Dir" using n1 assms(6) by simp
  moreover have "node_at fs1 ((d @ [n]) @ [''rowforge.yaml'']) = None" using n1 assms(9) by simp
  then have "\<not> is_file fs1 (path_join (handler_dir ws n) ''rowforge.yaml'')"
    using walk_grown[OF g, of "[''rowforge.yaml'']"] yaml_name
    by (auto simp: is_file_def metadata_def canonicalize_def comps_join_good[OF yaml_name])
  ultimately show ?thesis by simp
qed

section \<open>What is listed and what is shown\<close>

lemma summary_of_dir:
  assumes "is_dir fs p"
  shows "\<exists>s. build_summary yaml mtime fs p n = Inr s \<and> hs_name s = n"
proof -
  obtain d where "canonicalize fs p = Some d" using assms by (cases "canonicalize fs p") (auto simp: is_dir_def metadata_def)
  then show ?thesis by (auto simp: build_summary_def split: prod.split)
qed

lemma list_entries_names:
  "\<exists>ss. list_entries yaml mtime fs dir ns = Inr ss \<and> map hs_name ss = filter (\<lambda>n. is_dir fs (path_join dir n)) ns"
proof (induction ns)
  case (Cons n ns)
  then obtain ss where "list_entries yaml mtime fs dir ns = Inr ss" "map hs_name ss = filter (\<lambda>n. is_dir fs (path_join dir n)) ns"
    by blast
  then show ?case using summary_of_dir[of fs "path_join dir n" yaml mtime n] by auto
qed simp

lemma source_entries_fail:
  "list_ex (\<lambda>f. f \<noteq> ''rowforge.yaml'' \<and> metadata fs (path_join dir f) = None) ns \<Longrightarrow>
   source_entries other_len fs dir ns = Inl (Io_Error ''No such file or directory'')"
  by (induction ns) (auto split: option.split)

text \<open>The list of handlers never fails on the handlers directory and names exactly its directories and links to
  directories, whatever they are called and hold. But one dangling link in a handler's directory (not the manifest)
  makes the detail of that listed handler fail.\<close>

theorem listed_but_not_shown:
  assumes "handlers_at fs ws d" "validate_name n" "n \<in> set (children fs d)" "is_dir fs (handler_dir ws n)"
    and "canonicalize fs (handler_dir ws n) = Some h" "f \<in> set (children fs h)" "f \<noteq> ''rowforge.yaml''"
    and "metadata fs (path_join (handler_dir ws n) f) = None"
  shows "case list_handlers yaml mtime fs ws of
      Inr ss \<Rightarrow> map hs_name ss = filter (\<lambda>n. is_dir fs (handler_dir ws n)) (children fs d) \<and>
        list_ex (\<lambda>s. hs_name s = n) ss \<and>
        show_handler yaml on_path mtime other_len fs ws n = Inl (Io_Error ''No such file or directory'')
    | Inl _ \<Rightarrow> False"
proof -
  have h: "is_dir fs (handlers_dir ws)" "read_dir fs (handlers_dir ws) = Inr (children fs d)"
    using assms(1) by (auto simp: handlers_at_def is_dir_def metadata_def read_dir_def)
  obtain ss where ss: "list_handlers yaml mtime fs ws = Inr ss"
    "map hs_name ss = filter (\<lambda>n. is_dir fs (handler_dir ws n)) (children fs d)"
    using list_entries_names[of yaml mtime fs "handlers_dir ws" "children fs d"] h
    by (auto simp: list_handlers_def handler_dir_def)
  have "n \<in> set (map hs_name ss)" unfolding ss(2) using assms(3,4) by simp
  then have "list_ex (\<lambda>s. hs_name s = n) ss" by (auto simp: list_ex_iff)
  moreover have "read_dir fs (handler_dir ws n) = Inr (children fs h)"
    using assms(4,5) by (simp add: read_dir_def is_dir_def metadata_def)
  moreover have "source_entries other_len fs (handler_dir ws n) (children fs h) = Inl (Io_Error ''No such file or directory'')"
    using assms(6-8) by (intro source_entries_fail) (auto simp: list_ex_iff)
  moreover obtain s where "build_summary yaml mtime fs (handler_dir ws n) n = Inr s" using summary_of_dir[OF assms(4)] by blast
  ultimately show ?thesis using ss assms(2,4) by (simp add: show_handler_def Let_def)
qed

section \<open>Builds and editors\<close>

text \<open>The cache of a build keeps, for the handler built and no other, the outcome of the last build whose process ran,
  whether it succeeded or failed; a build that did not run leaves the cache as it was.\<close>

theorem build_cache_exact:
  assumes "bt_ok cache" "handler_build yaml on_path exec fs ws name cache = Some (r, cache')"
  shows "bt_lookup cache' k =
     (if k \<noteq> name then bt_lookup cache k
      else (case r of
          Inr b \<Rightarrow> Some b
        | Inl (Ui_Build_Failed n code) \<Rightarrow> (case build_raw yaml on_path exec fs ws name of Some (Inl (Build_Failed _ _ b)) \<Rightarrow> Some b | _ \<Rightarrow> None)
        | Inl _ \<Rightarrow> bt_lookup cache k))"
  using assms by (auto simp: handler_build_def split: sum.splits option.splits build_error.splits if_splits)

text \<open>The editor is the first of the preference, \<^verbatim>\<open>$VISUAL\<close> and \<^verbatim>\<open>$EDITOR\<close> that is not blank, even when its command
  line does not parse or is missing on the search path; only when all three are blank or absent are the known tools
  tried, in order.\<close>

theorem editor_precedence:
  "resolve_editor split on_path preferred visual editor probes =
     (case find (\<lambda>v. case v of None \<Rightarrow> False | Some c \<Rightarrow> \<not> blank c) [preferred, visual, editor] of
        Some (Some c) \<Rightarrow> parse_argv split c
      | _ \<Rightarrow> (case find on_path probes of Some n \<Rightarrow> Inr [n] | None \<Rightarrow> Inl Editor_Not_Found))"
  by (auto simp: resolve_editor_def Let_def split: option.split)

section \<open>Examples\<close>

definition demo_fs :: fs where
  "demo_fs =
     [([''v''], Dir), ([''v'', ''rowforge.yaml''], Link ''/w/handlers/a/rowforge.yaml''),
      ([''w''], Dir), ([''w'', ''handlers''], Dir), ([''w'', ''handlers'', ''a''], Dir),
      ([''w'', ''handlers'', ''a'', ''rowforge.yaml''], File ''y''),
      ([''w'', ''handlers'', ''l''], Link ''/gone''),
      ([''w'', ''handlers'', ''z''], Dir), ([''w'', ''handlers'', ''z'', ''old''], Link ''nowhere'')]"

lemma demo_ok: "fs_ok demo_fs" "handlers_at demo_fs ''/w'' [''w'', ''handlers'']"
  "validate_name ''a''" "validate_name ''b''" "validate_name ''l''" "validate_name ''z''"
  by code_simp+

abbreviation "no_yaml \<equiv> (\<lambda>_. Inl []) :: string \<Rightarrow> string + manifest"
abbreviation "no_text \<equiv> (\<lambda>_. Inl []) :: manifest \<Rightarrow> string + string"
abbreviation "no_tpl \<equiv> (\<lambda>_. []) :: path \<Rightarrow> string"

lemma demo_delete:
  "handler_step no_tpl no_yaml no_text ''/w'' (Op_Delete ''z'') (None, demo_fs) =
     Some (Inr (), None, remove_tree [''w'', ''handlers'', ''z''] demo_fs)"
  by code_simp

lemma handler_ops_fenced_witness:
  "list_ex (\<lambda>n. validate_name n \<and> prefix ([''w'', ''handlers''] @ [n]) [''w'', ''handlers'', ''z'', ''old'']) (op_names (Op_Delete ''z''))"
  by (rule handler_ops_fenced[OF demo_ok(1,2) demo_delete]) code_simp

lemma handler_ops_keep_others_witness:
  "node_at (remove_tree [''w'', ''handlers'', ''z''] demo_fs) [''w'', ''handlers'', ''a'', ''rowforge.yaml''] = Some (File ''y'')"
  by (rule handler_ops_keep_others[OF demo_ok(1,2) demo_delete]) code_simp+

lemma handler_runs_well_formed_witness: "fs_ok (remove_tree [''w'', ''handlers'', ''z''] demo_fs)"
  by (rule handler_runs_well_formed[OF demo_ok(1), of no_tpl no_yaml no_text "''/w''" "[Op_Delete ''z'']" None None])
    (simp add: demo_delete)

lemma delete_exact_witness:
  "node_at (remove_tree [''w'', ''handlers'', ''z''] demo_fs) [''w'', ''handlers'', ''a''] = Some Dir"
proof -
  have "delete_handler ''/w'' ''z'' (None, demo_fs) = (Inr (), None, remove_tree [''w'', ''handlers'', ''z''] demo_fs)" by code_simp
  from delete_exact[OF demo_ok(1,2,6) this, of "[''w'', ''handlers'', ''a'']"]
  have "node_at (remove_tree [''w'', ''handlers'', ''z''] demo_fs) [''w'', ''handlers'', ''a''] = node_at demo_fs [''w'', ''handlers'', ''a'']"
    by simp
  also have "\<dots> = Some Dir" by code_simp
  finally show ?thesis .
qed

lemma rename_exact_witness:
  "node_at (move_tree [''w'', ''handlers'', ''a''] [''w'', ''handlers'', ''b''] demo_fs) [''w'', ''handlers'', ''b'', ''rowforge.yaml'']
     = Some (File ''y'')"
proof -
  have "rename_handler ''/w'' ''a'' ''b'' (None, demo_fs) =
      (Inr (), None, move_tree [''w'', ''handlers'', ''a''] [''w'', ''handlers'', ''b''] demo_fs)" by code_simp
  moreover have "node_at demo_fs ([''w'', ''handlers''] @ [''a'']) = Some Dir"
    "node_at demo_fs ([''w'', ''handlers''] @ [''b'']) = None" by code_simp+
  ultimately have "node_at (move_tree [''w'', ''handlers'', ''a''] [''w'', ''handlers'', ''b''] demo_fs) [''w'', ''handlers'', ''b'', ''rowforge.yaml'']
      = node_at demo_fs [''w'', ''handlers'', ''a'', ''rowforge.yaml'']"
    using rename_exact[OF demo_ok(1,2,3,4), of "Inr ()" None "move_tree [''w'', ''handlers'', ''a''] [''w'', ''handlers'', ''b''] demo_fs"
      "[''w'', ''handlers'', ''b'', ''rowforge.yaml'']"] by simp
  also have "\<dots> = Some (File ''y'')" by code_simp
  finally show ?thesis .
qed

lemma dangling_link_stuck_witness:
  "delete_handler ''/w'' ''l'' (None, demo_fs) =
     (Inl (Io_Error ''canonicalize handler dir: No such file or directory''), None, demo_fs)"
proof -
  have "node_at demo_fs ([''w'', ''handlers''] @ [''l'']) = Some (Link ''/gone'')" by code_simp
  moreover have "canonicalize demo_fs (handler_dir ''/w'' ''l'') = None" by code_simp
  moreover have "validate_primary_field ''id''" by code_simp
  ultimately show ?thesis using dangling_link_stuck[OF demo_ok(1,2,5) _ _ _ demo_ok(4)] by blast
qed

lemma fork_exact_witness:
  "case fork_handler (\<lambda>_. Inr build_manifest) (\<lambda>m. Inr (mf_name m)) ''/w'' ''a'' ''b'' (None, demo_fs) of
     Some (Inr _, io', fs') \<Rightarrow> node_at fs' [''w'', ''handlers'', ''b'', ''rowforge.yaml''] = Some (File ''b'')
   | _ \<Rightarrow> False"
proof -
  have n: "node_at demo_fs ([''w'', ''handlers''] @ [''a'']) = Some Dir" "node_at demo_fs ([''w'', ''handlers''] @ [''b'']) = None"
    "node_at demo_fs ([''w'', ''handlers''] @ [''a'', ''rowforge.yaml'']) = Some (File ''y'')" by code_simp+
  have l: "load_from_dir (\<lambda>_. Inr ''y'') (\<lambda>_. Inr build_manifest) (handler_dir ''/w'' ''b'') =
      Inr (build_manifest, path_join (handler_dir ''/w'' ''b'') ''rowforge.yaml'')"
    by (simp add: load_from_dir_def build_manifest_def)
  show ?thesis
    using fork_exact[OF demo_ok(1,2,3,4) n l, of "\<lambda>m. Inr (mf_name m)" "''b''" "[''w'', ''handlers'', ''b'', ''rowforge.yaml'']"]
    by (auto split: option.splits sum.splits prod.splits)
qed

lemma import_loses_linked_manifest_witness:
  "case import_from_folder ''/w'' ''/v'' ''b'' (None, demo_fs) of
     Some (Inr _, io', fs') \<Rightarrow> node_at fs' [''w'', ''handlers'', ''b''] = Some Dir \<and>
       \<not> is_file fs' (path_join (handler_dir ''/w'' ''b'') ''rowforge.yaml'')
   | _ \<Rightarrow> False"
proof -
  have n: "node_at demo_fs ([''w'', ''handlers''] @ [''b'']) = None" "canonicalize demo_fs ''/v'' = Some [''v'']"
    "node_at demo_fs [''v''] = Some Dir" "\<not> prefix [''v''] [''w'', ''handlers'']"
    "is_file demo_fs (path_join ''/v'' ''rowforge.yaml'')"
    "node_at demo_fs ([''v''] @ [''rowforge.yaml'']) = Some (Link ''/w/handlers/a/rowforge.yaml'')" by code_simp+
  show ?thesis using import_loses_linked_manifest[OF demo_ok(1,2,4) n] by (auto split: option.splits sum.splits prod.splits)
qed

lemma listed_but_not_shown_witness:
  "show_handler no_yaml (\<lambda>_. True) (\<lambda>_. 0) 0 demo_fs ''/w'' ''z'' = Inl (Io_Error ''No such file or directory'')"
proof -
  have "''z'' \<in> set (children demo_fs [''w'', ''handlers''])" "is_dir demo_fs (handler_dir ''/w'' ''z'')"
    "canonicalize demo_fs (handler_dir ''/w'' ''z'') = Some [''w'', ''handlers'', ''z'']"
    "''old'' \<in> set (children demo_fs [''w'', ''handlers'', ''z''])" "''old'' \<noteq> ''rowforge.yaml''"
    "metadata demo_fs (path_join (handler_dir ''/w'' ''z'') ''old'') = None" by code_simp+
  from listed_but_not_shown[OF demo_ok(2,6) this, where yaml = no_yaml and mtime = "\<lambda>_. 0" and on_path = "\<lambda>_. True" and other_len = 0] show ?thesis
    by (auto split: sum.splits)
qed

definition demo_outcome :: build_outcome where
  "demo_outcome = \<lparr> bd_exit_code = 1, bd_command = [''go''], bd_stdout = [], bd_stderr = ''x'' \<rparr>"

lemma build_cache_exact_witness: "bt_lookup [(''a'', demo_outcome)] ''a'' = Some demo_outcome"
proof -
  have "read_to_string demo_fs (path_join (handler_dir ''/w'' ''a'') ''rowforge.yaml'') = Inr ''y''"
    and d: "is_dir demo_fs (handler_dir ''/w'' ''a'')" by code_simp+
  then have l: "load_from_dir (read_to_string demo_fs) (\<lambda>_. Inr build_manifest) (handler_dir ''/w'' ''a'') =
      Inr (build_manifest, path_join (handler_dir ''/w'' ''a'') ''rowforge.yaml'')"
    by (simp add: load_from_dir_def build_manifest_def)
  have raw: "build_raw (\<lambda>_. Inr build_manifest) (\<lambda>_. True) (\<lambda>_ _. Inr (Some 1, [], ''x'')) demo_fs ''/w'' ''a'' =
      Some (Inl (Build_Failed 1 ''x'' demo_outcome))"
    using demo_ok(3) d l by (simp add: build_raw_def run_build_def build_manifest_def entry_of_fields_def Let_def
        slice_from_def char_boundary_def demo_outcome_def)
  have "handler_build (\<lambda>_. Inr build_manifest) (\<lambda>_. True) (\<lambda>_ _. Inr (Some 1, [], ''x'')) demo_fs ''/w'' ''a'' [] =
      Some (Inl (Ui_Build_Failed ''a'' 1), [(''a'', demo_outcome)])"
    using demo_ok(3) l raw by (simp add: handler_build_def build_manifest_def entry_of_fields_def)
  from build_cache_exact[OF bt_ok_Nil this, of "''a''"] show ?thesis by (simp add: raw)
qed

end
