(* ===== verification/Studio_Core.thy ===== *)
theory Studio_Core
  imports Studio_Run Handler_Mgmt
begin

text \<open>
  What the Studio does with executions besides running them (\<^verbatim>\<open>studio-core/lib.rs\<close>): the recovery of orphaned attempts when a
  workspace is opened, the creation of an execution, and its deletion. The
  clock and the modification times are arguments, in nanoseconds since the epoch; files are those of the \<open>File_System\<close>.
\<close>

section \<open>Identifiers\<close>

definition id_char :: "char \<Rightarrow> bool" where
  "id_char c = (Handler_Mgmt.ascii_lower c \<or> ascii_upper c \<or> is_digit c \<or> c = CHR ''_'' \<or> c = CHR ''-'')"

definition is_valid_id_component :: "string \<Rightarrow> bool" where
  "is_valid_id_component s =
     (s \<noteq> [] \<and> CHR ''/'' \<notin> set s \<and> CHR 0x5C \<notin> set s \<and> \<not> contains s ''..'' \<and> list_all id_char s)"

section \<open>Orphan recovery\<close>

text \<open>\<open>oc_secs\<close> is \<^verbatim>\<open>timestamp()\<close>, the seconds of a stored time; \<open>oc_stamp\<close> is the stored time that \<^verbatim>\<open>finish_attempt\<close> writes.\<close>

record scan_env =
  oc_now :: nat
  oc_mtime :: "path \<Rightarrow> nat option"
  oc_secs :: "time \<Rightarrow> nat"
  oc_stamp :: time
  oc_io :: "string \<Rightarrow> fuse"

definition ORPHAN_THRESHOLD :: nat where "ORPHAN_THRESHOLD = 5 * 60 * 1000000000"

text \<open>\<^verbatim>\<open>duration_since\<close> fails for a time in the future, which counts as not stale.\<close>

definition long_ago :: "scan_env \<Rightarrow> nat \<Rightarrow> bool" where
  "long_ago env t = (t \<le> oc_now env \<and> oc_now env - t > ORPHAN_THRESHOLD)"

definition is_stale :: "scan_env \<Rightarrow> path \<Rightarrow> time \<Rightarrow> bool" where
  "is_stale env outcomes started =
     long_ago env (case oc_mtime env outcomes of Some t \<Rightarrow> t | None \<Rightarrow> oc_secs env started * 1000000000)"

definition orphan_finish :: finish where
  "orphan_finish = \<lparr> fi_success_count = 0, fi_failed_count = 0, fi_aborted = True,
     fi_aborted_reason = Some ''orphaned_on_restart'', fi_cancelled_reason = None \<rparr>"

type_synonym scan_result = "(core_error \<times> store) + (nat \<times> store)"

definition scan_attempt :: "scan_env \<Rightarrow> execution \<Rightarrow> attempt \<Rightarrow> nat \<times> store \<Rightarrow> scan_result" where
  "scan_attempt env x a acc =
     (case acc of (marked, st) \<Rightarrow>
        if at_state a \<noteq> Running then Inr (marked, st)
        else if is_stale env (outcomes_path x (at_id a)) (at_started_at a) then
          (case finish_attempt (at_id a) orphan_finish (oc_stamp env) (oc_io env (at_id a)) st of
             (Inl e, st') \<Rightarrow> Inl (e, st')
           | (Inr _, st') \<Rightarrow> Inr (marked + 1, st'))
        else Inr (marked, st))"

definition scan_execution :: "scan_env \<Rightarrow> execution \<Rightarrow> nat \<times> store \<Rightarrow> scan_result" where
  "scan_execution env x acc =
     (case list_attempts_for_execution (snd acc) (ex_id x) of
        Inl e \<Rightarrow> Inl (e, snd acc)
      | Inr as \<Rightarrow> fold_result (scan_attempt env x) as acc)"

definition scan_for_orphans :: "scan_env \<Rightarrow> store \<Rightarrow> scan_result" where
  "scan_for_orphans env st =
     (case list_executions st of
        Inl e \<Rightarrow> Inl (e, st)
      | Inr xs \<Rightarrow> fold_result (scan_execution env) xs (0, st))"

definition store_after :: "scan_result \<Rightarrow> store" where
  "store_after r = (case r of Inl (e, st) \<Rightarrow> st | Inr (n, st) \<Rightarrow> st)"

section \<open>Opening a workspace\<close>

text \<open>A failed scan is logged and the workspace opens all the same.\<close>

record open_opts =
  op_workspace :: "path option"
  op_max_concurrent_runs :: "nat option"
  op_preferred_editor :: "string option"
  op_capture_raw :: bool
  op_smoke_default_rows :: nat
  op_smoke_timeout_per_row_secs :: nat

definition default_opts :: open_opts where
  "default_opts = \<lparr> op_workspace = None, op_max_concurrent_runs = None, op_preferred_editor = None,
     op_capture_raw = False, op_smoke_default_rows = 5, op_smoke_timeout_per_row_secs = 30 \<rparr>"

text \<open>The handle of an open workspace. The home directory (\<^verbatim>\<open>default_workspace_root\<close>) and the opening of the registry of a
  directory are arguments; \<open>sd_store\<close> and \<open>sd_sessions\<close> are the locked fields.\<close>

record studio_core =
  sc_root :: path
  sc_studio :: studio
  sc_preferred_editor :: "string option"
  sc_smoke_default_rows :: nat
  sc_smoke_timeout_per_row_secs :: nat

definition clamp_rows :: "nat \<Rightarrow> nat" where "clamp_rows n = max 1 (min n 100)"

definition open_studio ::
    "path option \<Rightarrow> (path \<Rightarrow> core_error + store) \<Rightarrow> scan_env \<Rightarrow> open_opts \<Rightarrow> ui_error + studio_core" where
  "open_studio home_root open_store env opts =
     (case (case op_workspace opts of Some p \<Rightarrow> Some p | None \<Rightarrow> home_root) of
        None \<Rightarrow> Inl (Workspace_Locked ''no home directory available'')
      | Some dir \<Rightarrow>
          (case open_store dir of
             Inl e \<Rightarrow> Inl (Workspace_Locked (core_error_text e))
           | Inr st \<Rightarrow> Inr
              \<lparr> sc_root = dir,
                sc_studio = \<lparr> sd_store = store_after (scan_for_orphans env st),
                  sd_sessions = registry_new (case op_max_concurrent_runs opts of None \<Rightarrow> 3 | Some n \<Rightarrow> n) 1,
                  sd_capture_raw = op_capture_raw opts \<rparr>,
                sc_preferred_editor = op_preferred_editor opts,
                sc_smoke_default_rows = clamp_rows (op_smoke_default_rows opts),
                sc_smoke_timeout_per_row_secs = op_smoke_timeout_per_row_secs opts \<rparr>))"

definition set_preferred_editor :: "string option \<Rightarrow> studio_core \<Rightarrow> studio_core" where
  "set_preferred_editor e core = core\<lparr> sc_preferred_editor := e \<rparr>"

definition set_capture_raw_stdout :: "bool \<Rightarrow> studio_core \<Rightarrow> studio_core" where
  "set_capture_raw_stdout b core = core\<lparr> sc_studio := (sc_studio core)\<lparr> sd_capture_raw := b \<rparr> \<rparr>"

definition set_smoke_defaults :: "nat \<Rightarrow> nat \<Rightarrow> studio_core \<Rightarrow> studio_core" where
  "set_smoke_defaults rows secs core = core\<lparr> sc_smoke_default_rows := clamp_rows rows, sc_smoke_timeout_per_row_secs := secs \<rparr>"

section \<open>Creating an execution\<close>

record start_exec_args =
  xa_name :: string
  xa_input_path :: path
  xa_csv_id :: "string option"
  xa_pinned :: "string option"

text \<open>\<open>chunks\<close> gives the bytes of the input as they are read; \<^verbatim>\<open>to_ascii_lowercase\<close> of the extension.\<close>

definition start_exec ::
    "(string \<Rightarrow> string) \<Rightarrow> fs \<Rightarrow> (path \<Rightarrow> string list option) \<Rightarrow> string \<Rightarrow> time \<Rightarrow> fuse \<Rightarrow> start_exec_args \<Rightarrow> store
      \<Rightarrow> (ui_error + string) \<times> store" where
  "start_exec sha fs chunks ulid now io args st =
     (let p = xa_input_path args; ext = map_option (map Execution_Store.ascii_lower) (path_extension p) in
      if \<not> is_file fs p then (Inl (Invalid_Input (''input not found or not a file: '' @ p)), st)
      else if ext \<notin> {Some ''csv'', Some ''jsonl'', Some ''ndjson''} then
        (Inl (Invalid_Input (''unsupported input format '' @ [CHR 0xE2, CHR 0x80, CHR 0x94] @ '' must be csv/jsonl/ndjson'')), st)
      else (case list_executions st of
          Inl e \<Rightarrow> (Inl (Internal_Error (core_error_text e)), st)
        | Inr xs \<Rightarrow>
            if list_ex (\<lambda>x. ex_name x = Some (xa_name args)) xs then (Inl (Duplicate_Exec_Name (xa_name args)), st)
            else (case create_execution sha (chunks p) (path_extension p) ulid now
                     \<lparr> nx_name = Some (xa_name args),
                       nx_input_csv_id = (case xa_csv_id args of None \<Rightarrow> ''csv_unregistered'' | Some i \<Rightarrow> i),
                       nx_input_csv_path = p, nx_current_handler_instance_id = xa_pinned args \<rparr> io st of
                (Inl e, st') \<Rightarrow> (Inl (Internal_Error (core_error_text e)), st')
              | (Inr x, st') \<Rightarrow> (Inr (ex_id x), st'))))"

section \<open>The text of an error\<close>

fun busy_scope_debug :: "busy_scope \<Rightarrow> string" where
  "busy_scope_debug Per_Exec_Scope = ''PerExec''"
| "busy_scope_debug Per_Workspace_Scope = ''PerWorkspace''"

fun ui_error_text :: "ui_error \<Rightarrow> string" where
  "ui_error_text (Workspace_Locked m) = ''workspace locked or incompatible: '' @ m"
| "ui_error_text (Not_Found_Error m) = m"
| "ui_error_text (Invalid_Arg m) = ''invalid argument: '' @ m"
| "ui_error_text (Io_Error m) = ''io error: '' @ m"
| "ui_error_text (Internal_Error m) = ''internal: '' @ m"
| "ui_error_text (Run_Aborted r) = ''run aborted''"
| "ui_error_text (Run_Busy e n sc) = ''run busy: limit '' @ nat_str n @ '' reached for scope '' @ busy_scope_debug sc"
| "ui_error_text (Unknown_Handle h) = ''handle expired or unknown: '' @ h"
| "ui_error_text (Invalid_Input r) = ''invalid input: '' @ r"
| "ui_error_text (Duplicate_Exec_Name n) = ''duplicate exec name: '' @ n"
| "ui_error_text (Export_Incomplete n) = ''export incomplete: '' @ nat_str n @ '' rows unresolved''"
| "ui_error_text (Manifest_Invalid es) = ''manifest invalid''"
| "ui_error_text (Ui_Toolchain_Missing n t) = ''build tool '' @ quoted t @ '' for handler '' @ quoted n @ '' not found in PATH''"
| "ui_error_text Editor_Not_Found = ''editor not found''"
| "ui_error_text (Handler_Not_Found n) = ''handler not found: '' @ n"
| "ui_error_text (Handler_Exists n) = ''handler already exists: '' @ n"
| "ui_error_text (Invalid_Handler_Name n) = ''invalid handler name: '' @ n"
| "ui_error_text (Ui_Build_Failed n c) = ''build failed for handler '' @ quoted n @ '' (exit '' @ int_str c @ '')''"
| "ui_error_text (Ui_No_Build_Command n) = ''handler '' @ quoted n @ '' has no entry.build in its manifest''"
| "ui_error_text (Execution_In_Use e) = ''execution '' @ quoted e @ '' has an active run; cancel it first''"
| "ui_error_text (Handler_Busy n) = ''handler '' @ quoted n @ '' has an active run; cancel it first''"

section \<open>Deleting executions\<close>

definition executions_dir :: "path \<Rightarrow> path" where
  "executions_dir ws = path_join ws ''executions''"

text \<open>The removal of the directory is best effort: a failure is logged only. The device may fail (\<open>io\<close>).\<close>

definition remove_exec_dir :: "path \<Rightarrow> string \<Rightarrow> fuse \<times> fs \<Rightarrow> fuse \<times> fs" where
  "remove_exec_dir ws i st =
     (let dir = path_join (executions_dir ws) i; fs = snd st in
      if \<not> path_exists fs dir then st
      else (case (entry_path fs dir, symlink_metadata fs dir) of
          (Some q, Some Dir) \<Rightarrow> (let (bad, io) = poll (fst st) in if bad then (io, fs) else (io, remove_tree q fs))
        | (Some q, Some (Link _)) \<Rightarrow> (let (bad, io) = poll (fst st) in if bad then (io, fs) else (io, remove_tree q fs))
        | _ \<Rightarrow> st))"

record studio_disk =
  sk_studio :: studio
  sk_disk :: "fuse \<times> fs"

definition execution_delete :: "path \<Rightarrow> string \<Rightarrow> studio_disk \<Rightarrow> (ui_error + unit) \<times> studio_disk" where
  "execution_delete ws i sk =
     (let sd = sk_studio sk in
      if \<not> is_valid_id_component i then (Inl (Io_Error (''invalid exec_id: '' @ i)), sk)
      else if has_active_attempt (sd_store sd) i then (Inl (Execution_In_Use i), sk)
      else if has_active_run_for_exec i (sd_sessions sd) then (Inl (Execution_In_Use i), sk)
      else (let (found, st) = delete_execution i (sd_store sd); sk' = sk\<lparr> sk_studio := sd\<lparr> sd_store := st \<rparr> \<rparr> in
        if \<not> found then (Inl (Not_Found_Error (''execution '' @ quoted i @ '' not found'')), sk')
        else (Inr (), sk'\<lparr> sk_disk := remove_exec_dir ws i (sk_disk sk) \<rparr>)))"

fun execution_delete_bulk ::
    "path \<Rightarrow> string list \<Rightarrow> studio_disk \<Rightarrow> (string list \<times> (string \<times> string) list) \<times> studio_disk" where
  "execution_delete_bulk ws [] sk = (([], []), sk)"
| "execution_delete_bulk ws (i # is) sk =
     (case execution_delete ws i sk of
        (r, sk') \<Rightarrow>
          (case execution_delete_bulk ws is sk' of
             ((deleted, failed), sk'') \<Rightarrow>
               (case r of Inr _ \<Rightarrow> ((i # deleted, failed), sk'') | Inl e \<Rightarrow> ((deleted, (i, ui_error_text e) # failed), sk''))))"

section \<open>Identifiers are single names\<close>

lemma no_dots: "list_all id_char s \<Longrightarrow> \<not> contains s ''..''"
proof (induction s)
  case (Cons c s)
  then show ?case by (auto simp: starts_with_def id_char_def Handler_Mgmt.ascii_lower_def ascii_upper_def is_digit_def)
qed simp

lemma valid_id_iff: "is_valid_id_component s \<longleftrightarrow> s \<noteq> [] \<and> list_all id_char s"
proof -
  have "list_all id_char s \<Longrightarrow> CHR ''/'' \<notin> set s \<and> CHR 0x5C \<notin> set s"
    by (auto simp: list_all_iff id_char_def Handler_Mgmt.ascii_lower_def ascii_upper_def is_digit_def)
  then show ?thesis using no_dots by (auto simp: is_valid_id_component_def)
qed

lemma valid_id_good: "is_valid_id_component s \<Longrightarrow> good_name s"
  by (auto simp: valid_id_iff good_name_def list_all_iff id_char_def Handler_Mgmt.ascii_lower_def ascii_upper_def is_digit_def)

text \<open>The check of an identifier is that it is not empty and made of letters, digits, underscores and hyphens (the three
  other conditions of the code follow from this), and a path joined with an accepted identifier goes exactly one name
  further down: no identifier leads out of a directory.\<close>

theorem valid_ids_stay_inside:
  "(is_valid_id_component s \<longleftrightarrow> s \<noteq> [] \<and> list_all id_char s) \<and>
   (is_valid_id_component s \<longrightarrow> comps (path_join p s) = comps p @ [s] \<and> good_name s)"
  using valid_id_iff valid_id_good comps_join_good by blast

lemma valid_ids_stay_inside_witness: "comps (path_join ''/w'' ''e_1'') = [''w'', ''e_1'']"
proof -
  have "is_valid_id_component ''e_1''" by code_simp
  then have "comps (path_join ''/w'' ''e_1'') = comps ''/w'' @ [''e_1'']" using valid_ids_stay_inside by blast
  then show ?thesis by (simp add: comps_def)
qed

section \<open>The orphan scan\<close>

definition orphan_row :: "scan_env \<Rightarrow> store \<Rightarrow> attempt_row \<Rightarrow> bool" where
  "orphan_row env st r =
     (ar_state r = ''running'' \<and>
      is_stale env (path_join (path_join (path_join (execution_dir st (ar_execution_id r)) ''attempts'') (ar_id r)) ''outcomes.jsonl'')
        (ar_started_at r))"

definition orphaned :: "scan_env \<Rightarrow> attempt_row \<Rightarrow> attempt_row" where
  "orphaned env r = finish_row orphan_finish (oc_stamp env) r"

lemma orphaned_simps [simp]:
  "ar_id (orphaned env r) = ar_id r" "ar_execution_id (orphaned env r) = ar_execution_id r"
  "ar_state (orphaned env r) = ''aborted''"
  by (simp_all add: orphaned_def orphan_finish_def finish_row_def)

lemma finish_attempt_home: "st_home (snd (finish_attempt i fi now f st)) = st_home st"
proof -
  have "st_home (snd (set_execution_state j s re now f st)) = st_home st" for j s re st
    by (auto simp: set_execution_state_def split_def Let_def update_exec_def split: sum.split option.split)
  then have s: "set_execution_state j s re now f st = (r, st') \<Longrightarrow> st_home st' = st_home st" for j s re st r st'
    by (metis snd_conv)
  show ?thesis
    unfolding finish_attempt_def Let_def by (auto split: sum.split option.split prod.split dest!: s)
qed

text \<open>The loop over the attempts of an execution marks a row when it reaches the attempt read from it.\<close>

definition hit :: "scan_env \<Rightarrow> execution \<Rightarrow> attempt_row \<Rightarrow> attempt \<Rightarrow> bool" where
  "hit env x r a = (ar_state r = ''running'' \<and> ar_id r = at_id a \<and> at_state a = Running \<and>
     is_stale env (outcomes_path x (at_id a)) (at_started_at a))"

lemma hit_orphaned [simp]: "\<not> hit env x (orphaned env r) a"
  by (simp add: hit_def)

lemma no_hit_orphaned [simp]: "\<not> list_ex (hit env x (orphaned env r)) as"
  by (simp add: list_ex_iff)

lemma scan_attempt_step:
  assumes "scan_attempt env x a (n, st) = Inr (n', st')"
  shows "st_home st' = st_home st \<and>
    st_attempts st' = map (\<lambda>r. if hit env x r a then orphaned env r else r) (st_attempts st)"
proof (cases "at_state a = Running \<and> is_stale env (outcomes_path x (at_id a)) (at_started_at a)")
  case True
  then have "st' = snd (finish_attempt (at_id a) orphan_finish (oc_stamp env) (oc_io env (at_id a)) st)"
    using assms by (auto simp: scan_attempt_def split: prod.splits sum.splits)
  then show ?thesis using True
    by (auto simp: finish_attempt_attempts finish_attempt_home orphaned_def hit_def)
next
  case False
  then have "st' = st" using assms by (auto simp: scan_attempt_def split: if_splits)
  then show ?thesis using False by (auto simp: hit_def intro!: map_idI[symmetric])
qed

lemma scan_attempts_fold:
  "fold_result (scan_attempt env x) as (n, st) = Inr (n', st') \<Longrightarrow>
   st_home st' = st_home st \<and>
   st_attempts st' = map (\<lambda>r. if list_ex (hit env x r) as then orphaned env r else r) (st_attempts st)"
proof (induction as arbitrary: n st)
  case (Cons a as)
  obtain n1 st1 where s: "scan_attempt env x a (n, st) = Inr (n1, st1)" "fold_result (scan_attempt env x) as (n1, st1) = Inr (n', st')"
    using Cons.prems by (auto split: sum.splits)
  show ?case using scan_attempt_step[OF s(1)] Cons.IH[OF s(2)] by simp
qed simp

lemma fold_collect:
  "fold_result (\<lambda>r xs. case f r of Inl e \<Rightarrow> Inl e | Inr x \<Rightarrow> Inr (xs @ [x])) rs acc = Inr ys \<Longrightarrow>
   \<exists>zs. ys = acc @ zs \<and> list_all2 (\<lambda>r x. f r = Inr x) rs zs"
proof (induction rs arbitrary: acc)
  case (Cons r rs)
  obtain x where x: "f r = Inr x" "fold_result (\<lambda>r xs. case f r of Inl e \<Rightarrow> Inl e | Inr x \<Rightarrow> Inr (xs @ [x])) rs (acc @ [x]) = Inr ys"
    using Cons.prems by (auto split: sum.splits)
  obtain zs where "ys = (acc @ [x]) @ zs" "list_all2 (\<lambda>r x. f r = Inr x) rs zs" using Cons.IH[OF x(2)] by blast
  then show ?case using x(1) by (intro exI[of _ "x # zs"]) simp
qed simp

lemma list_all2_left: "list_all2 P xs ys \<Longrightarrow> x \<in> set xs \<Longrightarrow> \<exists>y\<in>set ys. P x y"
  by (induction rule: list_all2_induct) auto

lemma list_all2_right: "list_all2 P xs ys \<Longrightarrow> y \<in> set ys \<Longrightarrow> \<exists>x\<in>set xs. P x y"
  by (induction rule: list_all2_induct) auto

lemma list_attempts_rows:
  assumes "list_attempts_for_execution st e = Inr as"
  shows "list_all2 (\<lambda>r a. row_to_attempt st r = Inr a) (sort_key ar_started_at (filter (\<lambda>r. ar_execution_id r = e) (st_attempts st))) as"
  using fold_collect[OF assms[unfolded list_attempts_for_execution_def]] by simp

lemma list_executions_rows:
  assumes "list_executions st = Inr xs"
  shows "list_all2 (\<lambda>r x. row_to_execution st r = Inr x) (rev (sort_key xr_created_at (st_execs st))) xs"
  using fold_collect[OF assms[unfolded list_executions_def]] by simp

lemma row_to_attempt_fields:
  "row_to_attempt st r = Inr a \<Longrightarrow> at_id a = ar_id r \<and> at_started_at a = ar_started_at r \<and> (at_state a = Running \<longrightarrow> ar_state r = ''running'')
     \<and> (ar_state r = ''running'' \<longrightarrow> at_state a = Running)"
  by (auto simp: row_to_attempt_def attempt_state_parse_def split: sum.splits if_splits)

lemma row_to_execution_fields: "row_to_execution st r = Inr x \<Longrightarrow> ex_id x = xr_id r \<and> ex_dir x = execution_dir st (xr_id r) \<and> ex_name x = xr_name r"
  by (auto simp: row_to_execution_def split: sum.splits)

lemma scan_execution_step:
  assumes "scan_execution env x (n, st) = Inr (n', st')" "distinct (map ar_id (st_attempts st))"
    and "ex_dir x = execution_dir st (ex_id x)"
  shows "st_home st' = st_home st \<and>
    st_attempts st' = map (\<lambda>r. if ar_execution_id r = ex_id x \<and> orphan_row env st r then orphaned env r else r) (st_attempts st)"
proof -
  obtain as where as: "list_attempts_for_execution st (ex_id x) = Inr as"
    and f: "fold_result (scan_attempt env x) as (n, st) = Inr (n', st')"
    using assms(1) by (auto simp: scan_execution_def split: sum.splits)
  note rows = list_attempts_rows[OF as]
  have key: "list_ex (hit env x r) as \<longleftrightarrow> ar_execution_id r = ex_id x \<and> orphan_row env st r" if r: "r \<in> set (st_attempts st)" for r
  proof
    assume "list_ex (hit env x r) as"
    then obtain a where a: "a \<in> set as" "hit env x r a" by (auto simp: list_ex_iff)
    obtain r' where r': "r' \<in> set (st_attempts st)" "ar_execution_id r' = ex_id x" "row_to_attempt st r' = Inr a"
      using list_all2_right[OF rows a(1)] by auto
    have f': "at_id a = ar_id r'" "at_started_at a = ar_started_at r'" using row_to_attempt_fields[OF r'(3)] by simp_all
    have "r' = r" using f'(1) a(2) assms(2) r r'(1) by (auto simp: distinct_map inj_on_def hit_def)
    then show "ar_execution_id r = ex_id x \<and> orphan_row env st r"
      using r' a f' assms(3) by (simp add: orphan_row_def outcomes_path_def hit_def)
  next
    assume o: "ar_execution_id r = ex_id x \<and> orphan_row env st r"
    then obtain a where a: "a \<in> set as" "row_to_attempt st r = Inr a" using list_all2_left[OF rows, of r] r by auto
    then have "hit env x r a"
      using row_to_attempt_fields[OF a(2)] o assms(3) by (auto simp: orphan_row_def outcomes_path_def hit_def)
    then show "list_ex (hit env x r) as" using a(1) by (auto simp: list_ex_iff)
  qed
  have "map (\<lambda>r. if list_ex (hit env x r) as then orphaned env r else r) (st_attempts st) =
     map (\<lambda>r. if ar_execution_id r = ex_id x \<and> orphan_row env st r then orphaned env r else r) (st_attempts st)"
    by (rule map_cong[OF refl]) (simp only: key)
  then show ?thesis using scan_attempts_fold[OF f] by simp
qed

lemma orphan_row_home: "st_home st' = st_home st \<Longrightarrow> orphan_row env st' r = orphan_row env st r"
  by (simp add: orphan_row_def execution_dir_def)

lemma orphan_row_done [simp]: "\<not> orphan_row env st (orphaned env r)"
  by (simp add: orphan_row_def)

lemma scan_executions_fold:
  assumes "fold_result (scan_execution env) xs (n, st) = Inr (n', st')" "distinct (map ar_id (st_attempts st))"
    and "\<And>x. x \<in> set xs \<Longrightarrow> ex_dir x = execution_dir st (ex_id x)"
  shows "st_home st' = st_home st \<and>
    st_attempts st' = map (\<lambda>r. if ar_execution_id r \<in> ex_id ` set xs \<and> orphan_row env st r then orphaned env r else r) (st_attempts st)"
  using assms
proof (induction xs arbitrary: n st)
  case (Cons x xs)
  obtain n1 st1 where s: "scan_execution env x (n, st) = Inr (n1, st1)" "fold_result (scan_execution env) xs (n1, st1) = Inr (n', st')"
    using Cons.prems(1) by (auto split: sum.splits)
  note step = scan_execution_step[OF s(1) Cons.prems(2) Cons.prems(3)[of x, simplified]]
  have ids: "map ar_id (st_attempts st1) = map ar_id (st_attempts st)" using step by (auto intro: map_cong)
  have dirs: "execution_dir st1 = execution_dir st" using step by (intro ext) (simp add: execution_dir_def)
  have IH: "st_home st' = st_home st1 \<and> st_attempts st' =
      map (\<lambda>r. if ar_execution_id r \<in> ex_id ` set xs \<and> orphan_row env st1 r then orphaned env r else r) (st_attempts st1)"
    using Cons.IH[OF s(2)] Cons.prems(2,3) ids dirs by simp
  show ?case using IH step orphan_row_home[of st1 st env] by (auto intro: map_cong)
qed simp

lemma scan_rows:
  assumes "store_ok st" "scan_for_orphans env st = Inr (n, st')"
  shows "st_attempts st' = map (\<lambda>r. if orphan_row env st r then orphaned env r else r) (st_attempts st)"
proof -
  obtain xs where xs: "list_executions st = Inr xs" and f: "fold_result (scan_execution env) xs (0, st) = Inr (n, st')"
    using assms(2) by (auto simp: scan_for_orphans_def split: sum.splits)
  note rows = list_executions_rows[OF xs]
  have d: "distinct (map ar_id (st_attempts st))" and fk: "ar_execution_id ` set (st_attempts st) \<subseteq> xr_id ` set (st_execs st)"
    using assms(1) by (simp_all add: store_ok_def tables_ok_def)
  have dirs: "x \<in> set xs \<Longrightarrow> ex_dir x = execution_dir st (ex_id x)" for x
    using list_all2_right[OF rows] row_to_execution_fields by metis
  have ids: "i \<in> ex_id ` set xs" if i: "i \<in> xr_id ` set (st_execs st)" for i
  proof -
    obtain r where r: "r \<in> set (st_execs st)" "i = xr_id r" using i by blast
    then obtain x where "x \<in> set xs" "row_to_execution st r = Inr x" using list_all2_left[OF rows, of r] by auto
    then show ?thesis using row_to_execution_fields r(2) by (metis image_eqI)
  qed
  have "r \<in> set (st_attempts st) \<Longrightarrow> ar_execution_id r \<in> ex_id ` set xs" for r using fk ids by blast
  then show ?thesis using scan_executions_fold[OF f d dirs] by (auto intro: map_cong)
qed

text \<open>C29: Opening a workspace aborts exactly the attempts that are still running and whose outcomes file (or, without one, whose
  start) is more than five minutes old, with the reason \<^verbatim>\<open>orphaned_on_restart\<close> and no counts; no other attempt changes.
  A run of another process that is alive but has written nothing for that long is among them: its own end is then
  refused as not running, so its counts are lost, and its execution counts as idle if no other attempt of it runs.\<close>

theorem orphan_scan_exact:
  assumes "store_ok st" "scan_for_orphans env st = Inr (n, st')"
  shows "st_attempts st' = map (\<lambda>r. if orphan_row env st r then orphaned env r else r) (st_attempts st) \<and>
    (r \<in> set (st_attempts st) \<and> orphan_row env st r \<longrightarrow>
       finish_attempt (ar_id r) fi now f st' = (Inl (Store (''attempt not found or not running: '' @ ar_id r)), st')) \<and>
    (has_active_attempt st' e \<longleftrightarrow>
       (\<exists>r\<in>set (st_attempts st). ar_execution_id r = e \<and> \<not> is_terminal_text (ar_state r) \<and> \<not> orphan_row env st r))"
proof -
  note rows = scan_rows[OF assms]
  have d: "distinct (map ar_id (st_attempts st))" using assms(1) by (simp add: store_ok_def tables_ok_def)
  have "filter (\<lambda>x. ar_id x = ar_id r \<and> ar_state x = ''running'') (st_attempts st') = []"
    if "r \<in> set (st_attempts st)" "orphan_row env st r"
    using that d by (auto simp: rows filter_empty_conv distinct_map inj_on_def)
  then have "r \<in> set (st_attempts st) \<and> orphan_row env st r \<longrightarrow>
       finish_attempt (ar_id r) fi now f st' = (Inl (Store (''attempt not found or not running: '' @ ar_id r)), st')"
    by (simp add: finish_attempt_def)
  moreover have "has_active_attempt st' e \<longleftrightarrow>
       (\<exists>r\<in>set (st_attempts st). ar_execution_id r = e \<and> \<not> is_terminal_text (ar_state r) \<and> \<not> orphan_row env st r)"
    by (auto simp: has_active_iff rows is_terminal_text_def)
  ultimately show ?thesis using rows by blast
qed
lemma fold_collect_total:
  "(\<And>r. r \<in> set rs \<Longrightarrow> \<exists>x. f r = Inr x) \<Longrightarrow>
   \<exists>ys. fold_result (\<lambda>r xs. case f r of Inl e \<Rightarrow> Inl e | Inr x \<Rightarrow> Inr (xs @ [x])) rs acc = Inr ys"
proof (induction rs arbitrary: acc)
  case (Cons r rs)
  obtain x where "f r = Inr x" using Cons.prems by auto
  then show ?case using Cons.IH[of "acc @ [x]"] Cons.prems by auto
qed simp

lemma list_attempts_total: "store_ok st \<Longrightarrow> \<exists>as. list_attempts_for_execution st e = Inr as"
  unfolding list_attempts_for_execution_def
  by (rule fold_collect_total) (use attempt_row_parses in \<open>fastforce simp: store_ok_def tables_ok_def list_all_iff\<close>)

lemma list_executions_total: "store_ok st \<Longrightarrow> \<exists>xs. list_executions st = Inr xs"
  unfolding list_executions_def
  by (rule fold_collect_total) (use exec_row_parses in \<open>fastforce simp: store_ok_def tables_ok_def list_all_iff\<close>)

lemma scan_attempts_total:
  assumes "store_ok st" "\<And>i. oc_io env i = None" "distinct (map at_id as)"
    and "\<And>a. a \<in> set as \<Longrightarrow> at_state a = Running \<Longrightarrow> \<exists>r\<in>set (st_attempts st). ar_id r = at_id a \<and> ar_state r = ''running''"
  shows "\<exists>n' st'. fold_result (scan_attempt env x) as (n, st) = Inr (n', st') \<and> store_ok st'"
  using assms
proof (induction as arbitrary: n st)
  case (Cons a as)
  have "\<exists>n1 st1. scan_attempt env x a (n, st) = Inr (n1, st1) \<and> store_ok st1"
  proof (cases "at_state a = Running \<and> is_stale env (outcomes_path x (at_id a)) (at_started_at a)")
    case True
    then obtain r where r: "r \<in> set (st_attempts st)" "ar_id r = at_id a" "ar_state r = ''running''"
      using Cons.prems(4)[of a] by auto
    obtain res st1 where f: "finish_attempt (ar_id r) orphan_finish (oc_stamp env) None st = (res, st1)" by force
    have "\<exists>b. res = Inr b" using finish_running[OF Cons.prems(1) r(1,3) f] by blast
    moreover have "store_ok st1" using finish_attempt_ok[OF Cons.prems(1), of "ar_id r" orphan_finish "oc_stamp env" None] f by simp
    ultimately show ?thesis using True r f Cons.prems(2) by (auto simp: scan_attempt_def)
  qed (use Cons.prems(1) in \<open>auto simp: scan_attempt_def\<close>)
  then obtain n1 st1 where s: "scan_attempt env x a (n, st) = Inr (n1, st1)" "store_ok st1" by blast
  have rows: "st_attempts st1 = map (\<lambda>r. if hit env x r a then orphaned env r else r) (st_attempts st)"
    using scan_attempt_step[OF s(1)] by simp
  have "\<exists>r\<in>set (st_attempts st1). ar_id r = at_id b \<and> ar_state r = ''running''" if b: "b \<in> set as" "at_state b = Running" for b
  proof -
    obtain r where r: "r \<in> set (st_attempts st)" "ar_id r = at_id b" "ar_state r = ''running''" using Cons.prems(4)[of b] b by auto
    have "at_id b \<in> at_id ` set as" using b(1) by (rule imageI)
    then have "at_id b \<noteq> at_id a" using Cons.prems(3) by auto
    then have "\<not> hit env x r a" using r(2) by (simp add: hit_def)
    then show ?thesis using r rows by (auto intro!: bexI[of _ r] image_eqI[of _ _ r])
  qed
  then show ?case using Cons.IH[OF s(2) Cons.prems(2), of n1] Cons.prems(3) s(1) by simp
qed simp

lemma scan_execution_total:
  assumes "store_ok st" "\<And>i. oc_io env i = None"
  shows "\<exists>n' st'. scan_execution env x (n, st) = Inr (n', st') \<and> store_ok st'"
proof -
  obtain as where as: "list_attempts_for_execution st (ex_id x) = Inr as" using list_attempts_total[OF assms(1)] by blast
  note rows = list_attempts_rows[OF as]
  let ?rs = "sort_key ar_started_at (filter (\<lambda>r. ar_execution_id r = ex_id x) (st_attempts st))"
  have "map at_id as = map ar_id ?rs"
    using rows by (induction rule: list_all2_induct) (auto dest: row_to_attempt_fields)
  moreover have "distinct (map ar_id ?rs)"
    using assms(1) by (simp add: store_ok_def tables_ok_def distinct_map inj_on_def)
  ultimately have d: "distinct (map at_id as)" by simp
  have r: "\<exists>r\<in>set (st_attempts st). ar_id r = at_id a \<and> ar_state r = ''running''" if "a \<in> set as" "at_state a = Running" for a
    using list_all2_right[OF rows that(1)] row_to_attempt_fields that(2) by fastforce
  show ?thesis using scan_attempts_total[OF assms d r] as by (simp add: scan_execution_def)
qed

lemma scan_total:
  assumes "store_ok st" "\<And>i. oc_io env i = None"
  shows "\<exists>n st'. scan_for_orphans env st = Inr (n, st') \<and> store_ok st'"
proof -
  have "\<exists>n' st'. fold_result (scan_execution env) xs (n, st) = Inr (n', st') \<and> store_ok st'" if "store_ok st" for xs n st
    using that
  proof (induction xs arbitrary: n st)
    case (Cons x xs)
    then obtain n1 st1 where "scan_execution env x (n, st) = Inr (n1, st1)" "store_ok st1"
      using scan_execution_total[OF Cons.prems assms(2)] by blast
    then show ?case using Cons.IH by simp
  qed simp
  then show ?thesis using list_executions_total[OF assms(1)] assms(1) by (auto simp: scan_for_orphans_def)
qed

definition demo_scan :: scan_env where
  "demo_scan = \<lparr> oc_now = 10 ^ 15, oc_mtime = (\<lambda>_. Some 5), oc_secs = (\<lambda>t. t), oc_stamp = 9, oc_io = (\<lambda>_. None) \<rparr>"

lemma demo_stale: "is_stale demo_scan p t"
  by (simp add: is_stale_def long_ago_def demo_scan_def ORPHAN_THRESHOLD_def)

lemma orphan_scan_exact_witness:
  "\<exists>n st'. scan_for_orphans demo_scan demo_running = Inr (n, st') \<and> map ar_state (st_attempts st') = [''aborted''] \<and>
     \<not> has_active_attempt st' ''e_1''"
proof -
  obtain n st' where s: "scan_for_orphans demo_scan demo_running = Inr (n, st')"
    using scan_total[OF demo_running_ok, of demo_scan] by (auto simp: demo_scan_def)
  obtain r where r: "st_attempts demo_running = [r]" "ar_state r = ''running''" using demo_running_row by blast
  have o: "orphan_row demo_scan demo_running r" using r demo_stale by (simp add: orphan_row_def)
  show ?thesis using orphan_scan_exact[OF demo_running_ok s, of r undefined undefined None "''e_1''"] s r o by auto
qed

section \<open>Deletion\<close>

lemma delete_disk:
  assumes "is_valid_id_component i" "node_at (snd (remove_exec_dir ws i (io, fs))) q \<noteq> node_at fs q"
    and "canonicalize fs (executions_dir ws) = Some d"
  shows "prefix (d @ [i]) q"
proof -
  have e: "entry_path fs (path_join (executions_dir ws) i) = Some (d @ [i])"
    using assms(1,3) valid_id_good[OF assms(1)] by (auto simp: entry_path_def comps_join_good canonicalize_def)
  have "node_at (remove_tree (d @ [i]) fs) q = (if prefix (d @ [i]) q then None else node_at fs q)"
    by (rule node_at_remove) simp
  then show ?thesis
    using assms(2) by (auto simp: remove_exec_dir_def Let_def e split: if_splits option.splits fnode.splits prod.splits)
qed



definition deletable :: "studio_disk \<Rightarrow> string \<Rightarrow> bool" where
  "deletable sk i = (is_valid_id_component i \<and> i \<in> xr_id ` set (st_execs (sd_store (sk_studio sk))) \<and>
     \<not> has_active_attempt (sd_store (sk_studio sk)) i \<and> \<not> has_active_run_for_exec i (sd_sessions (sk_studio sk)))"

lemma delete_step:
  "deletable sk i \<Longrightarrow> execution_delete ws i sk = (Inr (), sk\<lparr> sk_studio := (sk_studio sk)\<lparr> sd_store := snd (delete_execution i (sd_store (sk_studio sk))) \<rparr>,
     sk_disk := remove_exec_dir ws i (sk_disk sk) \<rparr>)"
  by (auto simp: deletable_def execution_delete_def delete_execution_def Let_def filter_empty_conv)

lemma delete_refused:
  assumes "store_ok (sd_store (sk_studio sk))" "\<not> deletable sk i"
  shows "\<exists>e. execution_delete ws i sk = (Inl e, sk)"
proof (cases "i \<in> xr_id ` set (st_execs (sd_store (sk_studio sk)))")
  case False
  let ?st = "sd_store (sk_studio sk)"
  have f: "filter (\<lambda>r. xr_id r = i) (st_execs ?st) = []" using False by (auto simp: filter_empty_conv)
  have "i \<notin> ar_execution_id ` set (st_attempts ?st)" using assms(1) False by (auto simp: store_ok_def tables_ok_def)
  then have "filter (\<lambda>r. ar_execution_id r \<noteq> i) (st_attempts ?st) = st_attempts ?st"
    "filter (\<lambda>r. xr_id r \<noteq> i) (st_execs ?st) = st_execs ?st" using f by (auto simp: filter_id_conv filter_empty_conv)
  then show ?thesis using f by (auto simp: execution_delete_def delete_execution_def Let_def)
qed (use assms in \<open>auto simp: deletable_def execution_delete_def Let_def\<close>)

lemma deletable_other:
  assumes "j \<noteq> i"
  shows "deletable (sk\<lparr> sk_studio := (sk_studio sk)\<lparr> sd_store := snd (delete_execution i (sd_store (sk_studio sk))) \<rparr>, sk_disk := disk \<rparr>) j
    = deletable sk j"
  using assms by (auto simp: deletable_def delete_execution_def has_active_iff image_iff)

lemma bulk_rows:
  assumes "store_ok (sd_store (sk_studio sk))" "distinct is" "execution_delete_bulk ws is sk = ((deleted, failed), sk')"
  shows "deleted = filter (deletable sk) is \<and> map fst failed = filter (\<lambda>i. \<not> deletable sk i) is \<and>
    st_execs (sd_store (sk_studio sk')) = filter (\<lambda>x. xr_id x \<notin> set deleted) (st_execs (sd_store (sk_studio sk))) \<and>
    st_attempts (sd_store (sk_studio sk')) = filter (\<lambda>x. ar_execution_id x \<notin> set deleted) (st_attempts (sd_store (sk_studio sk)))"
  using assms
proof (induction "is" arbitrary: sk deleted failed)
  case (Cons i "is")
  show ?case
  proof (cases "deletable sk i")
    case True
    let ?sk = "sk\<lparr> sk_studio := (sk_studio sk)\<lparr> sd_store := snd (delete_execution i (sd_store (sk_studio sk))) \<rparr>,
        sk_disk := remove_exec_dir ws i (sk_disk sk) \<rparr>"
    obtain del where d: "execution_delete_bulk ws is ?sk = ((del, failed), sk')" "deleted = i # del"
      using Cons.prems(3) delete_step[OF True, of ws] by (auto split: prod.splits)
    have ok: "store_ok (sd_store (sk_studio ?sk))" using delete_execution_ok[OF Cons.prems(1), of i] by simp
    have "deletable ?sk j = deletable sk j" if "j \<in> set is" for j
      by (rule deletable_other) (use that Cons.prems(2) in auto)
    then have "filter (deletable ?sk) is = filter (deletable sk) is"
      "filter (\<lambda>i. \<not> deletable ?sk i) is = filter (\<lambda>i. \<not> deletable sk i) is" by (auto intro: filter_cong)
    then show ?thesis
      using Cons.IH[OF ok _ d(1)] Cons.prems(2) d(2) True by (auto simp: delete_execution_def conj_commute intro: filter_cong)
  next
    case False
    obtain e where "execution_delete ws i sk = (Inl e, sk)" using delete_refused[OF Cons.prems(1) False, of ws] by blast
    then obtain fl where d: "execution_delete_bulk ws is sk = ((deleted, fl), sk')" "map fst failed = i # map fst fl"
      using Cons.prems(3) by (auto split: prod.splits)
    then show ?thesis using Cons.IH[OF Cons.prems(1) _ d(1)] Cons.prems(2) False by simp
  qed
qed simp

text \<open>Deleting a list of executions deletes exactly those that could be deleted, in order, and reports exactly the others,
  in order, whatever fails on the way; afterwards the registry has exactly the rows of the executions not deleted.\<close>

theorem bulk_delete_exact:
  assumes "store_ok (sd_store (sk_studio sk))" "distinct is" "execution_delete_bulk ws is sk = ((deleted, failed), sk')"
  shows "deleted = filter (deletable sk) is \<and> map fst failed = filter (\<lambda>i. \<not> deletable sk i) is \<and>
    st_execs (sd_store (sk_studio sk')) = filter (\<lambda>x. xr_id x \<notin> set deleted) (st_execs (sd_store (sk_studio sk))) \<and>
    st_attempts (sd_store (sk_studio sk')) = filter (\<lambda>x. ar_execution_id x \<notin> set deleted) (st_attempts (sd_store (sk_studio sk)))"
  by (rule bulk_rows[OF assms])

lemma bulk_delete_exact_witness:
  "map fst (snd (fst (execution_delete_bulk ''/w'' [''e_9'', ''..''] \<lparr> sk_studio = \<lparr> sd_store = demo_store, sd_sessions = registry_new 3 1,
      sd_capture_raw = False \<rparr>, sk_disk = (None, []) \<rparr>))) = [''e_9'', ''..'']"
proof -
  let ?sk = "\<lparr> sk_studio = \<lparr> sd_store = demo_store, sd_sessions = registry_new 3 1, sd_capture_raw = False \<rparr>, sk_disk = (None, []) \<rparr>"
  obtain d f sk' where e: "execution_delete_bulk ''/w'' [''e_9'', ''..''] ?sk = ((d, f), sk')" by (metis prod.exhaust)
  have "\<not> deletable ?sk ''e_9''" "\<not> deletable ?sk ''..''"
    by (simp_all add: deletable_def) code_simp+
  then show ?thesis using bulk_delete_exact[OF _ _ e] demo_store_ok e by simp
qed

section \<open>Names of executions\<close>

definition exec_names :: "store \<Rightarrow> string list" where
  "exec_names st = List.map_filter xr_name (st_execs st)"

lemma create_execution_rows:
  "st_execs (snd (create_execution sha src ext u now nx f st)) = st_execs st \<or>
   (\<exists>row. st_execs (snd (create_execution sha src ext u now nx f st)) = st_execs st @ [row] \<and> xr_name row = nx_name nx)"
proof -
  have w: "write_manifest d x g st1 = (r, st2, h) \<Longrightarrow> st_execs st2 = st_execs st1" for d x g st1 r st2 h
    using write_manifest_tables(1)[of d x g st1] by simp
  have s: "snapshot_input sha chunks e d g st = (r, st1, h) \<Longrightarrow> st_execs st1 = st_execs st" for chunks e d g r st1 h
    using snapshot_input_tables[of sha chunks e d g st] by (auto dest: sym)
  show ?thesis
    by (auto simp: create_execution_def Let_def new_execution_row_def split: option.split sum.split prod.split dest!: w s)
qed

lemma create_execution_adds:
  "\<not> isl (fst (create_execution sha src ext u now nx f st)) \<Longrightarrow>
   st_execs (snd (create_execution sha src ext u now nx f st)) \<noteq> st_execs st"
proof -
  have w: "write_manifest d x g st1 = (r, st2, h) \<Longrightarrow> st_execs st2 = st_execs st1" for d x g st1 r st2 h
    using write_manifest_tables(1)[of d x g st1] by simp
  have s: "snapshot_input sha chunks e d g st = (r, st1, h) \<Longrightarrow> st_execs st1 = st_execs st" for chunks e d g r st1 h
    using snapshot_input_tables[of sha chunks e d g st] by (auto dest: sym)
  assume "\<not> isl (fst (create_execution sha src ext u now nx f st))"
  then show ?thesis
    by (auto simp: create_execution_def Let_def split: option.splits sum.splits prod.splits if_splits dest!: w s)
qed

text \<open>The Studio never gives two executions the same name: if the names in the registry are distinct, they are distinct
  after a creation whatever becomes of it, and a creation that succeeds adds the name asked for.\<close>

theorem start_exec_names_distinct:
  assumes "distinct (exec_names st)" "start_exec sha fs chunks u now io args st = (r, st')"
  shows "distinct (exec_names st') \<and> (case r of Inl _ \<Rightarrow> True | Inr _ \<Rightarrow> xa_name args \<in> set (exec_names st'))"
proof (cases "st_execs st' = st_execs st \<and> isl r")
  case True
  then show ?thesis using assms(1) by (cases r) (auto simp: exec_names_def)
next
  case False
  let ?nx = "\<lparr> nx_name = Some (xa_name args),
     nx_input_csv_id = (case xa_csv_id args of None \<Rightarrow> ''csv_unregistered'' | Some i \<Rightarrow> i),
     nx_input_csv_path = xa_input_path args, nx_current_handler_instance_id = xa_pinned args \<rparr>"
  let ?c = "create_execution sha (chunks (xa_input_path args)) (path_extension (xa_input_path args)) u now ?nx io st"
  obtain xs where xs: "list_executions st = Inr xs" "\<not> list_ex (\<lambda>x. ex_name x = Some (xa_name args)) xs"
    and c: "st' = snd ?c" "isl r = isl (fst ?c)"
  proof (cases "list_executions st")
    case (Inl e)
    then show thesis using False assms(2) by (cases r; auto simp: start_exec_def Let_def split: if_splits)
  next
    case (Inr xs)
    obtain cr cst where cc: "?c = (cr, cst)" by (cases ?c)
    show thesis
    proof (rule that[OF Inr])
      show "\<not> list_ex (\<lambda>x. ex_name x = Some (xa_name args)) xs" "st' = snd ?c" "isl r = isl (fst ?c)"
        using False assms(2) Inr cc by (cases cr; cases r; auto simp: start_exec_def Let_def split: if_splits)+
    qed
  qed
  have fresh: "xa_name args \<notin> set (exec_names st)"
  proof
    assume "xa_name args \<in> set (exec_names st)"
    then obtain row where row: "row \<in> set (st_execs st)" "xr_name row = Some (xa_name args)"
      by (auto simp: exec_names_def map_filter_def)
    then obtain x where "x \<in> set xs" "row_to_execution st row = Inr x"
      using list_all2_left[OF list_executions_rows[OF xs(1)], of row] by auto
    then show False using row_to_execution_fields[of st row x] row(2) xs(2) by (auto simp: list_ex_iff)
  qed
  have grow: "\<exists>row. st_execs st' = st_execs st @ [row] \<and> xr_name row = Some (xa_name args)" if "st_execs st' \<noteq> st_execs st"
    using create_execution_rows[of sha "chunks (xa_input_path args)" "path_extension (xa_input_path args)" u now ?nx io st] c(1) that
    by auto
  have "st_execs st' \<noteq> st_execs st"
  proof
    assume same: "st_execs st' = st_execs st"
    then have "\<not> isl (fst ?c)" using False c by simp
    then show False using same c(1) create_execution_adds by blast
  qed
  then obtain row where "st_execs st' = st_execs st @ [row]" "xr_name row = Some (xa_name args)" using grow by blast
  then show ?thesis using assms(1) fresh by (auto simp: exec_names_def map_filter_def split: sum.split)
qed

lemma start_exec_names_distinct_witness:
  "distinct (exec_names (snd (start_exec (\<lambda>s. s) [([''i.csv''], File ''h'')] (\<lambda>_. Some [''h'']) ''1'' 0 None
     \<lparr> xa_name = ''n'', xa_input_path = ''/i.csv'', xa_csv_id = None, xa_pinned = None \<rparr> (empty_store ''/w''))))"
proof -
  obtain r st' where e: "start_exec (\<lambda>s. s) [([''i.csv''], File ''h'')] (\<lambda>_. Some [''h'']) ''1'' 0 None
     \<lparr> xa_name = ''n'', xa_input_path = ''/i.csv'', xa_csv_id = None, xa_pinned = None \<rparr> (empty_store ''/w'') = (r, st')" by force
  have "distinct (exec_names (empty_store ''/w''))" by (simp add: exec_names_def empty_store_def map_filter_def)
  then show ?thesis using start_exec_names_distinct[OF _ e] by (simp add: e)
qed

text \<open>A creation that fails when it writes the manifest copy of the execution reports the failure and still leaves the
  execution in the registry: trying again under the same name, with everything working, is refused as a duplicate.\<close>

theorem failed_creation_keeps_name:
  "let fs = [([''i.csv''], File ''h'')]; args = \<lparr> xa_name = ''n'', xa_input_path = ''/i.csv'', xa_csv_id = None, xa_pinned = None \<rparr>;
       (r, st) = start_exec (\<lambda>s. s) fs (\<lambda>_. Some [''h'']) ''1'' 0 (Some 4) args (empty_store ''/w'');
       (r', st') = start_exec (\<lambda>s. s) fs (\<lambda>_. Some [''h'']) ''2'' 1 None args st in
   r = Inl (Internal_Error ''io: write manifest.json.tmp'') \<and> r' = Inl (Duplicate_Exec_Name ''n'') \<and> exec_names st' = [''n'']"
  by code_simp

end
