(* ===== verification/Studio_Views.thy ===== *)
theory Studio_Views
  imports Studio_Core Export
begin

text \<open>
  What the Studio shows (\<^verbatim>\<open>lib.rs\<close>, \<^verbatim>\<open>exec_view.rs\<close>, \<^verbatim>\<open>exec_detail.rs\<close>, \<^verbatim>\<open>attempt_detail.rs\<close>, \<^verbatim>\<open>cache.rs\<close>): the list of
  executions behind its cache, the page of an execution and of an attempt with the counts of \<^verbatim>\<open>meta.json\<close>, the rollup, the
  export, and the tail of a handler log. Files that are only read are a function \<open>path \<Rightarrow> string option\<close>; the parser of JSON is
  an argument \<open>js\<close>.
\<close>

section \<open>The counts of a run\<close>

record attempt_counts =
  ac_success :: nat
  ac_failed :: nat
  ac_crashed :: nat

definition read_json :: "(string \<Rightarrow> json option) \<Rightarrow> (path \<Rightarrow> string option) \<Rightarrow> path \<Rightarrow> json option" where
  "read_json js read p = Option.bind (read p) js"

definition get_u64 :: "json \<Rightarrow> string \<Rightarrow> nat option" where
  "get_u64 v k = Option.bind (jget v k) as_u64"

definition read_meta_counts :: "(string \<Rightarrow> json option) \<Rightarrow> (path \<Rightarrow> string option) \<Rightarrow> path \<Rightarrow> attempt_counts option" where
  "read_meta_counts js read p =
     Option.bind (read_json js read p) (\<lambda>v.
     Option.bind (jget v ''stats'') (\<lambda>stats.
     Option.bind (get_u64 stats ''success'') (\<lambda>s.
     Option.bind (get_u64 stats ''failed'') (\<lambda>f.
     Option.bind (get_u64 stats ''crashed'') (\<lambda>c.
       Some \<lparr> ac_success = s, ac_failed = f, ac_crashed = c \<rparr>)))))"

definition or_zero :: "nat option \<Rightarrow> nat" where
  "or_zero n = (case n of None \<Rightarrow> 0 | Some k \<Rightarrow> k)"

definition u64_entries :: "obj \<Rightarrow> (string, nat) bt" where
  "u64_entries m = bt_from_list (List.map_filter (\<lambda>(k, v). map_option (Pair k) (as_u64 v)) m)"

definition read_meta_full ::
    "(string \<Rightarrow> json option) \<Rightarrow> (path \<Rightarrow> string option) \<Rightarrow> path \<Rightarrow> (attempt_counts \<times> (string, nat) bt) option" where
  "read_meta_full js read p =
     map_option (\<lambda>v.
       let stats = (case jget v ''stats'' of None \<Rightarrow> JNull | Some s \<Rightarrow> s) in
       (\<lparr> ac_success = or_zero (get_u64 stats ''success''), ac_failed = or_zero (get_u64 stats ''failed''),
          ac_crashed = or_zero (get_u64 stats ''crashed'') \<rparr>,
        (case Option.bind (jget v ''by_error_code'') as_object of None \<Rightarrow> [] | Some m \<Rightarrow> u64_entries m)))
     (read_json js read p)"

section \<open>The list of executions\<close>

record exec_summary =
  es_id :: string
  es_name :: string
  es_created_at :: time
  es_input_rows :: "nat option"
  es_attempts_count :: nat
  es_last_attempt_state :: "string option"
  es_last_attempt_counts :: "attempt_counts option"
  es_last_handler_dir :: "path option"
  es_size_bytes :: "nat option"

definition last_of :: "'a list \<Rightarrow> 'a option" where
  "last_of xs = (if xs = [] then None else Some (last xs))"

text \<open>\<^verbatim>\<open>exec.dir.join("attempts").join(id)\<close>\<close>

definition attempt_home :: "execution \<Rightarrow> string \<Rightarrow> path" where
  "attempt_home x i = path_join (path_join (ex_dir x) ''attempts'') i"

definition from_execution ::
    "(string \<Rightarrow> json option) \<Rightarrow> (path \<Rightarrow> string option) \<Rightarrow> store \<Rightarrow> execution \<Rightarrow> core_error + exec_summary" where
  "from_execution js read st x =
     (case list_attempts_for_execution st (ex_id x) of
        Inl e \<Rightarrow> Inl e
      | Inr as \<Rightarrow> Inr
         \<lparr> es_id = ex_id x, es_name = (case ex_name x of None \<Rightarrow> [] | Some n \<Rightarrow> n), es_created_at = ex_created_at x,
           es_input_rows = Some (ex_input_row_count x), es_attempts_count = u64_as_u32 (length as),
           es_last_attempt_state = map_option (\<lambda>a. attempt_state_str (at_state a)) (last_of as),
           es_last_attempt_counts =
             Option.bind (last_of as) (\<lambda>a. read_meta_counts js read (path_join (attempt_home x (at_id a)) ''meta.json'')),
           es_last_handler_dir = ex_last_handler_dir x, es_size_bytes = None \<rparr>)"

text \<open>\<^verbatim>\<open>WalkDir\<close> without following links: the regular files below the directory, which may itself be reached by a link.\<close>

fun node_size :: "fnode \<Rightarrow> nat" where
  "node_size (File c) = length c"
| "node_size _ = 0"

definition dir_size_bytes :: "fs \<Rightarrow> path \<Rightarrow> nat option" where
  "dir_size_bytes fs p =
     (case canonicalize fs p of
        None \<Rightarrow> None
      | Some d \<Rightarrow>
          if node_at fs d = None then None
          else if is_file fs p \<and> symlink_metadata fs p \<noteq> metadata fs p then Some 0
          else Some (min (2 ^ 64 - 1) (sum_list (map (node_size \<circ> snd) (filter (\<lambda>(q, n). prefix d q) fs)))))"

subsection \<open>The cache\<close>

text \<open>Times are nanoseconds; the modification time of the source is read anew at each call (\<open>None\<close>: it cannot be read).\<close>

record 'v cache_entry =
  ce_value :: 'v
  ce_source_mtime :: nat
  ce_fetched_at :: nat

type_synonym ('k, 'v) cache = "'k \<Rightarrow> 'v cache_entry option"

definition DEFAULT_TTL :: nat where "DEFAULT_TTL = 30 * 1000000000"

definition get_if_fresh :: "nat \<Rightarrow> nat option \<Rightarrow> 'k \<Rightarrow> ('k, 'v) cache \<Rightarrow> 'v option" where
  "get_if_fresh now mtime k c =
     Option.bind (c k) (\<lambda>e.
       if now - ce_fetched_at e > DEFAULT_TTL then None
       else Option.bind mtime (\<lambda>t. if t \<noteq> ce_source_mtime e then None else Some (ce_value e)))"

definition cache_put :: "nat \<Rightarrow> nat option \<Rightarrow> 'k \<Rightarrow> 'v \<Rightarrow> ('k, 'v) cache \<Rightarrow> ('k, 'v) cache" where
  "cache_put now mtime k v c =
     (case mtime of
        None \<Rightarrow> c
      | Some t \<Rightarrow> c(k \<mapsto> \<lparr> ce_value = v, ce_source_mtime = t, ce_fetched_at = now \<rparr>))"

definition cache_invalidate :: "'k \<Rightarrow> ('k, 'v) cache \<Rightarrow> ('k, 'v) cache" where
  "cache_invalidate k c = c(k := None)"

definition cache_invalidate_all :: "('k, 'v) cache \<Rightarrow> ('k, 'v) cache" where
  "cache_invalidate_all c = Map.empty"

subsection \<open>Listing\<close>

text \<open>What the list shows when it is computed anew.\<close>

definition fresh_list ::
    "(string \<Rightarrow> json option) \<Rightarrow> (path \<Rightarrow> string option) \<Rightarrow> path \<Rightarrow> fs \<Rightarrow> store \<Rightarrow> ui_error + exec_summary list" where
  "fresh_list js read ws fs st =
     (case list_executions st of
        Inl e \<Rightarrow> Inl (Internal_Error (core_error_text e))
      | Inr xs \<Rightarrow>
          (case fold_result (\<lambda>x ss. case from_execution js read st x of Inl e \<Rightarrow> Inl e | Inr s \<Rightarrow> Inr (ss @ [s])) xs [] of
             Inl e \<Rightarrow> Inl (Internal_Error (core_error_text e))
           | Inr ss \<Rightarrow>
               Inr (map (\<lambda>s. s\<lparr> es_size_bytes := dir_size_bytes fs (path_join (path_join ws ''executions'') (es_id s)) \<rparr>) ss)))"

text \<open>One call: \<open>mtime\<close> is what the probe of \<^verbatim>\<open>executions.db\<close> sees, \<open>put_now\<close> and \<open>put_mtime\<close> what storing the result sees.\<close>

record list_call =
  lc_now :: nat
  lc_mtime :: "nat option"
  lc_put_now :: nat
  lc_put_mtime :: "nat option"
  lc_fresh :: "ui_error + exec_summary list"

definition list_execs ::
    "list_call \<Rightarrow> (unit, exec_summary list) cache \<Rightarrow> (ui_error + exec_summary list) \<times> (unit, exec_summary list) cache" where
  "list_execs call c =
     (case get_if_fresh (lc_now call) (lc_mtime call) () c of
        Some ss \<Rightarrow> (Inr ss, c)
      | None \<Rightarrow>
          (case lc_fresh call of
             Inl e \<Rightarrow> (Inl e, c)
           | Inr ss \<Rightarrow> (Inr ss, cache_put (lc_put_now call) (lc_put_mtime call) () ss c)))"

section \<open>The page of an execution and of an attempt\<close>

datatype input_format_view = View_Csv | View_Jsonl | View_Ndjson

record attempt_summary =
  au_id :: string
  au_state :: string
  au_started_at :: time
  au_finished_at :: "time option"
  au_run_type :: string
  au_stats :: "attempt_counts option"
  au_cancelled_reason :: "string option"

record exec_detail =
  ed_summary :: exec_summary
  ed_input_path_snapshot :: path
  ed_input_format :: input_format_view
  ed_handler_instance_id :: "string option"
  ed_attempts :: "attempt_summary list"

text \<open>A run type is a struct, so its JSON value is no string and what is shown is its lower-cased \<^verbatim>\<open>Debug\<close> text.\<close>

fun source_debug :: "run_source \<Rightarrow> string" where
  "source_debug Full = ''Full''"
| "source_debug (Sampled n) = ''Sampled { size: '' @ nat_str n @ '' }''"

fun simulation_debug :: "simulation \<Rightarrow> string" where
  "simulation_debug Real = ''Real''"
| "simulation_debug Dry = ''Dry''"

fun source_json :: "run_source \<Rightarrow> json" where
  "source_json Full = JObject (bt_from_list [(''kind'', JString ''full'')])"
| "source_json (Sampled n) = JObject (bt_from_list [(''kind'', JString ''sampled''), (''size'', junum n)])"

definition run_type_json :: "attempt \<Rightarrow> json" where
  "run_type_json a = JObject (bt_from_list
     [(''source'', source_json (at_source a)), (''simulation'', JString (case at_simulation a of Real \<Rightarrow> ''real'' | Dry \<Rightarrow> ''dry''))])"

definition run_type_text :: "attempt \<Rightarrow> string" where
  "run_type_text a =
     (case as_str (run_type_json a) of
        Some s \<Rightarrow> s
      | None \<Rightarrow> map Execution_Store.ascii_lower
          (''RunType { source: '' @ source_debug (at_source a) @ '', simulation: '' @ simulation_debug (at_simulation a) @ '' }''))"

definition attempt_summary_of :: "attempt \<Rightarrow> attempt_summary" where
  "attempt_summary_of a =
     \<lparr> au_id = at_id a, au_state = attempt_state_str (at_state a), au_started_at = at_started_at a,
       au_finished_at = at_ended_at a, au_run_type = run_type_text a, au_stats = None,
       au_cancelled_reason = at_cancelled_reason a \<rparr>"

definition found_execution :: "store \<Rightarrow> string \<Rightarrow> ui_error + execution" where
  "found_execution st e =
     (case get_execution st e of
        Inl err \<Rightarrow> Inl (Internal_Error (core_error_text err))
      | Inr None \<Rightarrow> Inl (Not_Found_Error (''execution '' @ e @ '' not found''))
      | Inr (Some x) \<Rightarrow> Inr x)"

definition show_exec ::
    "(string \<Rightarrow> json option) \<Rightarrow> (path \<Rightarrow> string option) \<Rightarrow> store \<Rightarrow> string \<Rightarrow> ui_error + exec_detail" where
  "show_exec js read st e =
     (case found_execution st e of
        Inl err \<Rightarrow> Inl err
      | Inr x \<Rightarrow>
     (case from_execution js read st x of
        Inl err \<Rightarrow> Inl (Internal_Error (core_error_text err))
      | Inr s \<Rightarrow>
     (case list_attempts_for_execution st e of
        Inl err \<Rightarrow> Inl (Internal_Error (core_error_text err))
      | Inr as \<Rightarrow> Inr
         \<lparr> ed_summary = s, ed_input_path_snapshot = path_join (ex_dir x) ''input.csv'', ed_input_format = View_Csv,
           ed_handler_instance_id = ex_current_handler_instance_id x, ed_attempts = map attempt_summary_of as \<rparr>)))"

record attempt_detail =
  ad_id :: string
  ad_execution_id :: string
  ad_state :: string
  ad_run_type :: string
  ad_started_at :: time
  ad_finished_at :: "time option"
  ad_stats :: attempt_counts
  ad_by_error_code :: "(string, nat) bt"
  ad_handler_instance :: "string option"
  ad_meta_json :: path
  ad_outcomes_jsonl :: path
  ad_handler_stderr_log :: path
  ad_is_terminal :: bool
  ad_cancelled_reason :: "string option"

definition show_attempt ::
    "(string \<Rightarrow> json option) \<Rightarrow> (path \<Rightarrow> string option) \<Rightarrow> store \<Rightarrow> string \<Rightarrow> string \<Rightarrow> ui_error + attempt_detail" where
  "show_attempt js read st e r =
     (case found_execution st e of
        Inl err \<Rightarrow> Inl err
      | Inr x \<Rightarrow>
     (case list_attempts_for_execution st e of
        Inl err \<Rightarrow> Inl (Internal_Error (core_error_text err))
      | Inr as \<Rightarrow>
     (case List.find (\<lambda>a. at_id a = r) as of
        None \<Rightarrow> Inl (Not_Found_Error (''attempt '' @ r @ '' not found''))
      | Some a \<Rightarrow>
          (let dir = attempt_home x (at_id a); meta = path_join dir ''meta.json'';
               (stats, codes) = (case read_meta_full js read meta of
                  None \<Rightarrow> (\<lparr> ac_success = 0, ac_failed = 0, ac_crashed = 0 \<rparr>, []) | Some m \<Rightarrow> m);
               state = attempt_state_str (at_state a) in
           Inr \<lparr> ad_id = at_id a, ad_execution_id = e, ad_state = state, ad_run_type = run_type_text a,
             ad_started_at = at_started_at a, ad_finished_at = at_ended_at a, ad_stats = stats, ad_by_error_code = codes,
             ad_handler_instance = ex_current_handler_instance_id x, ad_meta_json = meta,
             ad_outcomes_jsonl = path_join dir ''outcomes.jsonl'',
             ad_handler_stderr_log = path_join dir ''handler.stderr.log'',
             ad_is_terminal = (state \<in> {''done'', ''completed'', ''aborted'', ''crashed''}),
             ad_cancelled_reason = at_cancelled_reason a \<rparr>))))"

record exec_rollup =
  eu_counts :: resolution_counts
  eu_by_error_code :: "(string, nat) bt"

definition studio_rollup ::
    "(json \<Rightarrow> string) \<Rightarrow> (string \<Rightarrow> string + batch_outcome) \<Rightarrow> (path \<Rightarrow> text_file) \<Rightarrow> store \<Rightarrow> string
      \<Rightarrow> ui_error + exec_rollup" where
  "studio_rollup ser parse files st e =
     (case found_execution st e of
        Inl err \<Rightarrow> Inl err
      | Inr _ \<Rightarrow>
          (case compute_resolution ser parse files st e of
             Inl err \<Rightarrow> Inl (Internal_Error (core_error_text err))
           | Inr r \<Rightarrow> Inr \<lparr> eu_counts = rr_counts r, eu_by_error_code = rr_by_error_code r \<rparr>))"

section \<open>Reading the outcomes of an attempt\<close>

text \<open>\<^verbatim>\<open>attempt_failed_row_ids\<close> builds its path itself from the two identifiers; \<^verbatim>\<open>failed_page\<close> asks the registry for the directory.\<close>

definition attempt_failed_row_ids ::
    "(string \<Rightarrow> json option) \<Rightarrow> (path \<Rightarrow> text_file) \<Rightarrow> path \<Rightarrow> string \<Rightarrow> string \<Rightarrow> ui_error + nat list" where
  "attempt_failed_row_ids js files ws e r =
     (if \<not> is_valid_id_component e then Inl (Io_Error (''invalid exec_id: '' @ e))
      else if \<not> is_valid_id_component r then Inl (Io_Error (''invalid attempt_id: '' @ r))
      else Inr (failed_row_ids js (files
        (path_join (path_join (path_join (path_join (path_join ws ''executions'') e) ''attempts'') r) ''outcomes.jsonl''))))"

definition failed_page_of ::
    "(string \<Rightarrow> json option) \<Rightarrow> (path \<Rightarrow> text_file) \<Rightarrow> store \<Rightarrow> string \<Rightarrow> string \<Rightarrow> page_query \<Rightarrow> ui_error + failed_page" where
  "failed_page_of js files st e r q =
     (case found_execution st e of
        Inl err \<Rightarrow> Inl err
      | Inr x \<Rightarrow>
          (case files (outcomes_path x r) of
             None \<Rightarrow> Inr \<lparr> fp_rows = [], fp_next_offset = None, fp_total_known = None \<rparr>
           | Some ls \<Rightarrow> (case read_failed_page js ls q of Inl err \<Rightarrow> Inl (Io_Error err) | Inr p \<Rightarrow> Inr p)))"

section \<open>Export\<close>

definition strip_prefix :: "string \<Rightarrow> string \<Rightarrow> string option" where
  "strip_prefix p s = (if starts_with s p then Some (drop (length p) s) else None)"

definition export_error :: "core_error \<Rightarrow> ui_error" where
  "export_error err =
     (let msg = core_error_text err;
          rest = (case strip_prefix ''store: '' msg of None \<Rightarrow> msg | Some s \<Rightarrow> s) in
      case strip_prefix ''export_incomplete:'' rest of
        Some n \<Rightarrow> Export_Incomplete (or_zero (parse_u64 n))
      | None \<Rightarrow> Internal_Error msg)"

definition studio_export ::
    "(json \<Rightarrow> string) \<Rightarrow> (string \<Rightarrow> string + batch_outcome) \<Rightarrow> (path \<Rightarrow> text_file) \<Rightarrow> (path \<Rightarrow> string option) \<Rightarrow> string
      \<Rightarrow> store \<Rightarrow> string \<Rightarrow> export_opts \<Rightarrow> (ui_error + export_report) \<times> (path \<times> export_file) list" where
  "studio_export ser parse files io now st e opts =
     (case export_execution ser parse files io now st e opts of
        (Inr rep, out) \<Rightarrow> (Inr rep, out)
      | (Inl err, out) \<Rightarrow> (Inl (export_error err), out))"

section \<open>The tail of the handler log\<close>

text \<open>\<^verbatim>\<open>str::lines\<close>: a carriage return before a line feed goes with it.\<close>

definition drop_cr :: "string \<Rightarrow> string" where
  "drop_cr l = (if l \<noteq> [] \<and> last l = CHR 0x0D then butlast l else l)"

definition str_lines :: "string \<Rightarrow> string list" where
  "str_lines s =
     (let ls = split_lines s in
      if s = [] then [] else if last s = newline then map drop_cr ls else map drop_cr (butlast ls) @ [last ls])"

definition read_tail_lines :: "string \<Rightarrow> nat \<Rightarrow> string list" where
  "read_tail_lines content max_lines =
     (let len = length content;
          target = min (min (max_lines * 1000) (2 ^ 64 - 1)) len;
          ls = str_lines (drop (len - target) content);
          ls' = (if target < len \<and> ls \<noteq> [] then tl ls else ls) in
      if length ls' > max_lines then drop (length ls' - max_lines) ls' else ls')"

definition handler_log_tail ::
    "(string \<Rightarrow> 'ts option) \<Rightarrow> path \<Rightarrow> fs \<Rightarrow> string \<Rightarrow> string \<Rightarrow> nat \<Rightarrow> ui_error + 'ts handler_log_line list" where
  "handler_log_tail parse_ts ws fs e r n =
     (if \<not> is_valid_id_component e then Inl (Io_Error (''invalid exec_id: '' @ e))
      else if \<not> is_valid_id_component r then Inl (Io_Error (''invalid attempt_id: '' @ r))
      else (let dir = path_join (path_join (path_join (path_join ws ''executions'') e) ''attempts'') r;
                p = handler_log_path dir in
        if \<not> path_exists fs p then Inr []
        else (case canonicalize fs ws of
            None \<Rightarrow> Inl (Io_Error ''canonicalize workspace: No such file or directory'')
          | Some w \<Rightarrow>
              if (case canonicalize fs dir of Some d \<Rightarrow> \<not> prefix w d | None \<Rightarrow> False) then
                Inl (Io_Error ''attempt path outside workspace'')
              else (case read_to_string fs p of
                  Inl err \<Rightarrow> Inl (Io_Error (''read handler log: '' @ err))
                | Inr s \<Rightarrow> Inr (List.map_filter (parse_line parse_ts) (read_tail_lines s n))))))"

definition handler_log_subscribe :: "string \<Rightarrow> registry \<Rightarrow> ui_error + string" where
  "handler_log_subscribe r rg =
     (if \<not> is_valid_id_component r then Inl (Io_Error (''invalid attempt_id: '' @ r))
      else (case lookup_by_attempt r rg of
          None \<Rightarrow> Inl (Io_Error (''attempt '' @ r @ '' is not active (subscribe to a running attempt or use handler_log_tail)''))
        | Some h \<Rightarrow> Inr h))"

definition unlines :: "string list \<Rightarrow> string" where
  "unlines ls = concat (map (\<lambda>l. l @ [newline]) ls)"

definition clean_line :: "string \<Rightarrow> bool" where
  "clean_line l = (newline \<notin> set l \<and> (l = [] \<or> last l \<noteq> CHR 0x0D))"

lemma unlines_simps [simp]: "unlines [] = []" "unlines (l # ls) = l @ newline # unlines ls" "unlines (xs @ ys) = unlines xs @ unlines ys"
  by (simp_all add: unlines_def)

lemma unlines_last: "unlines ls = [] \<or> last (unlines ls) = newline"
  by (induction ls) auto

lemma map_drop_cr: "list_all clean_line ls \<Longrightarrow> map drop_cr ls = ls"
  by (induction ls) (auto simp: clean_line_def drop_cr_def)

lemma str_lines_unlines: "list_all clean_line ls \<Longrightarrow> str_lines (unlines ls) = ls"
proof -
  assume c: "list_all clean_line ls"
  have s: "split_lines (unlines ls) = ls"
    using split_lines_concat[of ls] c unfolding unlines_def by (auto simp: list_all_iff clean_line_def)
  have "map drop_cr ls = ls" using c by (rule map_drop_cr)
  then show ?thesis using s unlines_last[of ls] by (auto simp: str_lines_def Let_def)
qed

lemma str_lines_cons: "newline \<notin> set y \<Longrightarrow> list_all clean_line ls \<Longrightarrow> str_lines (y @ newline # unlines ls) = drop_cr y # ls"
proof -
  assume a: "newline \<notin> set y" "list_all clean_line ls"
  have s: "split_lines (y @ newline # unlines ls) = y # ls"
    using split_lines_concat[of ls] split_lines_cons[OF a(1)] a(2) unfolding unlines_def by (auto simp: list_all_iff clean_line_def)
  have "map drop_cr ls = ls" using a(2) by (rule map_drop_cr)
  then show ?thesis using s unlines_last[of ls] by (auto simp: str_lines_def Let_def)
qed

lemma drop_unlines:
  "m < length (unlines ls) \<Longrightarrow>
   \<exists>j<length ls. \<exists>k\<le>length (ls ! j). drop m (unlines ls) = drop k (ls ! j) @ newline # unlines (drop (Suc j) ls)"
proof (induction ls arbitrary: m)
  case (Cons l ls)
  show ?case
  proof (cases "m \<le> length l")
    case True
    then show ?thesis by (intro exI[of _ 0]) auto
  next
    case False
    then have "m - Suc (length l) < length (unlines ls)" using Cons.prems by auto
    from Cons.IH[OF this] obtain j k where "j < length ls" "k \<le> length (ls ! j)"
      "drop (m - Suc (length l)) (unlines ls) = drop k (ls ! j) @ newline # unlines (drop (Suc j) ls)" by blast
    moreover have "drop m (unlines (l # ls)) = drop (m - Suc (length l)) (unlines ls)" using False
      by (simp add: drop_Cons' )
    ultimately show ?thesis by (intro exI[of _ "Suc j"]) auto
  qed
qed simp

lemma length_unlines_bound: "list_all (\<lambda>l. length l < c) ls \<Longrightarrow> length (unlines ls) \<le> c * length ls"
  by (induction ls) auto

lemma length_unlines_ge: "length ls \<le> length (unlines ls)"
  by (induction ls) auto

text \<open>The tail is what the last lines of the window are, less a first one the window may cut.\<close>

lemma read_tail_window:
  assumes "list_all clean_line ls" "n * 1000 < 2 ^ 64" "n * 1000 < length (unlines ls)" "0 < n"
  shows "\<exists>j<length ls. \<exists>k\<le>length (ls ! j).
     n * 1000 = length (ls ! j) - k + Suc (length (unlines (drop (Suc j) ls))) \<and>
     read_tail_lines (unlines ls) n = drop (length ls - Suc j - n) (drop (Suc j) ls)"
proof -
  let ?m = "length (unlines ls) - n * 1000"
  have "?m < length (unlines ls)" using assms(3,4) by simp
  from drop_unlines[OF this] obtain j k where j: "j < length ls" "k \<le> length (ls ! j)"
    and d: "drop ?m (unlines ls) = drop k (ls ! j) @ newline # unlines (drop (Suc j) ls)" by blast
  have "clean_line (ls ! j)" using assms(1) j(1) by (simp add: list_all_length)
  then have y: "newline \<notin> set (drop k (ls ! j))" by (auto simp: clean_line_def dest: in_set_dropD)
  have c: "list_all clean_line (drop (Suc j) ls)" using assms(1) by (auto simp: list_all_iff dest: in_set_dropD)
  have "length (drop ?m (unlines ls)) = n * 1000" using assms(3) by simp
  then have len: "n * 1000 = length (ls ! j) - k + Suc (length (unlines (drop (Suc j) ls)))" by (simp add: d)
  have "read_tail_lines (unlines ls) n = drop (length ls - Suc j - n) (drop (Suc j) ls)"
    using str_lines_cons[OF y c] assms(2,3) by (simp add: read_tail_lines_def Let_def min_def d)
  then show ?thesis using j len by blast
qed

lemma tail_all: "list_all clean_line ls \<Longrightarrow> n * 1000 < 2 ^ 64 \<Longrightarrow> length (unlines ls) \<le> n * 1000 \<Longrightarrow>
    read_tail_lines (unlines ls) n = drop (length ls - n) ls"
  by (simp add: read_tail_lines_def Let_def min_def str_lines_unlines)

lemma tail_none: "read_tail_lines s 0 = []"
  by (simp add: read_tail_lines_def Let_def str_lines_def)

lemma tail_is_last_lines:
  assumes "list_all clean_line ls" "list_all (\<lambda>l. length l < 999) ls" "n * 1000 < 2 ^ 64"
  shows "read_tail_lines (unlines ls) n = drop (length ls - n) ls"
proof (cases "n = 0 \<or> length (unlines ls) \<le> n * 1000")
  case True
  then show ?thesis using tail_all[OF assms(1,3)] tail_none by auto
next
  case False
  then obtain j where j: "j < length ls" "n * 1000 \<le> length (ls ! j) + Suc (length (unlines (drop (Suc j) ls)))"
      "read_tail_lines (unlines ls) n = drop (length ls - Suc j - n) (drop (Suc j) ls)"
    using read_tail_window[OF assms(1,3)] by fastforce
  have "list_all (\<lambda>l. length l < 999) (drop (Suc j) ls)" using assms(2) by (auto simp: list_all_iff dest: in_set_dropD)
  then have "length (unlines (drop (Suc j) ls)) \<le> 999 * (length ls - Suc j)"
    using length_unlines_bound by fastforce
  moreover have "length (ls ! j) < 999" using assms(2) j(1) by (simp add: list_all_length)
  ultimately have "n * 1000 \<le> 999 * (length ls - j)" using j by auto
  then have "n \<le> length ls - Suc j" using False by auto
  then have e: "length ls - Suc j - n + Suc j = length ls - n" using j(1) by linarith
  show ?thesis using j(3) by (simp only: drop_drop e)
qed

lemma length_unlines_same: "list_all (\<lambda>l. length l = c) ls \<Longrightarrow> length (unlines ls) = Suc c * length ls"
  by (induction ls) auto


text \<open>The window of 1000 bytes per line is too small when the lines are 1000 bytes: it then begins at the start of a line, which
  is dropped as if it were cut, and one line less than asked for (and than the file has) is shown.\<close>

theorem tail_loses_line:
  assumes "list_all clean_line ls" "list_all (\<lambda>l. length l = 999) ls" "n * 1000 < 2 ^ 64" "0 < n" "n < length ls"
  shows "read_tail_lines (unlines ls) n = drop (length ls - (n - 1)) ls"
proof -
  have l: "length (unlines ls) = 1000 * length ls" using length_unlines_same[OF assms(2)] by simp
  have "n * 1000 < length (unlines ls)" using assms(5) l by linarith
  from read_tail_window[OF assms(1,3) this assms(4)] obtain j k where j: "j < length ls" "k \<le> length (ls ! j)"
      "n * 1000 = length (ls ! j) - k + Suc (length (unlines (drop (Suc j) ls)))"
      "read_tail_lines (unlines ls) n = drop (length ls - Suc j - n) (drop (Suc j) ls)"
    by blast
  have "list_all (\<lambda>l. length l = 999) (drop (Suc j) ls)" using assms(2) by (auto simp: list_all_iff dest: in_set_dropD)
  then have "length (unlines (drop (Suc j) ls)) = 1000 * (length ls - Suc j)" using length_unlines_same by fastforce
  moreover have "length (ls ! j) = 999" using assms(2) j(1) by (simp add: list_all_length)
  ultimately have "n * 1000 = 999 - k + 1 + 1000 * (length ls - Suc j)" using j(3) by simp
  then have "n = length ls - j" using j(1) by linarith
  then have e: "length ls - Suc j - n + Suc j = length ls - (n - 1)" using j(1) by linarith
  show ?thesis using j(4) by (simp only: drop_drop e)
qed

lemma tail_loses_line_witness: "length (read_tail_lines (unlines (replicate 3 (replicate 999 (CHR ''x'')))) 2) = 1"
proof -
  have c: "list_all clean_line (replicate 3 (replicate 999 (CHR ''x'')))"
    by (auto simp: list_all_iff clean_line_def newline_def set_replicate_conv_if simp del: replicate_Suc)
  have "read_tail_lines (unlines (replicate 3 (replicate 999 (CHR ''x'')))) 2
      = drop (length (replicate 3 (replicate 999 (CHR ''x''))) - (2 - 1)) (replicate 3 (replicate 999 (CHR ''x'')))"
    by (rule tail_loses_line[OF c]) (simp_all add: list_all_iff)
  then show ?thesis by simp
qed
text \<open>The text of a line in the log, without its line feed.\<close>

definition log_text :: "('ts \<Rightarrow> string) \<Rightarrow> 'ts handler_log_line \<Rightarrow> string" where
  "log_text show_ts l = butlast (format_line show_ts l)"

definition loggable :: "('ts \<Rightarrow> string) \<Rightarrow> (string \<Rightarrow> 'ts option) \<Rightarrow> 'ts handler_log_line \<Rightarrow> bool" where
  "loggable show_ts parse_ts l =
     (parse_ts (show_ts (hl_timestamp l)) = Some (hl_timestamp l) \<and> CHR '' '' \<notin> set (show_ts (hl_timestamp l)) \<and>
      newline \<notin> set (show_ts (hl_timestamp l)) \<and> hl_worker_id l < 2 ^ 64 \<and> clean_line (hl_line l))"

lemma log_text_simps:
  "log_text show_ts l = show_ts (hl_timestamp l) @ '' [handler#'' @ nat_str (hl_worker_id l) @ '' '' @ stream_str (hl_stream l) @ ''] '' @ hl_line l"
  by (simp add: log_text_def format_line_def butlast_append)

lemma format_is_text: "format_line show_ts l = log_text show_ts l @ [newline]"
  by (simp add: log_text_simps format_line_def)

lemma trim_no_newline: "newline \<notin> set c \<Longrightarrow> trim_end_newline c = c"
  by (cases c rule: rev_cases) (auto simp: trim_end_newline_def trim_end_while_def)

lemma log_text_parsed: "loggable show_ts parse_ts l \<Longrightarrow> parse_line parse_ts (log_text show_ts l) = Some l"
proof -
  assume l: "loggable show_ts parse_ts l"
  have "parse_line parse_ts (log_text show_ts l) = Some \<lparr> hl_timestamp = hl_timestamp l, hl_worker_id = hl_worker_id l,
      hl_stream = hl_stream l, hl_line = trim_end_newline (hl_line l) \<rparr>"
    unfolding log_text_simps by (rule parse_log_text) (use l in \<open>auto simp: loggable_def\<close>)
  then show ?thesis using l by (simp add: loggable_def clean_line_def trim_no_newline)
qed

lemma log_text_clean: "loggable show_ts parse_ts l \<Longrightarrow> clean_line (log_text show_ts l)"
  using not_digit_fresh[of newline "hl_worker_id l"]
  by (cases "hl_stream l") (auto simp: loggable_def log_text_simps clean_line_def is_digit_def newline_def)

lemma map_filter_all: "(\<And>x. x \<in> set xs \<Longrightarrow> f (g x) = Some x) \<Longrightarrow> List.map_filter f (map g xs) = xs"
  by (induction xs) (auto simp: map_filter_simps)

text \<open>C32: What the log writer wrote, the log view shows: if the file holds the lines of the attempt as the writer formats them, each
  under 1000 bytes, the tail of \<open>n\<close> lines is exactly the last \<open>n\<close> of them, oldest first, and all of them when there are
  fewer. The attempt's directory is inside of the workspace, with links followed.\<close>

theorem log_tail_shows_last:
  assumes "is_valid_id_component e" "is_valid_id_component r"
    and "read_to_string fs (handler_log_path (path_join (path_join (path_join (path_join ws ''executions'') e) ''attempts'') r))
      = Inr (concat (map (format_line show_ts) ls))"
    and "canonicalize fs ws = Some w"
    and "canonicalize fs (path_join (path_join (path_join (path_join ws ''executions'') e) ''attempts'') r) = Some d" "prefix w d"
    and "list_all (loggable show_ts parse_ts) ls" "list_all (\<lambda>l. length (format_line show_ts l) < 1000) ls" "n * 1000 < 2 ^ 64"
  shows "handler_log_tail parse_ts ws fs e r n = Inr (drop (length ls - n) ls)"
proof -
  let ?p = "handler_log_path (path_join (path_join (path_join (path_join ws ''executions'') e) ''attempts'') r)"
  let ?ts = "map (log_text show_ts) ls"
  have u: "concat (map (format_line show_ts) ls) = unlines ?ts" by (simp add: unlines_def format_is_text comp_def cong: map_cong)
  have ex: "path_exists fs ?p" using assms(3) by (auto simp: path_exists_def read_to_string_def split: option.splits)
  have "list_all clean_line ?ts" using assms(7) log_text_clean by (auto simp: list_all_iff)
  moreover have "list_all (\<lambda>l. length l < 999) ?ts" using assms(8) by (auto simp: list_all_iff format_is_text)
  ultimately have t: "read_tail_lines (unlines ?ts) n = map (log_text show_ts) (drop (length ls - n) ls)"
    using tail_is_last_lines[of ?ts n] assms(9) by (simp add: drop_map)
  have "List.map_filter (parse_line parse_ts) (map (log_text show_ts) (drop (length ls - n) ls)) = drop (length ls - n) ls"
    by (rule map_filter_all) (use assms(7) in \<open>auto simp: list_all_iff intro!: log_text_parsed dest!: in_set_dropD\<close>)
  then show ?thesis using assms(1-6) ex t u by (simp add: handler_log_tail_def Let_def)
qed

definition demo_log :: "nat handler_log_line list" where
  "demo_log = [\<lparr> hl_timestamp = 5, hl_worker_id = 3, hl_stream = Stderr, hl_line = ''a'' \<rparr>,
     \<lparr> hl_timestamp = 6, hl_worker_id = 3, hl_stream = Stdout, hl_line = ''b'' \<rparr>]"

definition demo_log_fs :: "string \<Rightarrow> fs" where
  "demo_log_fs content =
     [([''w''], Dir), ([''w'', ''executions''], Dir), ([''w'', ''executions'', ''e''], Dir), ([''w'', ''executions'', ''e'', ''attempts''], Dir),
      ([''w'', ''executions'', ''e'', ''attempts'', ''r''], Dir),
      ([''w'', ''executions'', ''e'', ''attempts'', ''r'', ''handler_log.log''], File content)]"

lemma demo_log_read:
  "read_to_string (demo_log_fs c) (handler_log_path (path_join (path_join (path_join (path_join ''/w'' ''executions'') ''e'') ''attempts'') ''r'')) = Inr c"
  "canonicalize (demo_log_fs c) ''/w'' = Some [''w'']"
  "canonicalize (demo_log_fs c) (path_join (path_join (path_join (path_join ''/w'' ''executions'') ''e'') ''attempts'') ''r'') =
    Some [''w'', ''executions'', ''e'', ''attempts'', ''r'']"
  by code_simp+

lemma log_tail_shows_last_witness:
  "handler_log_tail parse_u64 ''/w'' (demo_log_fs (concat (map (format_line nat_str) demo_log))) ''e'' ''r'' 1
   = Inr [\<lparr> hl_timestamp = 6, hl_worker_id = 3, hl_stream = Stdout, hl_line = ''b'' \<rparr>]"
proof -
  have l: "list_all (loggable nat_str parse_u64) demo_log"
    using not_digit_fresh by (auto simp: demo_log_def loggable_def clean_line_def newline_def is_digit_def text_simps)
  have s: "list_all (\<lambda>l. length (format_line nat_str l) < 1000) demo_log"
    by (simp add: demo_log_def format_line_def nat_str.simps)
  have i: "is_valid_id_component ''e''" "is_valid_id_component ''r''" by code_simp+
  have "handler_log_tail parse_u64 ''/w'' (demo_log_fs (concat (map (format_line nat_str) demo_log))) ''e'' ''r'' 1
    = Inr (drop (length demo_log - 1) demo_log)"
    by (rule log_tail_shows_last[OF i demo_log_read(1) demo_log_read(2) demo_log_read(3) _ l s]) simp_all
  then show ?thesis by (simp add: demo_log_def)
qed
section \<open>The list and its cache\<close>

fun list_calls ::
    "list_call list \<Rightarrow> (unit, exec_summary list) cache \<Rightarrow> (ui_error + exec_summary list) list" where
  "list_calls [] c = []"
| "list_calls (call # calls) c = (let (r, c') = list_execs call c in r # list_calls calls c')"

text \<open>\<open>shown done r call\<close>: the answer \<open>r\<close> of \<open>call\<close> is its own, or that of one of the earlier calls \<open>done\<close>, stored at most 30 seconds
  before, with the registry file unchanged in between as far as its modification time tells.\<close>

definition shown :: "list_call list \<Rightarrow> list_call \<Rightarrow> ui_error + exec_summary list \<Rightarrow> bool" where
  "shown done call r = (r = lc_fresh call \<or>
     list_ex (\<lambda>d. lc_fresh d = r \<and> \<not> isl r \<and> lc_now call - lc_put_now d \<le> DEFAULT_TTL \<and> lc_mtime call \<noteq> None \<and>
       lc_mtime call = lc_put_mtime d) done)"

fun all_shown :: "list_call list \<Rightarrow> list_call list \<Rightarrow> (ui_error + exec_summary list) list \<Rightarrow> bool" where
  "all_shown done [] rs = (rs = [])"
| "all_shown done (call # calls) rs =
     (case rs of [] \<Rightarrow> False | r # rs' \<Rightarrow> shown done call r \<and> all_shown (done @ [call]) calls rs')"

definition entry_of :: "list_call list \<Rightarrow> (unit, exec_summary list) cache \<Rightarrow> bool" where
  "entry_of done c = (case c () of None \<Rightarrow> True | Some e \<Rightarrow>
     list_ex (\<lambda>d. lc_fresh d = Inr (ce_value e) \<and> lc_put_now d = ce_fetched_at e \<and> lc_put_mtime d = Some (ce_source_mtime e)) done)"

lemma list_execs_step:
  "entry_of done c \<Longrightarrow> list_execs call c = (r, c') \<Longrightarrow> shown done call r \<and> entry_of (done @ [call]) c'"
  by (auto simp: list_execs_def get_if_fresh_def entry_of_def shown_def cache_put_def list_ex_iff bind_eq_Some_conv bind_eq_None_conv
      split: option.splits sum.splits if_splits)

lemma list_calls_shown: "entry_of done c \<Longrightarrow> all_shown done calls (list_calls calls c)"
proof (induction calls arbitrary: "done" c)
  case (Cons call calls)
  obtain r c' where e: "list_execs call c = (r, c')" by force
  then show ?case using list_execs_step[OF Cons.prems e] Cons.IH by simp
qed simp

text \<open>C33: The cache of the list is never more than 30 seconds behind: whatever calls are made, and however the registry changes in
  between, each answer is the list as it is, or one an earlier call computed and stored at most 30 seconds before, and then
  the modification time of the database file has not changed since. Errors are never cached.\<close>

theorem list_staleness_bounded: "all_shown [] calls (list_calls calls Map.empty)"
  by (rule list_calls_shown) (simp add: entry_of_def)

lemma fresh_list_ids:
  assumes "fresh_list js read ws fs st = Inr ss"
  shows "es_id ` set ss \<subseteq> xr_id ` set (st_execs st)"
proof -
  obtain xs us where xs: "list_executions st = Inr xs"
    and us: "fold_result (\<lambda>x ss. case from_execution js read st x of Inl e \<Rightarrow> Inl e | Inr s \<Rightarrow> Inr (ss @ [s])) xs [] = Inr us"
    and ss: "es_id ` set ss = es_id ` set us"
    using assms by (auto simp: fresh_list_def image_image split: sum.splits)
  obtain zs where "us = zs" "list_all2 (\<lambda>x u. from_execution js read st x = Inr u) xs zs" using fold_collect[OF us] by auto
  then have "list_all2 (\<lambda>x u. from_execution js read st x = Inr u) xs us" by simp
  then have "es_id ` set us = ex_id ` set xs"
    by (induction xs us rule: list_all2_induct) (auto simp: from_execution_def split: sum.splits)
  moreover have "ex_id x \<in> xr_id ` set (st_execs st)" if x: "x \<in> set xs" for x
    using list_all2_right[OF list_executions_rows[OF xs] x] row_to_execution_fields by fastforce
  ultimately show ?thesis using ss by auto
qed

text \<open>That check is not enough: the database is in WAL mode, where a deletion need not touch the file. If it does not,
  an execution deleted less than 30 seconds after the list was computed is still listed, although the list computed anew would not have it.\<close>

theorem deleted_execution_still_listed:
  assumes "execution_delete ws i sk = (Inr (), sk')" "lc_fresh a = fresh_list js read ws fs (sd_store (sk_studio sk))"
    and "lc_fresh b = fresh_list js read' ws fs' (sd_store (sk_studio sk'))" "lc_fresh a = Inr ss" "i \<in> es_id ` set ss"
    and "lc_put_mtime a = Some t" "lc_mtime b = Some t" "lc_now b - lc_put_now a \<le> DEFAULT_TTL"
  shows "list_calls [a, b] Map.empty = [Inr ss, Inr ss] \<and>
    (case lc_fresh b of Inl _ \<Rightarrow> True | Inr ss' \<Rightarrow> i \<notin> es_id ` set ss')"
proof -
  have gone: "i \<notin> xr_id ` set (st_execs (sd_store (sk_studio sk')))"
    using assms(1) by (auto simp: execution_delete_def delete_execution_def Let_def split: if_splits)
  have "i \<notin> es_id ` set ss'" if "lc_fresh b = Inr ss'" for ss'
    using fresh_list_ids[of js read' ws fs' "sd_store (sk_studio sk')" ss'] gone that assms(3) by auto
  moreover have "list_calls [a, b] Map.empty = [Inr ss, Inr ss]"
    using assms(4,6-8) by (simp add: list_execs_def get_if_fresh_def cache_put_def)
  ultimately show ?thesis by (simp split: sum.split)
qed

lemma deleted_execution_still_listed_witness:
  "\<exists>ss. list_calls
     [\<lparr> lc_now = 0, lc_mtime = Some 1, lc_put_now = 0, lc_put_mtime = Some 1,
        lc_fresh = fresh_list (\<lambda>_. None) (\<lambda>_. None) ''/w'' [] demo_store \<rparr>,
      \<lparr> lc_now = 1, lc_mtime = Some 1, lc_put_now = 1, lc_put_mtime = Some 1,
        lc_fresh = fresh_list (\<lambda>_. None) (\<lambda>_. None) ''/w'' [] (snd (delete_execution ''e_1'' demo_store)) \<rparr>] Map.empty = [Inr ss, Inr ss] \<and>
     ''e_1'' \<in> es_id ` set ss"
proof -
  let ?sk = "\<lparr> sk_studio = \<lparr> sd_store = demo_store, sd_sessions = registry_new 3 1, sd_capture_raw = False \<rparr>, sk_disk = (None, []) \<rparr>"
  have d: "deletable ?sk ''e_1''" unfolding deletable_def by code_simp
  obtain sk' where e: "execution_delete ''/w'' ''e_1'' ?sk = (Inr (), sk')"
    and st: "sd_store (sk_studio sk') = snd (delete_execution ''e_1'' demo_store)" using delete_step[OF d, of "''/w''"] by auto
  have f: "case fresh_list (\<lambda>_. None) (\<lambda>_. None) ''/w'' [] demo_store of Inl _ \<Rightarrow> False | Inr ss \<Rightarrow> list_ex (\<lambda>s. es_id s = ''e_1'') ss" by code_simp
  then obtain ss where ss: "fresh_list (\<lambda>_. None) (\<lambda>_. None) ''/w'' [] demo_store = Inr ss" "''e_1'' \<in> es_id ` set ss"
    by (auto simp: list_ex_iff image_iff eq_commute[of "''e_1''"] split: sum.splits)
  have "list_calls
     [\<lparr> lc_now = 0, lc_mtime = Some 1, lc_put_now = 0, lc_put_mtime = Some 1,
        lc_fresh = fresh_list (\<lambda>_. None) (\<lambda>_. None) ''/w'' [] (sd_store (sk_studio ?sk)) \<rparr>,
      \<lparr> lc_now = 1, lc_mtime = Some 1, lc_put_now = 1, lc_put_mtime = Some 1,
        lc_fresh = fresh_list (\<lambda>_. None) (\<lambda>_. None) ''/w'' [] (sd_store (sk_studio sk')) \<rparr>] Map.empty = [Inr ss, Inr ss]"
    by (rule deleted_execution_still_listed[where t = 1 and js = "\<lambda>_. None" and read = "\<lambda>_. None" and read' = "\<lambda>_. None" and fs = "[]"
        and fs' = "[]", THEN conjunct1, OF e]) (simp_all add: ss DEFAULT_TTL_def)
  then show ?thesis using st ss(2) by auto
qed
section \<open>The counts shown are those of the run\<close>

text \<open>\<^verbatim>\<open>RunMeta\<close> as serde writes it; the two times are given as text.\<close>

definition stats_json :: "stats \<Rightarrow> json" where
  "stats_json s = JObject (bt_from_list
     [(''success'', junum (sa_success s)), (''failed'', junum (sa_failed s)),
      (''by_error_code'', JObject (map (\<lambda>(k, n). (k, junum n)) (sa_by_error_code s))),
      (''avg_dur_ms'', junum (sa_avg_dur_ms s))])"

definition opt_string :: "string option \<Rightarrow> json" where
  "opt_string v = (case v of None \<Rightarrow> JNull | Some s \<Rightarrow> JString s)"

definition run_meta_json :: "string \<Rightarrow> string \<Rightarrow> run_meta \<Rightarrow> json" where
  "run_meta_json started ended m =
     (case rn_handler m of (name, version, hsh) \<Rightarrow>
      JObject (bt_from_list
       [(''run_id'', JString (rn_run_id m)), (''parent_run_id'', opt_string (rn_parent_run_id m)),
        (''started_at'', JString started), (''ended_at'', JString ended),
        (''input_path'', JString (rn_input_path m)), (''input_row_count'', junum (rn_input_row_count m)),
        (''handler'', JObject (bt_from_list
          [(''name'', JString name), (''version'', JString version), (''manifest_hash'', JString hsh)])),
        (''config'', JObject (rn_config m)), (''stats'', stats_json (rn_stats m)), (''dry_run'', JBool (rn_dry_run m))]))"

lemma meta_fields:
  "jget (run_meta_json t u m) ''stats'' = Some (stats_json (rn_stats m))"
  "jget (run_meta_json t u m) ''by_error_code'' = None"
  by (cases "rn_handler m"; simp add: run_meta_json_def jget_def bt_lookup_from_list)+

lemma stats_fields:
  "get_u64 (stats_json s) ''success'' = Some (sa_success s)" "get_u64 (stats_json s) ''failed'' = Some (sa_failed s)"
  "get_u64 (stats_json s) ''crashed'' = None"
  by (simp_all add: stats_json_def get_u64_def jget_def bt_lookup_from_list junum_def)

lemma read_metas:
  assumes "read_json js read p = Some (run_meta_json t u m)"
  shows "read_meta_counts js read p = None"
    "read_meta_full js read p = Some (\<lparr> ac_success = sa_success (rn_stats m), ac_failed = sa_failed (rn_stats m), ac_crashed = 0 \<rparr>, [])"
  by (simp_all add: read_meta_counts_def read_meta_full_def assms meta_fields stats_fields or_zero_def Let_def)

lemma show_attempt_some:
  assumes "show_attempt js read st e r = Inr d"
  obtains x as a where "get_execution st e = Inr (Some x)" "list_attempts_for_execution st e = Inr as"
    "List.find (\<lambda>a. at_id a = r) as = Some a" "ad_meta_json d = path_join (attempt_home x (at_id a)) ''meta.json''"
    "(ad_stats d, ad_by_error_code d) = (case read_meta_full js read (ad_meta_json d) of
       None \<Rightarrow> (\<lparr> ac_success = 0, ac_failed = 0, ac_crashed = 0 \<rparr>, []) | Some v \<Rightarrow> v)"
    "ad_is_terminal d = (at_state a \<noteq> Running)" "ad_run_type d = run_type_text a"
proof -
  obtain x where x: "get_execution st e = Inr (Some x)"
    using assms by (auto simp: show_attempt_def found_execution_def split: sum.splits option.splits)
  obtain as where as: "list_attempts_for_execution st e = Inr as"
    using assms x by (auto simp: show_attempt_def found_execution_def split: sum.splits)
  obtain a where a: "List.find (\<lambda>a. at_id a = r) as = Some a"
    using assms x as by (auto simp: show_attempt_def found_execution_def split: option.splits)
  have "attempt_state_str (at_state a) \<in> {''done'', ''completed'', ''aborted'', ''crashed''} \<longleftrightarrow> at_state a \<noteq> Running"
    by (cases "at_state a") simp_all
  then show thesis using that[OF x as a] assms x as a
    by (cases "read_meta_full js read (path_join (attempt_home x (at_id a)) ''meta.json'')")
      (auto simp: show_attempt_def found_execution_def Let_def)
qed

text \<open>The counts of a finished run, as the Studio shows them. If the attempt's \<^verbatim>\<open>meta.json\<close> holds what the run wrote, its page shows
  the run's own success and failure counts, but never a crash and never an error code, because \<^verbatim>\<open>stats\<close> has no field for the
  former and keeps the latter inside of itself; and the list and the page of the execution show no counts at all when that attempt is the last.\<close>

theorem meta_counts_shown:
  assumes "show_attempt js read st e r = Inr d" "read_json js read (ad_meta_json d) = Some (run_meta_json t u m)"
    and "list_attempts_for_execution st e = Inr (as @ [a])" "at_id a = r" "list_all (\<lambda>b. at_id b \<noteq> r) as"
    and "get_execution st e = Inr (Some x)" "from_execution js read st x = Inr s"
  shows "ad_stats d = \<lparr> ac_success = sa_success (rn_stats m), ac_failed = sa_failed (rn_stats m), ac_crashed = 0 \<rparr> \<and>
    ad_by_error_code d = [] \<and> es_last_attempt_counts s = None \<and> es_attempts_count s = u64_as_u32 (length (as @ [a]))"
proof -
  obtain x' as' a' where d: "get_execution st e = Inr (Some x')" "list_attempts_for_execution st e = Inr as'"
    "List.find (\<lambda>a. at_id a = r) as' = Some a'" "ad_meta_json d = path_join (attempt_home x' (at_id a')) ''meta.json''"
    "(ad_stats d, ad_by_error_code d) = (case read_meta_full js read (ad_meta_json d) of
       None \<Rightarrow> (\<lparr> ac_success = 0, ac_failed = 0, ac_crashed = 0 \<rparr>, []) | Some v \<Rightarrow> v)"
    by (rule show_attempt_some[OF assms(1)])
  have "at_id a' = r" using find_in[OF d(3)] by simp
  then have p: "ad_meta_json d = path_join (attempt_home x (at_id a)) ''meta.json''" using d(1,4) assms(4,6) by simp
  have "ex_id x = e" using get_execution_id[OF assms(6)] by simp
  then show ?thesis
    using assms(3,7) d(5) p read_metas[OF assms(2)] by (auto simp: from_execution_def last_of_def)
qed

definition demo_meta :: run_meta where
  "demo_meta = \<lparr> rn_run_id = ''r_1'', rn_parent_run_id = None, rn_input_path = ''i'', rn_input_row_count = 3, rn_handler = (''h'', ''1'', ''s''),
     rn_config = [], rn_stats = \<lparr> sa_success = 2, sa_failed = 1, sa_by_error_code = [(''E'', 1)], sa_avg_dur_ms = 0 \<rparr>, rn_dry_run = False \<rparr>"

lemma meta_counts_shown_witness:
  "\<exists>d. show_attempt (\<lambda>_. Some (run_meta_json ''t'' ''u'' demo_meta)) (\<lambda>_. Some []) demo_store ''e_1'' ''r_1'' = Inr d \<and>
     ad_stats d = \<lparr> ac_success = 2, ac_failed = 1, ac_crashed = 0 \<rparr> \<and> ad_by_error_code d = []"
proof -
  let ?js = "\<lambda>_. Some (run_meta_json ''t'' ''u'' demo_meta)" and ?rd = "\<lambda>_. Some []"
  have "case list_attempts_for_execution demo_store ''e_1'' of Inr [a] \<Rightarrow> at_id a = ''r_1'' | _ \<Rightarrow> False" by code_simp
  then obtain a where a: "list_attempts_for_execution demo_store ''e_1'' = Inr ([] @ [a])" "at_id a = ''r_1''"
    by (auto split: sum.splits list.splits)
  have "map_sum id (map_option ex_id) (get_execution demo_store ''e_1'') = Inr (Some ''e_1'')" by code_simp
  then obtain x where x: "get_execution demo_store ''e_1'' = Inr (Some x)" "ex_id x = ''e_1''"
    by (cases "get_execution demo_store ''e_1''") auto
  obtain s where s: "from_execution ?js ?rd demo_store x = Inr s" using a(1) x(2) by (simp add: from_execution_def)
  obtain d where d: "show_attempt ?js ?rd demo_store ''e_1'' ''r_1'' = Inr d"
    using a x by (cases "read_meta_full ?js ?rd (path_join (attempt_home x ''r_1'') ''meta.json'')")
      (auto simp: show_attempt_def found_execution_def Let_def)
  have "read_json ?js ?rd (ad_meta_json d) = Some (run_meta_json ''t'' ''u'' demo_meta)" by (simp add: read_json_def)
  then show ?thesis using meta_counts_shown[OF d _ a(1) a(2) _ x(1) s] d by (simp add: demo_meta_def)
qed

section \<open>Exports that are refused\<close>

text \<open>A strict export of an execution that is not fully processed is refused with the exact number of rows never attempted, which
  is carried through the core as text and parsed back; nothing is written. It is zero when only an aborted attempt stands in the way.\<close>

theorem studio_export_incomplete:
  assumes "get_execution st e = Inr (Some x)" "compute_resolution ser parse files st (ex_id x) = Inr r"
    and "collect_aborted_attempts st (ex_id x) = Inr aborted" "length aborted < 2 ^ 32"
    and "eo_require_complete opts" "rc_never_attempted (rr_counts r) > 0 \<or> aborted \<noteq> []" "rc_never_attempted (rr_counts r) < 2 ^ 64"
  shows "studio_export ser parse files io now st e opts = (Inl (Export_Incomplete (rc_never_attempted (rr_counts r))), [])"
  using strict_export_fails[OF assms(1-6)] parse_nat_str[OF assms(7)]
  by (simp add: studio_export_def export_error_def strip_prefix_def starts_with_def or_zero_def)

lemma studio_export_incomplete_witness:
  "studio_export (\<lambda>_. []) demo_parse (\<lambda>_. None) (\<lambda>_. None) [] demo_store ''e_1'' (demo_opts\<lparr> eo_require_complete := True \<rparr>)
     = (Inl (Export_Incomplete 1), [])"
proof -
  have v: "map_sum id (\<lambda>r. rc_never_attempted (rr_counts r)) (compute_resolution (\<lambda>_. []) demo_parse (\<lambda>_. None) demo_store ''e_1'')
      = Inr 1" by code_simp
  then obtain r where r: "compute_resolution (\<lambda>_. []) demo_parse (\<lambda>_. None) demo_store ''e_1'' = Inr r" "rc_never_attempted (rr_counts r) = 1"
    by (cases "compute_resolution (\<lambda>_. []) demo_parse (\<lambda>_. None) demo_store ''e_1''") auto
  have a: "collect_aborted_attempts demo_store ''e_1'' = Inr []" by code_simp
  have "map_sum id (map_option ex_id) (get_execution demo_store ''e_1'') = Inr (Some ''e_1'')" by code_simp
  then obtain x where x: "get_execution demo_store ''e_1'' = Inr (Some x)" "ex_id x = ''e_1''"
    by (cases "get_execution demo_store ''e_1''") auto
  show ?thesis using studio_export_incomplete[OF x(1), of "\<lambda>_. []" demo_parse "\<lambda>_. None" r "[]"] r a x(2) by simp
qed

section \<open>The pages of an execution and of its attempts agree\<close>

lemma attempt_ids_distinct:
  assumes "store_ok st" "list_attempts_for_execution st e = Inr as"
  shows "distinct (map at_id as)"
proof -
  obtain rows where rows: "list_all2 (\<lambda>r a. row_to_attempt st r = Inr a) rows as" "distinct (map ar_id rows)"
  proof (rule that[OF list_attempts_rows[OF assms(2)]])
    show "distinct (map ar_id (sort_key ar_started_at (filter (\<lambda>r. ar_execution_id r = e) (st_attempts st))))"
      using assms(1) by (simp add: store_ok_def tables_ok_def distinct_map inj_on_def)
  qed
  have "map at_id as = map ar_id rows"
    using rows(1) by (induction rows as rule: list_all2_induct) (auto dest: row_to_attempt_fields)
  then show ?thesis using rows(2) by simp
qed

lemma summary_id [simp]: "au_id (attempt_summary_of a) = at_id a"
  by (simp add: attempt_summary_of_def)

definition same_attempt :: "attempt_summary \<Rightarrow> attempt_detail \<Rightarrow> bool" where
  "same_attempt u d = (ad_id d = au_id u \<and> ad_state d = au_state u \<and> ad_run_type d = au_run_type u \<and>
     ad_started_at d = au_started_at u \<and> ad_finished_at d = au_finished_at u \<and> ad_cancelled_reason d = au_cancelled_reason u)"

text \<open>The pages agree: every attempt on the page of an execution opens, and its own page shows the same state, run type, times
  and reason, whatever is on disk; the page of the execution and its line in the list come from the same summary, and that counts the attempts shown.\<close>

theorem attempts_open:
  assumes "store_ok st" "show_exec js read st e = Inr d"
  shows "list_all (\<lambda>u. case show_attempt js read' st e (au_id u) of Inl _ \<Rightarrow> False | Inr ad \<Rightarrow> same_attempt u ad) (ed_attempts d) \<and>
    (case get_execution st e of Inr (Some x) \<Rightarrow> from_execution js read st x = Inr (ed_summary d) | _ \<Rightarrow> False) \<and>
    es_attempts_count (ed_summary d) = u64_as_u32 (length (ed_attempts d))"
proof -
  obtain x where x: "get_execution st e = Inr (Some x)"
    using assms(2) by (auto simp: show_exec_def found_execution_def split: sum.splits option.splits)
  obtain as s where as: "list_attempts_for_execution st e = Inr as" "from_execution js read st x = Inr s"
    and d: "ed_attempts d = map attempt_summary_of as" "ed_summary d = s"
    using assms(2) x by (auto simp: show_exec_def found_execution_def split: sum.splits)
  have "case show_attempt js read' st e (at_id a) of Inl _ \<Rightarrow> False | Inr ad \<Rightarrow> same_attempt (attempt_summary_of a) ad" if "a \<in> set as" for a
    using find_distinct[OF attempt_ids_distinct[OF assms(1) as(1)] that] x as(1)
    by (simp add: show_attempt_def found_execution_def Let_def same_attempt_def attempt_summary_of_def split: option.split prod.split)
  moreover have "es_attempts_count s = u64_as_u32 (length as)"
    using as get_execution_id[OF x] by (auto simp: from_execution_def)
  ultimately show ?thesis using x as(2) by (simp add: d list_all_iff)
qed

lemma attempts_open_witness:
  "\<exists>d. show_exec (\<lambda>_. None) (\<lambda>_. None) demo_store ''e_1'' = Inr d \<and>
     list_all (\<lambda>u. case show_attempt (\<lambda>_. None) (\<lambda>_. None) demo_store ''e_1'' (au_id u) of Inl _ \<Rightarrow> False | Inr ad \<Rightarrow> same_attempt u ad) (ed_attempts d)"
proof -
  have "\<not> isl (show_exec (\<lambda>_. None) (\<lambda>_. None) demo_store ''e_1'')" by code_simp
  then obtain d where d: "show_exec (\<lambda>_. None) (\<lambda>_. None) demo_store ''e_1'' = Inr d"
    by (cases "show_exec (\<lambda>_. None) (\<lambda>_. None) demo_store ''e_1''") auto
  then show ?thesis using attempts_open[OF demo_store_ok d] by blast
qed

text \<open>The run type shown is never a word like \<^verbatim>\<open>full\<close>: it is the debug text of the struct.\<close>

lemma run_type_is_debug_text: "take 7 (run_type_text a) = ''runtype''" "run_type_text a \<noteq> ''full''"
proof -
  have "take 7 (map Execution_Store.ascii_lower (''RunType'' @ rest)) = ''runtype''" for rest
    by (simp add: Execution_Store.ascii_lower_def) code_simp
  from this[of "'' { source: '' @ source_debug (at_source a) @ '', simulation: '' @ simulation_debug (at_simulation a) @ '' }''"]
  show "take 7 (run_type_text a) = ''runtype''" by (simp add: run_type_text_def run_type_json_def)
  then show "run_type_text a \<noteq> ''full''" by auto
qed

end
