(* ===== verification/Cli_Manage.thy ===== *)
theory Cli_Manage
  imports Studio_Views
begin

text \<open>
  The two commands that manage a workspace from the command line through the Studio's own operations:
  \<^verbatim>\<open>exec delete\<close> (\<^verbatim>\<open>exec_delete_cmd.rs\<close>) and \<^verbatim>\<open>handler build\<close> (\<^verbatim>\<open>handler_build_cmd.rs\<close>). What they print is not modelled.
\<close>

section \<open>Deleting executions\<close>

text \<open>Opening the workspace scans for orphans first; a result of \<open>Inl\<close> is an error of the command.\<close>

definition delete_targets ::
    "(string \<Rightarrow> json option) \<Rightarrow> (path \<Rightarrow> string option) \<Rightarrow> path \<Rightarrow> studio_disk \<Rightarrow> string option \<Rightarrow> bool \<Rightarrow> string + string list" where
  "delete_targets js read ws sk exec_id all_completed =
     (if all_completed then
        (case fresh_list js read ws (snd (sk_disk sk)) (sd_store (sk_studio sk)) of
           Inl e \<Rightarrow> Inl (''exec list failed: '' @ ui_error_text e)
         | Inr ss \<Rightarrow> Inr (map es_id ss))
      else (case exec_id of None \<Rightarrow> Inl ''provide an exec_id or --all-completed'' | Some i \<Rightarrow> Inr [i]))"

definition exec_delete_run ::
    "(string \<Rightarrow> json option) \<Rightarrow> (path \<Rightarrow> string option) \<Rightarrow> scan_env \<Rightarrow> (path \<Rightarrow> core_error + store) \<Rightarrow> fuse \<times> fs \<Rightarrow> path
      \<Rightarrow> string option \<Rightarrow> bool \<Rightarrow> (string + nat) \<times> studio_disk option" where
  "exec_delete_run js read env open_store disk ws exec_id all_completed =
     (case open_studio None open_store env (default_opts\<lparr> op_workspace := Some ws \<rparr>) of
        Inl e \<Rightarrow> (Inl (''open studio core: '' @ ui_error_text e), None)
      | Inr core \<Rightarrow>
          (let sk = \<lparr> sk_studio = sc_studio core, sk_disk = disk \<rparr> in
           case delete_targets js read ws sk exec_id all_completed of
             Inl e \<Rightarrow> (Inl e, Some sk)
           | Inr targets \<Rightarrow>
               if targets = [] then (Inr 0, Some sk)
               else (case execution_delete_bulk ws targets sk of
                   ((deleted, failed), sk') \<Rightarrow> (Inr (min (length failed) 125), Some sk'))))"

section \<open>Building handlers\<close>

text \<open>Each directory is visited once: what it holds at that moment is given by its path.\<close>

record build_env =
  bv_yaml :: "string \<Rightarrow> string + manifest"
  bv_on_path :: "string \<Rightarrow> bool"
  bv_mtime :: "path \<Rightarrow> nat option"
  bv_entries :: "path \<Rightarrow> dir_entry list option"
  bv_exec :: "path \<Rightarrow> string list \<Rightarrow> string + (int option \<times> string \<times> string)"

datatype build_report =
    Skipped_Invalid string | Skipped_No_Build | Up_To_Date | Built | Not_Built int | No_Tool string | Build_Error string

definition build_one :: "build_env \<Rightarrow> fs \<Rightarrow> bool \<Rightarrow> path \<Rightarrow> build_report option" where
  "build_one env fs force dir =
     (case load_from_dir (read_to_string fs) (bv_yaml env) dir of
        Inl e \<Rightarrow> Some (Skipped_Invalid e)
      | Inr (m, _) \<Rightarrow>
          if en_build (mf_entry m) = None then Some Skipped_No_Build
          else if \<not> force \<and> \<not> needs_build (bv_on_path env) (bv_mtime env) (bv_entries env dir) dir m then Some Up_To_Date
          else (case run_build (bv_on_path env) (bv_exec env dir) m of
              None \<Rightarrow> None
            | Some (Inr _) \<Rightarrow> Some Built
            | Some (Inl (Build_Failed code _ _)) \<Rightarrow> Some (Not_Built code)
            | Some (Inl (Toolchain_Missing tool)) \<Rightarrow> Some (No_Tool tool)
            | Some (Inl No_Build_Command) \<Rightarrow> Some Skipped_No_Build
            | Some (Inl (Build_Io e)) \<Rightarrow> Some (Build_Error e)))"

fun failed_report :: "build_report \<Rightarrow> bool" where
  "failed_report (Not_Built _) = True"
| "failed_report (No_Tool _) = True"
| "failed_report (Build_Error _) = True"
| "failed_report _ = False"

text \<open>\<open>None\<close> is a panic: the directories after it are not visited.\<close>

fun build_loop :: "build_env \<Rightarrow> fs \<Rightarrow> bool \<Rightarrow> path list \<Rightarrow> build_report list option" where
  "build_loop env fs force [] = Some []"
| "build_loop env fs force (d # ds) =
     Option.bind (build_one env fs force d) (\<lambda>r. map_option ((#) r) (build_loop env fs force ds))"

text \<open>\<open>Inl\<close>: an exit without visiting any directory. The listing takes real directories only, in the order of their paths.\<close>

definition build_targets :: "fs \<Rightarrow> path \<Rightarrow> string option \<Rightarrow> (string + nat) + path list" where
  "build_targets fs ws name =
     (let handlers = path_join ws ''handlers'' in
      if \<not> is_dir fs handlers then Inl (Inr 0)
      else (case name of
          Some n \<Rightarrow> (let d = path_join handlers n in if is_dir fs d then Inr [d] else Inl (Inr 1))
        | None \<Rightarrow>
            (case read_dir fs handlers of
               Inl e \<Rightarrow> Inl (Inl e)
             | Inr ns \<Rightarrow> Inr (sort (filter (\<lambda>p. symlink_metadata fs p = Some Dir) (map (path_join handlers) ns))))))"

definition handler_build_run :: "build_env \<Rightarrow> fs \<Rightarrow> path \<Rightarrow> string option \<Rightarrow> bool \<Rightarrow> (string + nat) option" where
  "handler_build_run env fs ws name force =
     (case build_targets fs ws name of
        Inl r \<Rightarrow> Some r
      | Inr ds \<Rightarrow>
          map_option (\<lambda>rs. Inr (min (length (filter failed_report rs)) 125)) (build_loop env fs force ds))"

section \<open>What a deletion of all executions leaves\<close>

lemma set_execution_state_ids: "map xr_id (st_execs (snd (set_execution_state i s re now f st))) = map xr_id (st_execs st)"
proof -
  obtain n st1 where u: "update_exec i (set_state_row s re now) st = (n, st1)" by force
  have ids: "map xr_id (st_execs st1) = map xr_id (st_execs st)"
    using u by (auto simp: update_exec_def Let_def)
  have "st_execs st2 = st_execs st1" if "write_manifest d x f st1 = (r, st2, h)" for d x r st2 h
    using write_manifest_tables(1)[of d x f st1] that by simp
  then show ?thesis using ids u
    by (auto simp: set_execution_state_def split: sum.split option.split prod.split)
qed

lemma finish_attempt_ids: "map xr_id (st_execs (snd (finish_attempt i fi now f st))) = map xr_id (st_execs st)"
proof -
  have "map xr_id (st_execs st2) = map xr_id (st_execs st)"
    if "set_execution_state e s re now f (st\<lparr> st_attempts := as \<rparr>) = (r, st2)" for e s re as r st2
    using set_execution_state_ids[of e s re now f "st\<lparr> st_attempts := as \<rparr>"] that by simp
  then show ?thesis by (auto simp: finish_attempt_def Let_def split: sum.split option.split prod.split)
qed

lemma scan_attempt_ids: "scan_attempt env x a acc = Inr acc' \<Longrightarrow> map xr_id (st_execs (snd acc')) = map xr_id (st_execs (snd acc))"
  using finish_attempt_ids[of "at_id a" orphan_finish "oc_stamp env" "oc_io env (at_id a)" "snd acc"]
  by (auto simp: scan_attempt_def split: prod.splits sum.splits if_splits)

lemma fold_result_keeps:
  "fold_result f xs acc = Inr acc' \<Longrightarrow> (\<And>x a a'. f x a = Inr a' \<Longrightarrow> g a' = g a) \<Longrightarrow> g acc' = g acc"
proof (induction xs arbitrary: acc)
  case (Cons x xs)
  then obtain b where "f x acc = Inr b" "fold_result f xs b = Inr acc'" by (auto split: sum.splits)
  then show ?case using Cons.IH Cons.prems(2) by metis
qed simp

lemma scan_ids: "scan_for_orphans env st = Inr (n, st') \<Longrightarrow> map xr_id (st_execs st') = map xr_id (st_execs st)"
proof -
  assume s: "scan_for_orphans env st = Inr (n, st')"
  have x: "map xr_id (st_execs (snd acc')) = map xr_id (st_execs (snd acc))" if e: "scan_execution env x acc = Inr acc'" for x acc acc'
  proof -
    obtain as where "fold_result (scan_attempt env x) as acc = Inr acc'"
      using e by (auto simp: scan_execution_def split: sum.splits)
    from fold_result_keeps[where g = "\<lambda>acc. map xr_id (st_execs (snd acc))", OF this scan_attempt_ids] show ?thesis .
  qed
  obtain xs where "fold_result (scan_execution env) xs (0, st) = Inr (n, st')"
    using s by (auto simp: scan_for_orphans_def split: sum.splits)
  from fold_result_keeps[where g = "\<lambda>acc. map xr_id (st_execs (snd acc))", OF this x] show ?thesis by simp
qed

lemma from_execution_total: "store_ok st \<Longrightarrow> \<exists>s. from_execution js read st x = Inr s \<and> es_id s = ex_id x"
  using list_attempts_total[of st "ex_id x"] by (auto simp: from_execution_def)

lemma fresh_list_total:
  assumes "store_ok st"
  shows "\<exists>ss. fresh_list js read ws fs st = Inr ss \<and> set (map es_id ss) = xr_id ` set (st_execs st) \<and> distinct (map es_id ss)"
proof -
  obtain xs where xs: "list_executions st = Inr xs" using list_executions_total[OF assms] by blast
  have rows: "list_all2 (\<lambda>r x. row_to_execution st r = Inr x) (rev (sort_key xr_created_at (st_execs st))) xs"
    by (rule list_executions_rows[OF xs])
  then have "map ex_id xs = map xr_id (rev (sort_key xr_created_at (st_execs st)))"
    by (induction rule: list_all2_induct) (auto dest: row_to_execution_fields)
  then have ids: "set (map ex_id xs) = xr_id ` set (st_execs st)" "distinct (map ex_id xs)"
    using assms by (simp_all add: rev_map[symmetric] store_ok_def tables_ok_def distinct_map inj_on_def)
  have t: "\<exists>s. from_execution js read st x = Inr s" for x using from_execution_total[OF assms] by blast
  obtain us where us: "fold_result (\<lambda>x ss. case from_execution js read st x of Inl e \<Rightarrow> Inl e | Inr s \<Rightarrow> Inr (ss @ [s])) xs [] = Inr us"
    using fold_collect_total[of xs "from_execution js read st" "[]"] t by blast
  obtain zs where "us = zs" "list_all2 (\<lambda>x u. from_execution js read st x = Inr u) xs zs" using fold_collect[OF us] by auto
  then have "list_all2 (\<lambda>x u. from_execution js read st x = Inr u) xs us" by simp
  then have "map es_id us = map ex_id xs"
    by (induction xs us rule: list_all2_induct) (auto simp: from_execution_def split: sum.splits)
  then have "map es_id (map (\<lambda>s. s\<lparr> es_size_bytes := dir_size_bytes fs (path_join (path_join ws ''executions'') (es_id s)) \<rparr>) us) = map ex_id xs"
    by (simp add: comp_def)
  then show ?thesis using ids by (simp only: fresh_list_def xs us sum.case) metis
qed

text \<open>Whether some attempt of the execution is still running once the orphans are marked.\<close>

definition still_running :: "scan_env \<Rightarrow> store \<Rightarrow> string \<Rightarrow> bool" where
  "still_running env st i =
     list_ex (\<lambda>r. ar_execution_id r = i \<and> \<not> is_terminal_text (ar_state r) \<and> \<not> orphan_row env st r) (st_attempts st)"

lemma scan_active:
  assumes "store_ok st" "scan_for_orphans env st = Inr (n, st')"
  shows "has_active_attempt st' i = still_running env st i"
  by (auto simp: has_active_iff scan_rows[OF assms] is_terminal_text_def still_running_def list_ex_iff)

lemma bulk_leaves:
  assumes ok: "store_ok (sd_store (sk_studio sk))" and d: "distinct is" and all: "set is = xr_id ` set (st_execs (sd_store (sk_studio sk)))"
    and b: "execution_delete_bulk ws is sk = ((del, fl), sk')"
    and P: "\<And>i. i \<in> set is \<Longrightarrow> deletable sk i \<longleftrightarrow> \<not> P i"
  shows "map xr_id (st_execs (sd_store (sk_studio sk'))) = filter P (map xr_id (st_execs (sd_store (sk_studio sk)))) \<and>
    length fl = length (st_execs (sd_store (sk_studio sk')))"
proof -
  let ?xs = "st_execs (sd_store (sk_studio sk))"
  note rows = bulk_rows[OF ok d b]
  have "filter (\<lambda>i. \<not> deletable sk i) is = filter P is" by (rule filter_cong[OF refl]) (use P in simp)
  then have fl: "map fst fl = filter P is" using rows by simp
  have "set del = {i \<in> xr_id ` set ?xs. \<not> P i}" using rows P by (auto simp: all[symmetric])
  then have "filter (\<lambda>x. xr_id x \<notin> set del) ?xs = filter (\<lambda>x. P (xr_id x)) ?xs" by (auto intro: filter_cong)
  then have left: "map xr_id (st_execs (sd_store (sk_studio sk'))) = filter P (map xr_id ?xs)"
    using rows by (simp add: filter_map comp_def)
  have "length fl = card (set (filter P is))" using fl d distinct_card[of "filter P is"] by (metis distinct_filter length_map)
  also have "set (filter P is) = set (filter P (map xr_id ?xs))" using all by auto
  also have "card \<dots> = length (filter P (map xr_id ?xs))"
    using ok by (intro distinct_card) (simp add: store_ok_def tables_ok_def)
  finally show ?thesis using left by (metis length_map)
qed



section \<open>What a build of all handlers reports\<close>

definition build_fails :: "build_env \<Rightarrow> fs \<Rightarrow> bool \<Rightarrow> path \<Rightarrow> bool" where
  "build_fails env fs force d = (case build_one env fs force d of None \<Rightarrow> False | Some r \<Rightarrow> failed_report r)"

lemma build_loop_reports:
  "build_loop env fs force ds =
     (if list_ex (\<lambda>d. build_one env fs force d = None) ds then None else Some (map (\<lambda>d. the (build_one env fs force d)) ds))"
  by (induction ds) auto

text \<open>The exit code of \<^verbatim>\<open>handler build\<close> is the number of directories whose build failed, up to 125, whatever the other directories do: a
  failure does not stop the ones after it. A directory whose manifest does not load, or has no build command, is no failure. Only a build
  that panics stops the command.\<close>

theorem build_exit_code:
  "handler_build_run env fs ws name force =
     (case build_targets fs ws name of
        Inl r \<Rightarrow> Some r
      | Inr ds \<Rightarrow>
          if list_ex (\<lambda>d. build_one env fs force d = None) ds then None
          else Some (Inr (min (length (filter (build_fails env fs force) ds)) 125))) \<and>
   (isl (load_from_dir (read_to_string fs) (bv_yaml env) d) \<longrightarrow> \<not> build_fails env fs force d)"
proof -
  have "length (filter failed_report (map (\<lambda>d. the (build_one env fs force d)) ds)) = length (filter (build_fails env fs force) ds)"
    if "\<not> list_ex (\<lambda>d. build_one env fs force d = None) ds" for ds
    using that by (induction ds) (auto simp: build_fails_def)
  moreover have "isl (load_from_dir (read_to_string fs) (bv_yaml env) d) \<Longrightarrow> \<not> build_fails env fs force d"
    by (auto simp: build_fails_def build_one_def split: sum.splits)
  ultimately show ?thesis by (auto simp: handler_build_run_def build_loop_reports split: sum.splits)
qed

lemma build_exit_code_witness:
  "\<not> build_fails \<lparr> bv_yaml = (\<lambda>_. Inl ''bad''), bv_on_path = (\<lambda>_. True), bv_mtime = (\<lambda>_. None), bv_entries = (\<lambda>_. None),
      bv_exec = (\<lambda>_ _. Inl ''e'') \<rparr> [] True ''/h''"
proof -
  let ?env = "\<lparr> bv_yaml = (\<lambda>_. Inl ''bad''), bv_on_path = (\<lambda>_. True), bv_mtime = (\<lambda>_. None), bv_entries = (\<lambda>_. None),
      bv_exec = (\<lambda>_ _. Inl ''e'') \<rparr>"
  have "isl (load_from_dir (read_to_string []) (bv_yaml ?env) ''/h'')" by (simp add: load_from_dir_def Let_def split: sum.split)
  then show ?thesis using build_exit_code[of ?env "[]" "''/w''" None True "''/h''"] by blast
qed

text \<open>A name given to \<^verbatim>\<open>handler build\<close> is not checked as the Studio checks it: with \<^verbatim>\<open>..\<close> in it, the command builds a directory
  outside of the handlers, and outside of the workspace.\<close>

theorem build_name_escapes:
  "let fs = [([''w''], Dir), ([''w'', ''handlers''], Dir), ([''o''], Dir)] in
   case build_targets fs ''/w'' (Some ''../../o'') of
     Inr [d] \<Rightarrow> canonicalize fs d = Some [''o''] \<and> \<not> validate_name ''../../o''
   | _ \<Rightarrow> False"
  by code_simp

end
