(* ===== verification/Smoke.thy ===== *)
theory Smoke
  imports Studio_Core Worker
begin

text \<open>
  The smoke test of a handler (\<^verbatim>\<open>smoke.rs\<close> and \<^verbatim>\<open>handler_smoke_run\<close> of \<^verbatim>\<open>lib.rs\<close>): fixtures read from a file or a directory, the gates,
  and the rows sent one at a time to a worker of its own. The worker is that of \<open>Worker\<close>; times are milliseconds. The parser of
  JSON and the CSV reader are arguments, as are the files, which are only read.
\<close>

section \<open>Running rows\<close>

record smoke_outcome =
  so_seq :: nat
  so_status :: string
  so_code :: "string option"
  so_message :: "string option"
  so_dur_ms :: nat
  so_data :: "obj option"

definition smoke_crash :: "nat \<Rightarrow> string \<Rightarrow> string \<Rightarrow> nat \<Rightarrow> smoke_outcome" where
  "smoke_crash sq code msg dur =
     \<lparr> so_seq = sq, so_status = ''crash'', so_code = Some code, so_message = Some msg, so_dur_ms = dur, so_data = None \<rparr>"

text \<open>Receiving with a limit on the whole wait, blank and foreign lines included: \<open>None\<close> when it passes first. The second part of
  the result is the time waited.\<close>

fun recv_within ::
    "(string \<Rightarrow> inbound option) \<Rightarrow> nat \<Rightarrow> nat \<Rightarrow> stdout \<Rightarrow> worker \<Rightarrow> ((core_error + inbound option) \<times> nat \<times> worker) option" where
  "recv_within parse limit t [] w = Some (Inr None, t, w\<lparr> wk_stdout := [] \<rparr>)"
| "recv_within parse limit t ((delay, ev) # rest) w =
     (if t + delay > limit then None
      else (case ev of
          Read_Error e \<Rightarrow> Some (Inl (Io e), t + delay, w\<lparr> wk_stdout := rest \<rparr>)
        | Line l \<Rightarrow>
            (let line = trim_line_end l in
             if line = [] then recv_within parse limit (t + delay) rest w
             else (case parse line of
                 Some msg \<Rightarrow> Some (Inr (Some msg), t + delay, (if wk_capture_raw w then log_stdout line w else w)\<lparr> wk_stdout := rest \<rparr>)
               | None \<Rightarrow> recv_within parse limit (t + delay) rest (log_stdout line w)))))"

text \<open>One row: its outcome, and whether the loop ends.\<close>

definition smoke_row ::
    "(string \<Rightarrow> inbound option) \<Rightarrow> (inbound \<Rightarrow> string) \<Rightarrow> nat \<Rightarrow> nat \<Rightarrow> obj \<Rightarrow> worker \<Rightarrow> smoke_outcome \<times> bool \<times> worker" where
  "smoke_row parse debug secs sq d w =
     (case send_row (Out_Row sq d \<lparr> rm_dry_run = False, rm_row_index = sq \<rparr>) w of
        (Inl e, w1) \<Rightarrow> (smoke_crash sq ''HANDLER_IO'' (core_error_text e) 0, True, w1)
      | (Inr _, w1) \<Rightarrow>
          (case recv_within parse (secs * 1000) 0 (wk_stdout w1) w1 of
             None \<Rightarrow> (smoke_crash sq ''ROW_TIMEOUT'' (''row exceeded '' @ nat_str secs @ ''s'') (secs * 1000), True, w1)
           | Some (Inl e, t, w2) \<Rightarrow> (smoke_crash sq ''HANDLER_IO'' (core_error_text e) t, True, w2)
           | Some (Inr None, t, w2) \<Rightarrow> (smoke_crash sq ''HANDLER_EXIT'' ''handler closed stdout'' t, True, w2)
           | Some (Inr (Some (Inb_Result rsq rd)), t, w2) \<Rightarrow>
               (\<lparr> so_seq = rsq, so_status = ''success'', so_code = None, so_message = None, so_dur_ms = t, so_data = Some rd \<rparr>, False, w2)
           | Some (Inr (Some (Inb_Error rsq c m rd)), t, w2) \<Rightarrow>
               (\<lparr> so_seq = rsq, so_status = ''error'', so_code = Some c, so_message = Some m, so_dur_ms = t, so_data = rd \<rparr>, False, w2)
           | Some (Inr (Some other), t, w2) \<Rightarrow>
               (smoke_crash sq ''PROTOCOL'' (''unexpected inbound: '' @ debug other) t, True, w2)))"

fun smoke_loop ::
    "(string \<Rightarrow> inbound option) \<Rightarrow> (inbound \<Rightarrow> string) \<Rightarrow> nat \<Rightarrow> nat \<Rightarrow> obj list \<Rightarrow> worker \<Rightarrow> smoke_outcome list \<times> worker" where
  "smoke_loop parse debug secs sq [] w = ([], w)"
| "smoke_loop parse debug secs sq (d # ds) w =
     (case smoke_row parse debug secs sq d w of
        (out, stop, w1) \<Rightarrow>
          if stop then ([out], w1)
          else (case smoke_loop parse debug secs (Suc sq) ds w1 of (outs, w2) \<Rightarrow> (out # outs, w2)))"

text \<open>Zero seconds is an hour.\<close>

definition row_timeout_secs :: "nat \<Rightarrow> nat" where
  "row_timeout_secs n = (if n = 0 then 60 * 60 else n)"

subsection \<open>The tail of the error output\<close>

text \<open>Each chunk is given as the text it decodes to. The cut moves back to the start of a character.\<close>

fun back_to_boundary :: "string \<Rightarrow> nat \<Rightarrow> nat" where
  "back_to_boundary s 0 = 0"
| "back_to_boundary s (Suc n) = (if char_boundary s (Suc n) then Suc n else back_to_boundary s n)"

definition STDERR_TAIL :: nat where "STDERR_TAIL = 4096"

definition push_stderr :: "string \<Rightarrow> string \<Rightarrow> string" where
  "push_stderr tail chunk =
     (let s = tail @ chunk in
      if length s > STDERR_TAIL then drop (back_to_boundary s (length s - STDERR_TAIL)) s else s)"

record smoke_result =
  sm_outcomes :: "smoke_outcome list"
  sm_stderr_tail :: string
  sm_exit_code :: "int option"

text \<open>The process of the handler: how it is launched, what it writes on its error output, how it ends.\<close>

record smoke_child =
  sh_parse :: "string \<Rightarrow> inbound option"
  sh_debug :: "inbound \<Rightarrow> string"
  sh_launch :: "entry \<Rightarrow> core_error + (stdout \<times> fuse)"
  sh_stderr :: "string list"
  sh_end :: child_end

definition run_smoke ::
    "(path \<Rightarrow> string + manifest) \<Rightarrow> smoke_child \<Rightarrow> path \<Rightarrow> obj list \<Rightarrow> nat \<Rightarrow> ui_error + smoke_result" where
  "run_smoke load child dir rows timeout_secs =
     (case load dir of
        Inl e \<Rightarrow> Inl (Io_Error (''manifest load: '' @ e))
      | Inr m \<Rightarrow>
          (let columns = (case rows of [] \<Rightarrow> [] | d # _ \<Rightarrow> map fst d) in
           case spawn (sh_parse child) (sh_launch child) 0 m ''smoke'' [] columns of
             Inl e \<Rightarrow> Inl (Io_Error (''spawn worker: '' @ core_error_text e))
           | Inr w \<Rightarrow>
               (case smoke_loop (sh_parse child) (sh_debug child) (row_timeout_secs timeout_secs) 1 rows w of
                  (outs, w1) \<Rightarrow>
                    Inr \<lparr> sm_outcomes = outs, sm_stderr_tail = fold (\<lambda>c t. push_stderr t c) (sh_stderr child) [],
                      sm_exit_code = (case fst (shutdown_worker (sh_end child) w1) of Inl _ \<Rightarrow> None | Inr code \<Rightarrow> code) \<rparr>)))"

section \<open>The gates\<close>

text \<open>What the command finds outside of the process while it checks; the build may leave its outcome in the cache.\<close>

record smoke_env =
  sn_load :: "path \<Rightarrow> string + manifest"
  sn_on_path :: "string \<Rightarrow> bool"
  sn_mtime :: "path \<Rightarrow> nat option"
  sn_entries :: "path \<Rightarrow> dir_entry list option"
  sn_exec :: "path \<Rightarrow> string list \<Rightarrow> string + (int option \<times> string \<times> string)"
  sn_child :: smoke_child

text \<open>No result (\<open>None\<close>) is the panic of \<open>run_build\<close>.\<close>

definition smoke_build ::
    "smoke_env \<Rightarrow> string \<Rightarrow> path \<Rightarrow> (string, build_outcome) bt \<Rightarrow> ((ui_error + unit) \<times> (string, build_outcome) bt) option" where
  "smoke_build env name dir cache =
     (case sn_load env dir of
        Inl e \<Rightarrow> Some (Inl (Io_Error (''manifest load: '' @ e)), cache)
      | Inr m \<Rightarrow>
          if \<not> needs_build (sn_on_path env) (sn_mtime env) (sn_entries env dir) dir m then Some (Inr (), cache)
          else (case run_build (sn_on_path env) (sn_exec env dir) m of
              None \<Rightarrow> None
            | Some (Inr b) \<Rightarrow> Some (Inr (), bt_insert name b cache)
            | Some (Inl (Build_Failed code _ b)) \<Rightarrow> Some (Inl (Ui_Build_Failed name code), bt_insert name b cache)
            | Some (Inl (Toolchain_Missing tool)) \<Rightarrow> Some (Inl (Ui_Toolchain_Missing name tool), cache)
            | Some (Inl No_Build_Command) \<Rightarrow> Some (Inl (Ui_No_Build_Command name), cache)
            | Some (Inl (Build_Io e)) \<Rightarrow> Some (Inl (Io_Error e), cache)))"

definition smoke_gates :: "fs \<Rightarrow> path \<Rightarrow> store \<Rightarrow> string \<Rightarrow> obj list \<Rightarrow> ui_error + path" where
  "smoke_gates fs ws st name rows =
     (if \<not> validate_name name then Inl (Invalid_Handler_Name name)
      else if rows = [] then Inl (Invalid_Arg ''smoke needs at least 1 row'')
      else if length rows > 100 then Inl (Invalid_Arg ''smoke limit is 100 rows'')
      else (let dir = path_join (path_join ws ''handlers'') name in
        if \<not> is_dir fs dir then Inl (Handler_Not_Found name)
        else (case canonicalize fs dir of
            None \<Rightarrow> Inl (Io_Error ''canonicalize handler dir: No such file or directory'')
          | Some d \<Rightarrow>
              if has_active_attempt_for_handler_dir st (show_rel d) then Inl (Handler_Busy name) else Inr (show_rel d))))"

definition handler_smoke_run ::
    "smoke_env \<Rightarrow> fs \<Rightarrow> studio_core \<Rightarrow> string \<Rightarrow> obj list \<Rightarrow> (string, build_outcome) bt
      \<Rightarrow> ((ui_error + smoke_result) \<times> (string, build_outcome) bt) option" where
  "handler_smoke_run env fs core name rows cache =
     (case smoke_gates fs (sc_root core) (sd_store (sc_studio core)) name rows of
        Inl e \<Rightarrow> Some (Inl e, cache)
      | Inr dir \<Rightarrow>
          (case smoke_build env name dir cache of
             None \<Rightarrow> None
           | Some (Inl e, cache') \<Rightarrow> Some (Inl e, cache')
           | Some (Inr _, cache') \<Rightarrow>
               Some (run_smoke (sn_load env) (sn_child env) dir rows (sc_smoke_timeout_per_row_secs core), cache')))"

section \<open>Fixtures\<close>

text \<open>A file that is read gives the lines or an error for each; the CSV reader gives the headers and a record or an error for each row.\<close>

type_synonym csv_file = "string + ((string + string list) \<times> (string + string list) list)"

record fixture_env =
  fe_lines :: "path \<Rightarrow> string + (string + string) list"
  fe_bytes :: "path \<Rightarrow> string + string"
  fe_json :: "string \<Rightarrow> string + json"
  fe_csv :: "path \<Rightarrow> csv_file"

text \<open>The rows of a list of lines, elements or records; each loop stops as soon as it has \<open>limit\<close> of them.\<close>

fun collect_rows :: "('a \<Rightarrow> obj option) \<Rightarrow> nat \<Rightarrow> 'a list \<Rightarrow> obj list \<Rightarrow> obj list" where
  "collect_rows row limit [] out = out"
| "collect_rows row limit (x # xs) out =
     (if length out \<ge> limit then out
      else (case row x of None \<Rightarrow> collect_rows row limit xs out | Some d \<Rightarrow> collect_rows row limit xs (out @ [d])))"

definition jsonl_row :: "(string \<Rightarrow> string + json) \<Rightarrow> string + string \<Rightarrow> obj option" where
  "jsonl_row js line =
     (case line of
        Inl _ \<Rightarrow> None
      | Inr l \<Rightarrow>
          if trim l = [] then None
          else (case js (trim l) of Inr (JObject m) \<Rightarrow> Some m | _ \<Rightarrow> None))"

definition load_jsonl :: "fixture_env \<Rightarrow> path \<Rightarrow> nat \<Rightarrow> ui_error + obj list" where
  "load_jsonl env p limit =
     (case fe_lines env p of
        Inl e \<Rightarrow> Inl (Io_Error (''open '' @ p @ '': '' @ e))
      | Inr ls \<Rightarrow> Inr (collect_rows (jsonl_row (fe_json env)) limit ls []))"

definition load_json_array :: "fixture_env \<Rightarrow> path \<Rightarrow> nat \<Rightarrow> ui_error + obj list" where
  "load_json_array env p limit =
     (case fe_bytes env p of
        Inl e \<Rightarrow> Inl (Io_Error (''read '' @ p @ '': '' @ e))
      | Inr bytes \<Rightarrow>
          (case fe_json env bytes of
             Inl e \<Rightarrow> Inl (Invalid_Arg (''json parse: '' @ e))
           | Inr (JArray vs) \<Rightarrow> Inr (collect_rows as_object limit vs [])
           | Inr _ \<Rightarrow> Inl (Invalid_Arg ''json file is not a top-level array'')))"

definition csv_row :: "string list \<Rightarrow> string list \<Rightarrow> obj" where
  "csv_row headers rec =
     fold (\<lambda>(i, v) m. bt_insert (if i < length headers then headers ! i else ''col'' @ nat_str i) (JString v) m)
       (zip [0..<length rec] rec) []"

definition load_csv :: "fixture_env \<Rightarrow> path \<Rightarrow> nat \<Rightarrow> ui_error + obj list" where
  "load_csv env p limit =
     (case fe_csv env p of
        Inl e \<Rightarrow> Inl (Invalid_Arg (''csv open: '' @ e))
      | Inr (Inl e, _) \<Rightarrow> Inl (Invalid_Arg (''csv headers: '' @ e))
      | Inr (Inr hs, recs) \<Rightarrow>
          Inr (collect_rows (\<lambda>r. case r of Inl _ \<Rightarrow> None | Inr rec \<Rightarrow> Some (csv_row hs rec)) limit recs []))"

definition FIXTURE_PRECEDENCE :: "string list" where
  "FIXTURE_PRECEDENCE = [''jsonl'', ''ndjson'', ''json'', ''csv'']"

definition lower_extension :: "path \<Rightarrow> string" where
  "lower_extension p = map Execution_Store.ascii_lower (case path_extension p of None \<Rightarrow> [] | Some e \<Rightarrow> e)"

text \<open>The first file of the listing for each extension, then the first extension that has one. Hidden files and anything that is not a
  regular file are passed over.\<close>

definition fixture_candidates :: "fs \<Rightarrow> path \<Rightarrow> string list \<Rightarrow> path list" where
  "fixture_candidates fs dir names =
     filter (\<lambda>p. is_file fs p \<and> \<not> starts_with (file_name p) ''.'') (map (path_join dir) names)"

definition pick_fixture_in_dir :: "fs \<Rightarrow> path \<Rightarrow> path option" where
  "pick_fixture_in_dir fs dir =
     (case read_dir fs dir of
        Inl _ \<Rightarrow> None
      | Inr names \<Rightarrow>
          (case List.map_filter (\<lambda>ext. List.find (\<lambda>p. lower_extension p = ext) (fixture_candidates fs dir names)) FIXTURE_PRECEDENCE of
             [] \<Rightarrow> None | p # _ \<Rightarrow> Some p))"

definition load_fixtures :: "fixture_env \<Rightarrow> fs \<Rightarrow> path \<Rightarrow> nat \<Rightarrow> ui_error + obj list" where
  "load_fixtures env fs p limit =
     (case metadata fs p of
        None \<Rightarrow> Inl (Invalid_Arg ''fixtures path: No such file or directory'')
      | Some n \<Rightarrow>
     (case (if n = Dir then pick_fixture_in_dir fs p else Some p) of
        None \<Rightarrow> Inl (Invalid_Arg ''directory contains no .jsonl/.ndjson/.json/.csv file'')
      | Some target \<Rightarrow>
          (let ext = lower_extension target in
           case (if ext = ''jsonl'' \<or> ext = ''ndjson'' then load_jsonl env target limit
                 else if ext = ''json'' then load_json_array env target limit
                 else if ext = ''csv'' then load_csv env target limit
                 else Inl (Invalid_Arg (''unsupported fixtures extension: '' @ ext))) of
             Inl e \<Rightarrow> Inl e
           | Inr rows \<Rightarrow> if rows = [] then Inl (Invalid_Arg ''no rows found in fixtures path'') else Inr rows)))"

definition smoke_load_fixtures :: "fixture_env \<Rightarrow> fs \<Rightarrow> path \<Rightarrow> nat \<Rightarrow> ui_error + obj list" where
  "smoke_load_fixtures env fs p limit = load_fixtures env fs p (clamp_rows limit)"

section \<open>Fixtures are what a smoke test takes\<close>

lemma collect_rows_spec: "collect_rows row limit xs out = out @ take (limit - length out) (List.map_filter row xs)"
proof (induction row limit xs out rule: collect_rows.induct)
  case (2 row limit x xs out)
  then show ?case
    by (cases "row x") (auto simp: map_filter_simps Suc_diff_le take_Suc_conv_app_nth not_le take_Cons' split: if_splits)
qed (simp add: map_filter_simps)

lemma collect_rows_length [simp]: "length (collect_rows row limit xs []) \<le> limit"
  by (simp add: collect_rows_spec)

lemma loaded_rows_bound: "load_fixtures env fs p limit = Inr rows \<Longrightarrow> rows \<noteq> [] \<and> length rows \<le> limit"
  by (auto simp: load_fixtures_def Let_def load_jsonl_def load_json_array_def load_csv_def
      split: option.splits sum.splits if_splits json.splits prod.splits)

text \<open>Whatever file or directory the rows come from and whatever limit is asked for, rows that are loaded are rows a smoke test accepts:
  there is at least one and there are at most 100. They are the first objects of the file in order; lines, elements and records that are
  not objects, or do not parse, are passed over and do not count against the limit.\<close>

theorem fixtures_accepted:
  "(case smoke_load_fixtures env fs p limit of Inl _ \<Rightarrow> True | Inr rows \<Rightarrow> rows \<noteq> [] \<and> length rows \<le> 100) \<and>
   (case load_jsonl env p limit of
      Inl _ \<Rightarrow> isl (fe_lines env p)
    | Inr rows \<Rightarrow> (case fe_lines env p of Inl _ \<Rightarrow> False | Inr ls \<Rightarrow> rows = take limit (List.map_filter (jsonl_row (fe_json env)) ls)))"
proof -
  have "clamp_rows limit \<le> 100" by (simp add: clamp_rows_def)
  then have "case smoke_load_fixtures env fs p limit of Inl _ \<Rightarrow> True | Inr rows \<Rightarrow> rows \<noteq> [] \<and> length rows \<le> 100"
    using loaded_rows_bound[of env fs p "clamp_rows limit"] by (auto simp: smoke_load_fixtures_def split: sum.split)
  then show ?thesis by (simp add: load_jsonl_def collect_rows_spec split: sum.split)
qed

section \<open>One outcome per row\<close>

lemma smoke_row_stop: "smoke_row parse debug secs sq d w = (out, stop, w1) \<Longrightarrow> stop \<longleftrightarrow> so_status out = ''crash''"
  by (auto simp: smoke_row_def smoke_crash_def split: prod.splits sum.splits option.splits inbound.splits)

lemma smoke_row_crash_seq: "smoke_row parse debug secs sq d w = (out, True, w1) \<Longrightarrow> so_seq out = sq"
  by (auto simp: smoke_row_def smoke_crash_def split: prod.splits sum.splits option.splits inbound.splits)

text \<open>What the handler was sent: the rows, numbered from the first.\<close>

definition smoke_rows :: "nat \<Rightarrow> obj list \<Rightarrow> outbound list" where
  "smoke_rows sq ds = map (\<lambda>(i, d). Out_Row (sq + i) d \<lparr> rm_dry_run = False, rm_row_index = sq + i \<rparr>) (enumerate 0 ds)"

lemma smoke_rows_Cons: "smoke_rows sq (d # ds) = Out_Row sq d \<lparr> rm_dry_run = False, rm_row_index = sq \<rparr> # smoke_rows (Suc sq) ds"
  by (simp add: smoke_rows_def enumerate_Suc_eq[of 0] comp_def split_def)

lemma recv_within_sent: "recv_within parse limit t out w = Some (r, t', w') \<Longrightarrow> wk_sent w' = wk_sent w"
  by (induction parse limit t out w rule: recv_within.induct)
    (auto simp: Let_def log_stdout_def split: if_splits option.splits stdout_event.splits)

lemma smoke_row_sent:
  assumes "smoke_row parse debug secs sq d w = (out, stop, w1)"
  shows "wk_sent w1 = wk_sent w @ [Out_Row sq d \<lparr> rm_dry_run = False, rm_row_index = sq \<rparr>] \<or> (stop \<and> wk_sent w1 = wk_sent w)"
proof -
  obtain r w' where s: "send_row (Out_Row sq d \<lparr> rm_dry_run = False, rm_row_index = sq \<rparr>) w = (r, w')" by force
  have "wk_sent w' = (case r of Inl _ \<Rightarrow> wk_sent w | Inr _ \<Rightarrow> wk_sent w @ [Out_Row sq d \<lparr> rm_dry_run = False, rm_row_index = sq \<rparr>])"
    using s by (auto simp: send_row_def send_msg_def split: prod.splits if_splits)
  then show ?thesis using assms s
    by (auto simp: smoke_row_def dest!: recv_within_sent split: sum.splits option.splits inbound.splits)
qed

lemma smoke_loop_outcomes:
  assumes "smoke_loop parse debug secs sq ds w = (outs, w1)"
  shows "length outs \<le> length ds \<and> list_all (\<lambda>u. so_status u \<noteq> ''crash'') (butlast outs) \<and>
     (length outs < length ds \<longrightarrow> outs \<noteq> [] \<and> so_status (last outs) = ''crash'') \<and>
     (outs \<noteq> [] \<longrightarrow> so_status (last outs) = ''crash'' \<longrightarrow> so_seq (last outs) = sq + length outs - 1) \<and>
     (\<exists>n. length outs \<le> Suc n \<and> n \<le> length outs \<and> wk_sent w1 = wk_sent w @ take n (smoke_rows sq ds))"
  using assms
proof (induction ds arbitrary: sq w outs w1)
  case (Cons d ds)
  obtain out stop w2 where r: "smoke_row parse debug secs sq d w = (out, stop, w2)" by (metis prod.exhaust)
  note st = smoke_row_stop[OF r]
  show ?case
  proof (cases stop)
    case True
    then have o: "outs = [out]" "w1 = w2" using Cons.prems r by simp_all
    have "\<exists>n\<le>1. wk_sent w2 = wk_sent w @ take n (smoke_rows sq (d # ds))"
      using smoke_row_sent[OF r] by (auto simp: smoke_rows_Cons intro: exI[of _ 0] exI[of _ 1])
    then show ?thesis using o st True smoke_row_crash_seq[of parse debug secs sq d w out w2] r by auto
  next
    case False
    obtain os w3 where l: "smoke_loop parse debug secs (Suc sq) ds w2 = (os, w3)" by force
    then have o: "outs = out # os" "w1 = w3" using Cons.prems r False by simp_all
    note ih = Cons.IH[OF l]
    then obtain n where n: "length os \<le> Suc n" "n \<le> length os" "wk_sent w3 = wk_sent w2 @ take n (smoke_rows (Suc sq) ds)" by blast
    have "wk_sent w3 = wk_sent w @ take (Suc n) (smoke_rows sq (d # ds))"
      using n(3) smoke_row_sent[OF r] False by (simp add: smoke_rows_Cons)
    moreover have "so_status out \<noteq> ''crash''" using st False by simp
    ultimately show ?thesis using ih o n(1,2) by (auto intro!: exI[of _ "Suc n"])
  qed
qed (auto simp: smoke_rows_def intro: exI[of _ 0])

lemma recv_within_time: "recv_within parse limit t out w = Some (r, t', w') \<Longrightarrow> t \<le> limit \<Longrightarrow> t' \<le> limit"
  by (induction parse limit t out w rule: recv_within.induct)
    (auto simp: Let_def split: if_splits option.splits stdout_event.splits)

lemma smoke_row_time: "smoke_row parse debug secs sq d w = (out, stop, w1) \<Longrightarrow> so_dur_ms out \<le> secs * 1000"
  by (auto simp: smoke_row_def smoke_crash_def dest!: recv_within_time split: prod.splits sum.splits option.splits inbound.splits)

lemma smoke_loop_time: "smoke_loop parse debug secs sq ds w = (outs, w1) \<Longrightarrow> list_all (\<lambda>u. so_dur_ms u \<le> secs * 1000) outs"
  by (induction ds arbitrary: sq w outs w1) (auto split: prod.splits if_splits dest!: smoke_row_time)


section \<open>The tail of the error output is a tail\<close>

lemma back_to_boundary_le: "back_to_boundary s n \<le> n \<and> char_boundary s (back_to_boundary s n)"
  by (induction n) (auto simp: char_boundary_def)

lemma back_to_boundary_ascii: "list_all (\<lambda>c. \<not> continues c) s \<Longrightarrow> n \<le> length s \<Longrightarrow> back_to_boundary s n = n"
  by (cases n) (auto simp: char_boundary_def list_all_length)

lemma push_stderr_suffix: "suffix (push_stderr t c) (t @ c)"
  by (simp add: push_stderr_def Let_def suffix_drop del: drop_append length_append)

lemma push_stderr_long: "min STDERR_TAIL (length (t @ c)) \<le> length (push_stderr t c)"
  using back_to_boundary_le[of "t @ c" "length (t @ c) - STDERR_TAIL"] by (auto simp: push_stderr_def Let_def)

text \<open>The error output a smoke test shows is an unbroken end of what the handler wrote, and at least the last 4096 bytes of it or all
  of it; it is exactly that when the output is plain ASCII. The cut is always at the start of a character.\<close>

theorem stderr_tail_exact:
  "let tail = fold (\<lambda>c t. push_stderr t c) chunks [] in
   suffix tail (concat chunks) \<and> min STDERR_TAIL (length (concat chunks)) \<le> length tail \<and>
   (list_all (\<lambda>c. \<not> continues c) (concat chunks) \<longrightarrow> tail = drop (length (concat chunks) - STDERR_TAIL) (concat chunks))"
proof -
  have "suffix (fold (\<lambda>c t. push_stderr t c) chunks t) (t @ concat chunks)" for t
  proof (induction chunks arbitrary: t)
    case (Cons c cs)
    have "suffix (push_stderr t c @ concat cs) ((t @ c) @ concat cs)" using push_stderr_suffix[of t c] by (auto simp: suffix_def)
    then show ?case using Cons.IH[of "push_stderr t c"] suffix_order.trans by auto
  qed simp
  moreover have "min STDERR_TAIL (length (t @ concat chunks)) \<le> length (fold (\<lambda>c t. push_stderr t c) chunks t)" for t
  proof (induction chunks arbitrary: t)
    case (Cons c cs)
    show ?case using Cons.IH[of "push_stderr t c"] push_stderr_long[of t c] by auto
  qed simp
  moreover have "fold (\<lambda>c t. push_stderr t c) chunks (drop (length s - STDERR_TAIL) s) =
      drop (length (s @ concat chunks) - STDERR_TAIL) (s @ concat chunks)" if "list_all (\<lambda>c. \<not> continues c) (s @ concat chunks)" for s
    using that
  proof (induction chunks arbitrary: s)
    case (Cons c cs)
    let ?t = "drop (length s - STDERR_TAIL) s"
    have "list_all (\<lambda>c. \<not> continues c) (?t @ c)" using Cons.prems by (auto simp: list_all_iff dest: in_set_dropD)
    then have "push_stderr ?t c = drop (length (?t @ c) - STDERR_TAIL) (?t @ c)"
      by (auto simp: push_stderr_def Let_def back_to_boundary_ascii)
    also have "\<dots> = drop (length (s @ c) - STDERR_TAIL) (s @ c)" by (cases "length s \<le> STDERR_TAIL") (auto simp: add.commute)
    finally show ?case using Cons.IH[of "s @ c"] Cons.prems by simp
  qed simp
  from this[of "[]"] calculation(1)[of "[]"] calculation(2)[of "[]"] show ?thesis by (simp add: Let_def)
qed

definition demo_child :: smoke_child where
  "demo_child = \<lparr> sh_parse = (\<lambda>l. if l = ''r'' then Some (Ready ''1'') else if l = ''x'' then Some (Inb_Result 1 []) else None),
     sh_debug = (\<lambda>_. []), sh_launch = (\<lambda>_. Inr ([(0, Line ''r''), (0, Line ''?''), (0, Line ''x'')], None)),
     sh_stderr = [], sh_end = Exits (Some 0) \<rparr>"

definition demo_smoke_env :: smoke_env where
  "demo_smoke_env = \<lparr> sn_load = (\<lambda>_. Inr demo_manifest), sn_on_path = (\<lambda>_. True), sn_mtime = (\<lambda>_. None), sn_entries = (\<lambda>_. None),
     sn_exec = (\<lambda>_ _. Inl ''e''), sn_child = demo_child \<rparr>"

definition demo_core :: studio_core where
  "demo_core = \<lparr> sc_root = ''/w'', sc_studio = \<lparr> sd_store = empty_store ''/w'', sd_sessions = registry_new 3 1, sd_capture_raw = False \<rparr>,
     sc_preferred_editor = None, sc_smoke_default_rows = 5, sc_smoke_timeout_per_row_secs = 30 \<rparr>"


lemma stderr_tail_exact_witness: "fold (\<lambda>c t. push_stderr t c) [''ab'', ''c''] [] = ''abc''"
  using stderr_tail_exact[of "[''ab'', ''c'']"] by (simp add: Let_def STDERR_TAIL_def continues_def)

end
