(* ===== verification/Desktop.thy ===== *)
theory Desktop
  imports Studio_Core Json_Values
begin

text \<open>
  The desktop shell around the Studio: the user's settings and their file (\<^verbatim>\<open>studio-core/settings.rs\<close>, \<^verbatim>\<open>src-tauri/settings.rs\<close>), the commands
  that open a workspace and save settings, the guard of every other command, and the task that forwards a live log
  (\<^verbatim>\<open>src-tauri/commands.rs\<close>). The remaining commands pass their arguments on to the operations of the Studio.
\<close>

section \<open>Settings\<close>

record settings =
  se_schema_version :: nat
  se_workspace_root :: "path option"
  se_max_concurrent_runs :: "nat option"
  se_telemetry_opt_in :: bool
  se_preferred_editor :: "string option"
  se_capture_raw_stdout :: bool
  se_smoke_default_rows :: nat
  se_smoke_timeout_per_row_secs :: nat

definition default_settings :: settings where
  "default_settings = \<lparr> se_schema_version = 1, se_workspace_root = None, se_max_concurrent_runs = None, se_telemetry_opt_in = False,
     se_preferred_editor = None, se_capture_raw_stdout = False, se_smoke_default_rows = 5, se_smoke_timeout_per_row_secs = 30 \<rparr>"

text \<open>As serde reads a field: absent gives the default, a value of another type or out of range fails.\<close>

definition field_or :: "'a \<Rightarrow> (json \<Rightarrow> 'a option) \<Rightarrow> obj \<Rightarrow> string \<Rightarrow> 'a option" where
  "field_or d get m k = (case bt_lookup m k of None \<Rightarrow> Some d | Some v \<Rightarrow> get v)"

definition uint_below :: "nat \<Rightarrow> json \<Rightarrow> nat option" where
  "uint_below n v = (case as_u64 v of None \<Rightarrow> None | Some k \<Rightarrow> if k < n then Some k else None)"

fun as_bool :: "json \<Rightarrow> bool option" where
  "as_bool (JBool b) = Some b"
| "as_bool _ = None"

definition nullable :: "(json \<Rightarrow> 'a option) \<Rightarrow> json \<Rightarrow> 'a option option" where
  "nullable get v = (case v of JNull \<Rightarrow> Some None | _ \<Rightarrow> map_option Some (get v))"

definition settings_of_json :: "json \<Rightarrow> settings option" where
  "settings_of_json v =
     Option.bind (as_object v) (\<lambda>m.
     Option.bind (field_or 1 (uint_below (2 ^ 8)) m ''schema_version'') (\<lambda>ver.
     Option.bind (field_or None (nullable as_str) m ''workspace_root'') (\<lambda>dir.
     Option.bind (field_or None (nullable (uint_below (2 ^ 32))) m ''max_concurrent_runs'') (\<lambda>runs.
     Option.bind (field_or False as_bool m ''telemetry_opt_in'') (\<lambda>tele.
     Option.bind (field_or None (nullable as_str) m ''preferred_editor'') (\<lambda>ed.
     Option.bind (field_or False as_bool m ''handler_log_capture_raw_stdout'') (\<lambda>cap.
     Option.bind (field_or 5 (uint_below (2 ^ 64)) m ''smoke_default_rows'') (\<lambda>rows.
     Option.bind (field_or 30 (uint_below (2 ^ 64)) m ''smoke_timeout_per_row_secs'') (\<lambda>secs.
       Some \<lparr> se_schema_version = ver, se_workspace_root = dir, se_max_concurrent_runs = runs, se_telemetry_opt_in = tele,
         se_preferred_editor = ed, se_capture_raw_stdout = cap, se_smoke_default_rows = rows,
         se_smoke_timeout_per_row_secs = secs \<rparr>)))))))))"

definition or_null :: "('a \<Rightarrow> json) \<Rightarrow> 'a option \<Rightarrow> json" where
  "or_null f v = (case v of None \<Rightarrow> JNull | Some x \<Rightarrow> f x)"

definition settings_json :: "settings \<Rightarrow> json" where
  "settings_json s = JObject (bt_from_list
     [(''schema_version'', junum (se_schema_version s)), (''workspace_root'', or_null JString (se_workspace_root s)),
      (''max_concurrent_runs'', or_null junum (se_max_concurrent_runs s)), (''telemetry_opt_in'', JBool (se_telemetry_opt_in s)),
      (''preferred_editor'', or_null JString (se_preferred_editor s)),
      (''handler_log_capture_raw_stdout'', JBool (se_capture_raw_stdout s)),
      (''smoke_default_rows'', junum (se_smoke_default_rows s)),
      (''smoke_timeout_per_row_secs'', junum (se_smoke_timeout_per_row_secs s))])"

text \<open>The widths of the fields: \<^verbatim>\<open>u8\<close>, \<^verbatim>\<open>u32\<close>, \<^verbatim>\<open>usize\<close> and \<^verbatim>\<open>u64\<close>.\<close>

definition settings_ok :: "settings \<Rightarrow> bool" where
  "settings_ok s = (se_schema_version s < 2 ^ 8 \<and> (case se_max_concurrent_runs s of None \<Rightarrow> True | Some n \<Rightarrow> n < 2 ^ 32) \<and>
     se_smoke_default_rows s < 2 ^ 64 \<and> se_smoke_timeout_per_row_secs s < 2 ^ 64)"

section \<open>The settings file\<close>

text \<open>The text of the file, none before the first save. \<open>js\<close> and \<open>print\<close> are the parser and the printer of JSON.\<close>

definition load_settings :: "(string \<Rightarrow> string + json) \<Rightarrow> string option \<Rightarrow> ui_error + settings" where
  "load_settings js file =
     (case file of
        None \<Rightarrow> Inr default_settings
      | Some t \<Rightarrow>
          (case js t of
             Inl e \<Rightarrow> Inl (Io_Error (''settings parse: '' @ e))
           | Inr v \<Rightarrow> (case settings_of_json v of
                None \<Rightarrow> Inl (Io_Error ''settings parse: invalid type'') | Some s \<Rightarrow> Inr s)))"

text \<open>Saving creates the file, which empties it, then writes; either may fail.\<close>

definition save_settings :: "(json \<Rightarrow> string) \<Rightarrow> fuse \<Rightarrow> settings \<Rightarrow> string option \<Rightarrow> (ui_error + unit) \<times> string option" where
  "save_settings print io s file =
     (let (bad, io') = poll io in
      if bad then (Inl (Io_Error ''create''), file)
      else if fst (poll io') then (Inl (Io_Error ''settings write''), Some [])
      else (Inr (), Some (print (settings_json s))))"

section \<open>Commands\<close>

record desktop =
  dk_file :: "string option"
  dk_core :: "studio_core option"

definition opts_of_settings :: "path option \<Rightarrow> settings \<Rightarrow> open_opts" where
  "opts_of_settings p s =
     \<lparr> op_workspace = p, op_max_concurrent_runs = se_max_concurrent_runs s, op_preferred_editor = se_preferred_editor s,
       op_capture_raw = se_capture_raw_stdout s, op_smoke_default_rows = se_smoke_default_rows s,
       op_smoke_timeout_per_row_secs = se_smoke_timeout_per_row_secs s \<rparr>"

definition workspace_open ::
    "(string \<Rightarrow> string + json) \<Rightarrow> (json \<Rightarrow> string) \<Rightarrow> path option \<Rightarrow> (path \<Rightarrow> core_error + store) \<Rightarrow> scan_env \<Rightarrow> fuse
      \<Rightarrow> path option \<Rightarrow> desktop \<Rightarrow> (ui_error + path) \<times> desktop" where
  "workspace_open js print home_root open_store env io p dk =
     (case load_settings js (dk_file dk) of
        Inl e \<Rightarrow> (Inl e, dk)
      | Inr prev \<Rightarrow>
     (case open_studio home_root open_store env (opts_of_settings p prev) of
        Inl e \<Rightarrow> (Inl e, dk)
      | Inr core \<Rightarrow>
     (case save_settings print io (prev\<lparr> se_workspace_root := Some (sc_root core) \<rparr>) (dk_file dk) of
        (Inl e, file) \<Rightarrow> (Inl e, dk\<lparr> dk_file := file \<rparr>)
      | (Inr _, file) \<Rightarrow> (Inr (sc_root core), dk\<lparr> dk_file := file, dk_core := Some core \<rparr>))))"

definition workspace_settings_save ::
    "(json \<Rightarrow> string) \<Rightarrow> fuse \<Rightarrow> settings \<Rightarrow> desktop \<Rightarrow> (ui_error + unit) \<times> desktop" where
  "workspace_settings_save print io s dk =
     (case save_settings print io s (dk_file dk) of
        (Inl e, file) \<Rightarrow> (Inl e, dk\<lparr> dk_file := file \<rparr>)
      | (Inr _, file) \<Rightarrow>
          (Inr (), dk\<lparr> dk_file := file,
             dk_core := map_option (\<lambda>c. set_smoke_defaults (se_smoke_default_rows s) (se_smoke_timeout_per_row_secs s)
               (set_capture_raw_stdout (se_capture_raw_stdout s) (set_preferred_editor (se_preferred_editor s) c))) (dk_core dk) \<rparr>))"

definition workspace_current :: "desktop \<Rightarrow> path option" where
  "workspace_current dk = map_option sc_root (dk_core dk)"

text \<open>Every command on an open workspace first takes the core out of the state.\<close>

definition with_core :: "(studio_core \<Rightarrow> ui_error + 'a) \<Rightarrow> desktop \<Rightarrow> ui_error + 'a" where
  "with_core f dk = (case dk_core dk of None \<Rightarrow> Inl (Workspace_Locked ''no workspace open'') | Some c \<Rightarrow> f c)"

definition run_opts_of ::
    "path \<Rightarrow> nat option \<Rightarrow> nat option \<Rightarrow> bool option \<Rightarrow> bool option \<Rightarrow> nat list option \<Rightarrow> run_opts" where
  "run_opts_of dir row_limit workers dry_run skip_attempted only =
     (let o1 = (case row_limit of None \<Rightarrow> run_opts_new dir | Some n \<Rightarrow> (run_opts_new dir)\<lparr> so_row_limit := Some n \<rparr>);
          o2 = (case workers of None \<Rightarrow> o1 | Some w \<Rightarrow> o1\<lparr> so_workers := Some w \<rparr>);
          o3 = (case dry_run of None \<Rightarrow> o2 | Some d \<Rightarrow> o2\<lparr> so_dry_run := d \<rparr>);
          o4 = (case skip_attempted of None \<Rightarrow> o3 | Some s \<Rightarrow> o3\<lparr> so_skip_attempted := s \<rparr>) in
      o4\<lparr> so_only_row_ids := only \<rparr>)"

section \<open>Forwarding a live log\<close>

datatype 'a pump_event = Got 'a | Lagged nat | Tick | Closed | Cancelled

record 'a pump =
  pu_batch :: "'a list"
  pu_dropped :: nat
  pu_emitted :: "('a list \<times> nat) list"
  pu_running :: bool

definition pump_init :: "'a pump" where
  "pump_init = \<lparr> pu_batch = [], pu_dropped = 0, pu_emitted = [], pu_running = True \<rparr>"

definition PUMP_BATCH :: nat where "PUMP_BATCH = 64"

definition pump_emit :: "'a pump \<Rightarrow> 'a pump" where
  "pump_emit s = s\<lparr> pu_batch := [], pu_dropped := 0, pu_emitted := pu_emitted s @ [(pu_batch s, pu_dropped s)] \<rparr>"

fun pump_step :: "'a pump_event \<Rightarrow> 'a pump \<Rightarrow> 'a pump" where
  "pump_step (Got x) s =
     (let s' = s\<lparr> pu_batch := pu_batch s @ [x] \<rparr> in if length (pu_batch s') \<ge> PUMP_BATCH then pump_emit s' else s')"
| "pump_step (Lagged n) s = s\<lparr> pu_dropped := pu_dropped s + n \<rparr>"
| "pump_step Tick s = (if pu_batch s \<noteq> [] \<or> pu_dropped s > 0 then pump_emit s else s)"
| "pump_step Closed s = s\<lparr> pu_running := False \<rparr>"
| "pump_step Cancelled s = s\<lparr> pu_running := False \<rparr>"

definition pump_run :: "'a pump_event list \<Rightarrow> 'a pump \<Rightarrow> 'a pump" where
  "pump_run = fold (\<lambda>e s. if pu_running s then pump_step e s else s)"

section \<open>Properties\<close>

lemma uint_below_junum [simp]: "uint_below n (junum k) = (if k < n then Some k else None)"
  by (simp add: uint_below_def junum_def)

lemma nullable_or_null:
  "nullable as_str (or_null JString s) = Some s"
  "(case r of None \<Rightarrow> True | Some k \<Rightarrow> k < n) \<Longrightarrow> nullable (uint_below n) (or_null junum r) = Some r"
  by (cases s; simp add: nullable_def or_null_def) (cases r; simp add: nullable_def or_null_def junum_def uint_below_def)

text \<open>Settings survive being saved: what is written reads back as it was, for values within the widths of the fields; and a file
  of an older version, where fields are missing, still loads, with the default for each, down to the empty object.\<close>

theorem settings_roundtrip:
  assumes "settings_ok s" "js (print (settings_json s)) = Inr (settings_json s)" "io = None"
  shows "save_settings print io s file = (Inr (), Some (print (settings_json s))) \<and>
    load_settings js (snd (save_settings print io s file)) = Inr s \<and>
    settings_of_json (JObject []) = Some default_settings"
proof -
  have "nullable (uint_below 4294967296) (or_null junum (se_max_concurrent_runs s)) = Some (se_max_concurrent_runs s)"
    using nullable_or_null(2)[where r = "se_max_concurrent_runs s" and n = "2 ^ 32"] assms(1) by (simp add: settings_ok_def)
  then have "settings_of_json (settings_json s) = Some s"
    using assms(1) unfolding settings_of_json_def settings_json_def settings_ok_def
    by (simp add: field_or_def nullable_or_null)
  moreover have "settings_of_json (JObject []) = Some default_settings"
    by (simp add: settings_of_json_def field_or_def default_settings_def)
  ultimately show ?thesis using assms(2,3) by (simp add: save_settings_def load_settings_def)
qed

lemma settings_roundtrip_witness:
  "load_settings (\<lambda>_. Inr (settings_json default_settings)) (snd (save_settings (\<lambda>_. ''s'') None default_settings None)) = Inr default_settings"
proof -
  have "settings_ok default_settings" by (simp add: settings_ok_def default_settings_def)
  from settings_roundtrip[OF this, of "\<lambda>_. Inr (settings_json default_settings)" "\<lambda>_. ''s''" None None] show ?thesis by blast
qed

text \<open>Saved settings take effect as if the workspace were opened anew: after a save that succeeds, the open workspace has the editor, the
  capture flag and the smoke limits that opening it with the new file would give; all but the limit on concurrent runs,
  which stays what it was until then.\<close>

theorem saved_settings_live:
  assumes "workspace_settings_save print io s dk = (Inr (), dk')" "dk_core dk = Some c"
    and "open_studio home_root open_store env (opts_of_settings (Some (sc_root c)) s) = Inr fresh"
  shows "\<exists>c'. dk_core dk' = Some c' \<and> sc_preferred_editor c' = sc_preferred_editor fresh \<and>
    sd_capture_raw (sc_studio c') = sd_capture_raw (sc_studio fresh) \<and> sc_smoke_default_rows c' = sc_smoke_default_rows fresh \<and>
    sc_smoke_timeout_per_row_secs c' = sc_smoke_timeout_per_row_secs fresh \<and> sc_root c' = sc_root fresh \<and>
    sd_sessions (sc_studio c') = sd_sessions (sc_studio c) \<and> sd_store (sc_studio c') = sd_store (sc_studio c)"
  using assms
  by (auto simp: workspace_settings_save_def open_studio_def opts_of_settings_def set_smoke_defaults_def set_capture_raw_stdout_def
      set_preferred_editor_def split: prod.splits sum.splits)

lemma saved_settings_live_witness:
  "\<exists>c'. dk_core (snd (workspace_settings_save (\<lambda>_. ''s'') None (default_settings\<lparr> se_smoke_default_rows := 500 \<rparr>)
      \<lparr> dk_file = None, dk_core = Some \<lparr> sc_root = ''/w'', sc_studio = \<lparr> sd_store = empty_store ''/w'', sd_sessions = registry_new 3 1,
        sd_capture_raw = False \<rparr>, sc_preferred_editor = None, sc_smoke_default_rows = 5, sc_smoke_timeout_per_row_secs = 30 \<rparr> \<rparr>)) = Some c' \<and>
     sc_smoke_default_rows c' = 100"
proof -
  let ?c = "\<lparr> sc_root = ''/w'', sc_studio = \<lparr> sd_store = empty_store ''/w'', sd_sessions = registry_new 3 1,
        sd_capture_raw = False \<rparr>, sc_preferred_editor = None, sc_smoke_default_rows = 5, sc_smoke_timeout_per_row_secs = 30 \<rparr>"
  let ?s = "default_settings\<lparr> se_smoke_default_rows := 500 \<rparr>" and ?dk = "\<lparr> dk_file = None, dk_core = Some ?c \<rparr>"
  obtain dk' where d: "workspace_settings_save (\<lambda>_. ''s'') None ?s ?dk = (Inr (), dk')"
    by (simp add: workspace_settings_save_def save_settings_def)
  obtain fresh where f: "open_studio None (\<lambda>_. Inr (empty_store ''/w'')) demo_scan (opts_of_settings (Some (sc_root ?c)) ?s) = Inr fresh"
    "sc_smoke_default_rows fresh = 100" by (simp add: open_studio_def opts_of_settings_def clamp_rows_def)
  show ?thesis using saved_settings_live[OF d _ f(1)] f(2) d by auto
qed

text \<open>The settings file is emptied before it is written. If the write fails, or the application stops in between, no workspace can be
  opened any more, whichever is asked for: opening first loads the settings, and a file that does not parse is an error, not the defaults.
  (An empty text is no JSON.)\<close>

theorem interrupted_save_locks_out:
  assumes "workspace_settings_save print (Some 1) s dk = (r, dk')" "js [] = Inl err"
  shows "isl r \<and> workspace_open js print home_root open_store env io p dk' = (Inl (Io_Error (''settings parse: '' @ err)), dk')"
  using assms by (auto simp: workspace_settings_save_def save_settings_def poll.simps workspace_open_def load_settings_def Let_def)

lemma interrupted_save_locks_out_witness:
  "fst (workspace_open (\<lambda>_. Inl ''EOF'') (\<lambda>_. ''s'') None (\<lambda>_. Inr (empty_store ''/w'')) demo_scan None (Some ''/w'')
      (snd (workspace_settings_save (\<lambda>_. ''s'') (Some 1) default_settings \<lparr> dk_file = Some ''s'', dk_core = None \<rparr>)))
    = Inl (Io_Error ''settings parse: EOF'')"
proof -
  obtain r dk' where d: "workspace_settings_save (\<lambda>_. ''s'') (Some 1) default_settings \<lparr> dk_file = Some ''s'', dk_core = None \<rparr> = (r, dk')"
    by force
  show ?thesis
    using interrupted_save_locks_out[OF d, of "\<lambda>_. Inl ''EOF''" "''EOF''" None "\<lambda>_. Inr (empty_store ''/w'')" demo_scan None "Some ''/w''"] d
    by simp
qed

subsection \<open>The live log\<close>

fun got :: "'a pump_event \<Rightarrow> 'a list" where
  "got (Got x) = [x]"
| "got _ = []"

fun lagged :: "'a pump_event \<Rightarrow> nat" where
  "lagged (Lagged n) = n"
| "lagged _ = 0"

fun ends :: "'a pump_event \<Rightarrow> bool" where
  "ends Closed = True"
| "ends Cancelled = True"
| "ends _ = False"

definition pump_ok :: "'a list \<Rightarrow> nat \<Rightarrow> 'a pump \<Rightarrow> bool" where
  "pump_ok xs n s = (concat (map fst (pu_emitted s)) @ pu_batch s = xs \<and> sum_list (map snd (pu_emitted s)) + pu_dropped s = n \<and>
     length (pu_batch s) < PUMP_BATCH \<and> list_all (\<lambda>p. length (fst p) \<le> PUMP_BATCH) (pu_emitted s))"

lemma pump_step_ok: "pump_ok xs n s \<Longrightarrow> pump_ok (xs @ got e) (n + lagged e) (pump_step e s)"
  by (cases e) (auto simp: pump_ok_def pump_emit_def Let_def PUMP_BATCH_def)

lemma pump_stopped: "\<not> pu_running s \<Longrightarrow> pump_run es s = s"
  by (induction es arbitrary: s) (auto simp: pump_run_def)

lemma pump_running_step: "pu_running s \<Longrightarrow> pu_running (pump_step e s) = (\<not> ends e)"
  by (cases e) (auto simp: pump_emit_def Let_def)

text \<open>While the log of a running attempt is followed, the view gets every line the task received, once and in order, in parts of at most
  64, each with the number of lines the channel dropped before; what is not forwarded yet is fewer than 64 lines.
  When the log ends, those are dropped: they are neither forwarded nor counted.\<close>

theorem pump_forwards:
  "list_all (\<lambda>e. \<not> ends e) es \<longrightarrow>
     (let s = pump_run es pump_init in
      concat (map fst (pu_emitted s)) @ pu_batch s = concat (map got es) \<and>
      sum_list (map snd (pu_emitted s)) + pu_dropped s = sum_list (map lagged es) \<and>
      length (pu_batch s) < PUMP_BATCH \<and> list_all (\<lambda>p. length (fst p) \<le> PUMP_BATCH) (pu_emitted s) \<and>
      pu_emitted (pump_run (Closed # rest) s) = pu_emitted s)"
proof
  assume "list_all (\<lambda>e. \<not> ends e) es"
  moreover have "pump_ok (xs @ concat (map got es)) (n + sum_list (map lagged es)) (pump_run es s) \<and> pu_running (pump_run es s)"
    if "pump_ok xs n s" "pu_running s" "list_all (\<lambda>e. \<not> ends e) es" for xs n and s :: "'a pump"
    using that
  proof (induction es arbitrary: xs n s)
    case (Cons e es)
    then show ?case
      using Cons.IH[OF pump_step_ok[OF Cons.prems(1), of e]] pump_running_step[OF Cons.prems(2), of e]
      by (simp add: pump_run_def add.assoc)
  qed (simp add: pump_run_def)
  moreover have "pump_ok [] 0 pump_init" "pu_running pump_init" by (simp_all add: pump_ok_def pump_init_def PUMP_BATCH_def)
  ultimately have k: "pump_ok (concat (map got es)) (sum_list (map lagged es)) (pump_run es pump_init)" "pu_running (pump_run es pump_init)"
    by fastforce+
  have "pump_run (Closed # rest) (pump_run es pump_init) = (pump_run es pump_init)\<lparr> pu_running := False \<rparr>"
    using k(2) pump_stopped[of "(pump_run es pump_init)\<lparr> pu_running := False \<rparr>" rest] by (simp add: pump_run_def)
  then show "let s = pump_run es pump_init in
      concat (map fst (pu_emitted s)) @ pu_batch s = concat (map got es) \<and>
      sum_list (map snd (pu_emitted s)) + pu_dropped s = sum_list (map lagged es) \<and>
      length (pu_batch s) < PUMP_BATCH \<and> list_all (\<lambda>p. length (fst p) \<le> PUMP_BATCH) (pu_emitted s) \<and>
      pu_emitted (pump_run (Closed # rest) s) = pu_emitted s"
    using k(1) by (simp add: pump_ok_def Let_def)
qed

lemma pump_forwards_witness:
  "pu_emitted (pump_run [Closed, Tick] (pump_run [Got (1::nat), Tick, Got 2] pump_init)) = [([1], 0)]"
proof -
  have "pu_emitted (pump_run (Closed # [Tick]) (pump_run [Got (1::nat), Tick, Got 2] pump_init)) =
      pu_emitted (pump_run [Got (1::nat), Tick, Got 2] pump_init)"
    using pump_forwards[of "[Got (1::nat), Tick, Got 2]" "[Tick]"] by (simp add: Let_def)
  then show ?thesis by (simp add: pump_run_def pump_init_def pump_emit_def PUMP_BATCH_def Let_def)
qed

end
