(* ===== verification/Store_Clients.thy ===== *)
theory Store_Clients
  imports Studio_Core Cli_Exec
begin

text \<open>
  Everything that changes the registry does so through its operations (\<^verbatim>\<open>execution_store.rs\<close>): the Studio's starts, ends, creations, deletions
  and recovery, and the commands of the command line. The locale \<open>store_client\<close> takes a property of the registry that its operations keep, but for the
  deletion of executions that matter to it, and gives what those callers keep. It is interpreted for the well-formed tables and
  for the row of an attempt that has ended.
\<close>

section \<open>What the callers of the registry keep\<close>

locale store_client =
  fixes P :: "store \<Rightarrow> bool" and spared :: "string \<Rightarrow> bool"
  assumes keeps: "P st \<Longrightarrow> (\<And>e. op = store_op.Op_Delete e \<Longrightarrow> \<not> spared e) \<Longrightarrow> P (run_op sha op st)"
begin

lemma operations_keep [simp]:
  assumes "P st"
  shows "P (snd (register_handler_instance u now nh st))" "P (snd (create_attempt u now na f st))"
    "P (snd (finish_attempt i fi now f st))" "P (snd (set_last_handler_dir i d st))" "P (snd (set_execution_state i s re now f st))"
    "P (snd (create_execution sha src ext u now nx f st))"
  using keeps[OF assms, of "Op_Register u now nh"] keeps[OF assms, of "Op_Create_Attempt u now na f"]
    keeps[OF assms, of "Op_Finish_Attempt i fi now f"] keeps[OF assms, of "Op_Set_Last_Handler_Dir i d"]
    keeps[OF assms, of "Op_Set_State i s re now f"] keeps[OF assms, of "Op_Create_Execution src ext u now nx f" sha]
  by simp_all

lemma results_keep:
  "register_handler_instance u now nh st = (r1, st') \<Longrightarrow> P st \<Longrightarrow> P st'"
  "create_attempt u now na f st = (r2, st') \<Longrightarrow> P st \<Longrightarrow> P st'"
  "finish_attempt i fi now f st = (r3, st') \<Longrightarrow> P st \<Longrightarrow> P st'"
  "set_execution_state i s re now f st = (r4, st') \<Longrightarrow> P st \<Longrightarrow> P st'"
  "create_execution sha src ext u now nx f st = (r5, st') \<Longrightarrow> P st \<Longrightarrow> P st'"
  by (metis operations_keep snd_conv)+

lemma deletion_keeps: "P st \<Longrightarrow> \<not> spared e \<Longrightarrow> P (snd (delete_execution e st))"
  using keeps[of st "store_op.Op_Delete e"] by simp

lemma open_attempt_keeps: "P st \<Longrightarrow> P (snd (open_attempt env e opts st))"
  by (auto simp: open_attempt_def split: sum.splits prod.splits dest: results_keep)

lemma start_run_keeps: "P (sd_store sd) \<Longrightarrow> P (sd_store (snd (start_run env e opts sd)))"
  using open_attempt_keeps[of "sd_store sd" env e opts]
  by (auto simp: start_run_def start_commit_def split: sum.splits prod.splits)

lemma finish_run_keeps: "P (sd_store sd) \<Longrightarrow> P (sd_store (snd (finish_run now f dur s res sd)))"
  by (auto simp: finish_run_def Let_def split: prod.splits dest: results_keep)

lemma cancel_run_keeps: "P (sd_store sd) \<Longrightarrow> P (sd_store (snd (cancel_run h mode sd)))"
  by (auto simp: cancel_run_def update_session_def split: sum.splits)

lemma start_exec_keeps: "P st \<Longrightarrow> P (snd (start_exec sha fs chunks u now io args st))"
  by (auto simp: start_exec_def Let_def split: sum.splits prod.splits dest: results_keep)

lemma execution_delete_keeps:
  "P (sd_store (sk_studio sk)) \<Longrightarrow> \<not> spared i \<Longrightarrow> P (sd_store (sk_studio (snd (execution_delete ws i sk))))"
  using deletion_keeps[of "sd_store (sk_studio sk)" i] by (auto simp: execution_delete_def Let_def split: prod.splits)

lemma execution_delete_bulk_keeps:
  "P (sd_store (sk_studio sk)) \<Longrightarrow> list_all (\<lambda>i. \<not> spared i) is \<Longrightarrow> P (sd_store (sk_studio (snd (execution_delete_bulk ws is sk))))"
proof (induction "is" arbitrary: sk)
  case (Cons i "is")
  then have "P (sd_store (sk_studio (snd (execution_delete ws i sk))))" by (simp add: execution_delete_keeps)
  then show ?case using Cons by (auto split: prod.splits sum.splits) (metis snd_conv)+
qed simp

text \<open>The recovery of orphans may stop at an error half way.\<close>

lemma store_after_eq [simp]: "store_after (Inl x) = snd x" "store_after (Inr y) = snd y"
  by (simp_all add: store_after_def split: prod.split)

lemma fold_result_store:
  assumes "\<And>x acc. P (snd acc) \<Longrightarrow> P (store_after (f x acc))" "P (snd acc)"
  shows "P (store_after (fold_result f xs acc))"
  using assms(2)
proof (induction xs arbitrary: acc)
  case (Cons x xs)
  then show ?case using assms(1)[OF Cons.prems, of x] by (cases "f x acc") auto
qed simp

lemma scan_keeps: "P st \<Longrightarrow> P (store_after (scan_for_orphans env st))"
proof -
  have "P (store_after (scan_attempt env x a acc))" if "P (snd acc)" for x a acc
    using that by (auto simp: scan_attempt_def split: prod.splits sum.splits dest: results_keep)
  then have "P (store_after (scan_execution env x acc))" if "P (snd acc)" for x acc
    using that fold_result_store[of "scan_attempt env x" acc]
    by (cases "list_attempts_for_execution (snd acc) (ex_id x)") (simp_all add: scan_execution_def)
  then show "P st \<Longrightarrow> P (store_after (scan_for_orphans env st))"
    using fold_result_store[of "scan_execution env" "(0, st)"] by (cases "list_executions st") (simp_all add: scan_for_orphans_def)
qed

lemma open_studio_keeps:
  assumes "\<And>d st. open_store d = Inr st \<Longrightarrow> P st" "open_studio home open_store env opts = Inr c"
  shows "P (sd_store (sc_studio c))"
  using assms scan_keeps by (auto simp: open_studio_def split: option.splits sum.splits)

lemma run_attempt_keeps: "P st \<Longrightarrow> P (snd (run_attempt env st a))"
proof -
  have d: "P (snd (dispatch_attempt env a x skip dir att st))" if "P st" for x skip dir att st
    using that by (auto simp: dispatch_attempt_def Let_def split: option.split prod.split dest: results_keep)
  show "P st \<Longrightarrow> P (snd (run_attempt env st a))"
    by (auto simp: run_attempt_def split: sum.splits prod.splits dest: results_keep intro!: d)
qed

lemma cli_set_state_keeps: "P st \<Longrightarrow> P (snd (cli_set_state i s re now f st))"
  by (auto simp: cli_set_state_def split: prod.splits sum.splits dest: results_keep)

end

interpretation wf: store_client store_ok "\<lambda>_. False"
  by unfold_locales (simp add: run_op_ok)

text \<open>The row of an attempt that has ended.\<close>

definition ended_row :: "string \<Rightarrow> attempt_row \<Rightarrow> store \<Rightarrow> bool" where
  "ended_row a r st = (find_attempt st a = Some r \<and> is_terminal_text (ar_state r))"

interpretation ended: store_client "ended_row a r" "\<lambda>e. e = ar_execution_id r"
  by unfold_locales (metis ended_row_def terminal_kept_op)

end
