(* ===== verification/Desktop_Commands.thy ===== *)
theory Desktop_Commands
  imports Desktop Smoke Studio_Views Store_Clients
begin

text \<open>
  The commands of the desktop application (\<^verbatim>\<open>src-tauri/commands.rs\<close>, the list of them in \<^verbatim>\<open>src-tauri/lib.rs\<close>) over everything they share: the
  settings and the open workspace, the disk, the caches, the events sent to the window, and the table of log subscriptions. A command
  is one step; what the Studio's tasks do on their own between commands (a run that ends, a log that closes) are steps too.
\<close>

section \<open>The state of the application\<close>

text \<open>\<open>sw_tokens\<close> is \<^verbatim>\<open>handler_log_cancels\<close>; a token is the number of the forwarding task it stops, and \<open>sw_pumps\<close> are the tasks ever
  spawned: the attempt each follows, and whether it still runs. \<open>sw_emitted\<close> are the refresh hints sent.\<close>

record shell =
  sw_desktop :: desktop
  sw_disk :: "fuse \<times> fs"
  sw_builds :: "(string, build_outcome) bt"
  sw_lists :: "(unit, exec_summary list) cache"
  sw_tokens :: "(string, nat) bt"
  sw_pumps :: "(string \<times> bool) list"
  sw_emitted :: "string list"

text \<open>What the commands meet outside: parsers and printers, the files of runs, the clock, fresh identifiers, child processes.\<close>

record 'ts shell_env =
  hv_settings :: "string \<Rightarrow> string + json"
  hv_print :: "json \<Rightarrow> string"
  hv_save_io :: fuse
  hv_home :: "path option"
  hv_open :: "path \<Rightarrow> core_error + store"
  hv_scan :: scan_env
  hv_js :: "string \<Rightarrow> json option"
  hv_read :: "path \<Rightarrow> string option"
  hv_files :: "path \<Rightarrow> text_file"
  hv_list_times :: "nat \<times> nat option \<times> nat \<times> nat option"
  hv_ser :: "json \<Rightarrow> string"
  hv_parse :: "string \<Rightarrow> string + batch_outcome"
  hv_export_io :: "path \<Rightarrow> string option"
  hv_export_now :: string
  hv_sha :: "string \<Rightarrow> string"
  hv_chunks :: "path \<Rightarrow> string list option"
  hv_ulid :: string
  hv_now :: time
  hv_create_io :: fuse
  hv_start :: start_env
  hv_parse_ts :: "string \<Rightarrow> 'ts option"
  hv_yaml :: "string \<Rightarrow> string + manifest"
  hv_to_yaml :: "manifest \<Rightarrow> string + string"
  hv_templates :: "path \<Rightarrow> string"
  hv_on_path :: "string \<Rightarrow> bool"
  hv_mtime :: "string list \<Rightarrow> nat"
  hv_other_len :: nat
  hv_exec :: "path \<Rightarrow> string list \<Rightarrow> string + (int option \<times> string \<times> string)"
  hv_split :: "string \<Rightarrow> string + string list"
  hv_spawn :: "string list \<Rightarrow> string + unit"
  hv_visual :: "string option"
  hv_editor :: "string option"
  hv_open_path :: "path \<Rightarrow> string + unit"
  hv_smoke :: smoke_env
  hv_fixtures :: fixture_env

datatype 'ts reply =
    R_Unit
  | R_Path path
  | R_Current "path option"
  | R_Settings settings
  | R_Execs "exec_summary list"
  | R_Exec exec_detail
  | R_Rollup exec_rollup
  | R_Id string
  | R_Export export_report
  | R_Manifest manifest_report
  | R_Attempt attempt_detail
  | R_Page failed_page
  | R_History row_history
  | R_Started string string
  | R_Status run_status
  | R_Handles "string list"
  | R_Snapshot snapshot
  | R_Handle "string option"
  | R_Handlers "handler_summary list"
  | R_Handler handler_detail
  | R_Build build_outcome
  | R_Log "'ts handler_log_line list"
  | R_Bulk "string list" "(string \<times> string) list"
  | R_Seqs "nat list"
  | R_Smoke smoke_result
  | R_Rows "obj list"

text \<open>No result (\<open>None\<close>) where the operation of the Studio has none: a panic of the build, an import of a folder into itself.\<close>

type_synonym 'ts answer = "((ui_error + 'ts reply) \<times> shell) option"

section \<open>Reaching the open workspace\<close>

text \<open>A command that only reads; one that changes the open core; one that also changes the rest of the application.\<close>

definition read_core :: "('a \<Rightarrow> 'ts reply) \<Rightarrow> (studio_core \<Rightarrow> ui_error + 'a) \<Rightarrow> shell \<Rightarrow> 'ts answer" where
  "read_core ret f sh = Some (map_sum id ret (with_core f (sw_desktop sh)), sh)"

definition set_studio :: "studio \<Rightarrow> shell \<Rightarrow> shell" where
  "set_studio sd sh =
     sh\<lparr> sw_desktop := (sw_desktop sh)\<lparr> dk_core := map_option (\<lambda>c. c\<lparr> sc_studio := sd \<rparr>) (dk_core (sw_desktop sh)) \<rparr> \<rparr>"

definition on_core :: "(studio_core \<Rightarrow> 'ts answer) \<Rightarrow> shell \<Rightarrow> 'ts answer" where
  "on_core f sh =
     (case dk_core (sw_desktop sh) of
        None \<Rightarrow> Some (Inl (Workspace_Locked ''no workspace open''), sh)
      | Some c \<Rightarrow> f c)"

definition emit :: "string \<Rightarrow> shell \<Rightarrow> shell" where
  "emit e sh = sh\<lparr> sw_emitted := sw_emitted sh @ [e] \<rparr>"

definition emit_if :: "bool \<Rightarrow> string \<Rightarrow> shell \<Rightarrow> shell" where
  "emit_if b e sh = (if b then emit e sh else sh)"

section \<open>Workspace and settings\<close>

text \<open>A workspace that opens brings a core of its own: its caches start empty, its table of runs too.\<close>

definition cmd_workspace_open :: "'ts shell_env \<Rightarrow> path option \<Rightarrow> shell \<Rightarrow> 'ts answer" where
  "cmd_workspace_open env p sh =
     (case workspace_open (hv_settings env) (hv_print env) (hv_home env) (hv_open env) (hv_scan env) (hv_save_io env) p (sw_desktop sh) of
        (Inl e, dk) \<Rightarrow> Some (Inl e, sh\<lparr> sw_desktop := dk \<rparr>)
      | (Inr dir, dk) \<Rightarrow> Some (Inr (R_Path dir), sh\<lparr> sw_desktop := dk, sw_builds := [], sw_lists := Map.empty \<rparr>))"

definition cmd_workspace_settings_load :: "'ts shell_env \<Rightarrow> shell \<Rightarrow> 'ts answer" where
  "cmd_workspace_settings_load env sh =
     Some (map_sum id R_Settings (load_settings (hv_settings env) (dk_file (sw_desktop sh))), sh)"

definition cmd_workspace_settings_save :: "'ts shell_env \<Rightarrow> settings \<Rightarrow> shell \<Rightarrow> 'ts answer" where
  "cmd_workspace_settings_save env s sh =
     (case workspace_settings_save (hv_print env) (hv_save_io env) s (sw_desktop sh) of
        (r, dk) \<Rightarrow> Some (map_sum id (\<lambda>_. R_Unit) r, sh\<lparr> sw_desktop := dk \<rparr>))"

definition cmd_workspace_current :: "shell \<Rightarrow> 'ts answer" where
  "cmd_workspace_current sh = Some (Inr (R_Current (workspace_current (sw_desktop sh))), sh)"

section \<open>Executions and attempts\<close>

definition store_of :: "studio_core \<Rightarrow> store" where
  "store_of c = sd_store (sc_studio c)"

definition cmd_exec_list :: "'ts shell_env \<Rightarrow> shell \<Rightarrow> 'ts answer" where
  "cmd_exec_list env sh = on_core (\<lambda>c.
     (case hv_list_times env of
        (now, mtime, put_now, put_mtime) \<Rightarrow>
          (case list_execs \<lparr> lc_now = now, lc_mtime = mtime, lc_put_now = put_now, lc_put_mtime = put_mtime,
                  lc_fresh = fresh_list (hv_js env) (hv_read env) (sc_root c) (snd (sw_disk sh)) (store_of c) \<rparr> (sw_lists sh) of
             (r, cache) \<Rightarrow> Some (map_sum id R_Execs r, sh\<lparr> sw_lists := cache \<rparr>)))) sh"

definition cmd_exec_show :: "'ts shell_env \<Rightarrow> string \<Rightarrow> shell \<Rightarrow> 'ts answer" where
  "cmd_exec_show env e = read_core R_Exec (\<lambda>c. show_exec (hv_js env) (hv_read env) (store_of c) e)"

definition cmd_attempt_show :: "'ts shell_env \<Rightarrow> string \<Rightarrow> string \<Rightarrow> shell \<Rightarrow> 'ts answer" where
  "cmd_attempt_show env e a = read_core R_Attempt (\<lambda>c. show_attempt (hv_js env) (hv_read env) (store_of c) e a)"

definition cmd_exec_rollup :: "'ts shell_env \<Rightarrow> string \<Rightarrow> shell \<Rightarrow> 'ts answer" where
  "cmd_exec_rollup env e = read_core R_Rollup (\<lambda>c. studio_rollup (hv_ser env) (hv_parse env) (hv_files env) (store_of c) e)"

definition cmd_attempt_failed_page :: "'ts shell_env \<Rightarrow> page_query \<Rightarrow> shell \<Rightarrow> 'ts answer" where
  "cmd_attempt_failed_page env q =
     read_core R_Page (\<lambda>c. failed_page_of (hv_js env) (hv_files env) (store_of c) (fq_execution_id q) (fq_attempt_id q) q)"

definition cmd_attempt_row_history :: "'ts shell_env \<Rightarrow> string \<Rightarrow> nat \<Rightarrow> shell \<Rightarrow> 'ts answer" where
  "cmd_attempt_row_history env e sq = read_core R_History (\<lambda>c. row_history (hv_js env) (hv_files env) (store_of c) e sq)"

definition cmd_attempt_failed_row_ids :: "'ts shell_env \<Rightarrow> string \<Rightarrow> string \<Rightarrow> shell \<Rightarrow> 'ts answer" where
  "cmd_attempt_failed_row_ids env e a =
     read_core R_Seqs (\<lambda>c. attempt_failed_row_ids (hv_js env) (hv_files env) (sc_root c) e a)"

definition cmd_exec_start :: "'ts shell_env \<Rightarrow> start_exec_args \<Rightarrow> shell \<Rightarrow> 'ts answer" where
  "cmd_exec_start env args sh = on_core (\<lambda>c.
     (case start_exec (hv_sha env) (snd (sw_disk sh)) (hv_chunks env) (hv_ulid env) (hv_now env) (hv_create_io env) args (store_of c) of
        (r, st) \<Rightarrow> Some (map_sum id R_Id r, set_studio ((sc_studio c)\<lparr> sd_store := st \<rparr>) sh))) sh"

definition cmd_exec_export :: "'ts shell_env \<Rightarrow> string \<Rightarrow> export_opts \<Rightarrow> shell \<Rightarrow> 'ts answer" where
  "cmd_exec_export env e opts = read_core R_Export
     (\<lambda>c. fst (studio_export (hv_ser env) (hv_parse env) (hv_files env) (hv_export_io env) (hv_export_now env) (store_of c) e opts))"

definition cmd_execution_delete :: "string \<Rightarrow> shell \<Rightarrow> 'ts answer" where
  "cmd_execution_delete i sh = on_core (\<lambda>c.
     (case execution_delete (sc_root c) i \<lparr> sk_studio = sc_studio c, sk_disk = sw_disk sh \<rparr> of
        (r, sk) \<Rightarrow> Some (map_sum id (\<lambda>_. R_Unit) r,
          emit_if (\<not> isl r) ''exec_list:refresh'' (set_studio (sk_studio sk) (sh\<lparr> sw_disk := sk_disk sk \<rparr>))))) sh"

definition cmd_execution_delete_bulk :: "string list \<Rightarrow> shell \<Rightarrow> 'ts answer" where
  "cmd_execution_delete_bulk is sh = on_core (\<lambda>c.
     (case execution_delete_bulk (sc_root c) is \<lparr> sk_studio = sc_studio c, sk_disk = sw_disk sh \<rparr> of
        ((deleted, failed), sk) \<Rightarrow> Some (Inr (R_Bulk deleted failed),
          emit_if (deleted \<noteq> []) ''exec_list:refresh'' (set_studio (sk_studio sk) (sh\<lparr> sw_disk := sk_disk sk \<rparr>))))) sh"


section \<open>Runs\<close>

definition cmd_run_start ::
    "'ts shell_env \<Rightarrow> string \<Rightarrow> path \<Rightarrow> nat option \<Rightarrow> nat option \<Rightarrow> bool option \<Rightarrow> bool option \<Rightarrow> nat list option
      \<Rightarrow> shell \<Rightarrow> 'ts answer" where
  "cmd_run_start env e dir row_limit workers dry_run skip_attempted only sh = on_core (\<lambda>c.
     (case start_run (hv_start env) e (run_opts_of dir row_limit workers dry_run skip_attempted only) (sc_studio c) of
        (Inl err, sd) \<Rightarrow> Some (Inl err, set_studio sd sh)
      | (Inr l, sd) \<Rightarrow>
          (case subscribe (la_handle l) sd of
             Inl err \<Rightarrow> Some (Inl (Internal_Error (ui_error_text err)), set_studio sd sh)
           | Inr _ \<Rightarrow> Some (Inr (R_Started (la_handle l) (at_id (la_attempt l))), set_studio sd sh)))) sh"

definition cmd_run_cancel :: "string \<Rightarrow> cancel_mode \<Rightarrow> shell \<Rightarrow> 'ts answer" where
  "cmd_run_cancel h mode sh = on_core (\<lambda>c.
     (case cancel_run h mode (sc_studio c) of (r, sd) \<Rightarrow> Some (map_sum id (\<lambda>_. R_Unit) r, set_studio sd sh))) sh"

definition cmd_run_status :: "string \<Rightarrow> shell \<Rightarrow> 'ts answer" where
  "cmd_run_status h = read_core R_Status (\<lambda>c. run_status_of h (sc_studio c))"

definition cmd_run_active :: "shell \<Rightarrow> 'ts answer" where
  "cmd_run_active = read_core R_Handles (\<lambda>c. Inr (active_runs (sc_studio c)))"

definition cmd_attempt_active_handle :: "string \<Rightarrow> shell \<Rightarrow> 'ts answer" where
  "cmd_attempt_active_handle a = read_core R_Handle (\<lambda>c. Inr (active_handle_for_attempt a (sc_studio c)))"

definition cmd_run_snapshot :: "string \<Rightarrow> shell \<Rightarrow> 'ts answer" where
  "cmd_run_snapshot h = read_core R_Snapshot (\<lambda>c. live_snapshot h (sc_studio c))"

text \<open>What the window gets of a run (\<^verbatim>\<open>events.rs\<close>): each event received, a warning for those the channel dropped, until it closes; and
  each second the rollup of all runs.\<close>

datatype run_recv = Run_Event ui_event | Run_Lagged nat | Run_Closed

fun forward_run_events :: "run_recv list \<Rightarrow> ui_event list" where
  "forward_run_events [] = []"
| "forward_run_events (Run_Event e # rs) = e # forward_run_events rs"
| "forward_run_events (Run_Lagged n # rs) =
     Pipeline_Warning ''EVENT_LAG'' (nat_str n @ '' events dropped'') # forward_run_events rs"
| "forward_run_events (Run_Closed # rs) = []"

definition forward_active_runs :: "registry list \<Rightarrow> rollup_tick list" where
  "forward_active_runs = map rollup_of"

section \<open>Handlers\<close>

definition cmd_manifest_validate :: "'ts shell_env \<Rightarrow> path \<Rightarrow> shell \<Rightarrow> 'ts answer" where
  "cmd_manifest_validate env p sh =
     read_core R_Manifest (\<lambda>c. Inr (validate_manifest (hv_yaml env) (hv_on_path env) (snd (sw_disk sh)) p)) sh"

definition cmd_handler_list :: "'ts shell_env \<Rightarrow> shell \<Rightarrow> 'ts answer" where
  "cmd_handler_list env sh =
     read_core R_Handlers (\<lambda>c. list_handlers (hv_yaml env) (hv_mtime env) (snd (sw_disk sh)) (sc_root c)) sh"

definition cmd_handler_show :: "'ts shell_env \<Rightarrow> string \<Rightarrow> shell \<Rightarrow> 'ts answer" where
  "cmd_handler_show env n sh = read_core R_Handler
     (\<lambda>c. handler_show (hv_yaml env) (hv_on_path env) (hv_mtime env) (hv_other_len env) (sw_builds sh) (snd (sw_disk sh)) (sc_root c) n) sh"

definition cmd_handler_open_editor :: "'ts shell_env \<Rightarrow> string \<Rightarrow> shell \<Rightarrow> 'ts answer" where
  "cmd_handler_open_editor env n sh = read_core (\<lambda>_. R_Unit)
     (\<lambda>c. open_editor (hv_split env) (hv_on_path env) (hv_spawn env) (hv_visual env) (hv_editor env) (snd (sw_disk sh)) (sc_root c) n
        (sc_preferred_editor c)) sh"

definition cmd_handler_reveal :: "'ts shell_env \<Rightarrow> string \<Rightarrow> shell \<Rightarrow> 'ts answer" where
  "cmd_handler_reveal env n sh = read_core (\<lambda>_. R_Unit)
     (\<lambda>c. case reveal_path (snd (sw_disk sh)) (sc_root c) n of
        Inl e \<Rightarrow> Inl e
      | Inr p \<Rightarrow> (case hv_open_path env p of Inl e \<Rightarrow> Inl (Io_Error e) | Inr _ \<Rightarrow> Inr ())) sh"

text \<open>An operation that changes a handler sends the refresh hint if it succeeds; a build sends it in any case.\<close>

definition handlers_changed :: "('a \<Rightarrow> 'ts reply) \<Rightarrow> 'a op_result \<Rightarrow> shell \<Rightarrow> (ui_error + 'ts reply) \<times> shell" where
  "handlers_changed ret x sh =
     (map_sum id ret (fst x), emit_if (\<not> isl (fst x)) ''handlers:list'' (sh\<lparr> sw_disk := snd x \<rparr>))"

definition cmd_handler_scaffold :: "'ts shell_env \<Rightarrow> scaffold_args \<Rightarrow> shell \<Rightarrow> 'ts answer" where
  "cmd_handler_scaffold env args sh =
     on_core (\<lambda>c. Some (handlers_changed R_Id (scaffold (hv_templates env) (sc_root c) args (sw_disk sh)) sh)) sh"

definition cmd_handler_delete :: "string \<Rightarrow> shell \<Rightarrow> 'ts answer" where
  "cmd_handler_delete n sh = on_core (\<lambda>c. Some (handlers_changed (\<lambda>_. R_Unit) (delete_handler (sc_root c) n (sw_disk sh)) sh)) sh"

definition cmd_handler_rename :: "string \<Rightarrow> string \<Rightarrow> shell \<Rightarrow> 'ts answer" where
  "cmd_handler_rename a b sh = on_core (\<lambda>c. Some (handlers_changed (\<lambda>_. R_Unit) (rename_handler (sc_root c) a b (sw_disk sh)) sh)) sh"

definition cmd_handler_import :: "path \<Rightarrow> string \<Rightarrow> shell \<Rightarrow> 'ts answer" where
  "cmd_handler_import source n sh =
     on_core (\<lambda>c. map_option (\<lambda>x. handlers_changed (\<lambda>_. R_Unit) x sh) (import_from_folder (sc_root c) source n (sw_disk sh))) sh"

definition cmd_handler_fork :: "'ts shell_env \<Rightarrow> string \<Rightarrow> string \<Rightarrow> shell \<Rightarrow> 'ts answer" where
  "cmd_handler_fork env a b sh =
     on_core (\<lambda>c. map_option (\<lambda>x. handlers_changed (\<lambda>_. R_Unit) x sh)
       (fork_handler (hv_yaml env) (hv_to_yaml env) (sc_root c) a b (sw_disk sh))) sh"

definition cmd_handler_build :: "'ts shell_env \<Rightarrow> string \<Rightarrow> shell \<Rightarrow> 'ts answer" where
  "cmd_handler_build env n sh = on_core (\<lambda>c.
     map_option (\<lambda>(r, cache). (map_sum id R_Build r, emit ''handlers:list'' (sh\<lparr> sw_builds := cache \<rparr>)))
       (handler_build (hv_yaml env) (hv_on_path env) (hv_exec env) (snd (sw_disk sh)) (sc_root c) n (sw_builds sh))) sh"

definition cmd_handler_smoke_run :: "'ts shell_env \<Rightarrow> string \<Rightarrow> obj list \<Rightarrow> shell \<Rightarrow> 'ts answer" where
  "cmd_handler_smoke_run env n rows sh = on_core (\<lambda>c.
     map_option (\<lambda>(r, cache). (map_sum id R_Smoke r, sh\<lparr> sw_builds := cache \<rparr>))
       (handler_smoke_run (hv_smoke env) (snd (sw_disk sh)) c n rows (sw_builds sh))) sh"

definition cmd_handler_smoke_load_fixtures :: "'ts shell_env \<Rightarrow> path \<Rightarrow> nat \<Rightarrow> shell \<Rightarrow> 'ts answer" where
  "cmd_handler_smoke_load_fixtures env p n sh =
     read_core R_Rows (\<lambda>c. smoke_load_fixtures (hv_fixtures env) (snd (sw_disk sh)) p n) sh"

section \<open>Logs\<close>

definition cmd_handler_log_tail :: "'ts shell_env \<Rightarrow> string \<Rightarrow> string \<Rightarrow> nat option \<Rightarrow> shell \<Rightarrow> 'ts answer" where
  "cmd_handler_log_tail env e a n sh = read_core R_Log
     (\<lambda>c. handler_log_tail (hv_parse_ts env) (sc_root c) (snd (sw_disk sh)) e a (case n of None \<Rightarrow> 5000 | Some k \<Rightarrow> k)) sh"

definition stop_pump :: "nat \<Rightarrow> shell \<Rightarrow> shell" where
  "stop_pump k sh = sh\<lparr> sw_pumps := (sw_pumps sh)[k := (fst (sw_pumps sh ! k), False)] \<rparr>"

text \<open>\<^verbatim>\<open>remove\<close> the token of the attempt and cancel it.\<close>

definition drop_token :: "string \<Rightarrow> shell \<Rightarrow> shell" where
  "drop_token a sh =
     (case bt_lookup (sw_tokens sh) a of
        None \<Rightarrow> sh
      | Some k \<Rightarrow> stop_pump k (sh\<lparr> sw_tokens := bt_remove a (sw_tokens sh) \<rparr>))"

definition spawn_pump :: "string \<Rightarrow> shell \<Rightarrow> shell" where
  "spawn_pump a sh =
     sh\<lparr> sw_tokens := bt_insert a (length (sw_pumps sh)) (sw_tokens sh), sw_pumps := sw_pumps sh @ [(a, True)] \<rparr>"

definition cmd_handler_log_subscribe :: "string \<Rightarrow> string \<Rightarrow> shell \<Rightarrow> 'ts answer" where
  "cmd_handler_log_subscribe e a sh = on_core (\<lambda>c.
     (case handler_log_subscribe a (sd_sessions (sc_studio c)) of
        Inl err \<Rightarrow> Some (Inl err, sh)
      | Inr _ \<Rightarrow> Some (Inr R_Unit, spawn_pump a (drop_token a sh)))) sh"

definition cmd_handler_log_unsubscribe :: "string \<Rightarrow> shell \<Rightarrow> 'ts answer" where
  "cmd_handler_log_unsubscribe a sh = Some (Inr R_Unit, drop_token a sh)"


section \<open>The commands together\<close>

text \<open>The commands registered with the window, in the order of the list.\<close>

datatype command =
    Workspace_Open "path option"
  | Workspace_Current
  | Workspace_Settings_Load
  | Workspace_Settings_Save settings
  | Exec_List
  | Exec_Show string
  | Exec_Rollup string
  | Exec_Start start_exec_args
  | Exec_Export string export_opts
  | Manifest_Validate path
  | Attempt_Show string string
  | Attempt_Failed_Page page_query
  | Attempt_Row_History string nat
  | Run_Start string path "nat option" "nat option" "bool option" "bool option" "nat list option"
  | Run_Cancel string cancel_mode
  | Run_Status string
  | Run_Active
  | Run_Snapshot string
  | Attempt_Active_Handle string
  | Handler_List
  | Handler_Show string
  | Handler_Open_Editor string
  | Handler_Reveal string
  | Handler_Scaffold scaffold_args
  | Handler_Delete string
  | Handler_Rename string string
  | Handler_Build string
  | Handler_Log_Tail string string "nat option"
  | Handler_Log_Subscribe string string
  | Handler_Log_Unsubscribe string
  | Execution_Delete string
  | Execution_Delete_Bulk "string list"
  | Attempt_Failed_Row_Ids string string
  | Handler_Import_From_Folder path string
  | Handler_Fork string string
  | Handler_Smoke_Run string "obj list"
  | Handler_Smoke_Load_Fixtures path nat

fun invoke :: "'ts shell_env \<Rightarrow> command \<Rightarrow> shell \<Rightarrow> 'ts answer" where
  "invoke env (Workspace_Open p) = cmd_workspace_open env p"
| "invoke env Workspace_Current = cmd_workspace_current"
| "invoke env Workspace_Settings_Load = cmd_workspace_settings_load env"
| "invoke env (Workspace_Settings_Save s) = cmd_workspace_settings_save env s"
| "invoke env Exec_List = cmd_exec_list env"
| "invoke env (Exec_Show e) = cmd_exec_show env e"
| "invoke env (Exec_Rollup e) = cmd_exec_rollup env e"
| "invoke env (Exec_Start args) = cmd_exec_start env args"
| "invoke env (Exec_Export e opts) = cmd_exec_export env e opts"
| "invoke env (Manifest_Validate p) = cmd_manifest_validate env p"
| "invoke env (Attempt_Show e a) = cmd_attempt_show env e a"
| "invoke env (Attempt_Failed_Page q) = cmd_attempt_failed_page env q"
| "invoke env (Attempt_Row_History e sq) = cmd_attempt_row_history env e sq"
| "invoke env (Run_Start e dir n w d s only) = cmd_run_start env e dir n w d s only"
| "invoke env (Run_Cancel h mode) = cmd_run_cancel h mode"
| "invoke env (Run_Status h) = cmd_run_status h"
| "invoke env Run_Active = cmd_run_active"
| "invoke env (Run_Snapshot h) = cmd_run_snapshot h"
| "invoke env (Attempt_Active_Handle a) = cmd_attempt_active_handle a"
| "invoke env Handler_List = cmd_handler_list env"
| "invoke env (Handler_Show n) = cmd_handler_show env n"
| "invoke env (Handler_Open_Editor n) = cmd_handler_open_editor env n"
| "invoke env (Handler_Reveal n) = cmd_handler_reveal env n"
| "invoke env (Handler_Scaffold args) = cmd_handler_scaffold env args"
| "invoke env (Handler_Delete n) = cmd_handler_delete n"
| "invoke env (Handler_Rename a b) = cmd_handler_rename a b"
| "invoke env (Handler_Build n) = cmd_handler_build env n"
| "invoke env (Handler_Log_Tail e a n) = cmd_handler_log_tail env e a n"
| "invoke env (Handler_Log_Subscribe e a) = cmd_handler_log_subscribe e a"
| "invoke env (Handler_Log_Unsubscribe a) = cmd_handler_log_unsubscribe a"
| "invoke env (Execution_Delete i) = cmd_execution_delete i"
| "invoke env (Execution_Delete_Bulk is) = cmd_execution_delete_bulk is"
| "invoke env (Attempt_Failed_Row_Ids e a) = cmd_attempt_failed_row_ids env e a"
| "invoke env (Handler_Import_From_Folder p n) = cmd_handler_import p n"
| "invoke env (Handler_Fork a b) = cmd_handler_fork env a b"
| "invoke env (Handler_Smoke_Run n rows) = cmd_handler_smoke_run env n rows"
| "invoke env (Handler_Smoke_Load_Fixtures p n) = cmd_handler_smoke_load_fixtures env p n"

text \<open>What happens between commands: a run of the open core ends (with what its tasks returned), a followed log closes.\<close>

datatype 'ts app_step =
    Command "'ts shell_env" command
  | Run_Ends string time fuse nat "run_failure + run_report"
  | Log_Closes nat

definition run_ends :: "string \<Rightarrow> time \<Rightarrow> fuse \<Rightarrow> nat \<Rightarrow> run_failure + run_report \<Rightarrow> shell \<Rightarrow> shell" where
  "run_ends h now f dur res sh =
     (case dk_core (sw_desktop sh) of
        None \<Rightarrow> sh
      | Some c \<Rightarrow>
          (case get_session h (sd_sessions (sc_studio c)) of
             None \<Rightarrow> sh
           | Some s \<Rightarrow> set_studio (snd (finish_run now f dur s res (sc_studio c))) sh))"

text \<open>A command without a result leaves the state as it was.\<close>

fun shell_step :: "'ts app_step \<Rightarrow> shell \<Rightarrow> shell" where
  "shell_step (Command env c) sh = (case invoke env c sh of None \<Rightarrow> sh | Some (r, sh') \<Rightarrow> sh')"
| "shell_step (Run_Ends h now f dur res) sh = run_ends h now f dur res sh"
| "shell_step (Log_Closes k) sh = stop_pump k sh"

section \<open>Without a workspace\<close>

definition needs_workspace :: "command \<Rightarrow> bool" where
  "needs_workspace c =
     (case c of Workspace_Open _ \<Rightarrow> False | Workspace_Current \<Rightarrow> False | Workspace_Settings_Load \<Rightarrow> False
      | Workspace_Settings_Save _ \<Rightarrow> False | Handler_Log_Unsubscribe _ \<Rightarrow> False | _ \<Rightarrow> True)"

named_theorems cmd_defs "the commands of the window"

lemmas [cmd_defs] = cmd_exec_list_def cmd_exec_show_def cmd_attempt_show_def cmd_exec_rollup_def cmd_attempt_failed_page_def
  cmd_attempt_row_history_def cmd_attempt_failed_row_ids_def cmd_exec_start_def cmd_exec_export_def cmd_execution_delete_def
  cmd_execution_delete_bulk_def cmd_run_start_def cmd_run_cancel_def cmd_run_status_def cmd_run_active_def
  cmd_attempt_active_handle_def cmd_run_snapshot_def cmd_manifest_validate_def cmd_handler_list_def cmd_handler_show_def
  cmd_handler_open_editor_def cmd_handler_reveal_def cmd_handler_scaffold_def cmd_handler_delete_def cmd_handler_rename_def
  cmd_handler_import_def cmd_handler_fork_def cmd_handler_build_def cmd_handler_smoke_run_def cmd_handler_smoke_load_fixtures_def
  cmd_handler_log_tail_def cmd_handler_log_subscribe_def

text \<open>Before a workspace is open, every command but those on the workspace itself, on the settings, and the end of a log subscription, is
  refused with the same error, and nothing at all changes: neither the disk nor a cache nor the window.\<close>

theorem locked_without_workspace:
  assumes "dk_core (sw_desktop sh) = None" "needs_workspace c"
  shows "invoke env c sh = Some (Inl (Workspace_Locked ''no workspace open''), sh)"
  using assms by (cases c) (simp_all add: needs_workspace_def cmd_defs read_core_def with_core_def on_core_def)


section \<open>What every command keeps\<close>

definition core_has :: "(store \<Rightarrow> bool) \<Rightarrow> shell \<Rightarrow> bool" where
  "core_has P sh = (case dk_core (sw_desktop sh) of None \<Rightarrow> True | Some c \<Rightarrow> P (store_of c))"

definition sessions_ok :: "shell \<Rightarrow> bool" where
  "sessions_ok sh = (case dk_core (sw_desktop sh) of None \<Rightarrow> True | Some c \<Rightarrow> registry_ok (sd_sessions (sc_studio c)))"

text \<open>A token stops the task that follows its attempt, and a task that runs can be stopped by the token of its attempt: so at most one runs for each.\<close>

definition subs_ok :: "(string, nat) bt \<Rightarrow> (string \<times> bool) list \<Rightarrow> bool" where
  "subs_ok ts ps =
     (bt_ok ts \<and> (\<forall>a k. bt_lookup ts a = Some k \<longrightarrow> k < length ps \<and> fst (ps ! k) = a) \<and>
      (\<forall>k<length ps. snd (ps ! k) \<longrightarrow> bt_lookup ts (fst (ps ! k)) = Some k))"

text \<open>What is assumed of the outside at a step: a workspace that is opened has a registry with the property, and a run that is started has a fresh handle.\<close>

definition outside_ok :: "(store \<Rightarrow> bool) \<Rightarrow> 'ts app_step \<Rightarrow> shell \<Rightarrow> bool" where
  "outside_ok P s sh =
     (case s of
        Command env (Workspace_Open p) \<Rightarrow> (\<forall>d st. hv_open env d = Inr st \<longrightarrow> P st)
      | Command env (Run_Start e dir n w d sk only) \<Rightarrow>
          (case dk_core (sw_desktop sh) of
             None \<Rightarrow> True | Some c \<Rightarrow> ''run-'' @ sv_run_ulid (hv_start env) \<notin> set (handles (sd_sessions (sc_studio c))))
      | _ \<Rightarrow> True)"

fun deleted_by :: "command \<Rightarrow> string list" where
  "deleted_by (Execution_Delete i) = [i]"
| "deleted_by (Execution_Delete_Bulk is) = is"
| "deleted_by _ = []"

definition deletes :: "'ts app_step \<Rightarrow> string list" where
  "deletes s = (case s of Command env c \<Rightarrow> deleted_by c | _ \<Rightarrow> [])"

lemma parts_kept [simp]:
  "sw_desktop (emit e sh) = sw_desktop sh" "sw_desktop (emit_if b e sh) = sw_desktop sh" "sw_desktop (stop_pump k sh) = sw_desktop sh"
  "sw_desktop (drop_token a sh) = sw_desktop sh" "sw_desktop (spawn_pump a sh) = sw_desktop sh"
  "sw_tokens (set_studio sd sh) = sw_tokens sh" "sw_pumps (set_studio sd sh) = sw_pumps sh"
  "sw_tokens (emit e sh) = sw_tokens sh" "sw_pumps (emit e sh) = sw_pumps sh"
  "sw_tokens (emit_if b e sh) = sw_tokens sh" "sw_pumps (emit_if b e sh) = sw_pumps sh"
  "sw_tokens (stop_pump k sh) = sw_tokens sh"
  "dk_core (sw_desktop (set_studio sd sh)) = map_option (\<lambda>c. c\<lparr> sc_studio := sd \<rparr>) (dk_core (sw_desktop sh))"
  by (simp_all add: emit_def emit_if_def stop_pump_def drop_token_def spawn_pump_def set_studio_def split: option.split)

lemma handlers_changed_same:
  "handlers_changed ret x sh = (r, sh') \<Longrightarrow> sw_desktop sh' = sw_desktop sh \<and> sw_tokens sh' = sw_tokens sh \<and> sw_pumps sh' = sw_pumps sh"
  by (auto simp: handlers_changed_def)

text \<open>Most commands leave the core as it is.\<close>

definition touches_core :: "command \<Rightarrow> bool" where
  "touches_core c =
     (case c of Workspace_Open _ \<Rightarrow> True | Workspace_Settings_Save _ \<Rightarrow> True | Exec_Start _ \<Rightarrow> True | Execution_Delete _ \<Rightarrow> True
      | Execution_Delete_Bulk _ \<Rightarrow> True | Run_Start _ _ _ _ _ _ _ \<Rightarrow> True | Run_Cancel _ _ \<Rightarrow> True | _ \<Rightarrow> False)"

lemma core_untouched:
  assumes "\<not> touches_core c" "invoke env c sh = Some (r, sh')"
  shows "sw_desktop sh' = sw_desktop sh"
  using assms
  by (cases c) (auto simp: touches_core_def cmd_defs cmd_workspace_settings_load_def cmd_workspace_current_def
      cmd_handler_log_unsubscribe_def read_core_def on_core_def split: option.splits prod.splits sum.splits dest: handlers_changed_same)

lemma touches_core_cases:
  assumes "touches_core c"
  obtains (opened) p where "c = Workspace_Open p" | (saved) s where "c = Workspace_Settings_Save s" | (created) args where "c = Exec_Start args"
    | (deleted) i where "c = Execution_Delete i" | (deleted_all) "is" where "c = Execution_Delete_Bulk is"
    | (started) e dir n w d sk only where "c = Run_Start e dir n w d sk only" | (cancelled) h mode where "c = Run_Cancel h mode"
  using assms by (auto simp: touches_core_def split: command.splits)

lemma settings_core:
  "dk_core (snd (workspace_settings_save print io s dk)) =
     (if isl (fst (save_settings print io s (dk_file dk))) then dk_core dk
      else map_option (\<lambda>c. set_smoke_defaults (se_smoke_default_rows s) (se_smoke_timeout_per_row_secs s)
        (set_capture_raw_stdout (se_capture_raw_stdout s) (set_preferred_editor (se_preferred_editor s) c))) (dk_core dk))"
  by (simp add: workspace_settings_save_def case_prod_beta split: sum.split)

context store_client
begin

lemma open_keeps:
  assumes "core_has P sh" "\<And>d st. hv_open env d = Inr st \<Longrightarrow> P st" "cmd_workspace_open env p sh = Some (r, sh')"
  shows "core_has P sh'"
  using assms open_studio_keeps[of "hv_open env" "hv_home env" "hv_scan env"]
  by (auto simp: cmd_workspace_open_def workspace_open_def core_has_def store_of_def split: sum.splits prod.splits option.splits)

lemma invoke_keeps:
  assumes "core_has P sh" "outside_ok P (Command env c) sh" "list_all (\<lambda>i. \<not> spared i) (deleted_by c)" "invoke env c sh = Some (r, sh')"
  shows "core_has P sh'"
proof (cases "touches_core c")
  case False
  then show ?thesis using core_untouched[OF False assms(4)] assms(1) by (simp add: core_has_def)
next
  case True
  then show ?thesis
  proof (cases rule: touches_core_cases)
    case (opened p)
    then show ?thesis using open_keeps[of sh env p r sh'] assms by (simp add: outside_ok_def)
  next
    case (saved s)
    then show ?thesis
      using assms(1,4) by (auto simp: cmd_workspace_settings_save_def workspace_settings_save_def core_has_def store_of_def set_smoke_defaults_def
          set_capture_raw_stdout_def set_preferred_editor_def split: sum.splits prod.splits option.splits)
  next
    case (created args)
    then show ?thesis
      using assms(1,4) by (auto simp: cmd_exec_start_def on_core_def core_has_def store_of_def start_exec_keeps case_prod_beta split: option.splits)
  next
    case (deleted i)
    then show ?thesis
      using assms(1,3,4) by (auto simp: cmd_execution_delete_def on_core_def core_has_def store_of_def execution_delete_keeps execution_delete_bulk_keeps cancel_run_keeps case_prod_beta split: option.splits)
  next
    case (deleted_all "is")
    then show ?thesis
      using assms(1,3,4)
      by (auto simp: cmd_execution_delete_bulk_def on_core_def core_has_def store_of_def execution_delete_keeps execution_delete_bulk_keeps cancel_run_keeps case_prod_beta split: option.splits)
  next
    case (started e dir n w d sk only)
    then show ?thesis
      using assms(1,4)
      by (auto simp: cmd_run_start_def on_core_def core_has_def store_of_def start_run_keeps case_prod_beta split: option.splits sum.splits)
  next
    case (cancelled h mode)
    then show ?thesis
      using assms(1,4) by (auto simp: cmd_run_cancel_def on_core_def core_has_def store_of_def execution_delete_keeps execution_delete_bulk_keeps cancel_run_keeps case_prod_beta split: option.splits)
  qed
qed

lemma step_keeps:
  assumes "core_has P sh" "outside_ok P s sh" "list_all (\<lambda>i. \<not> spared i) (deletes s)"
  shows "core_has P (shell_step s sh)"
proof (cases s)
  case (Command env c)
  then show ?thesis using assms invoke_keeps[of sh env c] by (auto simp: deletes_def split: option.split)
next
  case (Run_Ends h now f dur res)
  then show ?thesis
    using assms(1) finish_run_keeps by (auto simp: run_ends_def core_has_def store_of_def split: option.splits)
next
  case (Log_Closes k)
  then show ?thesis using assms(1) by (simp add: core_has_def)
qed

end


section \<open>The limits and the subscriptions\<close>

lemma start_run_sessions:
  assumes "registry_ok (sd_sessions sd)" "''run-'' @ sv_run_ulid env \<notin> set (handles (sd_sessions sd))" "start_run env e opts sd = (r, sd')"
  shows "registry_ok (sd_sessions sd')"
proof (cases r)
  case (Inr l)
  then obtain att where c: "can_start e (sd_sessions sd) = Inr ()" and s: "sd_sessions sd' = register (new_session env e att) (sd_sessions sd)"
    using assms(3) by (auto simp: start_run_def start_gates_def start_commit_def split: sum.splits prod.splits if_splits)
  have "registry_step (Start_Session (new_session env e att)) (sd_sessions sd) = sd_sessions sd'" using c s by (simp add: new_session_def)
  then show ?thesis
    using registry_step_ok[OF assms(1), of "Start_Session (new_session env e att)"] assms(2) by (simp add: new_session_def)
qed (use assms in \<open>auto simp: start_run_def start_commit_def split: sum.splits prod.splits\<close>)

lemma registry_ok_map:
  assumes "registry_ok rg" "\<And>s. ss_handle (g s) = ss_handle s \<and> ss_execution_id (g s) = ss_execution_id s"
  shows "registry_ok (rg\<lparr> rg_sessions := map g (rg_sessions rg) \<rparr>)"
proof -
  have "ss_handle \<circ> g = ss_handle" "(\<lambda>s. ss_execution_id s = e) \<circ> g = (\<lambda>s. ss_execution_id s = e)" for e
    using assms(2) by (auto simp: comp_def)
  then show ?thesis
    using assms by (simp add: registry_ok_def handles_def of_exec_def filter_map list_all_iff)
qed

lemma cancel_run_sessions:
  assumes "registry_ok (sd_sessions sd)" "cancel_run h mode sd = (r, sd')"
  shows "registry_ok (sd_sessions sd')"
proof -
  have "registry_ok ((sd_sessions sd)\<lparr> rg_sessions := map (\<lambda>s. if ss_handle s = h then cancelled_session mode s else s) (rg_sessions (sd_sessions sd)) \<rparr>)"
    by (rule registry_ok_map[OF assms(1)]) (simp add: cancelled_session_def)
  then show ?thesis using assms by (auto simp: cancel_run_def update_session_def split: sum.splits)
qed

lemma finish_run_sessions:
  "registry_ok (sd_sessions sd) \<Longrightarrow> registry_ok (sd_sessions (snd (finish_run now f dur s res sd)))"
  using registry_step_ok[of "sd_sessions sd" "Remove_Session (ss_handle s)"] by (simp add: finish_run_def Let_def case_prod_beta)

lemma delete_sessions [simp]: "sd_sessions (sk_studio (snd (execution_delete ws i sk))) = sd_sessions (sk_studio sk)"
  by (simp add: execution_delete_def Let_def case_prod_beta)

lemma delete_bulk_sessions [simp]: "sd_sessions (sk_studio (snd (execution_delete_bulk ws is sk))) = sd_sessions (sk_studio sk)"
proof (induction "is" arbitrary: sk)
  case (Cons i "is")
  have "sd_sessions (sk_studio (snd (execution_delete_bulk ws (i # is) sk))) =
      sd_sessions (sk_studio (snd (execution_delete_bulk ws is (snd (execution_delete ws i sk)))))"
    by (simp add: case_prod_beta split: sum.split)
  then show ?case using Cons by simp
qed simp

lemma registry_new_ok: "registry_ok (registry_new w p)"
  by (simp add: registry_ok_def registry_new_def handles_def)

lemma invoke_sessions:
  assumes "sessions_ok sh" "outside_ok P (Command env c) sh" "invoke env c sh = Some (r, sh')"
  shows "sessions_ok sh'"
proof (cases "touches_core c")
  case False
  then show ?thesis using core_untouched[OF False assms(3)] assms(1) by (simp add: sessions_ok_def)
next
  case True
  then show ?thesis
  proof (cases rule: touches_core_cases)
    case (opened p)
    then show ?thesis
      using assms(1,3) by (auto simp: sessions_ok_def cmd_workspace_open_def workspace_open_def open_studio_def registry_new_ok
          split: sum.splits prod.splits option.splits)
  next
    case (saved s)
    then have "sh' = sh\<lparr> sw_desktop := snd (workspace_settings_save (hv_print env) (hv_save_io env) s (sw_desktop sh)) \<rparr>"
      using assms(3) by (simp add: cmd_workspace_settings_save_def case_prod_beta)
    then show ?thesis
      using assms(1) by (auto simp: sessions_ok_def settings_core set_smoke_defaults_def set_capture_raw_stdout_def
          set_preferred_editor_def split: option.splits)
  next
    case (started e dir n w d sk only)
    then show ?thesis
      using assms start_run_sessions by (auto simp: sessions_ok_def outside_ok_def on_core_def cmd_run_start_def split: option.splits sum.splits prod.splits)
  next
    case (cancelled h mode)
    then show ?thesis
      using assms(1,3) cancel_run_sessions by (auto simp: sessions_ok_def on_core_def cmd_run_cancel_def split: option.splits prod.splits)
  qed (use assms(1,3) in \<open>auto simp: sessions_ok_def on_core_def cmd_exec_start_def cmd_execution_delete_def cmd_execution_delete_bulk_def
      case_prod_beta split: option.splits\<close>)
qed


subsection \<open>Subscriptions\<close>

lemma nth_stopped:
  "j < length ps \<Longrightarrow> fst (ps[k := (fst (ps ! k), False)] ! j) = fst (ps ! j)"
  "j < length ps \<Longrightarrow> snd (ps[k := (fst (ps ! k), False)] ! j) \<longleftrightarrow> snd (ps ! j) \<and> j \<noteq> k"
  by (cases "j = k"; simp)+

lemma subs_stop: "subs_ok ts ps \<Longrightarrow> subs_ok ts (ps[k := (fst (ps ! k), False)])"
  by (simp add: subs_ok_def nth_stopped)

lemma drop_token_subs:
  assumes "subs_ok (sw_tokens sh) (sw_pumps sh)"
  shows "subs_ok (sw_tokens (drop_token a sh)) (sw_pumps (drop_token a sh)) \<and> bt_lookup (sw_tokens (drop_token a sh)) a = None"
proof (cases "bt_lookup (sw_tokens sh) a")
  case (Some k)
  let ?ps = "(sw_pumps sh)[k := (fst (sw_pumps sh ! k), False)]"
  have "fst (?ps ! j) \<noteq> a" if "j < length (sw_pumps sh)" "snd (?ps ! j)" for j
  proof
    assume "fst (?ps ! j) = a"
    then have "fst (sw_pumps sh ! j) = a" "snd (sw_pumps sh ! j)" "j \<noteq> k"
      using that nth_stopped[OF that(1), of k] by auto
    then have "bt_lookup (sw_tokens sh) a = Some j" using assms that(1) unfolding subs_ok_def by metis
    then show False using Some \<open>j \<noteq> k\<close> by simp
  qed
  then have "subs_ok (bt_remove a (sw_tokens sh)) ?ps" using assms by (simp add: subs_ok_def nth_stopped)
  then show ?thesis using assms Some by (simp add: drop_token_def stop_pump_def subs_ok_def)
qed (use assms in \<open>simp add: drop_token_def\<close>)

lemma spawn_pump_subs:
  assumes "subs_ok (sw_tokens sh) (sw_pumps sh)" "bt_lookup (sw_tokens sh) a = None"
  shows "subs_ok (sw_tokens (spawn_pump a sh)) (sw_pumps (spawn_pump a sh))"
  using assms by (auto simp: subs_ok_def spawn_pump_def nth_append less_Suc_eq split: if_splits)

definition on_logs :: "command \<Rightarrow> bool" where
  "on_logs c = (case c of Handler_Log_Subscribe _ _ \<Rightarrow> True | Handler_Log_Unsubscribe _ \<Rightarrow> True | _ \<Rightarrow> False)"

lemma subs_untouched:
  assumes "\<not> on_logs c" "invoke env c sh = Some (r, sh')"
  shows "sw_tokens sh' = sw_tokens sh \<and> sw_pumps sh' = sw_pumps sh"
  using assms
  by (cases c) (auto simp: on_logs_def cmd_defs cmd_workspace_settings_load_def cmd_workspace_current_def cmd_workspace_open_def
      cmd_workspace_settings_save_def read_core_def on_core_def split: option.splits prod.splits sum.splits dest: handlers_changed_same)

lemma invoke_subs:
  assumes "subs_ok (sw_tokens sh) (sw_pumps sh)" "invoke env c sh = Some (r, sh')"
  shows "subs_ok (sw_tokens sh') (sw_pumps sh')"
proof (cases "on_logs c")
  case True
  then consider e a where "c = Handler_Log_Subscribe e a" | a where "c = Handler_Log_Unsubscribe a"
    by (auto simp: on_logs_def split: command.splits)
  then show ?thesis
    using assms drop_token_subs[OF assms(1)] spawn_pump_subs
    by cases (auto simp: cmd_handler_log_subscribe_def cmd_handler_log_unsubscribe_def on_core_def split: option.splits sum.splits)
qed (use assms subs_untouched in metis)

section \<open>The invariants of the application\<close>

definition shell_start :: "string option \<Rightarrow> fuse \<times> fs \<Rightarrow> shell" where
  "shell_start file disk =
     \<lparr> sw_desktop = \<lparr> dk_file = file, dk_core = None \<rparr>, sw_disk = disk, sw_builds = [], sw_lists = Map.empty,
       sw_tokens = [], sw_pumps = [], sw_emitted = [] \<rparr>"

fun allowed :: "(store \<Rightarrow> bool) \<Rightarrow> (string \<Rightarrow> bool) \<Rightarrow> 'ts app_step list \<Rightarrow> shell \<Rightarrow> bool" where
  "allowed P spared [] sh = True"
| "allowed P spared (s # ss) sh =
     (outside_ok P s sh \<and> list_all (\<lambda>i. \<not> spared i) (deletes s) \<and> allowed P spared ss (shell_step s sh))"

lemma step_sessions:
  assumes "sessions_ok sh" "outside_ok P s sh"
  shows "sessions_ok (shell_step s sh)"
proof (cases s)
  case (Command env c)
  then show ?thesis using assms invoke_sessions[of sh P env c] by (auto split: option.split)
next
  case (Run_Ends h now f dur res)
  then show ?thesis using assms(1) finish_run_sessions by (auto simp: run_ends_def sessions_ok_def split: option.splits)
next
  case (Log_Closes k)
  then show ?thesis using assms(1) by (simp add: sessions_ok_def)
qed

lemma step_subs:
  assumes "subs_ok (sw_tokens sh) (sw_pumps sh)"
  shows "subs_ok (sw_tokens (shell_step s sh)) (sw_pumps (shell_step s sh))"
proof (cases s)
  case (Command env c)
  then show ?thesis using assms invoke_subs[of sh env c] by (auto split: option.split)
next
  case (Run_Ends h now f dur res)
  then show ?thesis using assms by (simp add: run_ends_def split: option.split)
next
  case (Log_Closes k)
  then show ?thesis using subs_stop[OF assms, of k] by (simp add: stop_pump_def)
qed

context store_client
begin

lemma steps_keep: "core_has P sh \<Longrightarrow> allowed P spared ss sh \<Longrightarrow> core_has P (fold shell_step ss sh)"
  by (induction ss arbitrary: sh) (auto simp: step_keeps)

end

lemma steps_sessions_subs:
  "sessions_ok sh \<Longrightarrow> subs_ok (sw_tokens sh) (sw_pumps sh) \<Longrightarrow> allowed P spared ss sh \<Longrightarrow>
     sessions_ok (fold shell_step ss sh) \<and> subs_ok (sw_tokens (fold shell_step ss sh)) (sw_pumps (fold shell_step ss sh))"
  by (induction ss arbitrary: sh) (auto simp: step_sessions step_subs)

lemma distinct_running:
  "(\<And>i j. i < length ps \<Longrightarrow> j < length ps \<Longrightarrow> snd (ps ! i) \<Longrightarrow> snd (ps ! j) \<Longrightarrow> fst (ps ! i) = fst (ps ! j) \<Longrightarrow> i = j) \<Longrightarrow>
     distinct (map fst (filter snd ps))"
proof (induction ps)
  case (Cons p ps)
  have "distinct (map fst (filter snd ps))" using Cons.prems[of "Suc _" "Suc _"] by (intro Cons.IH) simp
  moreover have ne: "fst q \<noteq> fst p" if "q \<in> set ps" "snd q" "snd p" for q
  proof -
    obtain i where "i < length ps" "ps ! i = q" using \<open>q \<in> set ps\<close> by (auto simp: in_set_conv_nth)
    then show ?thesis using Cons.prems[of 0 "Suc i"] that(2,3) by auto
  qed
  moreover have "fst p \<notin> fst ` set (filter snd ps)" if "snd p"
  proof
    assume "fst p \<in> fst ` set (filter snd ps)"
    then obtain q where q: "fst p = fst q" "q \<in> set (filter snd ps)" by (rule imageE)
    then have "q \<in> set ps" "snd q" by simp_all
    then show False using ne[of q] that q(1) by simp
  qed
  ultimately show ?case by simp
qed simp

lemma subs_ok_distinct:
  assumes "subs_ok ts ps"
  shows "distinct (map fst (filter snd ps))"
proof (rule distinct_running)
  fix i j
  assume ij: "i < length ps" "j < length ps" "snd (ps ! i)" "snd (ps ! j)" "fst (ps ! i) = fst (ps ! j)"
  have "bt_lookup ts (fst (ps ! k)) = Some k" if "k < length ps" "snd (ps ! k)" for k using assms that by (simp add: subs_ok_def)
  from this[OF ij(1,3)] this[OF ij(2,4)] ij(5) show "i = j" by (metis option.inject)
qed


text \<open>An attempt that has ended stays as it ended, whatever the desktop application does, as long as nobody deletes its execution: no
  start, recovery of orphans, second end, cancellation or failing operation changes its row, over any number of commands and workspaces opened
  (of registries that have it).\<close>

theorem ended_attempt_stays:
  assumes "core_has (ended_row a r) sh" "allowed (ended_row a r) (\<lambda>e. e = ar_execution_id r) steps sh"
  shows "core_has (ended_row a r) (fold shell_step steps sh)"
  by (rule ended.steps_keep[OF assms])

lemma set_studio_same: "dk_core (sw_desktop sh) = Some c \<Longrightarrow> set_studio (sc_studio c) sh = sh"
  by (simp add: set_studio_def)



text \<open>A scaffold that fails half way leaves the directory of the new handler, says nothing to the window (the hint to read the list again is only sent on
  success), and cannot be tried again: the name is taken.\<close>

theorem failed_scaffold_unannounced:
  assumes "dk_core (sw_desktop sh) = Some c" "sc_root c = ''/w''"
    and "sw_disk sh = (Some 1, [([''w''], Dir), ([''w'', ''handlers''], Dir)])"
  shows "let args = \<lparr> sa_name = ''a'', sa_template = Empty_Template, sa_primary_field = ''id'' \<rparr> in
    case invoke env (Handler_Scaffold args) sh of
      Some (Inl (Io_Error _), sh') \<Rightarrow>
        sw_emitted sh' = sw_emitted sh \<and> is_dir (snd (sw_disk sh')) ''/w/handlers/a'' \<and>
        (case invoke env (Handler_Scaffold args) (sh'\<lparr> sw_disk := (None, snd (sw_disk sh')) \<rparr>) of
           Some (r, _) \<Rightarrow> r = Inl (Handler_Exists ''a'') | None \<Rightarrow> False)
    | _ \<Rightarrow> False"
proof -
  let ?args = "\<lparr> sa_name = ''a'', sa_template = Empty_Template, sa_primary_field = ''id'' \<rparr>"
  let ?fs = "[([''w''], Dir), ([''w'', ''handlers''], Dir)]"
  have 1: "case scaffold tpl ''/w'' ?args (Some 1, ?fs) of (Inl (Io_Error _), io, fs') \<Rightarrow> fs' = ?fs @ [([''w'', ''handlers'', ''a''], Dir)] | _ \<Rightarrow> False" for tpl
    by code_simp
  let ?fs' = "?fs @ [([''w'', ''handlers'', ''a''], Dir)]"
  obtain e io where s: "scaffold (hv_templates env) ''/w'' ?args (Some 1, ?fs) = (Inl (Io_Error e), io, ?fs')"
    using 1[of "hv_templates env"] by (auto split: prod.splits sum.splits ui_error.splits)
  have again: "fst (scaffold tpl ''/w'' ?args (None, ?fs')) = Inl (Handler_Exists ''a'')" for tpl by code_simp
  have "is_dir ?fs' ''/w/handlers/a''" by code_simp
  then show ?thesis
    using assms s again by (simp add: cmd_handler_scaffold_def on_core_def handlers_changed_def emit_if_def Let_def)
qed

section \<open>A concrete application\<close>

definition demo_shell_env :: "unit shell_env" where
  "demo_shell_env = \<lparr> hv_settings = (\<lambda>_. Inl []), hv_print = (\<lambda>_. []), hv_save_io = None, hv_home = None, hv_open = (\<lambda>_. Inr demo_store),
     hv_scan = demo_scan, hv_js = (\<lambda>_. None), hv_read = (\<lambda>_. None), hv_files = demo_files, hv_list_times = (0, None, 0, None),
     hv_ser = (\<lambda>_. []), hv_parse = demo_parse, hv_export_io = (\<lambda>_. None), hv_export_now = [], hv_sha = (\<lambda>s. s),
     hv_chunks = (\<lambda>_. None), hv_ulid = ''9'', hv_now = 30, hv_create_io = None, hv_start = demo_start ''7'', hv_parse_ts = (\<lambda>_. None),
     hv_yaml = (\<lambda>_. Inl []), hv_to_yaml = (\<lambda>_. Inl []), hv_templates = (\<lambda>_. ''t''), hv_on_path = (\<lambda>_. True), hv_mtime = (\<lambda>_. 0),
     hv_other_len = 0, hv_exec = (\<lambda>_ _. Inl []), hv_split = (\<lambda>_. Inl []), hv_spawn = (\<lambda>_. Inr ()), hv_visual = None, hv_editor = None,
     hv_open_path = (\<lambda>_. Inr ()), hv_smoke = demo_smoke_env,
     hv_fixtures = \<lparr> fe_lines = (\<lambda>_. Inl []), fe_bytes = (\<lambda>_. Inl []), fe_json = (\<lambda>_. Inl []), fe_csv = (\<lambda>_. Inl []) \<rparr> \<rparr>"

abbreviation "demo_open \<equiv> Workspace_Open (Some ''/w'')"

definition demo_shell :: shell where
  "demo_shell = (shell_start None (Some 1, [([''w''], Dir), ([''w'', ''handlers''], Dir)]))\<lparr> sw_desktop := \<lparr> dk_file = None, dk_core = Some
     \<lparr> sc_root = ''/w'', sc_studio = \<lparr> sd_store = demo_store, sd_sessions = registry_new 3 1, sd_capture_raw = False \<rparr>,
       sc_preferred_editor = None, sc_smoke_default_rows = 5, sc_smoke_timeout_per_row_secs = 30 \<rparr> \<rparr> \<rparr>"

lemma demo_opened:
  "\<exists>c sh. invoke demo_shell_env demo_open (shell_start None disk) = Some (Inr (R_Path ''/w''), sh) \<and>
     dk_core (sw_desktop sh) = Some c \<and> sd_sessions (sc_studio c) = registry_new 3 1"
  by (simp add: cmd_workspace_open_def workspace_open_def shell_start_def load_settings_def demo_shell_env_def open_studio_def
      opts_of_settings_def default_settings_def save_settings_def poll.simps)

lemma locked_without_workspace_witness:
  "invoke demo_shell_env (Handler_Delete ''a'') (shell_start None (None, [])) = Some (Inl (Workspace_Locked ''no workspace open''), shell_start None (None, []))"
  by (rule locked_without_workspace) (simp_all add: shell_start_def needs_workspace_def)


lemma ended_attempt_stays_witness:
  "\<exists>r. core_has (ended_row ''r_1'' r) (fold shell_step [Command demo_shell_env (Execution_Delete ''e_9''), Command demo_shell_env demo_open] demo_shell)"
proof -
  obtain r where r: "find_attempt demo_store ''r_1'' = Some r" "ar_state r = ''completed''" "ar_execution_id r = ''e_1''"
    using demo_attempts by (auto simp: find_attempt_def)
  have "core_has (ended_row ''r_1'' r) demo_shell" using r by (simp add: core_has_def demo_shell_def ended_row_def store_of_def is_terminal_text_def)
  moreover have "allowed (ended_row ''r_1'' r) (\<lambda>e. e = ar_execution_id r) [Command demo_shell_env (Execution_Delete ''e_9''), Command demo_shell_env demo_open] demo_shell"
    using r by (simp del: invoke.simps add: outside_ok_def deletes_def demo_shell_env_def ended_row_def is_terminal_text_def)
  ultimately show ?thesis using ended_attempt_stays by blast
qed


lemma failed_scaffold_unannounced_witness:
  "case invoke demo_shell_env (Handler_Scaffold \<lparr> sa_name = ''a'', sa_template = Empty_Template, sa_primary_field = ''id'' \<rparr>) demo_shell of
     Some (Inl (Io_Error _), sh') \<Rightarrow> sw_emitted sh' = [] | _ \<Rightarrow> False"
  using failed_scaffold_unannounced[of demo_shell _ demo_shell_env]
  by (auto simp: demo_shell_def shell_start_def Let_def split: option.splits prod.splits sum.splits ui_error.splits)

end
