(* ===== verification/Cli_Pack.thy ===== *)
theory Cli_Pack
  imports Cli_Manage
begin

text \<open>
  \<^verbatim>\<open>rowforge pack\<close> (\<^verbatim>\<open>pack_cmd.rs\<close>): the program is built for another platform, put into a temporary directory with copies of handlers and a
  README, and that directory is zipped. The file system is the theory File_System; what \<^verbatim>\<open>cargo\<close> does to it and the bytes of an archive are arguments. Permissions on disk
  and what is printed are not modelled; an archive entry says whether it is executable.
\<close>

section \<open>Targets\<close>

record pack_target =
  tg_alias :: string
  tg_triple :: string
  tg_bin_suffix :: string

definition parse_target :: "string \<Rightarrow> string + pack_target" where
  "parse_target alias =
     (if alias = ''darwin-arm64'' then Inr \<lparr> tg_alias = ''darwin-arm64'', tg_triple = ''aarch64-apple-darwin'', tg_bin_suffix = '''' \<rparr>
      else if alias = ''linux-x86_64'' then Inr \<lparr> tg_alias = ''linux-x86_64'', tg_triple = ''x86_64-unknown-linux-gnu'', tg_bin_suffix = '''' \<rparr>
      else if alias = ''linux-aarch64'' then Inr \<lparr> tg_alias = ''linux-aarch64'', tg_triple = ''aarch64-unknown-linux-gnu'', tg_bin_suffix = '''' \<rparr>
      else Inl (''unknown --target '' @ [CHR 0x27] @ alias @ [CHR 0x27] @ ''. Supported: darwin-arm64, linux-x86_64, linux-aarch64''))"

section \<open>The binary\<close>

definition abs_path :: "string list \<Rightarrow> path" where
  "abs_path cs = (if cs = [] then ''/'' else concat (map (\<lambda>c. ''/'' @ c) cs))"

text \<open>\<^verbatim>\<open>locate_workspace_root\<close>: the loop over the directory of the running program and those above it, innermost name first. \<^verbatim>\<open>parent().unwrap()\<close>
  has no value for the root directory: the result \<open>None\<close>.\<close>

definition has_workspace :: "fs \<Rightarrow> path \<Rightarrow> bool" where
  "has_workspace fs cur =
     (let candidate = path_join cur ''Cargo.toml'' in
      path_exists fs candidate \<and> contains (case read_to_string fs candidate of Inl _ \<Rightarrow> [] | Inr s \<Rightarrow> s) ''[workspace]'')"

fun locate_up :: "fs \<Rightarrow> string list \<Rightarrow> path option" where
  "locate_up fs [] = (if has_workspace fs ''/'' then Some ''/'' else None)"
| "locate_up fs (c # cs) =
     (let cur = abs_path (rev (c # cs)) in if has_workspace fs cur then Some cur else locate_up fs cs)"

definition locate_workspace_root :: "fs \<Rightarrow> path \<Rightarrow> (string + path) option" where
  "locate_workspace_root fs exe =
     (if comps exe = [] then None
      else Some (case locate_up fs (rev (butlast (comps exe))) of
          None \<Rightarrow> Inl (''could not locate workspace root from '' @ exe)
        | Some d \<Rightarrow> Inr d))"

text \<open>An entry of the archive: a directory, or a file with its permission to be executed and its bytes.\<close>

datatype zip_entry = Zip_Dir string | Zip_File string bool string

text \<open>\<open>pk_zip\<close> is the \<^verbatim>\<open>zip\<close> crate on all entries of an archive. \<open>pk_cargo\<close> is \<^verbatim>\<open>cargo zigbuild\<close> in a directory for a triple: the exit status, \<open>Inl\<close> when it cannot be started, and the disk it leaves.\<close>

record pack_env =
  pk_probe :: bool
  pk_exe :: "string + path"
  pk_cargo :: "path \<Rightarrow> string \<Rightarrow> fs \<Rightarrow> (string + int option) \<times> fs"
  pk_staging :: path
  pk_yaml :: "string \<Rightarrow> string + manifest"
  pk_zip :: "zip_entry list \<Rightarrow> string + string"

type_synonym 'a disk_result = "(string + 'a) \<times> fuse \<times> fs"

definition cross_compile_binary :: "pack_env \<Rightarrow> pack_target \<Rightarrow> fuse \<times> fs \<Rightarrow> path disk_result option" where
  "cross_compile_binary env target st =
     (let (io, fs) = st in
      if \<not> pk_probe env then Some (Inl ''cargo-zigbuild not found.'', st)
      else (case pk_exe env of
          Inl e \<Rightarrow> Some (Inl (''locate self exe: '' @ e), st)
        | Inr exe \<Rightarrow>
     (case locate_workspace_root fs exe of
        None \<Rightarrow> None
      | Some (Inl e) \<Rightarrow> Some (Inl e, st)
      | Some (Inr ws) \<Rightarrow>
     (case pk_cargo env ws (tg_triple target) fs of
        (Inl e, fs') \<Rightarrow> Some (Inl (''spawn cargo zigbuild: '' @ e), io, fs')
      | (Inr code, fs') \<Rightarrow>
          if code \<noteq> Some 0 then Some (Inl (''cargo zigbuild --target '' @ tg_triple target @ '' failed''), io, fs')
          else
            let out = path_join (path_join (path_join (path_join ws ''target'') (tg_triple target)) ''release'') (''rowforge'' @ tg_bin_suffix target) in
            if \<not> path_exists fs' out then Some (Inl (''expected binary at '' @ out @ '' not found after build''), io, fs')
            else Some (Inr out, io, fs')))))"

section \<open>The bundle\<close>

record handler_summary =
  hs_name :: string
  hs_version :: string
  hs_description :: string
  hs_language :: string

definition if_empty :: "string \<Rightarrow> string \<Rightarrow> string" where
  "if_empty d s = (if s = [] then d else s)"

definition readme_line :: "handler_summary \<Rightarrow> string" where
  "readme_line h = ''- **'' @ hs_name h @ '' '' @ hs_version h @ ''** ('' @ if_empty ''n/a'' (hs_language h) @ '') '' @ em_dash @ '' ''
     @ if_empty ''(no description)'' (hs_description h) @ [newline]"

definition render_readme :: "pack_target \<Rightarrow> handler_summary list \<Rightarrow> string list \<Rightarrow> string" where
  "render_readme target hs runtimes =
     (let nl = [newline] in
      ''# rowforge bundle ('' @ tg_alias target @ '')'' @ nl @ nl
      @ ''Unzip and run:'' @ nl @ nl @ ''```'' @ nl
      @ ''./rowforge run --handler handlers/<name> --input data.csv --output-dir ./out'' @ nl @ ''```'' @ nl @ nl
      @ ''## Handlers'' @ nl @ nl @ concat (map readme_line hs)
      @ (if runtimes = [] then []
         else nl @ ''## Recipient runtime requirements'' @ nl @ nl
              @ ''Install these on the target machine before running handlers:'' @ nl @ nl
              @ concat (map (\<lambda>r. ''- '' @ r @ nl) runtimes)))"

text \<open>A step on the disk: the error with what was done up to it, or the disk after.\<close>

type_synonym step = "(string \<times> fuse \<times> fs) + (fuse \<times> fs)"

definition in_context :: "string \<Rightarrow> step \<Rightarrow> step" where
  "in_context msg r = (case r of Inl (e, st) \<Rightarrow> Inl (msg @ '': '' @ e, st) | Inr st \<Rightarrow> Inr st)"

definition then_step :: "step \<Rightarrow> (fuse \<times> fs \<Rightarrow> 'a disk_result) \<Rightarrow> 'a disk_result" where
  "then_step r k = (case r of Inl (e, st) \<Rightarrow> (Inl e, st) | Inr st \<Rightarrow> k st)"

text \<open>\<^verbatim>\<open>fs::copy\<close>\<close>

definition copy_file :: "path \<Rightarrow> path \<Rightarrow> fuse \<times> fs \<Rightarrow> step" where
  "copy_file src dest st =
     (case read_to_string (snd st) src of Inl e \<Rightarrow> Inl (e, st) | Inr s \<Rightarrow> write_file (comps dest) s st)"

text \<open>\<^verbatim>\<open>copy_dir_recursive\<close> visits the tree below the source from each directory to what it holds; links and special files are skipped. A copy between a directory and one inside
  of it has no result here (\<open>None\<close>).\<close>

definition pack_copy_entry :: "string list \<Rightarrow> string list \<times> fnode \<Rightarrow> fuse \<times> fs \<Rightarrow> step" where
  "pack_copy_entry dst e st =
     (case e of (rel, n) \<Rightarrow>
       (case n of Dir \<Rightarrow> create_dirs (dst @ rel) st | File s \<Rightarrow> write_file (dst @ rel) s st | _ \<Rightarrow> Inr st))"

definition pack_copy_dir :: "path \<Rightarrow> path \<Rightarrow> fuse \<times> fs \<Rightarrow> step option" where
  "pack_copy_dir src dst st =
     (case create_dirs (comps dst) st of
        Inl x \<Rightarrow> Some (Inl x)
      | Inr (io, fs) \<Rightarrow>
         (case (canonicalize fs src, canonicalize fs dst) of
            (Some c, Some e) \<Rightarrow>
              if prefix c e \<or> prefix e c then None
              else Some (fold_result (pack_copy_entry (comps dst)) (tree_below fs c) (io, fs))
          | _ \<Rightarrow> Some (Inl (''No such file or directory'', io, fs))))"

definition summary_of :: "manifest \<Rightarrow> handler_summary" where
  "summary_of m = \<lparr> hs_name = mf_name m, hs_version = mf_version m, hs_description = mf_description m, hs_language = mf_language m \<rparr>"

fun stage_handlers ::
    "pack_env \<Rightarrow> path \<Rightarrow> path list \<Rightarrow> handler_summary list \<Rightarrow> fuse \<times> fs \<Rightarrow> handler_summary list disk_result option" where
  "stage_handlers env handlers_root [] hs st = Some (Inr hs, st)"
| "stage_handlers env handlers_root (src # srcs) hs st =
     (case load_from_dir (read_to_string (snd st)) (pk_yaml env) src of
        Inl e \<Rightarrow> Some (Inl (''read manifest in '' @ src @ '': '' @ e), st)
      | Inr (m, _) \<Rightarrow>
          let dest = path_join handlers_root (mf_name m) in
          (case pack_copy_dir src dest st of
             None \<Rightarrow> None
           | Some (Inl (e, st')) \<Rightarrow> Some (Inl (''copy handler '' @ src @ '' -> '' @ dest @ '': '' @ e), st')
           | Some (Inr st') \<Rightarrow> stage_handlers env handlers_root srcs (hs @ [summary_of m]) st'))"

definition runtimes_of :: "handler_summary list \<Rightarrow> string list" where
  "runtimes_of hs = sort (remdups (filter (\<lambda>l. l \<noteq> []) (map hs_language hs)))"

text \<open>The first three parts of \<^verbatim>\<open>assemble_bundle\<close>.\<close>

definition fill_staging :: "pack_env \<Rightarrow> path \<Rightarrow> path list \<Rightarrow> pack_target \<Rightarrow> fuse \<times> fs \<Rightarrow> unit disk_result option" where
  "fill_staging env binary handler_dirs target st =
     (let root_dir = pk_staging env; bin_dest = path_join root_dir (''rowforge'' @ tg_bin_suffix target);
          handlers_root = path_join root_dir ''handlers'' in
      case in_context (''copy '' @ binary @ '' -> '' @ bin_dest) (copy_file binary bin_dest st) of
        Inl (e, st1) \<Rightarrow> Some (Inl e, st1)
      | Inr st1 \<Rightarrow>
     (case create_dirs (comps handlers_root) st1 of
        Inl (e, st2) \<Rightarrow> Some (Inl e, st2)
      | Inr st2 \<Rightarrow>
     (case stage_handlers env handlers_root handler_dirs [] st2 of
        None \<Rightarrow> None
      | Some (Inl e, st3) \<Rightarrow> Some (Inl e, st3)
      | Some (Inr hs, st3) \<Rightarrow>
          Some (then_step (write_file (comps (path_join root_dir ''README.md'')) (render_readme target hs (runtimes_of hs)) st3)
                  (\<lambda>st. (Inr (), st))))))"

section \<open>The archive\<close>

definition zip_name :: "string list \<Rightarrow> string" where
  "zip_name rel = map (\<lambda>c. if c = CHR 0x5C then CHR ''/'' else c) (join ''/'' rel)"

definition zip_entry_of :: "fs \<Rightarrow> string list \<Rightarrow> string list \<times> fnode \<Rightarrow> string + zip_entry" where
  "zip_entry_of fs d e =
     (case e of (rel, n) \<Rightarrow>
        if n = Dir then Inr (Zip_Dir (zip_name rel))
        else (case read_to_string fs (abs_path (d @ rel)) of
            Inl err \<Rightarrow> Inl err
          | Inr s \<Rightarrow> Inr (Zip_File (zip_name rel) (rel = [''rowforge''] \<or> rel = [''rowforge.exe'']) s)))"

definition walk_into_zip :: "fs \<Rightarrow> path \<Rightarrow> string + zip_entry list" where
  "walk_into_zip fs staging =
     (case canonicalize fs staging of
        None \<Rightarrow> Inl ''No such file or directory''
      | Some d \<Rightarrow>
          fold_result (\<lambda>e es. case zip_entry_of fs d e of Inl err \<Rightarrow> Inl err | Inr z \<Rightarrow> Inr (es @ [z])) (tree_below fs d) [])"

text \<open>The output is created before the walk; what of the archive is written when the walk fails half way is not modelled.\<close>

definition write_zip :: "pack_env \<Rightarrow> path \<Rightarrow> fuse \<times> fs \<Rightarrow> unit disk_result" where
  "write_zip env output st =
     then_step (in_context (''create '' @ output) (write_file (comps output) [] st)) (\<lambda>st1.
       (case walk_into_zip (snd st1) (pk_staging env) of
          Inl e \<Rightarrow> (Inl e, st1)
        | Inr es \<Rightarrow>
            (case pk_zip env es of
               Inl e \<Rightarrow> (Inl e, st1)
             | Inr bytes \<Rightarrow> then_step (write_file (comps output) bytes st1) (\<lambda>st2. (Inr (), st2)))))"

text \<open>The temporary directory is removed when \<^verbatim>\<open>staging\<close> is dropped, on every way out.\<close>

definition drop_staging :: "pack_env \<Rightarrow> 'a disk_result \<Rightarrow> 'a disk_result" where
  "drop_staging env r =
     (case r of (res, io, fs) \<Rightarrow> (res, io, case canonicalize fs (pk_staging env) of None \<Rightarrow> fs | Some d \<Rightarrow> remove_tree d fs))"

definition assemble_bundle :: "pack_env \<Rightarrow> path \<Rightarrow> path list \<Rightarrow> pack_target \<Rightarrow> path \<Rightarrow> fuse \<times> fs \<Rightarrow> unit disk_result option" where
  "assemble_bundle env binary handler_dirs target output st =
     (case in_context ''create staging dir'' (mkdir_step (comps (pk_staging env)) st) of
        Inl (e, st1) \<Rightarrow> Some (Inl e, st1)
      | Inr st1 \<Rightarrow>
          map_option (drop_staging env)
            (case fill_staging env binary handler_dirs target st1 of
               None \<Rightarrow> None
             | Some (Inl e, st2) \<Rightarrow> Some (Inl e, st2)
             | Some (Inr _, st2) \<Rightarrow> Some (write_zip env output st2)))"

section \<open>The command\<close>

record pack_args =
  pa_target :: string
  pa_handlers :: "path list"
  pa_output :: path

definition pack_run :: "pack_env \<Rightarrow> pack_args \<Rightarrow> fuse \<times> fs \<Rightarrow> unit disk_result option" where
  "pack_run env a st =
     (case parse_target (pa_target a) of
        Inl e \<Rightarrow> Some (Inl e, st)
      | Inr target \<Rightarrow>
          if pa_handlers a = [] then Some (Inl ''at least one --handler is required'', st)
          else (case cross_compile_binary env target st of
              None \<Rightarrow> None
            | Some (Inl e, st1) \<Rightarrow> Some (Inl e, st1)
            | Some (Inr binary, st1) \<Rightarrow> assemble_bundle env binary (pa_handlers a) target (pa_output a) st1))"

section \<open>Everything staged is below the staging directory\<close>

lemma grown_fresh:
  assumes ok: "fs_ok fs" and w: "walk MAX_LINKS fs [] ds = Some (k, p)" "node_at fs p = Some Dir" "good_name c" "node_at fs (p @ [c]) = None"
  shows "grown fs (ds @ [c]) (p @ [c]) (bt_insert (p @ [c]) Dir fs)"
proof -
  let ?fs = "bt_insert (p @ [c]) Dir fs"
  have at: "node_at ?fs q = (if q = p @ [c] then Some Dir else node_at fs q)" for q using ok by (simp add: node_at_insert)
  have "extends ?fs fs" using ok w(4) by (intro extends_insert) auto
  from walk_extends[OF this w(1)] have "walk MAX_LINKS ?fs [] ds = Some (k, p)" .
  moreover have "c \<noteq> ''..''" using w(3) by (simp add: good_name_def)
  ultimately have "walk MAX_LINKS ?fs [] (ds @ [c]) = Some (k, p @ [c])" using w(2,3) by (simp add: walk_append hop_def at)
  moreover have "prefix (p @ [c]) q \<Longrightarrow> node_at fs q = None" for q using fs_ok_below[OF ok w(4)] .
  moreover have "fs_ok ?fs" using ok w by (intro fs_ok_insert) auto
  ultimately show ?thesis by (auto simp: grown_def at)
qed

lemma state_in_context [simp]: "state_of (in_context m r) = state_of r"
  by (auto simp: in_context_def state_of_def split: sum.split)

lemma grown_pack_copy_entry:
  assumes "grown fs0 ds e fs" "list_all good_name (pre @ rel)" "rel \<noteq> []"
  shows "grown fs0 ds e (state_of (pack_copy_entry (ds @ pre) (rel, n) (io, fs)))"
  using grown_create_dirs[OF assms(1,2), of io] grown_write[OF assms(1,2), of _ io] assms
  by (cases n) (simp_all add: pack_copy_entry_def)

lemma grown_pack_copy_dir:
  assumes g: "grown fs0 ds e fs" and dst: "comps dst = ds @ pre" "list_all good_name pre"
    and r: "pack_copy_dir src dst (io, fs) = Some r"
  shows "grown fs0 ds e (state_of r)"
proof (cases "create_dirs (comps dst) (io, fs)")
  case (Inl a)
  then show ?thesis using r grown_create_dirs[OF g dst(2), of io] dst(1) by (auto simp: pack_copy_dir_def)
next
  case (Inr b)
  obtain io1 fs1 where b: "b = (io1, fs1)" by (cases b)
  have g1: "grown fs0 ds e fs1" using grown_create_dirs[OF g dst(2), of io] dst(1) Inr b by simp
  have "grown fs0 ds e (state_of (fold_result (pack_copy_entry (comps dst)) (tree_below fs1 c) (io1, fs1)))" for c
  proof (rule fold_result_states[where P = "grown fs0 ds e"])
    fix x io fs2
    assume "x \<in> set (tree_below fs1 c)" "grown fs0 ds e fs2"
    moreover obtain rel m where "x = (rel, m)" by (cases x)
    ultimately show "grown fs0 ds e (state_of (pack_copy_entry (comps dst) x (io, fs2)))"
      using tree_below_names[OF grown_ok[OF g1], of rel m c] dst by (simp add: grown_pack_copy_entry)
  qed (rule g1)
  then show ?thesis using r Inr b g1 by (auto simp: pack_copy_dir_def split: option.splits if_splits)
qed

lemma load_from_dir_yaml: "load_from_dir read yaml dir = Inr (m, p) \<Longrightarrow> \<exists>text. yaml text = Inr m"
  by (auto simp: load_from_dir_def Let_def split: sum.splits option.splits unit.splits)

lemma grown_stage_handlers:
  assumes names: "\<And>text m. pk_yaml env text = Inr m \<Longrightarrow> good_name (mf_name m)" and root: "comps hroot = ds @ [''handlers'']"
  shows "grown fs0 ds e fs \<Longrightarrow> stage_handlers env hroot srcs hs (io, fs) = Some (r, io', fs') \<Longrightarrow> grown fs0 ds e fs'"
proof (induction srcs arbitrary: hs io fs)
  case (Cons src srcs)
  show ?case
  proof (cases "load_from_dir (read_to_string fs) (pk_yaml env) src")
    case (Inr mp)
    obtain m p where mp: "mp = (m, p)" by (cases mp)
    have n: "good_name (mf_name m)" using load_from_dir_yaml Inr mp names by metis
    then have d: "comps (path_join hroot (mf_name m)) = ds @ [''handlers'', mf_name m]" using root by (simp add: comps_join_good)
    obtain s where s: "pack_copy_dir src (path_join hroot (mf_name m)) (io, fs) = Some s"
      using Cons.prems(2) Inr mp by (auto simp: Let_def split: option.splits)
    have h: "good_name ''handlers''" by (simp add: good_name_def)
    have g: "grown fs0 ds e (state_of s)" using grown_pack_copy_dir[OF Cons.prems(1) d _ s] n h by simp
    show ?thesis
    proof (cases s)
      case (Inl a)
      obtain msg io1 fs1 where "a = (msg, io1, fs1)" by (cases a)
      then show ?thesis using Cons.prems(2) \<open>load_from_dir _ _ _ = Inr mp\<close> Inl mp s g by (simp add: Let_def)
    next
      case (Inr b)
      obtain io1 fs1 where b: "b = (io1, fs1)" by (cases b)
      have "stage_handlers env hroot srcs (hs @ [summary_of m]) (io1, fs1) = Some (r, io', fs')"
        using Cons.prems(2) Inr \<open>load_from_dir _ _ _ = Inr mp\<close> mp s b by (simp add: Let_def)
      then show ?thesis using Cons.IH[of fs1 "hs @ [summary_of m]" io1] g Inr b by simp
    qed
  qed (use Cons.prems in auto)
qed simp

lemma then_step_state: "snd (snd (then_step r (\<lambda>st. (x, st)))) = state_of r"
  by (auto simp: then_step_def state_of_def split: sum.split)

lemma grown_fill_staging:
  assumes g: "grown fs0 (comps (pk_staging env)) e fs" and names: "\<And>text m. pk_yaml env text = Inr m \<Longrightarrow> good_name (mf_name m)"
    and suffix: "good_name (''rowforge'' @ tg_bin_suffix target)"
    and r: "fill_staging env binary hs target (io, fs) = Some (res, io', fs')"
  shows "grown fs0 (comps (pk_staging env)) e fs'"
proof -
  let ?d = "pk_staging env" and ?G = "grown fs0 (comps (pk_staging env)) e"
  have good: "good_name ''handlers''" "good_name ''README.md''" by (simp_all add: good_name_def)
  have d: "comps (path_join ?d n) = comps ?d @ [n]" if "good_name n" for n using that by (simp add: comps_join_good)
  obtain msg where msg: "msg = ''copy '' @ binary @ '' -> '' @ path_join ?d (''rowforge'' @ tg_bin_suffix target)" by simp
  obtain s1 where s1: "s1 = in_context msg (copy_file binary (path_join ?d (''rowforge'' @ tg_bin_suffix target)) (io, fs))" by simp
  note eq = fill_staging_def[of env binary hs target "(io, fs)", unfolded Let_def, folded msg, folded s1, unfolded r]
  have "?G (state_of (write_file (comps ?d @ [''rowforge'' @ tg_bin_suffix target]) t (io, fs)))" for t
    by (rule grown_write[OF g]) (use suffix in auto)
  then have g1: "?G (state_of s1)" using g d[OF suffix] by (auto simp: s1 copy_file_def simp del: append.simps split: sum.split)
  show ?thesis
  proof (cases s1)
    case (Inl a)
    then show ?thesis using eq g1 by (auto simp: state_of_def split: prod.splits)
  next
    case (Inr b)
    obtain io1 fs1 where b: "b = (io1, fs1)" by (cases b)
    have G1: "?G fs1" using g1 Inr b by simp
    obtain s2 where s2: "s2 = create_dirs (comps (path_join ?d ''handlers'')) (io1, fs1)" by simp
    have g2: "?G (state_of s2)" using grown_create_dirs[OF G1, of "[''handlers'']" io1] good d by (simp add: s2)
    note eq2 = eq[unfolded Inr b, simplified sum.case, folded s2]
    show ?thesis
    proof (cases s2)
      case (Inl a)
      then show ?thesis using eq2 g2 by (auto simp: state_of_def split: prod.splits)
    next
      case (Inr b2)
      obtain io2 fs2 where b2: "b2 = (io2, fs2)" by (cases b2)
      have G2: "?G fs2" using g2 Inr b2 by simp
      obtain res3 io3 fs3 where s3: "stage_handlers env (path_join ?d ''handlers'') hs [] (io2, fs2) = Some (res3, io3, fs3)"
        using eq2 Inr b2 by (auto split: option.splits)
      have G3: "?G fs3" by (rule grown_stage_handlers[OF names _ G2 s3]) (use good d in auto)
      have w: "?G (state_of (write_file (comps (path_join ?d ''README.md'')) t (io3, fs3)))" for t
        using grown_write[OF G3, of "[''README.md'']" t io3] good d by simp
      show ?thesis
      proof (cases res3)
        case (Inl a)
        then show ?thesis using eq2 \<open>s2 = Inr b2\<close> b2 s3 G3 by simp
      next
        case (Inr ss)
        then have "then_step (write_file (comps (path_join ?d ''README.md'')) (render_readme target ss (runtimes_of ss)) (io3, fs3)) (\<lambda>st. (Inr (), st)) = (res, io', fs')"
          using eq2 \<open>s2 = Inr b2\<close> b2 s3 by simp
        then show ?thesis using w then_step_state by (metis snd_conv)
      qed
    qed
  qed
qed
section \<open>What a packing touches\<close>

text \<open>The file that a path names, there or not yet; and the directory that a path names, not there yet.\<close>

definition names_file :: "fs \<Rightarrow> path \<Rightarrow> string list \<Rightarrow> bool" where
  "names_file fs p q =
     (comps p \<noteq> [] \<and> good_name (last (comps p)) \<and>
      (case walk MAX_LINKS fs [] (butlast (comps p)) of
         None \<Rightarrow> False
       | Some (k, o') \<Rightarrow> node_at fs o' = Some Dir \<and> q = o' @ [last (comps p)]) \<and>
      (case node_at fs q of None \<Rightarrow> True | Some (File s) \<Rightarrow> True | _ \<Rightarrow> False))"

definition fresh_dir :: "fs \<Rightarrow> path \<Rightarrow> string list \<Rightarrow> bool" where
  "fresh_dir fs p d = (names_file fs p d \<and> node_at fs d = None)"

lemma names_file_iff:
  "names_file fs p q \<longleftrightarrow> (\<exists>cs c k d. comps p = cs @ [c] \<and> good_name c \<and> walk MAX_LINKS fs [] cs = Some (k, d) \<and> node_at fs d = Some Dir \<and>
     q = d @ [c] \<and> (node_at fs q = None \<or> (\<exists>s. node_at fs q = Some (File s))))"
  by (cases "comps p" rule: rev_cases) (auto simp: names_file_def split: option.splits fnode.splits)

lemma covers_trans: "covers c b \<Longrightarrow> covers b a \<Longrightarrow> covers c a"
  unfolding covers_def by (metis option.inject)

lemma names_file_covered:
  assumes "covers fs' fs" "names_file fs p q" "node_at fs q = None \<Longrightarrow> node_at fs' q = None \<or> (\<exists>s. node_at fs' q = Some (File s))"
  shows "names_file fs' p q"
proof -
  obtain cs c k d where *: "comps p = cs @ [c]" "good_name c" "walk MAX_LINKS fs [] cs = Some (k, d)" "node_at fs d = Some Dir" "q = d @ [c]"
    and n: "node_at fs q = None \<or> (\<exists>s. node_at fs q = Some (File s))"
    using assms(2) unfolding names_file_iff by blast
  have "node_at fs' d = Some Dir" using assms(1) *(4) by (fastforce simp: covers_def)
  moreover have "node_at fs' q = None \<or> (\<exists>s. node_at fs' q = Some (File s))"
    using n
  proof (elim disjE exE)
    fix s
    assume "node_at fs q = Some (File s)"
    then have "node_at fs' q = Some (File s) \<or> (\<exists>t t'. File s = File t \<and> node_at fs' q = Some (File t'))"
      using assms(1) unfolding covers_def by blast
    then show ?thesis by blast
  qed (rule assms(3))
  ultimately show ?thesis using * walk_covers[OF assms(1) *(3)] unfolding names_file_iff by blast
qed

lemma names_file_walk:
  assumes "names_file fs p q"
  shows "node_at fs q = None \<Longrightarrow> walk MAX_LINKS fs [] (comps p) = None"
    and "node_at fs q = Some (File s) \<Longrightarrow> \<exists>k. walk MAX_LINKS fs [] (comps p) = Some (k, q)"
proof -
  obtain cs c k d where *: "comps p = cs @ [c]" "good_name c" "walk MAX_LINKS fs [] cs = Some (k, d)" "node_at fs d = Some Dir" "q = d @ [c]"
    using assms unfolding names_file_iff by blast
  have c: "c \<noteq> ''..''" using *(2) by (simp add: good_name_def)
  show "node_at fs q = None \<Longrightarrow> walk MAX_LINKS fs [] (comps p) = None" using * c by (simp add: walk_append hop_def)
  show "node_at fs q = Some (File s) \<Longrightarrow> \<exists>k. walk MAX_LINKS fs [] (comps p) = Some (k, q)" using * c by (simp add: walk_append hop_def)
qed

lemma names_file_write:
  assumes "names_file fs p q"
  shows "write_file (comps p) t (io, fs) = put_file q t (io, fs)"
proof -
  obtain cs c k d where *: "comps p = cs @ [c]" "walk MAX_LINKS fs [] cs = Some (k, d)" "node_at fs d = Some Dir" "q = d @ [c]"
    and n: "node_at fs q = None \<or> (\<exists>s. node_at fs q = Some (File s))"
    using assms unfolding names_file_iff by blast
  show ?thesis
  proof (cases "node_at fs q")
    case None
    then show ?thesis using names_file_walk(1)[OF assms] * by (simp add: write_file_def)
  next
    case (Some m)
    then obtain s where "node_at fs q = Some (File s)" using n by auto
    then show ?thesis using names_file_walk(2)[OF assms] by (auto simp: write_file_def)
  qed
qed

lemma put_keeps:
  assumes "fs_ok fs" "names_file fs p q" "put_file q t (io, fs) = r"
  shows "fs_ok (state_of r)" "names_file (state_of r) p q" "\<And>x. x \<noteq> q \<Longrightarrow> node_at (state_of r) x = node_at fs x" "covers (state_of r) fs"
    "\<And>st. r = Inr st \<Longrightarrow> node_at (snd st) q = Some (File t)"
proof -
  obtain bad io' where p: "poll io = (bad, io')" by (cases "poll io")
  let ?fs = "bt_insert q (File t) fs"
  obtain d c where q: "q = d @ [c]" "good_name c" "node_at fs d = Some Dir"
    and fq: "node_at fs q = None \<or> (\<exists>s. node_at fs q = Some (File s))" using assms(2) unfolding names_file_iff by blast
  have at: "node_at ?fs x = (if x = q then Some (File t) else node_at fs x)" for x using assms(1) q by (simp add: node_at_insert)
  have ok: "fs_ok ?fs" unfolding q(1) using assms(1) q fq by (intro fs_ok_insert) auto
  have cov: "covers ?fs fs" using fq by (auto simp: covers_def at)
  have nf: "names_file ?fs p q" by (rule names_file_covered[OF cov assms(2)]) (simp add: at)
  have r: "r = (if bad then Inl (''No space left on device'', io', fs) else Inr (io', ?fs))" using assms(3) p by (simp add: put_file_def)
  have "covers fs fs" by (simp add: covers_def)
  then show "fs_ok (state_of r)" "names_file (state_of r) p q" "\<And>x. x \<noteq> q \<Longrightarrow> node_at (state_of r) x = node_at fs x" "covers (state_of r) fs"
    "\<And>st. r = Inr st \<Longrightarrow> node_at (snd st) q = Some (File t)"
    using r ok nf cov at assms by (auto split: if_splits)
qed

lemma fresh_staging:
  assumes ok: "fs_ok fs" and s: "fresh_dir fs p d"
  shows "mkdir_step (comps p) (io, fs) = Inl (''Input/output error'', snd (poll io), fs) \<or>
    mkdir_step (comps p) (io, fs) = Inr (snd (poll io), bt_insert d Dir fs) \<and> grown fs (comps p) d (bt_insert d Dir fs)"
proof -
  have nf: "names_file fs p d" and free: "node_at fs d = None" using s by (simp_all add: fresh_dir_def)
  obtain cs c k o' where *: "comps p = cs @ [c]" "good_name c" "walk MAX_LINKS fs [] cs = Some (k, o')" "node_at fs o' = Some Dir" "d = o' @ [c]"
    using nf unfolding names_file_iff by blast
  have "walk MAX_LINKS fs [] (cs @ [c]) = None" using names_file_walk(1)[OF nf free] *(1) by simp
  then show ?thesis
    using * free grown_fresh[OF ok *(3,4,2)] by (simp add: mkdir_step_def split: prod.split)
qed

lemma names_file_grown:
  assumes g: "grown fs ds d S" and o: "names_file fs p q" "q \<noteq> d"
  shows "names_file S p q" "\<not> prefix d q"
proof -
  obtain o' c where q: "q = o' @ [c]" "node_at fs o' = Some Dir" using o(1) unfolding names_file_iff by blast
  have "\<not> prefix d o'" using g q by (auto simp: grown_def)
  then show n: "\<not> prefix d q" using o q by (auto simp: prefix_snoc)
  have "covers S fs" using grown_extends[OF g] by (rule extends_covers)
  from names_file_covered[OF this o(1)] show "names_file S p q" using g n by (simp add: grown_def)
qed


text \<open>The parts of \<open>assemble_bundle\<close> after the staging directory is there.\<close>

lemma zip_exec:
  assumes "walk_into_zip fs p = Inr es" "Zip_File n True s \<in> set es"
  shows "n = ''rowforge'' \<or> n = ''rowforge.exe''"
proof -
  obtain d where "fold_result (\<lambda>e es. case zip_entry_of fs d e of Inl err \<Rightarrow> Inl err | Inr z \<Rightarrow> Inr (es @ [z])) (tree_below fs d) [] = Inr es"
    using assms(1) by (auto simp: walk_into_zip_def split: option.splits)
  from fold_collect[OF this] obtain zs where "es = zs" "list_all2 (\<lambda>e z. zip_entry_of fs d e = Inr z) (tree_below fs d) zs" by auto
  then obtain i where "i < length zs" "zs ! i = Zip_File n True s" using assms(2) by (auto simp: in_set_conv_nth)
  then have "zip_entry_of fs d (tree_below fs d ! i) = Inr (Zip_File n True s)" using list_all2_nthD2[OF \<open>list_all2 _ _ zs\<close>, of i] by simp
  then obtain e where "zip_entry_of fs d e = Inr (Zip_File n True s)" by blast
  then show ?thesis by (auto simp: zip_entry_of_def zip_name_def split: prod.splits if_splits sum.splits)
qed

lemma write_zip_keeps:
  assumes "fs_ok fs" "names_file fs output q" "write_zip env output (io, fs) = (res, io', fs')"
  shows "fs_ok fs' \<and> covers fs' fs \<and> (\<forall>x. x \<noteq> q \<longrightarrow> node_at fs' x = node_at fs x)"
    and "res = Inr u \<Longrightarrow> \<exists>es bytes. pk_zip env es = Inr bytes \<and> node_at fs' q = Some (File bytes) \<and>
       (\<forall>n s. Zip_File n True s \<in> set es \<longrightarrow> n = ''rowforge'' \<or> n = ''rowforge.exe'')"
proof -
  obtain r1 where r1: "put_file q [] (io, fs) = r1" by simp
  note k1 = put_keeps[OF assms(1,2) r1]
  have w: "write_zip env output (io, fs) = then_step (in_context (''create '' @ output) r1) (\<lambda>st1.
       (case walk_into_zip (snd st1) (pk_staging env) of
          Inl e \<Rightarrow> (Inl e, st1)
        | Inr es \<Rightarrow>
            (case pk_zip env es of
               Inl e \<Rightarrow> (Inl e, st1)
             | Inr bytes \<Rightarrow> then_step (write_file (comps output) bytes st1) (\<lambda>st2. (Inr (), st2)))))"
    using names_file_write[OF assms(2), of "[]" io] r1 by (simp add: write_zip_def)
  let ?goal = "fs_ok fs' \<and> covers fs' fs \<and> (\<forall>x. x \<noteq> q \<longrightarrow> node_at fs' x = node_at fs x) \<and> (res = Inr u \<longrightarrow> (\<exists>es bytes. pk_zip env es = Inr bytes \<and>
    node_at fs' q = Some (File bytes) \<and> (\<forall>n s. Zip_File n True s \<in> set es \<longrightarrow> n = ''rowforge'' \<or> n = ''rowforge.exe'')))"
  have ?goal
  proof (cases r1)
    case (Inl a)
    then show ?thesis using k1 w assms(3) by (cases a) (auto simp: then_step_def in_context_def)
  next
    case (Inr b)
    obtain io1 fs1 where b: "b = (io1, fs1)" by (cases b)
    have f1: "fs_ok fs1" "names_file fs1 output q" "covers fs1 fs" "\<And>x. x \<noteq> q \<Longrightarrow> node_at fs1 x = node_at fs x" using k1 Inr b by simp_all
    show ?thesis
    proof (cases "\<exists>es bytes. walk_into_zip fs1 (pk_staging env) = Inr es \<and> pk_zip env es = Inr bytes")
      case True
      then obtain es bytes where e: "walk_into_zip fs1 (pk_staging env) = Inr es" "pk_zip env es = Inr bytes" by blast
      obtain r2 where r2: "put_file q bytes (io1, fs1) = r2" by simp
      note k2 = put_keeps[OF f1(1,2) r2]
      have t: "then_step r2 (\<lambda>st2. (Inr (), st2)) = (res, io', fs')"
        using w assms(3) Inr b e names_file_write[OF f1(2), of bytes io1] r2 by (simp add: then_step_def in_context_def)
      then have "fs' = state_of r2" by (metis then_step_state snd_conv)
      moreover have "res = Inr u \<Longrightarrow> r2 = Inr (io', fs')" using t by (auto simp: then_step_def split: sum.splits)
      moreover have "covers (state_of r2) fs" using k2(4) f1(3) by (rule covers_trans)
      ultimately show ?thesis using k2(1,3) k2(5)[of "(io', fs')"] f1(4) e by (auto intro!: exI[of _ es] dest: zip_exec[OF e(1)])
    next
      case False
      then have "fs' = fs1 \<and> (\<forall>u. res \<noteq> Inr u)" using w assms(3) Inr b by (auto simp: then_step_def in_context_def split: sum.splits)
      then show ?thesis using f1 by auto
    qed
  qed
  then show "fs_ok fs' \<and> covers fs' fs \<and> (\<forall>x. x \<noteq> q \<longrightarrow> node_at fs' x = node_at fs x)"
    and "res = Inr u \<Longrightarrow> \<exists>es bytes. pk_zip env es = Inr bytes \<and> node_at fs' q = Some (File bytes) \<and>
       (\<forall>n s. Zip_File n True s \<in> set es \<longrightarrow> n = ''rowforge'' \<or> n = ''rowforge.exe'')" by blast+
qed

text \<open>C26: When the manifests give their handlers plain names, packing leaves the disk as it was but for the output file, however it ends: the staging
  directory is gone, the sources are untouched. After a success the output is the archive of what was staged, in which no file is executable but
  one at the top called \<^verbatim>\<open>rowforge\<close> or \<^verbatim>\<open>rowforge.exe\<close>.\<close>

theorem pack_contained:
  assumes ok: "fs_ok fs" and fresh: "fresh_dir fs (pk_staging env) d" and out: "names_file fs output q" "q \<noteq> d"
    and names: "\<And>text m. pk_yaml env text = Inr m \<Longrightarrow> good_name (mf_name m)" and target: "parse_target alias = Inr target"
    and r: "assemble_bundle env binary handlers target output (io, fs) = Some (res, io', fs')"
  shows "fs_ok fs' \<and> (\<forall>x. x \<noteq> q \<longrightarrow> node_at fs' x = node_at fs x) \<and>
    (\<forall>u. res = Inr u \<longrightarrow> (\<exists>es bytes. pk_zip env es = Inr bytes \<and> node_at fs' q = Some (File bytes) \<and>
       (\<forall>n s. Zip_File n True s \<in> set es \<longrightarrow> n = ''rowforge'' \<or> n = ''rowforge.exe'')))"
proof (cases "\<exists>st. mkdir_step (comps (pk_staging env)) (io, fs) = Inr st")
  case False
  then show ?thesis using fresh_staging[OF ok fresh, of io] r ok by (auto simp: assemble_bundle_def in_context_def)
next
  case True
  then obtain io1 S where m: "mkdir_step (comps (pk_staging env)) (io, fs) = Inr (io1, S)" and g: "grown fs (comps (pk_staging env)) d S"
    using fresh_staging[OF ok fresh, of io] by auto
  obtain res2 io2 fs2 where f: "fill_staging env binary handlers target (io1, S) = Some (res2, io2, fs2)"
    using r m by (auto simp: assemble_bundle_def in_context_def split: option.splits)
  have suffix: "good_name (''rowforge'' @ tg_bin_suffix target)"
    using target by (auto simp: parse_target_def good_name_def split: if_splits)
  have g2: "grown fs (comps (pk_staging env)) d fs2" by (rule grown_fill_staging[OF g names suffix f])
  note o2 = names_file_grown[OF g2 out] and ok2 = grown_ok[OF g2]
  obtain res3 io3 fs3 where w: "write_zip env output (io2, fs2) = (res3, io3, fs3)" by (cases "write_zip env output (io2, fs2)")
  have gone: "fs_ok (remove_tree d F) \<and> canonicalize F (pk_staging env) = Some d \<and> (\<forall>x. x \<noteq> q \<longrightarrow> node_at (remove_tree d F) x = node_at fs x) \<and>
      node_at (remove_tree d F) q = node_at F q"
    if F: "fs_ok F" "covers F fs2" "\<forall>x. x \<noteq> q \<longrightarrow> node_at F x = node_at fs2 x" for F
  proof -
    obtain k where k: "walk MAX_LINKS fs2 [] (comps (pk_staging env)) = Some (k, d)" and d: "d \<noteq> []" using g2 by (auto simp: grown_def)
    have "canonicalize F (pk_staging env) = Some d" using walk_covers[OF F(2) k] by (simp add: canonicalize_def)
    moreover have "node_at fs x = None" if "prefix d x" for x using g2 that by (simp add: grown_def)
    moreover have "node_at fs2 x = node_at fs x" if "\<not> prefix d x" for x using g2 that by (simp add: grown_def)
    ultimately show ?thesis using F d o2(2) fs_ok_remove[OF F(1) d] by (simp add: node_at_remove)
  qed
  show ?thesis
  proof (cases res2)
    case (Inl e)
    have "covers fs2 fs2" by (simp add: covers_def)
    then show ?thesis using gone[OF ok2] r m f Inl by (auto simp: assemble_bundle_def in_context_def drop_staging_def)
  next
    case (Inr v)
    have keep: "fs_ok fs3" "covers fs3 fs2" "\<forall>x. x \<noteq> q \<longrightarrow> node_at fs3 x = node_at fs2 x" using write_zip_keeps(1)[OF ok2 o2(1) w] by simp_all
    have "res = res3" "fs' = remove_tree d fs3"
      using gone[OF keep] r m f Inr w by (auto simp: assemble_bundle_def in_context_def drop_staging_def)
    then show ?thesis using gone[OF keep] write_zip_keeps(2)[OF ok2 o2(1) w] by auto
  qed
qed

section \<open>Witnesses and limits\<close>

text \<open>Two handlers in \<^verbatim>\<open>/s\<close>, the staging directory \<^verbatim>\<open>/t/x\<close>, a handler of a workspace in \<^verbatim>\<open>/w\<close>.\<close>

definition demo_pack :: "string \<Rightarrow> pack_env" where
  "demo_pack name =
     \<lparr> pk_probe = True, pk_exe = Inr ''/b/rowforge'', pk_cargo = (\<lambda>_ _ fs. (Inr (Some 0), fs)), pk_staging = ''/t/x'',
       pk_yaml = (\<lambda>_. Inr (demo_manifest\<lparr> mf_name := name \<rparr>)), pk_zip = (\<lambda>es. Inr ''zip'') \<rparr>"

definition demo_target :: pack_target where
  "demo_target = \<lparr> tg_alias = ''linux-x86_64'', tg_triple = ''x86_64-unknown-linux-gnu'', tg_bin_suffix = '''' \<rparr>"

definition demo_disk :: fs where
  "demo_disk =
     [([''b''], Dir), ([''b'', ''rowforge''], File ''elf''), ([''s''], Dir), ([''s'', ''g''], Dir), ([''s'', ''g'', ''rowforge.yaml''], File ''y''),
      ([''s'', ''g'', ''run.py''], File ''new''), ([''s'', ''h''], Dir), ([''s'', ''h'', ''rowforge.yaml''], File ''y''), ([''s'', ''h'', ''run.py''], File ''old''),
      ([''t''], Dir), ([''w''], Dir), ([''w'', ''h''], Dir), ([''w'', ''h'', ''run.py''], File ''mine'')]"

lemma demo_disk_ok: "fs_ok demo_disk" by code_simp

lemma pack_contained_witness:
  "case assemble_bundle (demo_pack ''h'') ''/b/rowforge'' [''/s/h''] demo_target ''/w/out.zip'' (Some 3, demo_disk) of
     Some (r, io, fs) \<Rightarrow> fs_ok fs \<and> node_at fs [''s'', ''h'', ''run.py''] = Some (File ''old'')
   | None \<Rightarrow> False"
proof -
  have f: "fresh_dir demo_disk (pk_staging (demo_pack ''h'')) [''t'', ''x'']" by code_simp
  have ofile: "names_file demo_disk ''/w/out.zip'' [''w'', ''out.zip'']" by code_simp
  have n: "good_name (mf_name m)" if "pk_yaml (demo_pack ''h'') t = Inr m" for t m
    using that by (auto simp: demo_pack_def good_name_def)
  have t: "parse_target ''linux-x86_64'' = Inr demo_target" by (simp add: parse_target_def demo_target_def)
  have s: "assemble_bundle (demo_pack ''h'') ''/b/rowforge'' [''/s/h''] demo_target ''/w/out.zip'' (Some 3, demo_disk) \<noteq> None" by code_simp
  have "node_at demo_disk [''s'', ''h'', ''run.py''] = Some (File ''old'')" by code_simp
  then show ?thesis using s pack_contained[OF demo_disk_ok f ofile _ n t] by (fastforce split: option.split prod.split)
qed

text \<open>The name in a manifest is not checked: joined to the staging directory it can lead out of it, and packing then overwrites files of the user, which the removal
  of the staging directory does not bring back.\<close>

theorem pack_name_escapes:
  "case assemble_bundle (demo_pack ''../../../w/h'') ''/b/rowforge'' [''/s/h''] demo_target ''/w/out.zip'' (None, demo_disk) of
     Some (Inr (), io, fs) \<Rightarrow> node_at demo_disk [''w'', ''h'', ''run.py''] = Some (File ''mine'') \<and> node_at fs [''w'', ''h'', ''run.py''] = Some (File ''old'')
   | _ \<Rightarrow> False"
  by code_simp

text \<open>Two handlers with one name are staged into one directory: the command succeeds, and the files of the later one are packed in the place of those of the first.\<close>

theorem pack_merges_names:
  "case fill_staging (demo_pack ''h'') ''/b/rowforge'' [''/s/h'', ''/s/g''] demo_target (None, bt_insert [''t'', ''x''] Dir demo_disk) of
     Some (Inr (), io, fs) \<Rightarrow> children fs [''t'', ''x'', ''handlers''] = [''h''] \<and> node_at fs [''t'', ''x'', ''handlers'', ''h'', ''run.py''] = Some (File ''new'')
   | _ \<Rightarrow> False"
  by code_simp

end
