(* ===== verification/Cli_Main.thy ===== *)
theory Cli_Main
  imports Cli_Manage Cli_Pack Store_Clients
begin

text \<open>
  The command line as a program: the commands of \<^verbatim>\<open>exec_cmd.rs\<close> with what they print on the standard output, and \<^verbatim>\<open>main.rs\<close>, from the parsed arguments
  to the exit code. A machine is what processes share, the registries and the disk; one call of the program is a step of it. What
  \<^verbatim>\<open>exec run\<close>, \<^verbatim>\<open>run\<close>, \<^verbatim>\<open>handler build\<close> and \<^verbatim>\<open>exec delete\<close> print is not modelled, nor what they leave in their own output directories.
\<close>

section \<open>Printing\<close>

text \<open>Padding counts characters, not the bytes that continue one.\<close>

definition char_count :: "string \<Rightarrow> nat" where
  "char_count s = length (filter (\<lambda>c. \<not> (128 \<le> (of_char c :: nat) \<and> (of_char c :: nat) < 192)) s)"

definition pad_left :: "nat \<Rightarrow> string \<Rightarrow> string" where
  "pad_left n s = s @ replicate (n - char_count s) CHR '' ''"

definition pad_right :: "nat \<Rightarrow> string \<Rightarrow> string" where
  "pad_right n s = replicate (n - char_count s) CHR '' '' @ s"

definition or_dash :: "string option \<Rightarrow> string" where
  "or_dash s = (case s of None \<Rightarrow> ''-'' | Some t \<Rightarrow> t)"

fun attempt_state_debug :: "attempt_state \<Rightarrow> string" where
  "attempt_state_debug Running = ''Running''"
| "attempt_state_debug Completed = ''Completed''"
| "attempt_state_debug Aborted = ''Aborted''"

definition opt_line :: "string \<Rightarrow> string option \<Rightarrow> string list" where
  "opt_line label v = (case v of None \<Rightarrow> [] | Some s \<Rightarrow> [label @ s])"

definition print_exec :: "(time \<Rightarrow> string) \<Rightarrow> execution \<Rightarrow> string list" where
  "print_exec rfc e =
     [''id:                          '' @ ex_id e,
      ''name:                        '' @ or_dash (ex_name e),
      ''state:                       '' @ execution_state_debug (ex_state e),
      ''dir:                         '' @ ex_dir e,
      ''input_csv_id:                '' @ ex_input_csv_id e,
      ''input_csv_hash:              '' @ ex_input_csv_hash e,
      ''input_row_count:             '' @ nat_str (ex_input_row_count e),
      ''current_handler_instance_id: '' @ or_dash (ex_current_handler_instance_id e),
      ''created_at:                  '' @ rfc (ex_created_at e)]
     @ opt_line ''settled_at:                  '' (map_option rfc (ex_settled_at e))
     @ opt_line ''closed_at:                   '' (map_option rfc (ex_closed_at e))
     @ opt_line ''abandoned_at:                '' (map_option rfc (ex_abandoned_at e))
     @ opt_line ''abandoned_reason:            '' (ex_abandoned_reason e)"

definition exec_line :: "(time \<Rightarrow> string) \<Rightarrow> execution \<Rightarrow> string" where
  "exec_line rfc e =
     pad_left 32 (ex_id e) @ '' '' @ pad_left 11 (to_lowercase (execution_state_debug (ex_state e))) @ '' ''
     @ pad_right 7 (nat_str (ex_input_row_count e)) @ '' '' @ pad_left 25 (rfc (ex_created_at e)) @ '' '' @ or_dash (ex_name e)"

definition exec_header :: string where
  "exec_header = pad_left 32 ''ID'' @ '' '' @ pad_left 11 ''STATE'' @ '' '' @ pad_right 7 ''ROWS'' @ '' '' @ pad_left 25 ''CREATED'' @ '' NAME''"

fun source_short :: "run_source \<Rightarrow> string" where
  "source_short Full = ''full''"
| "source_short (Sampled n) = ''sampled('' @ nat_str n @ '')''"

definition attempt_line :: "(time \<Rightarrow> string) \<Rightarrow> attempt \<Rightarrow> string" where
  "attempt_line rfc a =
     pad_left 32 (at_id a) @ '' '' @ pad_left 10 (to_lowercase (attempt_state_debug (at_state a))) @ '' ''
     @ pad_right 7 (nat_str (at_success_count a)) @ '' '' @ pad_right 7 (nat_str (at_failed_count a)) @ '' ''
     @ pad_left 12 (source_short (at_source a)) @ '' '' @ pad_left 35 (rfc (at_started_at a)) @ '' '' @ at_dir a"

definition attempt_header :: string where
  "attempt_header = pad_left 32 ''ATTEMPT ID'' @ '' '' @ pad_left 10 ''STATE'' @ '' '' @ pad_right 7 ''OK'' @ '' '' @ pad_right 7 ''FAILED'' @ '' ''
     @ pad_left 12 ''SOURCE'' @ '' '' @ pad_left 35 ''STARTED'' @ '' DIR''"

definition print_attempt :: "(time \<Rightarrow> string) \<Rightarrow> attempt \<Rightarrow> string list" where
  "print_attempt rfc a =
     [''id:                  '' @ at_id a,
      ''execution_id:        '' @ at_execution_id a,
      ''handler_instance_id: '' @ at_handler_instance_id a,
      ''state:               '' @ attempt_state_debug (at_state a),
      ''source:              '' @ source_debug (at_source a),
      ''simulation:          '' @ simulation_debug (at_simulation a),
      ''success_count:       '' @ nat_str (at_success_count a),
      ''failed_count:        '' @ nat_str (at_failed_count a),
      ''started_at:          '' @ rfc (at_started_at a)]
     @ opt_line ''ended_at:            '' (map_option rfc (at_ended_at a))
     @ opt_line ''aborted_reason:      '' (at_aborted_reason a)
     @ [''dir:                 '' @ at_dir a,
        ''  success.csv:       '' @ path_join (at_dir a) ''success.csv'',
        ''  failed.csv:        '' @ path_join (at_dir a) ''failed.csv'',
        ''  meta.json:         '' @ path_join (at_dir a) ''meta.json'']"

section \<open>The commands on executions\<close>

record start_args =
  sg_csv :: path
  sg_name :: "string option"
  sg_csv_id :: string
  sg_handler_instance_id :: "string option"

datatype exec_cmd =
    Exec_Start start_args
  | Exec_List
  | Exec_Show string
  | Exec_Set_State string cli_state "string option"
  | Exec_Run run_args
  | Exec_Attempts string
  | Exec_Attempt string
  | Exec_Export export_args
  | Exec_Delete "string option" bool

text \<open>What one call of the program meets outside: the environment, the clock, fresh identifiers, files, child processes.\<close>

record main_env =
  me_home_var :: "string option"
  me_home_dir :: "path option"
  me_cli :: cli_env
  me_sha :: "string \<Rightarrow> string"
  me_chunks :: "path \<Rightarrow> string list option"
  me_ulid :: string
  me_now :: time
  me_fuse :: fuse
  me_rfc :: "time \<Rightarrow> string"
  me_export_io :: "path \<Rightarrow> string option"
  me_stamp :: string
  me_json :: "string \<Rightarrow> json option"
  me_read :: "path \<Rightarrow> string option"
  me_scan :: scan_env
  me_build :: build_env
  me_run_id :: string
  me_header :: "string + string list"
  me_recs :: "(string + string list) list"
  me_tmp :: path
  me_pack :: pack_env
  me_run :: "(string list \<times> string list list) option \<Rightarrow> run_env"

text \<open>\<^verbatim>\<open>rowforge_home\<close>, and \<^verbatim>\<open>rowforge_workspace\<close> of \<^verbatim>\<open>main.rs\<close>.\<close>

definition rowforge_home :: "main_env \<Rightarrow> string + path" where
  "rowforge_home env =
     (case me_home_var env of
        Some d \<Rightarrow> Inr d
      | None \<Rightarrow> (case me_home_dir env of None \<Rightarrow> Inl ''no home dir'' | Some h \<Rightarrow> Inr (path_join h ''.rowforge'')))"

text \<open>The results of a command that prints: the lines, the end, the registry.\<close>

type_synonym exec_result = "string list \<times> cli_result \<times> store"

definition failed_with :: "core_error \<Rightarrow> store \<Rightarrow> exec_result" where
  "failed_with e st = ([], Failed (core_error_text e), st)"

definition exec_start_cmd :: "main_env \<Rightarrow> start_args \<Rightarrow> store \<Rightarrow> exec_result" where
  "exec_start_cmd env a st =
     (case create_execution (me_sha env) (me_chunks env (sg_csv a)) (path_extension (sg_csv a)) (me_ulid env) (me_now env)
             \<lparr> nx_name = sg_name a, nx_input_csv_id = sg_csv_id a, nx_input_csv_path = sg_csv a,
               nx_current_handler_instance_id = sg_handler_instance_id a \<rparr> (me_fuse env) st of
        (Inl e, st') \<Rightarrow> failed_with e st'
      | (Inr x, st') \<Rightarrow>
          ([''created '' @ ex_id x,
            ''  dir:        '' @ ex_dir x,
            ''  rows:       '' @ nat_str (ex_input_row_count x),
            ''  csv_hash:   '' @ ex_input_csv_hash x,
            ''  state:      '' @ execution_state_debug (ex_state x)], Code 0, st'))"

definition exec_list_cmd :: "main_env \<Rightarrow> store \<Rightarrow> exec_result" where
  "exec_list_cmd env st =
     (case list_executions st of
        Inl e \<Rightarrow> failed_with e st
      | Inr [] \<Rightarrow> ([''(no executions)''], Code 0, st)
      | Inr xs \<Rightarrow> (exec_header # map (exec_line (me_rfc env)) xs, Code 0, st))"

definition exec_show_cmd :: "main_env \<Rightarrow> string \<Rightarrow> store \<Rightarrow> exec_result" where
  "exec_show_cmd env i st =
     (case get_execution st i of
        Inl e \<Rightarrow> failed_with e st
      | Inr None \<Rightarrow> ([], Failed (''execution not found: '' @ i), st)
      | Inr (Some x) \<Rightarrow> (print_exec (me_rfc env) x, Code 0, st))"

text \<open>The state itself is \<open>cli_set_state\<close>; the new row is printed.\<close>

definition exec_set_state_cmd :: "main_env \<Rightarrow> string \<Rightarrow> cli_state \<Rightarrow> string option \<Rightarrow> store \<Rightarrow> exec_result" where
  "exec_set_state_cmd env i s reason st =
     (let (r, st') = cli_set_state i s reason (me_now env) (me_fuse env) st in
      (case (r, fst (set_execution_state i (state_of_cli s) reason (me_now env) (me_fuse env) st)) of
         (Code _, Inr x) \<Rightarrow> print_exec (me_rfc env) x | _ \<Rightarrow> [], r, st'))"

definition exec_attempts_cmd :: "main_env \<Rightarrow> string \<Rightarrow> store \<Rightarrow> exec_result" where
  "exec_attempts_cmd env i st =
     (case list_attempts_for_execution st i of
        Inl e \<Rightarrow> failed_with e st
      | Inr [] \<Rightarrow> ([''(no attempts)''], Code 0, st)
      | Inr as \<Rightarrow> (attempt_header # map (attempt_line (me_rfc env)) as, Code 0, st))"

definition show_attempt_cmd :: "main_env \<Rightarrow> string \<Rightarrow> store \<Rightarrow> exec_result" where
  "show_attempt_cmd env i st =
     (case get_attempt st i of
        Inl e \<Rightarrow> failed_with e st
      | Inr None \<Rightarrow> ([], Failed (''attempt not found: '' @ i), st)
      | Inr (Some a) \<Rightarrow> (print_attempt (me_rfc env) a, Code 0, st))"

definition exec_export_cmd :: "main_env \<Rightarrow> export_args \<Rightarrow> store \<Rightarrow> exec_result" where
  "exec_export_cmd env a st =
     (let c = me_cli env in
      (case fst (export_execution (ce_show c) (ce_parse c) (ce_files c) (me_export_io env) (me_stamp env) st (xa_exec_id a) (export_opts_of a)) of
         Inr rp \<Rightarrow> [''exported '' @ nat_str (er_success_count rp) @ '' success / '' @ nat_str (er_failed_count rp) @ '' failed rows to '' @ er_output_dir rp]
       | Inl _ \<Rightarrow> [],
       do_export (ce_show c) (ce_parse c) (ce_files c) (me_export_io env) (me_stamp env) st a, st))"

text \<open>A \<^verbatim>\<open>delete\<close> is taken out in \<^verbatim>\<open>main\<close>; here it is \<^verbatim>\<open>unreachable!\<close>.\<close>

fun exec_dispatch :: "main_env \<Rightarrow> exec_cmd \<Rightarrow> store \<Rightarrow> exec_result" where
  "exec_dispatch env (Exec_Start a) st = exec_start_cmd env a st"
| "exec_dispatch env Exec_List st = exec_list_cmd env st"
| "exec_dispatch env (Exec_Show i) st = exec_show_cmd env i st"
| "exec_dispatch env (Exec_Set_State i s r) st = exec_set_state_cmd env i s r st"
| "exec_dispatch env (Exec_Run a) st = (let (r, st') = run_attempt (me_cli env) st a in ([], r, st'))"
| "exec_dispatch env (Exec_Attempts i) st = exec_attempts_cmd env i st"
| "exec_dispatch env (Exec_Attempt i) st = show_attempt_cmd env i st"
| "exec_dispatch env (Exec_Export a) st = exec_export_cmd env a st"
| "exec_dispatch env (Exec_Delete _ _) st = ([], Panic, st)"

section \<open>The program\<close>

datatype cmd =
    Cmd_Run run_cmd_args
  | Cmd_Pack pack_args
  | Cmd_Exec exec_cmd
  | Cmd_Handler_Build "string option" bool

text \<open>What processes share: what opening the registry of a directory gives, and the disk.\<close>

record machine =
  mc_open :: "path \<Rightarrow> core_error + store"
  mc_disk :: "fuse \<times> fs"

definition save_store :: "path \<Rightarrow> store \<Rightarrow> machine \<Rightarrow> machine" where
  "save_store home st mc = mc\<lparr> mc_open := (mc_open mc)(home := Inr st) \<rparr>"

text \<open>\<^verbatim>\<open>exec_cmd::run\<close>\<close>

definition exec_run :: "main_env \<Rightarrow> exec_cmd \<Rightarrow> machine \<Rightarrow> string list \<times> cli_result \<times> machine" where
  "exec_run env c mc =
     (case rowforge_home env of
        Inl e \<Rightarrow> ([], Failed e, mc)
      | Inr home \<Rightarrow>
          (case mc_open mc home of
             Inl e \<Rightarrow> ([], Failed (''open execution store at '' @ home @ '': '' @ core_error_text e), mc)
           | Inr st \<Rightarrow> (case exec_dispatch env c st of (lines, r, st') \<Rightarrow> (lines, r, save_store home st' mc))))"

definition code_or_error :: "string + nat \<Rightarrow> process_end" where
  "code_or_error r = (case r of Inl _ \<Rightarrow> Exits 3 | Inr n \<Rightarrow> Exits (int n))"

text \<open>\<^verbatim>\<open>main\<close>: the lines printed, how the process ends, and the machine after it. A packing without a result (\<open>Cli_Pack\<close>) counts as an abort.\<close>

definition main_delete :: "main_env \<Rightarrow> string option \<Rightarrow> bool \<Rightarrow> machine \<Rightarrow> process_end \<times> machine" where
  "main_delete env exec_id all_completed mc =
     (case rowforge_home env of
        Inl e \<Rightarrow> (Exits 3, mc)
      | Inr ws \<Rightarrow>
          (case exec_delete_run (me_json env) (me_read env) (me_scan env) (mc_open mc) (mc_disk mc) ws exec_id all_completed of
             (r, None) \<Rightarrow> (code_or_error r, mc)
           | (r, Some sk) \<Rightarrow> (code_or_error r, (save_store ws (sd_store (sk_studio sk)) mc)\<lparr> mc_disk := sk_disk sk \<rparr>)))"

fun main :: "main_env \<Rightarrow> cmd \<Rightarrow> machine \<Rightarrow> string list \<times> process_end \<times> machine" where
  "main env (Cmd_Run a) mc =
     ([], run_exit (run_command (me_json env) (me_run_id env) (me_header env) (me_recs env) (me_tmp env) (me_run env) a), mc)"
| "main env (Cmd_Pack a) mc =
     (case pack_run (me_pack env) a (mc_disk mc) of
        None \<Rightarrow> ([], Aborts, mc)
      | Some (Inl e, st) \<Rightarrow> ([], Exits 3, mc\<lparr> mc_disk := st \<rparr>)
      | Some (Inr _, st) \<Rightarrow> ([], Exits 0, mc\<lparr> mc_disk := st \<rparr>))"
| "main env (Cmd_Exec (Exec_Delete i all_completed)) mc = ([], main_delete env i all_completed mc)"
| "main env (Cmd_Exec c) mc = (case exec_run env c mc of (lines, r, mc') \<Rightarrow> (lines, exec_exit r, mc'))"
| "main env (Cmd_Handler_Build name force) mc =
     (case rowforge_home env of
        Inl e \<Rightarrow> ([], Exits 3, mc)
      | Inr ws \<Rightarrow>
          (case handler_build_run (me_build env) (snd (mc_disk mc)) ws name force of
             None \<Rightarrow> ([], Aborts, mc)
           | Some r \<Rightarrow> ([], code_or_error r, mc)))"

definition main_step :: "main_env \<times> cmd \<Rightarrow> machine \<Rightarrow> machine" where
  "main_step c mc = snd (snd (main (fst c) (snd c) mc))"

section \<open>What sequences of commands keep\<close>

definition reg_has :: "(store \<Rightarrow> bool) \<Rightarrow> machine \<Rightarrow> bool" where
  "reg_has P mc = (\<forall>home st. mc_open mc home = Inr st \<longrightarrow> P st)"

text \<open>A deletion of all executions is only harmless to properties that any deletion keeps.\<close>

fun harmless :: "(string \<Rightarrow> bool) \<Rightarrow> cmd \<Rightarrow> bool" where
  "harmless spared (Cmd_Exec (Exec_Delete i True)) = (\<forall>e. \<not> spared e)"
| "harmless spared (Cmd_Exec (Exec_Delete (Some i) False)) = (\<not> spared i)"
| "harmless spared c = True"

lemma saved_has: "reg_has P mc \<Longrightarrow> P st \<Longrightarrow> reg_has P (save_store home st mc)"
  by (simp add: reg_has_def save_store_def)

lemma disk_has [simp]: "reg_has P (mc\<lparr> mc_disk := d \<rparr>) = reg_has P mc"
  by (simp add: reg_has_def)

context store_client
begin

lemma dispatch_keeps: "P st \<Longrightarrow> exec_dispatch env c st = (lines, r, st') \<Longrightarrow> P st'"
  using run_attempt_keeps[of st] cli_set_state_keeps[of st]
  by (cases c) (auto simp: exec_start_cmd_def exec_list_cmd_def exec_show_cmd_def exec_set_state_cmd_def exec_attempts_cmd_def show_attempt_cmd_def
      exec_export_cmd_def failed_with_def Let_def split: sum.splits prod.splits option.splits list.splits dest: results_keep, (metis snd_conv)+)

lemma exec_run_keeps: "reg_has P mc \<Longrightarrow> exec_run env c mc = (lines, r, mc') \<Longrightarrow> reg_has P mc'"
  by (auto simp: exec_run_def split: sum.splits prod.splits intro!: saved_has) (metis dispatch_keeps reg_has_def)

lemma delete_targets_harmless:
  "delete_targets js read ws sk i all = Inr is \<Longrightarrow> harmless spared (Cmd_Exec (Exec_Delete i all)) \<Longrightarrow> list_all (\<lambda>e. \<not> spared e) is"
  by (cases i; cases all) (auto simp: delete_targets_def list_all_iff split: sum.splits)

lemma main_delete_keeps:
  assumes mc: "reg_has P mc" and h: "harmless spared (Cmd_Exec (Exec_Delete i all))"
  shows "reg_has P (snd (main_delete env i all mc))"
proof (cases "rowforge_home env")
  case (Inr ws)
  obtain r k where k: "exec_delete_run (me_json env) (me_read env) (me_scan env) (mc_open mc) (mc_disk mc) ws i all = (r, k)"
    by (cases "exec_delete_run (me_json env) (me_read env) (me_scan env) (mc_open mc) (mc_disk mc) ws i all")
  have "P (sd_store (sk_studio sk))" if s: "k = Some sk" for sk
  proof -
    obtain core where c: "open_studio None (mc_open mc) (me_scan env) (default_opts\<lparr> op_workspace := Some ws \<rparr>) = Inr core"
      using k s by (auto simp: exec_delete_run_def split: sum.splits)
    have p: "P (sd_store (sc_studio core))" using open_studio_keeps[OF _ c] mc by (auto simp: reg_has_def)
    let ?sk = "\<lparr> sk_studio = sc_studio core, sk_disk = mc_disk mc \<rparr>"
    show ?thesis
    proof (cases "delete_targets (me_json env) (me_read env) ws ?sk i all")
      case (Inl e)
      then show ?thesis using k s c p by (auto simp: exec_delete_run_def Let_def)
    next
      case (Inr ts)
      have "P (sd_store (sk_studio (snd (execution_delete_bulk ws ts ?sk))))"
        using execution_delete_bulk_keeps[of ?sk ts ws] p delete_targets_harmless[OF Inr h] by simp
      then show ?thesis using k s c p Inr by (auto simp: exec_delete_run_def Let_def split: if_splits prod.splits)
    qed
  qed
  then show ?thesis using Inr k mc by (cases k) (auto simp: main_delete_def intro: saved_has)
qed (use mc in \<open>simp add: main_delete_def\<close>)

lemma main_step_keeps: "reg_has P mc \<Longrightarrow> harmless spared c \<Longrightarrow> reg_has P (main_step (env, c) mc)"
proof (induction env c mc rule: main.induct)
  case (3 env i all mc)
  then show ?case using main_delete_keeps by (simp add: main_step_def)
qed (auto simp: main_step_def dest: exec_run_keeps split: option.splits sum.splits prod.splits)

lemma session_keeps: "reg_has P mc \<Longrightarrow> list_all (\<lambda>c. harmless spared (snd c)) cs \<Longrightarrow> reg_has P (fold main_step cs mc)"
  by (induction cs arbitrary: mc) (auto simp: main_step_keeps)

end

text \<open>C23: Whatever commands are given in whatever order, with every file, clock, identifier, failure and child process they may meet, the registries stay well formed: starts, attempts,
  state changes, deletions of one or of all executions, and everything else the program does.\<close>

theorem commands_keep_registry:
  assumes "reg_has store_ok mc"
  shows "reg_has store_ok (fold main_step cs mc)"
proof -
  have "harmless (\<lambda>_. False) c" for c by (induction "\<lambda>_::string. False" c rule: harmless.induct) simp_all
  then show ?thesis using wf.session_keeps[OF assms] by (simp add: list_all_iff)
qed

text \<open>An attempt that has ended stays as it ended, over any sequence of commands that does not delete its execution.\<close>

theorem ended_attempt_kept_by_commands:
  assumes "reg_has (ended_row a r) mc" "list_all (\<lambda>c. harmless (\<lambda>e. e = ar_execution_id r) (snd c)) cs"
  shows "reg_has (ended_row a r) (fold main_step cs mc)"
  by (rule ended.session_keeps[OF assms])

section \<open>What single commands do\<close>

fun queries :: "cmd \<Rightarrow> bool" where
  "queries (Cmd_Exec Exec_List) = True"
| "queries (Cmd_Exec (Exec_Show _)) = True"
| "queries (Cmd_Exec (Exec_Attempts _)) = True"
| "queries (Cmd_Exec (Exec_Attempt _)) = True"
| "queries (Cmd_Exec (Exec_Export _)) = True"
| "queries _ = False"

lemma save_same [simp]: "mc_open mc home = Inr st \<Longrightarrow> save_store home st mc = mc"
  by (simp add: save_store_def fun_upd_idem)

lemma query_store: "queries (Cmd_Exec c) \<Longrightarrow> snd (snd (exec_dispatch env c st)) = st"
  by (cases c) (auto simp: exec_list_cmd_def exec_show_cmd_def exec_attempts_cmd_def show_attempt_cmd_def exec_export_cmd_def failed_with_def Let_def
      split: sum.split option.split list.split)

text \<open>Listing, showing and exporting leave the registries and the disk of the model as they are.\<close>

theorem queries_change_nothing:
  assumes "queries c"
  shows "main_step (env, c) mc = mc"
proof (cases c)
  case (Cmd_Exec x)
  have "snd (snd (exec_run env x mc)) = mc"
    using query_store[of x env] assms Cmd_Exec by (auto simp: exec_run_def split: sum.split prod.split) (metis save_same snd_conv)
  moreover have "\<not> (\<exists>i b. x = Exec_Delete i b)" using assms Cmd_Exec by auto
  ultimately show ?thesis using Cmd_Exec by (cases x) (auto simp: main_step_def split: prod.split)
qed (use assms in simp_all)

text \<open>The codes of an attempt.\<close>

lemma run_attempt_end: "exec_exit (fst (run_attempt env st a)) \<in> {Exits 0, Exits 1, Exits 2, Exits 3, Aborts}"
proof -
  have g: "exec_exit r \<in> {Exits 2, Aborts}" if "build_gate env d m = Some r" for d m r
    using that by (auto simp: build_gate_def exec_exit_def split: if_splits option.splits sum.splits build_error.splits)
  have p: "exec_exit r \<in> {Exits 2, Exits 3, Aborts}" if "prepare_attempt env st a = Inl r" for r
    using that g by (fastforce simp: prepare_attempt_def exec_exit_def split: sum.splits option.splits)
  have "exec_exit (fst (dispatch_attempt env a x skip dir att st2)) \<in> {Exits 0, Exits 1, Exits 2, Exits 3}" for x skip dir att st2
    by (auto simp: dispatch_attempt_def exec_exit_def exit_code_def Let_def split: option.split prod.split sum.split)
  then have d: "exec_exit (fst (dispatch_attempt env a x skip dir att st2)) \<in> {Exits 0, Exits 1, Exits 2, Exits 3, Aborts}" for x skip dir att st2
    by blast
  obtain E where E: "E = {Exits 0, Exits 1, Exits 2, Exits 3, Aborts}" by simp
  have e: "exec_exit r \<in> E" if "prepare_attempt env st a = Inl r" for r using p[OF that] E by auto
  have "exec_exit (Failed m) \<in> E" for m by (simp add: E exec_exit_def)
  then have "exec_exit (fst (run_attempt env st a)) \<in> E" using e d unfolding E[symmetric]
    by (cases "prepare_attempt env st a") (simp_all add: run_attempt_def split: sum.split prod.split)
  then show ?thesis by (simp only: E)
qed

text \<open>Every other command ends with one of four codes.\<close>

lemma exec_dispatch_end: "exec_exit (fst (snd (exec_dispatch env c st))) \<in> {Exits 0, Exits 1, Exits 2, Exits 3, Aborts}"
proof (cases c)
  case (Exec_Run a)
  then show ?thesis using run_attempt_end[of "me_cli env" st a] by (simp split: prod.split)
next
  case (Exec_Set_State i s r)
  then show ?thesis by (auto simp: exec_set_state_cmd_def cli_set_state_def exec_exit_def Let_def split: prod.split sum.split)
next
  case (Exec_Export a)
  then show ?thesis by (auto simp: exec_export_cmd_def do_export_def exec_exit_def Let_def split: sum.split)
qed (auto simp: exec_start_cmd_def exec_list_cmd_def exec_show_cmd_def exec_attempts_cmd_def show_attempt_cmd_def failed_with_def exec_exit_def
      split: sum.split option.split prod.split list.split)

definition valid_end :: "process_end \<Rightarrow> bool" where
  "valid_end e = (case e of Aborts \<Rightarrow> True | Exits n \<Rightarrow> 0 \<le> n \<and> n \<le> 125)"

lemma counted_end: "r = Inl e \<or> r = Inr n \<and> n \<le> 125 \<Longrightarrow> valid_end (code_or_error r)"
  by (auto simp: code_or_error_def valid_end_def)

lemma delete_end: "valid_end (code_or_error (fst (exec_delete_run js read env open_store disk ws i all)))"
  by (auto simp: exec_delete_run_def code_or_error_def valid_end_def Let_def split: sum.split prod.split)

lemma build_end: "handler_build_run env fs ws n f = Some r \<Longrightarrow> valid_end (code_or_error r)"
  by (auto simp: handler_build_run_def build_targets_def code_or_error_def valid_end_def Let_def split: sum.splits if_splits option.splits)

text \<open>Every call of the program ends by a panic or with an exit code from 0 to 125, so no count of failures is ever taken for a signal or wraps around to success.\<close>

theorem exit_codes_in_range: "valid_end (fst (snd (main env c mc)))"
proof -
  have x: "valid_end e" if "e \<in> {Exits 0, Exits 1, Exits 2, Exits 3, Aborts}" for e using that by (auto simp: valid_end_def)
  have e: "valid_end (exec_exit (fst (snd (exec_run env c mc))))" for c
    using x[OF exec_dispatch_end] x by (auto simp: exec_run_def exec_exit_def[of "Failed _"] split: sum.split prod.split) (metis fst_conv snd_conv)
  show ?thesis
  proof (cases "(env, c, mc)" rule: main.cases)
    case (1 env a mc)
    then show ?thesis
      by (auto simp: run_command_def run_exit_def map_error_to_exit_code_def exit_code_def valid_end_def split: sum.split prod.split)
  next
    case (2 env a mc)
    then show ?thesis by (auto simp: valid_end_def split: option.split sum.split prod.split)
  next
    case (3 env i all mc)
    then show ?thesis
      using delete_end[of "me_json env" "me_read env" "me_scan env" "mc_open mc" "mc_disk mc" _ i all]
      by (auto simp: main_delete_def valid_end_def[of "Exits _"] split: sum.split prod.split option.split) (metis fst_conv)+
  next
    case (5 env name force mc)
    then show ?thesis using build_end by (auto simp: valid_end_def split: sum.split option.split)
  qed (use e in \<open>simp_all add: case_prod_beta\<close>)
qed

text \<open>\<^verbatim>\<open>exec list\<close> on a well-formed registry always succeeds: one line for each execution below the header, the newest first, and a line of its own when there is none.\<close>

theorem list_is_complete:
  assumes "rowforge_home env = Inr home" "mc_open mc home = Inr st" "store_ok st"
  shows "case main env (Cmd_Exec Exec_List) mc of (lines, code, mc') \<Rightarrow> code = Exits 0 \<and> mc' = mc \<and>
    (if st_execs st = [] then lines = [''(no executions)'']
     else \<exists>xs. lines = exec_header # map (exec_line (me_rfc env)) xs \<and>
       map ex_id xs = map xr_id (rev (sort_key xr_created_at (st_execs st))))"
proof -
  obtain xs where xs: "list_executions st = Inr xs" using list_executions_total[OF assms(3)] by blast
  note rows = list_executions_rows[OF xs]
  then have ids: "map ex_id xs = map xr_id (rev (sort_key xr_created_at (st_execs st)))"
    by (induction rule: list_all2_induct) (auto dest: row_to_execution_fields)
  have "length xs = length (st_execs st)" using list_all2_lengthD[OF rows] by simp
  then show ?thesis using assms(1,2) xs ids
    by (cases xs) (auto simp: exec_run_def exec_list_cmd_def exec_exit_def intro!: exI[of _ xs])
qed

text \<open>\<^verbatim>\<open>exec attempts\<close> takes the name of an execution that does not exist for one without attempts, and succeeds, where \<^verbatim>\<open>exec show\<close> and \<^verbatim>\<open>exec attempt\<close> report an error.\<close>

theorem attempts_of_unknown_succeed:
  assumes "rowforge_home env = Inr home" "mc_open mc home = Inr st" "find_exec st i = None"
    and "\<forall>r \<in> set (st_attempts st). ar_execution_id r \<noteq> i"
  shows "main env (Cmd_Exec (Exec_Attempts i)) mc = ([''(no attempts)''], Exits 0, mc) \<and>
    main env (Cmd_Exec (Exec_Show i)) mc = ([], Exits 3, mc)"
proof -
  have "filter (\<lambda>r. ar_execution_id r = i) (st_attempts st) = []" using assms(4) by (simp add: filter_empty_conv)
  then have "list_attempts_for_execution st i = Inr []" by (simp add: list_attempts_for_execution_def)
  then show ?thesis using assms(1-3) by (simp add: exec_run_def exec_attempts_cmd_def exec_show_cmd_def get_execution_def exec_exit_def)
qed

section \<open>Witnesses\<close>

definition demo_machine :: machine where
  "demo_machine = \<lparr> mc_open = (\<lambda>_. Inr demo_store), mc_disk = (None, []) \<rparr>"

lemma demo_machine_open [simp]: "mc_open demo_machine d = Inr demo_store"
  by (simp add: demo_machine_def)

lemma commands_keep_registry_witness:
  "\<forall>env. reg_has store_ok (fold main_step [(env, Cmd_Exec (Exec_Set_State ''e_1'' Cli_Closed None)), (env, Cmd_Exec (Exec_Delete None True))] demo_machine)"
proof -
  have "reg_has store_ok demo_machine" using demo_store_ok by (simp add: reg_has_def)
  from commands_keep_registry[OF this] show ?thesis by blast
qed

lemma ended_attempt_kept_by_commands_witness:
  "\<exists>r. \<forall>env. reg_has (ended_row ''r_1'' r) (fold main_step [(env, Cmd_Exec (Exec_Set_State ''e_1'' Cli_Closed None)), (env, Cmd_Exec (Exec_Delete (Some ''e_9'') False))] demo_machine)"
proof -
  obtain r where r: "find_attempt demo_store ''r_1'' = Some r" "ar_state r = ''completed''" "ar_execution_id r = ''e_1''"
    using demo_attempts by (auto simp: find_attempt_def)
  then have "reg_has (ended_row ''r_1'' r) demo_machine" by (simp add: reg_has_def ended_row_def is_terminal_text_def)
  from ended_attempt_kept_by_commands[OF this] show ?thesis using r(3) by (intro exI[of _ r] allI) (simp del: fold.simps)
qed

lemma queries_change_nothing_witness: "\<forall>env. main_step (env, Cmd_Exec (Exec_Show ''e_1'')) demo_machine = demo_machine"
  using queries_change_nothing by simp

lemma list_is_complete_witness:
  "\<forall>env. \<exists>lines. main (env\<lparr> me_home_var := Some ''/w'' \<rparr>) (Cmd_Exec Exec_List) demo_machine = (lines, Exits 0, demo_machine) \<and> hd lines = exec_header"
proof
  fix env :: main_env
  have "st_execs demo_store \<noteq> []" by code_simp
  moreover have "rowforge_home (env\<lparr> me_home_var := Some ''/w'' \<rparr>) = Inr ''/w''" by (simp add: rowforge_home_def)
  from list_is_complete[OF this demo_machine_open demo_store_ok]
  show "\<exists>lines. main (env\<lparr> me_home_var := Some ''/w'' \<rparr>) (Cmd_Exec Exec_List) demo_machine = (lines, Exits 0, demo_machine) \<and> hd lines = exec_header"
    using calculation by (fastforce split: prod.splits)
qed

lemma attempts_of_unknown_succeed_witness:
  "\<forall>env. main (env\<lparr> me_home_var := Some ''/w'' \<rparr>) (Cmd_Exec (Exec_Attempts ''e_7'')) demo_machine = ([''(no attempts)''], Exits 0, demo_machine)"
proof
  fix env :: main_env
  have h: "rowforge_home (env\<lparr> me_home_var := Some ''/w'' \<rparr>) = Inr ''/w''" by (simp add: rowforge_home_def)
  have "find_exec demo_store ''e_7'' = None" "list_all (\<lambda>r. ar_execution_id r \<noteq> ''e_7'') (st_attempts demo_store)" by code_simp+
  then show "main (env\<lparr> me_home_var := Some ''/w'' \<rparr>) (Cmd_Exec (Exec_Attempts ''e_7'')) demo_machine = ([''(no attempts)''], Exits 0, demo_machine)"
    using attempts_of_unknown_succeed[OF h demo_machine_open] by (simp add: list_all_iff)
qed

end
