(* ===== verification/Spec2Isabelle.thy ===== *)
theory Spec2Isabelle
  imports Store_Invariants Export Pipeline Pipeline_Ledger Cli_Exec Cli_Manage Session_Registry Studio_Run Handler_Mgmt Studio_Views Smoke Desktop Desktop_Commands Cli_Main Cli_Pack
begin

text \<open>
  Verification library of rowforge, which runs a user's handler (a child process speaking JSON lines) over the rows of a CSV or JSONL
  file, keeps what became of every row, and lets a user continue, inspect and export that. The library models the Rust
  crates \<^verbatim>\<open>rowforge-core\<close>, \<^verbatim>\<open>rowforge-cli\<close>, \<^verbatim>\<open>rowforge-studio-core\<close> and the shell of the desktop application.

  \<^bold>\<open>How a run works.\<close> An execution is a copy of an input with a row in the registry (\<^verbatim>\<open>executions.db\<close>); each attempt of it runs a handler
  over the rows not done yet. A run starts four kinds of tasks: the reader sends the selected rows into a channel of 64,
  the accumulator groups them into batches for a second bounded channel, the workers each hold one process of the handler, exchange
  batches for outcomes and append one line per batch to \<^verbatim>\<open>outcomes.jsonl\<close>, and a monitor cancels a run whose file has
  stopped growing. The state of a row is what all attempts' files together say of it; that decides which rows the next attempt
  runs and what an export contains. The command line drives one attempt; the Studio keeps live runs in a table of sessions and shows them.

  \<^bold>\<open>The theories\<close>, each component before those that call it:
    \<^item> shared: \<open>Prelude\<close> (fuses, texts, ordered maps, folds over keyed maps, absorbing folds: three locales, all interpreted on the model's
      own maps and folds), \<open>Core_Error\<close>, \<open>Json_Values\<close>, \<open>File_System\<close> (what is used of \<^verbatim>\<open>std::fs\<close>, with links);
    \<^item> formats: \<open>Runtime_Manifest\<close>, \<open>Protocol\<close>, \<open>Handler_Log\<close>, \<open>Meta_Stats\<close>;
    \<^item> registry: \<open>Execution_Store\<close> (the tables, the migrations, each operation), \<open>Store_Invariants\<close> (what they guarantee);
    \<^item> one run: \<open>Input_Stream\<close>, \<open>Reader\<close>, \<open>Jsonl_Writer\<close> (with the locale \<open>outcome_sink\<close>, the promise of the writer that accumulator, workers and
      pipeline rest on), \<open>Accumulator\<close>, \<open>Worker\<close>, \<open>Worker_Loop\<close>, \<open>Pool_Streaming\<close>, \<open>Pipeline\<close> (the tasks together, as a step relation),
      \<open>Pipeline_Ledger\<close> (the abstract machine the pipeline refines), \<open>Run_Execute\<close> (one run from request to report), \<open>Build_Gate\<close>;
    \<^item> results: \<open>Row_Resolution\<close>, \<open>Export\<close>, \<open>Rerun\<close>;
    \<^item> command line: \<open>Cli_Exec\<close> (an attempt), \<open>Cli_Manage\<close> (deletions, builds), \<open>Cli_Pack\<close> (bundles), \<open>Cli_Main\<close> (the program from its arguments to its exit code);
      \<open>Store_Clients\<close> (the locale \<open>store_client\<close>: what every caller of the registry keeps when its operations do);
    \<^item> Studio: \<open>Aggregator\<close>, \<open>Session_Registry\<close>, \<open>Studio_Run\<close>, \<open>Failed_Rows\<close>, \<open>Manifest_Check\<close>, \<open>Handler_Mgmt\<close>, \<open>Studio_Core\<close>, \<open>Studio_Views\<close>, \<open>Smoke\<close>;
    \<^item> desktop shell: \<open>Desktop\<close> (settings, options, forwarding), \<open>Desktop_Commands\<close> (the commands of the window over the state they share).

  \<^bold>\<open>How code is rendered.\<close> A struct is a record, an enum a datatype, a function a function of the same name on the state it reads and
  writes; where a name clashes with one of HOL it has a suffix. A \<^verbatim>\<open>Result\<close> is a sum with the error on the left, a panic is \<open>None\<close>
  or the error of the task that panics. Counters are natural numbers where the code cannot reach their width, and are cut at
  it where it casts (\<open>Core_Error\<close>, the columns of SQLite, the limits of the settings). Strings are lists of bytes. Ordered
  maps are sorted association lists; hash maps are lists in an arbitrary but fixed order, and no result depends on it.

  \<^bold>\<open>What stands for the outside.\<close> Parsers and printers of JSON, YAML and CSV, SHA-256, the clock, the generator of identifiers, the search path and the
  child processes are arguments. A property that needs something of them states it (for instance that a line printed parses back)
  and its witness has a concrete instance. An operation that can fail for an outside reason polls a fuse (\<open>Prelude.poll\<close>):
  \<open>None\<close> never fails, \<open>Some n\<close> fails after \<open>n\<close> more polls, so a statement about all fuses covers every point of failure; the
  cancellation token is a fuse as well in the sequential models. No fuse bounds a recursion: loops over rows, lines, batches and bytes are
  structural. The one bound, 40 links followed, is the kernel's; the step relation of the pipeline needs none, its measure is the rows left.

  \<^bold>\<open>What is shown.\<close>
    \<^item> \<open>Pipeline\<close>, \<open>Pipeline_Ledger\<close>: in every interleaving no row is lost or duplicated before a cancellation, channels keep their bounds, some task can
      always act, every run ends within a bound linear in the rows, an undisturbed run records every row once, and all of this is a refinement of a ledger
      of rows pending, settled and given up. When the report says aborted, and two cases where it says completed although rows were not run.
    \<^item> The tasks alone: the batches respect their limits and keep every row; a batch reply gives one outcome per row, aligned; every batch pulled is
      recorded; the worker loop returns whatever the handler does; the file parses back to what was appended; a monitor that fires exactly on a stall.
    \<^item> \<open>Store_Invariants\<close>: the tables stay well formed, also when an operation fails half way; terminal attempts are final; values read back.
    \<^item> \<open>Row_Resolution\<close>, \<open>Export\<close>, \<open>Rerun\<close>, \<open>Failed_Rows\<close>: the state of a row is the absorbing-success fold of its outcomes, more attempts never undo a success, the rows to run
      again partition the input, the export has every row once, corrupt files are refused by name, the pages and histories of the Studio agree with this.
    \<^item> \<open>Run_Execute\<close>, \<open>Cli_Exec\<close>, \<open>Cli_Manage\<close>: an attempt never runs a resolved row again, the report and the exit codes are exact, and the ways an attempt stays running.
    \<^item> \<open>Cli_Main\<close>, \<open>Cli_Pack\<close>: any sequence of commands keeps the registries well formed and ended attempts as they are, every exit code is in range; packing touches
      nothing but its output as long as handlers have plain names.
    \<^item> the Studio: what a start, an end and a cancellation leave; the limits on live runs and the race around them; which attempts are orphans; what a deletion
      removes; that handler operations never touch anything outside of their own directory; what is shown of a run, of its log and how old a list may be;
      smoke tests; settings and the forwarding of logs and events; over any sequence of commands of the window the open registry stays well formed, the live
      runs keep their table and every attempt has one log subscription at most.

  \<^bold>\<open>Not modelled.\<close> The stderr drain of the pool, process groups and signals, timers (their callers are modelled at each tick) and the
  broadcast channels themselves (the receiver's view of one is, in \<open>Desktop\<close>); file permissions; what is printed on the standard error and by runs; the parsing
  of arguments (\<^verbatim>\<open>clap\<close>); in the desktop shell
  the window and its plugins, and the commands are atomic steps; the bytes of the \<^verbatim>\<open>zip\<close> archive that \<^verbatim>\<open>pack\<close> writes (its entries are). The TypeScript
  front end, the handler templates and SDKs, and the test handler are other programs.
\<close>

end
